(* ===== verification/Go_Prelude.thy ===== *)
theory Go_Prelude
  imports Main "HOL-Library.List_Lexorder" "HOL-Library.Char_ord" "HOL-Library.Multiset"
begin

text \<open>
  What the modelled packages share: instants and durations of Go's \<open>time\<close> package, the
  decimal, quoting and joining functions behind \<open>fmt\<close> and \<open>strings\<close>, sorting a slice by a
  \<open>less\<close> function, and the generic lemmas on lists the components use.

  A Go \<open>string\<close> is a \<open>string\<close> (a list of bytes) and Go's \<open><\<close> on strings is the
  lexicographic order on bytes that \<open>List_Lexorder\<close> and \<open>Char_ord\<close> give.
\<close>

named_theorems sort_facts \<open>what a sorted slice keeps of its input\<close>
named_theorems lookup_facts \<open>what a first-match scan returns\<close>

section \<open>Instants and durations\<close>

text \<open>
  An instant is a number of nanoseconds since Go's zero instant (1 January of year 1, UTC), so
  \<open>IsZero\<close> is equality with 0. \<open>After\<close>, \<open>Before\<close> and \<open>Equal\<close> are \<open>>\<close>, \<open><\<close> and
  \<open>=\<close>; \<open>Add\<close> is \<open>+\<close>. A duration is a signed 64-bit count of nanoseconds and
  \<open>Sub\<close> saturates at its bounds.
\<close>

type_synonym instant = int
type_synonym duration = int

definition IsZero :: "instant \<Rightarrow> bool" where
  "IsZero t \<longleftrightarrow> t = 0"

definition min_duration :: duration where "min_duration = - (2 ^ 63)"
definition max_duration :: duration where "max_duration = 2 ^ 63 - 1"

definition time_Sub :: "instant \<Rightarrow> instant \<Rightarrow> duration" where
  "time_Sub t u = max min_duration (min max_duration (t - u))"

lemma time_Sub_exact:
  "min_duration \<le> t - u \<Longrightarrow> t - u \<le> max_duration \<Longrightarrow> time_Sub t u = t - u"
  by (simp add: time_Sub_def)

lemma time_Sub_le_iff:
  "min_duration \<le> d \<Longrightarrow> d < max_duration \<Longrightarrow> time_Sub t u \<le> d \<longleftrightarrow> t - u \<le> d"
  by (auto simp: time_Sub_def)

text \<open>Go's integer division truncates towards zero; a zero divisor panics.\<close>

definition go_quot :: "int \<Rightarrow> int \<Rightarrow> int option" where
  "go_quot a b = (if b = 0 then None else Some (sgn a * sgn b * (\<bar>a\<bar> div \<bar>b\<bar>)))"

section \<open>Text\<close>

fun show_nat :: "nat \<Rightarrow> string" where
  "show_nat n =
     (if n < 10 then [char_of (48 + n)]
      else show_nat (n div 10) @ [char_of (48 + n mod 10)])"

declare show_nat.simps [simp del]

definition show_int :: "int \<Rightarrow> string" where
  "show_int i = (if i < 0 then CHR ''-'' # show_nat (nat (- i)) else show_nat (nat i))"

text \<open>\<open>strings.Join\<close>.\<close>

fun go_Join :: "string list \<Rightarrow> string \<Rightarrow> string" where
  "go_Join [] sep = []"
| "go_Join [x] sep = x"
| "go_Join (x # y # xs) sep = x @ sep @ go_Join (y # xs) sep"

text \<open>
  The verb \<open>%q\<close> (\<open>strconv.Quote\<close>): control bytes are escaped, a quote and a backslash get a
  backslash. A byte outside ASCII stands for itself, as in a printable UTF-8 string.
\<close>

definition hex_digit :: "nat \<Rightarrow> char" where
  "hex_digit n = (if n < 10 then char_of (48 + n) else char_of (87 + n))"

definition quote_char :: "char \<Rightarrow> string" where
  "quote_char c =
     (let n = of_char c :: nat; bs = CHR 0x5C in
      if n = 0x22 \<or> n = 0x5C then [bs, c]
      else if n = 7 then [bs, CHR ''a'']
      else if n = 8 then [bs, CHR ''b'']
      else if n = 9 then [bs, CHR ''t'']
      else if n = 10 then [bs, CHR ''n'']
      else if n = 11 then [bs, CHR ''v'']
      else if n = 12 then [bs, CHR ''f'']
      else if n = 13 then [bs, CHR ''r'']
      else if n < 32 \<or> n = 127 then [bs, CHR ''x'', hex_digit (n div 16), hex_digit (n mod 16)]
      else [c])"

definition go_quote :: "string \<Rightarrow> string" where
  "go_quote s = CHR 0x22 # concat (map quote_char s) @ [CHR 0x22]"

text \<open>\<open>Format(time.RFC3339)\<close> of an instant in UTC, from the day number of the proleptic
  Gregorian calendar.\<close>

definition pad :: "nat \<Rightarrow> int \<Rightarrow> string" where
  "pad w i = (let s = show_int i in replicate (w - length s) (CHR ''0'') @ s)"

fun month_of :: "int list \<Rightarrow> int \<Rightarrow> int \<Rightarrow> int \<times> int" where
  "month_of [] m d = (m, d)"
| "month_of (l # ls) m d = (if d < l then (m, d) else month_of ls (m + 1) (d - l))"

definition civil :: "int \<Rightarrow> int \<times> int \<times> int" where
  "civil d =
     (let n400 = d div 146097; d1 = d mod 146097;
          n100 = min 3 (d1 div 36524); d2 = d1 - n100 * 36524;
          n4 = d2 div 1461; d3 = d2 mod 1461;
          n1 = min 3 (d3 div 365); yday = d3 - n1 * 365;
          y = 400 * n400 + 100 * n100 + 4 * n4 + n1 + 1;
          leap = (y mod 4 = 0 \<and> (y mod 100 \<noteq> 0 \<or> y mod 400 = 0));
          md = month_of [31, if leap then 29 else 28, 31, 30, 31, 30, 31, 31, 30, 31, 30, 31] 1 yday
      in (y, fst md, snd md + 1))"

definition go_RFC3339 :: "instant \<Rightarrow> string" where
  "go_RFC3339 t =
     (let secs = t div 1000000000; sod = secs mod 86400 in
      case civil (secs div 86400) of (y, m, d) \<Rightarrow>
        pad 4 y @ ''-'' @ pad 2 m @ ''-'' @ pad 2 d @ ''T'' @
        pad 2 (sod div 3600) @ '':'' @ pad 2 (sod mod 3600 div 60) @ '':'' @
        pad 2 (sod mod 60) @ ''Z'')"

section \<open>Sorting a slice by a less function\<close>

text \<open>
  \<open>sort.SliceStable(xs, lt)\<close>, and \<open>sort.Slice\<close> where the order of equal elements does not
  matter. \<open>total_less.sorted_perm_unique\<close> is why it does not matter: with a total \<open>less\<close>
  every sorted permutation of the input is the same list.
\<close>

fun insert_by :: "('a \<Rightarrow> 'a \<Rightarrow> bool) \<Rightarrow> 'a \<Rightarrow> 'a list \<Rightarrow> 'a list" where
  "insert_by lt x [] = [x]"
| "insert_by lt x (y # ys) = (if lt y x then y # insert_by lt x ys else x # y # ys)"

definition sort_slice :: "('a \<Rightarrow> 'a \<Rightarrow> bool) \<Rightarrow> 'a list \<Rightarrow> 'a list" where
  "sort_slice lt xs = foldr (insert_by lt) xs []"

lemma sort_slice_simps [simp]:
  "sort_slice lt [] = []"
  "sort_slice lt (x # xs) = insert_by lt x (sort_slice lt xs)"
  by (simp_all add: sort_slice_def)

lemma mset_insert_by [simp]: "mset (insert_by lt x ys) = add_mset x (mset ys)"
  by (induction ys) auto

lemma mset_sort_slice [simp, sort_facts]: "mset (sort_slice lt xs) = mset xs"
  by (induction xs) auto

lemma set_insert_by [simp]: "set (insert_by lt x ys) = insert x (set ys)"
  by (induction ys) auto

lemma set_sort_slice [simp, sort_facts]: "set (sort_slice lt xs) = set xs"
  by (induction xs) auto

lemma length_sort_slice [simp, sort_facts]: "length (sort_slice lt xs) = length xs"
  by (metis mset_sort_slice size_mset)

lemma distinct_sort_slice [simp, sort_facts]: "distinct (sort_slice lt xs) \<longleftrightarrow> distinct xs"
  by (metis mset_sort_slice mset_eq_imp_distinct_iff)

lemma sort_slice_eq_Nil [simp]: "sort_slice lt xs = [] \<longleftrightarrow> xs = []"
  by (metis length_0_conv length_sort_slice)

locale weak_less =
  fixes lt :: "'a \<Rightarrow> 'a \<Rightarrow> bool"
  assumes irrefl: "\<not> lt x x"
    and trans: "lt x y \<Longrightarrow> lt y z \<Longrightarrow> lt x z"
    and incomp_trans: "\<not> lt x y \<Longrightarrow> \<not> lt y z \<Longrightarrow> \<not> lt x z"
begin

lemma asym: "lt x y \<Longrightarrow> \<not> lt y x"
  using irrefl trans by blast

lemma sorted_insert_by:
  "sorted_wrt (\<lambda>a b. \<not> lt b a) ys \<Longrightarrow> sorted_wrt (\<lambda>a b. \<not> lt b a) (insert_by lt x ys)"
proof (induction ys)
  case (Cons y ys)
  show ?case
  proof (cases "lt y x")
    case True
    with Cons asym [OF True] show ?thesis by auto
  next
    case False
    with Cons.prems have "\<not> lt z x" if "z \<in> set ys" for z
      using that incomp_trans [of z y x] by auto
    with False Cons.prems show ?thesis by auto
  qed
qed simp

lemma sorted_sort_slice: "sorted_wrt (\<lambda>a b. \<not> lt b a) (sort_slice lt xs)"
  by (induction xs) (auto intro: sorted_insert_by)

lemma sort_slice_id: "sorted_wrt (\<lambda>a b. \<not> lt b a) xs \<Longrightarrow> sort_slice lt xs = xs"
proof (induction xs)
  case (Cons x xs)
  then show ?case by (cases xs) auto
qed simp

end

locale total_less = weak_less +
  assumes total: "\<not> lt x y \<Longrightarrow> \<not> lt y x \<Longrightarrow> x = y"
begin

lemma sorted_perm_unique:
  "sorted_wrt (\<lambda>a b. \<not> lt b a) xs \<Longrightarrow> sorted_wrt (\<lambda>a b. \<not> lt b a) ys \<Longrightarrow>
     mset xs = mset ys \<Longrightarrow> xs = ys"
proof (induction xs arbitrary: ys)
  case (Cons x xs)
  then obtain y ys' where ys: "ys = y # ys'" by (cases ys) auto
  have "x \<in> set ys" and "y \<in> set (x # xs)"
    using Cons.prems(3) ys by (metis list.set_intros(1) set_mset_mset)+
  with Cons.prems(1,2) ys have "\<not> lt y x" and "\<not> lt x y"
    using irrefl by auto
  then have "x = y" by (rule total [rotated])
  with Cons ys show ?case by simp
qed simp

lemma sort_slice_perm: "mset xs = mset ys \<Longrightarrow> sort_slice lt xs = sort_slice lt ys"
  by (rule sorted_perm_unique) (simp_all add: sorted_sort_slice)

end

text \<open>A \<open>less\<close> that compares a key in a linear order is a weak order, and total when the key
  determines the element.\<close>

lemma weak_less_by_key:
  fixes key :: "'a \<Rightarrow> 'k::linorder"
  assumes "\<And>x y. lt x y \<longleftrightarrow> key x < key y"
  shows "weak_less lt"
  by unfold_locales (auto simp: assms)

lemma total_less_by_key:
  fixes key :: "'a \<Rightarrow> 'k::linorder"
  assumes "\<And>x y. lt x y \<longleftrightarrow> key x < key y" and "inj key"
  shows "total_less lt"
proof -
  have "weak_less lt" using assms(1) by (rule weak_less_by_key)
  then show ?thesis
    using assms by (auto simp: total_less_def total_less_axioms_def dest: injD)
qed

text \<open>Without repeated keys, sorting by key forgets the order of the input.\<close>

lemma sort_slice_distinct_keys:
  fixes key :: "'a \<Rightarrow> 'k::linorder"
  assumes lt: "\<And>x y. lt x y \<longleftrightarrow> key x < key y" and keys: "distinct (map key xs)" and m: "mset xs = mset ys"
  shows "sort_slice lt xs = sort_slice lt ys"
proof -
  have w: "weak_less lt" by (rule weak_less_by_key [OF lt])
  have "mset (map key xs) = mset (map key ys)" using m by simp
  with keys have keys': "distinct (map key ys)" by (metis mset_eq_imp_distinct_iff)
  have set_eq: "set xs = set ys" using m by (rule mset_eq_setD)
  have srt: "sorted (map key (sort_slice lt zs))" for zs
    using weak_less.sorted_sort_slice [OF w, of zs] by (simp add: sorted_wrt_map lt not_less)
  have dst: "distinct (map key (sort_slice lt zs))" if "distinct (map key zs)" for zs
    using that mset_eq_imp_distinct_iff [of "map key zs" "map key (sort_slice lt zs)"] by simp
  show ?thesis
    using srt dst keys keys' set_eq
    by (intro map_sorted_distinct_set_unique [where f = key]) (auto simp: distinct_map)
qed

text \<open>\<open>sort.Strings\<close> sorts by the order on strings.\<close>

definition string_less :: "string \<Rightarrow> string \<Rightarrow> bool" where
  "string_less x y \<longleftrightarrow> x < y"

interpretation string_order: total_less string_less
  by unfold_locales (auto simp: string_less_def)

definition sort_Strings :: "string list \<Rightarrow> string list" where
  "sort_Strings xs = sort_slice string_less xs"

lemma sort_Strings_facts [simp]:
  "set (sort_Strings xs) = set xs" "length (sort_Strings xs) = length xs"
  "sort_Strings xs = [] \<longleftrightarrow> xs = []" "mset (sort_Strings xs) = mset xs"
  by (simp_all add: sort_Strings_def)

section \<open>First-match scans\<close>

text \<open>\<open>for _, x := range xs { if p(x) { return x, true } }; return zero, false\<close> is
  \<open>List.find\<close>.\<close>

lemma find_SomeD [lookup_facts]: "List.find p xs = Some x \<Longrightarrow> x \<in> set xs \<and> p x"
  by (induction xs) (auto split: if_splits)

lemma find_ex_iff [lookup_facts]: "(\<exists>x. List.find p xs = Some x) \<longleftrightarrow> (\<exists>x \<in> set xs. p x)"
  by (induction xs) auto

lemma find_unique [lookup_facts]:
  assumes "distinct (map key xs)" and "x \<in> set xs"
  shows "List.find (\<lambda>y. key y = key x) xs = Some x"
  using assms by (induction xs) (auto simp: rev_image_eqI)

lemma find_only [lookup_facts]:
  assumes "y \<in> set xs" and "P y" and "\<And>x. x \<in> set xs \<Longrightarrow> P x \<Longrightarrow> x = y"
  shows "List.find P xs = Some y"
  using assms
proof (induction xs)
  case (Cons x xs)
  show ?case
  proof (cases "P x")
    case True
    then show ?thesis using Cons.prems(3) [of x] by simp
  next
    case False
    then have "y \<in> set xs" using Cons.prems(1,2) by auto
    then have "List.find P xs = Some y"
      by (rule Cons.IH) (rule Cons.prems(2), rule Cons.prems(3), simp_all)
    with False show ?thesis by simp
  qed
qed simp

text \<open>An error text added under a condition.\<close>

lemma if_singleton_Nil [simp]: "(if b then [x] else []) = [] \<longleftrightarrow> \<not> b"
  by simp



section \<open>Decimal numbers\<close>

text \<open>The decimal text of a number determines it, and consists of digits.\<close>

definition decimal_value :: "string \<Rightarrow> nat" where
  "decimal_value s = foldl (\<lambda>a c. 10 * a + (of_char c - 48)) 0 s"

lemma decimal_value_show_nat: "decimal_value (show_nat n) = n"
proof (induction n rule: show_nat.induct)
  case (1 n)
  show ?case
  proof (cases "n < 10")
    case True
    then show ?thesis by (subst show_nat.simps) (simp add: decimal_value_def)
  next
    case False
    have "decimal_value (show_nat n) = 10 * decimal_value (show_nat (n div 10)) + n mod 10"
      using False by (subst show_nat.simps) (simp add: decimal_value_def)
    with 1 [OF False] show ?thesis by simp
  qed
qed

lemma show_nat_digits: "c \<in> set (show_nat n) \<Longrightarrow> 48 \<le> (of_char c :: nat) \<and> (of_char c :: nat) \<le> 57"
proof (induction n rule: show_nat.induct)
  case (1 n)
  show ?case
  proof (cases "n < 10")
    case True
    with 1(2) show ?thesis by (subst (asm) show_nat.simps) auto
  next
    case False
    have "n mod 10 < 10" by simp
    then have "(48 + n mod 10) mod 256 = 48 + n mod 10" by simp
    with False 1 show ?thesis by (subst (asm) (2) show_nat.simps) auto
  qed
qed

lemma show_int_inj: "show_int i = show_int j \<Longrightarrow> i = j"
proof -
  have minus: "CHR ''-'' \<notin> set (show_nat n)" for n using show_nat_digits [of "CHR ''-''" n] by auto
  have inj: "show_nat m = show_nat n \<Longrightarrow> m = n" for m n using decimal_value_show_nat by metis
  assume eq: "show_int i = show_int j"
  show ?thesis
  proof (cases "i < 0 \<longleftrightarrow> j < 0")
    case True
    with eq show ?thesis by (auto simp: show_int_def dest!: inj split: if_splits)
  next
    case False
    have "CHR ''-'' \<in> set (show_int k) \<longleftrightarrow> k < 0" for k using minus by (simp add: show_int_def)
    with eq False show ?thesis by metis
  qed
qed

lemma slash_show_int: "CHR ''/'' \<notin> set (show_int i)"
  using show_nat_digits [of "CHR ''/''"] by (auto simp: show_int_def)

lemma split_last_unique:
  assumes "xs @ c # ys = xs' @ c # ys'" and "c \<notin> set ys" and "c \<notin> set ys'"
  shows "xs = xs' \<and> ys = ys'"
proof -
  have tw: "takeWhile (\<lambda>x. x \<noteq> c) (rev (as @ c # bs)) = rev bs" if "c \<notin> set bs" for as bs
    using that takeWhile_append2 [of "rev bs" "\<lambda>x. x \<noteq> c" "c # rev as"] by (simp, metis)
  have "rev ys = rev ys'" using tw [OF assms(2), of xs] tw [OF assms(3), of xs'] assms(1) by simp
  then have "ys = ys'" by simp
  with assms(1) show ?thesis by simp
qed

end
