(* ===== verification/Ops_Identity.thy ===== *)
theory Ops_Identity
  imports Go_Prelude
begin

text \<open>
  The identities of package \<open>operations\<close> (\<open>identity.go\<close>) and the inputs of one evaluation
  that do not mention a contract's body (\<open>target.go\<close>): targets, bindings and the key an
  observation was produced for. Struct equality of Go is equality of records.
\<close>

record ContractIdentity =
  ci_Namespace :: string
  ci_Name :: string
  ci_UID :: string
  ci_SpecDigest :: string

definition ContractIdentity_complete :: "ContractIdentity \<Rightarrow> bool" where
  "ContractIdentity_complete c \<longleftrightarrow>
     ci_Namespace c \<noteq> '''' \<and> ci_Name c \<noteq> '''' \<and> ci_UID c \<noteq> '''' \<and> ci_SpecDigest c \<noteq> ''''"

definition ContractIdentity_String :: "ContractIdentity \<Rightarrow> string" where
  "ContractIdentity_String c =
     ci_Namespace c @ ''/'' @ ci_Name c @ ''@'' @ ci_UID c @ '':'' @ ci_SpecDigest c"

record TargetIdentity =
  ti_Namespace :: string
  ti_Name :: string
  ti_UID :: string

definition TargetIdentity_String :: "TargetIdentity \<Rightarrow> string" where
  "TargetIdentity_String t = ti_Namespace t @ ''/'' @ ti_Name t @ ''@'' @ ti_UID t"

record CapabilityType =
  ct_Domain :: string
  ct_Name :: string
  ct_Revision :: string

definition CapabilityType_complete :: "CapabilityType \<Rightarrow> bool" where
  "CapabilityType_complete c \<longleftrightarrow> ct_Domain c \<noteq> '''' \<and> ct_Name c \<noteq> '''' \<and> ct_Revision c \<noteq> ''''"

definition CapabilityType_String :: "CapabilityType \<Rightarrow> string" where
  "CapabilityType_String c = ct_Domain c @ ''/'' @ ct_Name c @ ''@'' @ ct_Revision c"

definition CapabilityType_less :: "CapabilityType \<Rightarrow> CapabilityType \<Rightarrow> bool" where
  "CapabilityType_less c d =
     (if ct_Domain c \<noteq> ct_Domain d then ct_Domain c < ct_Domain d
      else if ct_Name c \<noteq> ct_Name d then ct_Name c < ct_Name d
      else ct_Revision c < ct_Revision d)"

interpretation capability_type_order: total_less CapabilityType_less
  by unfold_locales (auto simp: CapabilityType_less_def split: if_splits)

record ProviderIdentity =
  pi_Name :: string
  pi_ConfigRevision :: string

definition ProviderIdentity_zero :: ProviderIdentity where
  "ProviderIdentity_zero = \<lparr>pi_Name = '''', pi_ConfigRevision = ''''\<rparr>"

definition ProviderIdentity_String :: "ProviderIdentity \<Rightarrow> string" where
  "ProviderIdentity_String p = pi_Name p @ ''@'' @ pi_ConfigRevision p"

record ApplicabilityKey =
  ak_Target :: TargetIdentity
  ak_ResolvedUID :: string
  ak_Contract :: ContractIdentity
  ak_Slot :: string
  ak_Provider :: ProviderIdentity

section \<open>Targets and their bindings\<close>

record AssertionBinding =
  ab_Slot :: string
  ab_Provider :: ProviderIdentity

record DependencyBinding =
  db_Slot :: string
  db_TargetUID :: string
  db_Contract :: ContractIdentity

record Target =
  t_Identity :: TargetIdentity
  t_ResolvedUID :: string
  t_ContractRef :: ContractIdentity
  t_AssertionBindings :: "AssertionBinding list"
  t_DependencyBindings :: "DependencyBinding list"
  t_EnvelopeSelection :: string

end
