(* ===== verification/Ops_Contract.thy ===== *)
theory Ops_Contract
  imports Ops_Identity
begin

text \<open>
  Typed values and predicates (\<open>predicate.go\<close>) and the operational contract with its structural
  validation (\<open>contract.go\<close>). A Go string enumeration is a datatype with one constructor per
  declared constant and, where any other string can reach the code, a constructor for it.
\<close>

section \<open>Values\<close>

datatype ValueType = TypeBoolean | TypeInteger | TypeString | TypeOther string

fun ValueType_str :: "ValueType \<Rightarrow> string" where
  "ValueType_str TypeBoolean = ''Boolean''"
| "ValueType_str TypeInteger = ''Integer''"
| "ValueType_str TypeString = ''String''"
| "ValueType_str (TypeOther s) = s"

record Value =
  v_Type :: ValueType
  v_Bool :: bool
  v_Int :: int
  v_Str :: string

definition Value_zero :: Value where
  "Value_zero = \<lparr>v_Type = TypeOther '''', v_Bool = False, v_Int = 0, v_Str = ''''\<rparr>"

definition Value_Bool :: "bool \<Rightarrow> Value" where
  "Value_Bool b = Value_zero\<lparr>v_Type := TypeBoolean, v_Bool := b\<rparr>"

definition Value_Int :: "int \<Rightarrow> Value" where
  "Value_Int i = Value_zero\<lparr>v_Type := TypeInteger, v_Int := i\<rparr>"

definition Value_Str :: "string \<Rightarrow> Value" where
  "Value_Str s = Value_zero\<lparr>v_Type := TypeString, v_Str := s\<rparr>"

definition canonical :: "Value \<Rightarrow> bool" where
  "canonical v = (case v_Type v of
       TypeBoolean \<Rightarrow> v_Int v = 0 \<and> v_Str v = ''''
     | TypeInteger \<Rightarrow> \<not> v_Bool v \<and> v_Str v = ''''
     | TypeString \<Rightarrow> \<not> v_Bool v \<and> v_Int v = 0
     | TypeOther _ \<Rightarrow> False)"

definition Value_equal :: "Value \<Rightarrow> Value \<Rightarrow> bool" where
  "Value_equal v w =
     (if v_Type v \<noteq> v_Type w then False
      else case v_Type v of
        TypeBoolean \<Rightarrow> v_Bool v = v_Bool w
      | TypeInteger \<Rightarrow> v_Int v = v_Int w
      | TypeString \<Rightarrow> v_Str v = v_Str w
      | TypeOther _ \<Rightarrow> False)"

definition Value_String :: "Value \<Rightarrow> string" where
  "Value_String v = (case v_Type v of
       TypeBoolean \<Rightarrow> (if v_Bool v then ''true'' else ''false'')
     | TypeInteger \<Rightarrow> show_int (v_Int v)
     | TypeString \<Rightarrow> go_quote (v_Str v)
     | TypeOther _ \<Rightarrow> ''<invalid>'')"

text \<open>On canonical values typed equality is equality of the whole struct.\<close>

lemma Value_equal_canonical:
  "canonical v \<Longrightarrow> canonical w \<Longrightarrow> Value_equal v w \<longleftrightarrow> v = w"
  by (cases v; cases w) (auto simp: canonical_def Value_equal_def split: ValueType.splits if_splits)

lemma Value_constructors_canonical [simp]:
  "canonical (Value_Bool b)" "canonical (Value_Int i)" "canonical (Value_Str s)"
  by (simp_all add: canonical_def Value_Bool_def Value_Int_def Value_Str_def Value_zero_def)

section \<open>Contract data\<close>

record AssertionSlot =
  as_Name :: string
  as_Type :: ValueType
  as_Enum :: "string list"
  as_MaxAge :: duration

definition AssertionSlot_zero :: AssertionSlot where
  "AssertionSlot_zero = \<lparr>as_Name = '''', as_Type = TypeOther '''', as_Enum = [], as_MaxAge = 0\<rparr>"

definition admits :: "AssertionSlot \<Rightarrow> Value \<Rightarrow> bool" where
  "admits s v =
     (if v_Type v \<noteq> as_Type s \<or> \<not> canonical v then False
      else if as_Type s \<noteq> TypeString \<or> as_Enum s = [] then True
      else v_Str v \<in> set (as_Enum s))"

lemma admits_canonical: "admits s v \<Longrightarrow> canonical v"
  by (auto simp: admits_def split: if_splits)

datatype Operator = OpIsTrue | OpIsFalse | OpEq | OpNotEq | OpGte | OpLte | OpOther string

fun Operator_str :: "Operator \<Rightarrow> string" where
  "Operator_str OpIsTrue = ''IsTrue''"
| "Operator_str OpIsFalse = ''IsFalse''"
| "Operator_str OpEq = ''Eq''"
| "Operator_str OpNotEq = ''NotEq''"
| "Operator_str OpGte = ''Gte''"
| "Operator_str OpLte = ''Lte''"
| "Operator_str (OpOther s) = s"

record Predicate =
  p_Assertion :: string
  p_Op :: Operator
  p_Operand :: Value

definition Predicate_String :: "Predicate \<Rightarrow> string" where
  "Predicate_String p =
     (if p_Op p = OpIsTrue \<or> p_Op p = OpIsFalse then p_Assertion p @ '' '' @ Operator_str (p_Op p)
      else p_Assertion p @ '' '' @ Operator_str (p_Op p) @ '' '' @ Value_String (p_Operand p))"

record DependencyRequirement =
  dr_Slot :: string
  dr_Capability :: CapabilityType

datatype Impact = ImpactDegraded | ImpactUnavailable | ImpactOther string

fun Impact_str :: "Impact \<Rightarrow> string" where
  "Impact_str ImpactDegraded = ''DEGRADED''"
| "Impact_str ImpactUnavailable = ''UNAVAILABLE''"
| "Impact_str (ImpactOther s) = s"

record Requirement =
  r_Predicate :: "Predicate option"
  r_Dependency :: "DependencyRequirement option"
  r_LocalCapability :: string
  r_Envelope :: string
  r_OnUnmet :: Impact

record Capability =
  cp_Type :: CapabilityType
  cp_Requirements :: "Requirement list"

definition Capability_zero :: Capability where
  "Capability_zero =
     \<lparr>cp_Type = \<lparr>ct_Domain = '''', ct_Name = '''', ct_Revision = ''''\<rparr>, cp_Requirements = []\<rparr>"

datatype EnvelopeClass = EnvelopeMinimum | EnvelopeRecommended | EnvelopeClassOther string

fun EnvelopeClass_str :: "EnvelopeClass \<Rightarrow> string" where
  "EnvelopeClass_str EnvelopeMinimum = ''Minimum''"
| "EnvelopeClass_str EnvelopeRecommended = ''Recommended''"
| "EnvelopeClass_str (EnvelopeClassOther s) = s"

record Envelope =
  env_Name :: string
  env_Class :: EnvelopeClass
  env_Requirements :: "Predicate list"

definition Envelope_zero :: Envelope where
  "Envelope_zero = \<lparr>env_Name = '''', env_Class = EnvelopeClassOther '''', env_Requirements = []\<rparr>"

record DependencySlot =
  ds_Name :: string

record Contract =
  c_Identity :: ContractIdentity
  c_Assertions :: "AssertionSlot list"
  c_DependencySlots :: "DependencySlot list"
  c_Capabilities :: "Capability list"
  c_Envelopes :: "Envelope list"

definition capability_of :: "Contract \<Rightarrow> string \<Rightarrow> Capability option" where
  "capability_of c name = List.find (\<lambda>cp. ct_Name (cp_Type cp) = name) (c_Capabilities c)"

definition capabilityByType :: "Contract \<Rightarrow> CapabilityType \<Rightarrow> Capability option" where
  "capabilityByType c t = List.find (\<lambda>cp. cp_Type cp = t) (c_Capabilities c)"

definition slot_of :: "Contract \<Rightarrow> string \<Rightarrow> AssertionSlot option" where
  "slot_of c name = List.find (\<lambda>s. as_Name s = name) (c_Assertions c)"

definition envelope_of :: "Contract \<Rightarrow> string \<Rightarrow> Envelope option" where
  "envelope_of c name = List.find (\<lambda>e. env_Name e = name) (c_Envelopes c)"

section \<open>Predicates\<close>

text \<open>\<open>Predicate.validate\<close> returns an error text or nothing.\<close>

definition Predicate_validate :: "(string \<rightharpoonup> AssertionSlot) \<Rightarrow> Predicate \<Rightarrow> string option" where
  "Predicate_validate slots p = (case slots (p_Assertion p) of
       None \<Rightarrow> Some (''predicate references undeclared assertion '' @ go_quote (p_Assertion p))
     | Some slot \<Rightarrow>
         (case p_Op p of
            OpOther s \<Rightarrow> Some (''unknown operator '' @ go_quote s @ '' on '' @ go_quote (p_Assertion p))
          | op \<Rightarrow>
              if op = OpIsTrue \<or> op = OpIsFalse then
                (if as_Type slot \<noteq> TypeBoolean then
                   Some (Operator_str op @ '' on '' @ ValueType_str (as_Type slot) @ '' assertion '' @
                         go_quote (p_Assertion p))
                 else if p_Operand p \<noteq> Value_zero then
                   Some (Operator_str op @ '' on '' @ go_quote (p_Assertion p) @ '' takes no operand'')
                 else None)
              else if op = OpEq \<or> op = OpNotEq then
                (if v_Type (p_Operand p) \<noteq> as_Type slot then
                   Some (Operator_str op @ '' operand type '' @
                         go_quote (ValueType_str (v_Type (p_Operand p))) @ '' does not match '' @
                         ValueType_str (as_Type slot) @ '' assertion '' @ go_quote (p_Assertion p))
                 else if \<not> admits slot (p_Operand p) then
                   Some (Operator_str op @ '' operand '' @ Value_String (p_Operand p) @
                         '' is non-canonical or not a declared enum value of '' @
                         go_quote (p_Assertion p))
                 else None)
              else
                (if as_Type slot \<noteq> TypeInteger then
                   Some (Operator_str op @ '' on '' @ ValueType_str (as_Type slot) @ '' assertion '' @
                         go_quote (p_Assertion p))
                 else if v_Type (p_Operand p) \<noteq> TypeInteger \<or> \<not> canonical (p_Operand p) then
                   Some (Operator_str op @ '' operand '' @ Value_String (p_Operand p) @
                         '' is not a canonical Integer for assertion '' @ go_quote (p_Assertion p))
                 else None)))"

definition Predicate_eval :: "Predicate \<Rightarrow> Value \<Rightarrow> bool" where
  "Predicate_eval p v = (case p_Op p of
       OpIsTrue \<Rightarrow> v_Bool v
     | OpIsFalse \<Rightarrow> \<not> v_Bool v
     | OpEq \<Rightarrow> Value_equal v (p_Operand p)
     | OpNotEq \<Rightarrow> \<not> Value_equal v (p_Operand p)
     | OpGte \<Rightarrow> v_Int v \<ge> v_Int (p_Operand p)
     | OpLte \<Rightarrow> v_Int v \<le> v_Int (p_Operand p)
     | OpOther _ \<Rightarrow> False)"

end
