(* ===== verification/Ops_LocalCycle.thy ===== *)
theory Ops_LocalCycle
  imports Ops_Contract
begin

text \<open>
  The search for a local-capability cycle of a contract (\<open>Contract.localCycle\<close> of
  \<open>contract.go\<close>): it ends, the cycle it reports is a cycle of the contract's local references,
  and it reports none exactly when those references are acyclic.
\<close>

section \<open>Local capability cycles\<close>

text \<open>
  \<open>Contract.localCycle\<close> is a depth-first search over the capabilities' local references with
  three marks. \<open>visit\<close> and the loop over one capability's requirements share the mark map and the
  stack of names (bottom first, as the Go slice has it). The empty list is Go's \<open>nil\<close>.
\<close>

datatype mark = Unvisited | OnStack | Done

record cycleState =
  cs_state :: "string \<Rightarrow> mark"
  cs_stack :: "string list"

definition cap_reqs :: "Contract \<Rightarrow> string \<Rightarrow> Requirement list" where
  "cap_reqs c n =
     cp_Requirements (case capability_of c n of Some cp \<Rightarrow> cp | None \<Rightarrow> Capability_zero)"

definition push_node :: "string \<Rightarrow> cycleState \<Rightarrow> cycleState" where
  "push_node n st = st\<lparr>cs_state := (cs_state st)(n := OnStack), cs_stack := cs_stack st @ [n]\<rparr>"

definition pop_node :: "string \<Rightarrow> cycleState \<Rightarrow> cycleState" where
  "pop_node n st =
     st\<lparr>cs_stack := butlast (cs_stack st), cs_state := (cs_state st)(n := Done)\<rparr>"

function visit :: "Contract \<Rightarrow> string \<Rightarrow> cycleState \<Rightarrow> string list \<times> cycleState"
  and visitReqs :: "Contract \<Rightarrow> Requirement list \<Rightarrow> cycleState \<Rightarrow> string list \<times> cycleState" where
  "visit c n st =
     (case visitReqs c (cap_reqs c n) (push_node n st) of
        (cyc, st') \<Rightarrow> if cyc \<noteq> [] then (cyc, st') else ([], pop_node n st'))"
| "visitReqs c [] st = ([], st)"
| "visitReqs c (r # rs) st =
     (let m = r_LocalCapability r in
      if m = '''' then visitReqs c rs st
      else if capability_of c m = None then visitReqs c rs st
      else case cs_state st m of
        OnStack \<Rightarrow>
          (if m \<in> set (cs_stack st) then (dropWhile (\<lambda>s. s \<noteq> m) (cs_stack st), st)
           else visitReqs c rs st)
      | Unvisited \<Rightarrow>
          (case visit c m st of
             (cyc, st') \<Rightarrow> if cyc \<noteq> [] then (cyc, st') else visitReqs c rs st')
      | Done \<Rightarrow> visitReqs c rs st)"
  by pat_completeness auto

text \<open>The search ends: a name leaves the unvisited capability names when it is visited, and no
  call puts one back.\<close>

definition fresh_names :: "Contract \<Rightarrow> cycleState \<Rightarrow> string set" where
  "fresh_names c st = {m. capability_of c m \<noteq> None \<and> cs_state st m = Unvisited}"

lemma capability_of_None_iff:
  "capability_of c m = None \<longleftrightarrow> m \<notin> (\<lambda>cp. ct_Name (cp_Type cp)) ` set (c_Capabilities c)"
  by (auto simp: capability_of_def find_None_iff)

lemma finite_fresh_names [simp]: "finite (fresh_names c st)"
  by (rule finite_subset [of _ "(\<lambda>cp. ct_Name (cp_Type cp)) ` set (c_Capabilities c)"])
     (auto simp: fresh_names_def capability_of_None_iff)

lemma fresh_push_pop [simp]:
  "fresh_names c (push_node n st) = fresh_names c st - {n}"
  "fresh_names c (pop_node n st) = fresh_names c st - {n}"
  by (auto simp: fresh_names_def push_node_def pop_node_def)

lemma visit_fresh_mono:
  "visit_visitReqs_dom (Inl (c, n, st)) \<Longrightarrow> fresh_names c (snd (visit c n st)) \<subseteq> fresh_names c st"
  "visit_visitReqs_dom (Inr (c, rs, st)) \<Longrightarrow>
     fresh_names c (snd (visitReqs c rs st)) \<subseteq> fresh_names c st"
proof (induction c n st and c rs st rule: visit_visitReqs.pinduct)
  case (1 c n st)
  then show ?case by (auto simp: visit.psimps split: prod.splits)
next
  case (2 c st)
  then show ?case by (simp add: visitReqs.psimps)
next
  case (3 c r rs st)
  then show ?case
    by (fastforce simp: visitReqs.psimps Let_def split: prod.splits mark.splits if_splits)
qed

termination visit
proof (relation "measures [
    \<lambda>x. case x of Inl (c, n, st) \<Rightarrow> card (fresh_names c (push_node n st))
               | Inr (c, rs, st) \<Rightarrow> card (fresh_names c st),
    \<lambda>x. case x of Inl (c, n, st) \<Rightarrow> Suc (length (cap_reqs c n))
               | Inr (c, rs, st) \<Rightarrow> length rs]", goal_cases)
  case (5 c r rs st m)
  then have "m \<in> fresh_names c st" by (auto simp: fresh_names_def)
  then have "card (fresh_names c st - {m}) < card (fresh_names c st)"
    by (intro card_Diff1_less) simp_all
  then show ?case by simp
next
  case (6 c r rs st m x y)
  then have "card (fresh_names c y) \<le> card (fresh_names c st)"
    using visit_fresh_mono(1) [of c m st] by (auto intro!: card_mono simp: prod_eq_iff)
  then show ?case by auto
qed auto

declare visit.simps [simp del] visitReqs.simps [simp del]

text \<open>The outer loop over the declared capabilities.\<close>

fun localCycle_from :: "Contract \<Rightarrow> Capability list \<Rightarrow> cycleState \<Rightarrow> string list" where
  "localCycle_from c [] st = []"
| "localCycle_from c (cp # cps) st =
     (if cs_state st (ct_Name (cp_Type cp)) = Unvisited
      then (case visit c (ct_Name (cp_Type cp)) st of
              (cyc, st') \<Rightarrow> if cyc \<noteq> [] then cyc else localCycle_from c cps st')
      else localCycle_from c cps st)"

definition localCycle :: "Contract \<Rightarrow> string list" where
  "localCycle c =
     localCycle_from c (c_Capabilities c) \<lparr>cs_state = (\<lambda>_. Unvisited), cs_stack = []\<rparr>"

section \<open>Correctness of the search\<close>

text \<open>The graph of local references between declared capabilities.\<close>

definition local_refs :: "Contract \<Rightarrow> Requirement list \<Rightarrow> string set" where
  "local_refs c rs =
     {m. m \<noteq> '''' \<and> capability_of c m \<noteq> None \<and> m \<in> r_LocalCapability ` set rs}"

definition local_graph :: "Contract \<Rightarrow> (string \<times> string) set" where
  "local_graph c = {(n, m). m \<in> local_refs c (cap_reqs c n)}"

text \<open>\<open>is_path r ns\<close>: consecutive names are related; a cycle is a path whose last name is related
  to its first.\<close>

fun is_path :: "('a \<times> 'a) set \<Rightarrow> 'a list \<Rightarrow> bool" where
  "is_path r [] = True"
| "is_path r [x] = True"
| "is_path r (x # y # xs) = ((x, y) \<in> r \<and> is_path r (y # xs))"

definition is_cycle :: "('a \<times> 'a) set \<Rightarrow> 'a list \<Rightarrow> bool" where
  "is_cycle r ns \<longleftrightarrow> ns \<noteq> [] \<and> is_path r ns \<and> (last ns, hd ns) \<in> r"

lemma is_path_snoc: "is_path r (xs @ [y]) \<longleftrightarrow> is_path r xs \<and> (xs = [] \<or> (last xs, y) \<in> r)"
  by (induction r xs rule: is_path.induct) auto

lemma is_path_dropWhile: "is_path r xs \<Longrightarrow> is_path r (dropWhile P xs)"
  by (induction r xs rule: is_path.induct) auto

lemma is_path_reach: "is_path r (x # xs) \<Longrightarrow> (x, last (x # xs)) \<in> r\<^sup>*"
  by (induction r "x # xs" arbitrary: x xs rule: is_path.induct)
     (auto intro: converse_rtrancl_into_rtrancl)

lemma is_cycle_trancl: "is_cycle r ns \<Longrightarrow> (hd ns, hd ns) \<in> r\<^sup>+"
  by (cases ns) (auto simp: is_cycle_def dest: is_path_reach intro: rtrancl_into_trancl1)

text \<open>
  What holds between steps: the stack is a path without repetition and holds exactly the names
  marked \<open>OnStack\<close>; the names marked \<open>Done\<close> are closed under references and on no cycle.
\<close>

definition done_names :: "cycleState \<Rightarrow> string set" where
  "done_names st = {n. cs_state st n = Done}"

definition dfs_inv :: "Contract \<Rightarrow> cycleState \<Rightarrow> bool" where
  "dfs_inv c st \<longleftrightarrow>
     is_path (local_graph c) (cs_stack st) \<and> distinct (cs_stack st) \<and>
     set (cs_stack st) = {n. cs_state st n = OnStack} \<and>
     local_graph c `` done_names st \<subseteq> done_names st \<and>
     (\<forall>n \<in> done_names st. (n, n) \<notin> (local_graph c)\<^sup>+)"

lemma closed_trancl: "(x, y) \<in> r\<^sup>+ \<Longrightarrow> r `` A \<subseteq> A \<Longrightarrow> x \<in> A \<Longrightarrow> y \<in> A"
  by (induction rule: trancl_induct) auto

lemma dfs_inv_push:
  assumes "dfs_inv c st" and "cs_state st n = Unvisited"
    and "cs_stack st = [] \<or> (last (cs_stack st), n) \<in> local_graph c"
  shows "dfs_inv c (push_node n st)"
proof -
  have "done_names (push_node n st) = done_names st"
    using assms(2) by (auto simp: done_names_def push_node_def)
  with assms show ?thesis
    by (auto simp: dfs_inv_def push_node_def is_path_snoc)
qed

lemma dfs_inv_pop:
  assumes inv: "dfs_inv c st" and st: "cs_stack st = ns @ [n]"
    and succ: "local_graph c `` {n} \<subseteq> done_names st"
  shows "dfs_inv c (pop_node n st)" and "done_names (pop_node n st) = insert n (done_names st)"
proof -
  show dn: "done_names (pop_node n st) = insert n (done_names st)"
    by (auto simp: done_names_def pop_node_def)
  have "cs_state st n = OnStack"
    using inv st by (fastforce simp: dfs_inv_def)
  then have n: "n \<notin> done_names st" and ns: "n \<notin> set ns"
    using inv st by (auto simp: dfs_inv_def done_names_def)
  have closed: "local_graph c `` done_names st \<subseteq> done_names st"
    using inv by (simp add: dfs_inv_def)
  have "(n, n) \<notin> (local_graph c)\<^sup>+"
  proof
    assume "(n, n) \<in> (local_graph c)\<^sup>+"
    then obtain m where m: "(n, m) \<in> local_graph c" "(m, n) \<in> (local_graph c)\<^sup>*"
      by (meson tranclD)
    then have "m \<in> done_names st" using succ by auto
    with m(2) n closed show False
      by (metis closed_trancl rtranclD)
  qed
  then show "dfs_inv c (pop_node n st)"
    using inv st succ closed ns unfolding dfs_inv_def dn
    by (auto simp: pop_node_def is_path_snoc)
qed

text \<open>
  One lemma for both functions: either a real cycle is returned, or the stack is as before, no
  name leaves \<open>Done\<close>, and the visited names are \<open>Done\<close>.
\<close>

definition search_post :: "Contract \<Rightarrow> string set \<Rightarrow> cycleState \<Rightarrow> string list \<times> cycleState \<Rightarrow> bool" where
  "search_post c ns st res \<longleftrightarrow>
     (if fst res \<noteq> [] then is_cycle (local_graph c) (fst res)
      else dfs_inv c (snd res) \<and> cs_stack (snd res) = cs_stack st \<and>
           done_names st \<subseteq> done_names (snd res) \<and> ns \<subseteq> done_names (snd res))"

lemma search_post_extend:
  assumes "search_post c ns st' res" and "cs_stack st' = cs_stack st"
    and "done_names st \<subseteq> done_names st'" and "m \<in> done_names st'"
  shows "search_post c (insert m ns) st res"
  using assms by (fastforce simp: search_post_def split: if_splits)

lemma visit_search:
  "dfs_inv c st \<Longrightarrow> cs_state st n = Unvisited \<Longrightarrow>
     cs_stack st = [] \<or> (last (cs_stack st), n) \<in> local_graph c \<Longrightarrow>
     search_post c {n} st (visit c n st)"
  "dfs_inv c st \<Longrightarrow> cs_stack st \<noteq> [] \<Longrightarrow>
     local_refs c rs \<subseteq> local_graph c `` {last (cs_stack st)} \<Longrightarrow>
     search_post c (local_refs c rs) st (visitReqs c rs st)"
proof (induction c n st and c rs st rule: visit_visitReqs.induct)
  case (1 c n st)
  have inv: "dfs_inv c (push_node n st)" using "1.prems" by (rule dfs_inv_push)
  have refs: "local_graph c `` {n} = local_refs c (cap_reqs c n)"
    by (auto simp: local_graph_def)
  have post: "search_post c (local_refs c (cap_reqs c n)) (push_node n st)
      (visitReqs c (cap_reqs c n) (push_node n st))"
    by (rule "1.IH") (use inv refs in \<open>auto simp: push_node_def\<close>)
  obtain cyc st' where res: "visitReqs c (cap_reqs c n) (push_node n st) = (cyc, st')"
    by fastforce
  show ?case
  proof (cases "cyc = []")
    case True
    with post res have st': "dfs_inv c st'" "cs_stack st' = cs_stack st @ [n]"
        "done_names (push_node n st) \<subseteq> done_names st'" "local_graph c `` {n} \<subseteq> done_names st'"
      by (auto simp: search_post_def push_node_def refs)
    have "done_names st \<subseteq> done_names (push_node n st)"
      using "1.prems"(2) by (auto simp: done_names_def push_node_def)
    with dfs_inv_pop [OF st'(1,2,4)] st'(2,3) res True show ?thesis
      by (auto simp: search_post_def visit.simps pop_node_def)
  next
    case False
    with post res show ?thesis by (simp add: search_post_def visit.simps)
  qed
next
  case (2 c st)
  then show ?case by (simp add: search_post_def visitReqs.simps local_refs_def)
next
  case (3 c r rs st)
  let ?m = "r_LocalCapability r"
  show ?case
  proof (cases "?m = '''' \<or> capability_of c ?m = None")
    case True
    then have "local_refs c (r # rs) = local_refs c rs" by (auto simp: local_refs_def)
    with 3 True show ?thesis by (auto simp: visitReqs.simps Let_def)
  next
    case False
    then have refs: "local_refs c (r # rs) = insert ?m (local_refs c rs)"
      by (auto simp: local_refs_def)
    have edge: "(last (cs_stack st), ?m) \<in> local_graph c" using "3.prems"(3) refs by auto
    have stk: "?m \<in> set (cs_stack st) \<longleftrightarrow> cs_state st ?m = OnStack"
      using "3.prems"(1) by (auto simp: dfs_inv_def)
    show ?thesis
    proof (cases "cs_state st ?m")
      case OnStack
      then have m: "?m \<in> set (cs_stack st)" by (simp add: stk)
      let ?cyc = "dropWhile (\<lambda>s. s \<noteq> ?m) (cs_stack st)"
      have "?cyc \<noteq> []" using m by simp
      moreover have "hd ?cyc = ?m"
        using calculation hd_dropWhile [of "\<lambda>s. s \<noteq> ?m" "cs_stack st"] by simp
      moreover have "last ?cyc = last (cs_stack st)"
        using m by (metis calculation(1) last_appendR takeWhile_dropWhile_id)
      ultimately have "is_cycle (local_graph c) ?cyc"
        using edge "3.prems"(1) by (simp add: is_cycle_def dfs_inv_def is_path_dropWhile)
      then show ?thesis
        using False OnStack m by (auto simp: visitReqs.simps Let_def search_post_def)
    next
      case Done
      have "search_post c (local_refs c rs) st (visitReqs c rs st)"
        using 3 False Done refs by auto
      then have "search_post c (insert ?m (local_refs c rs)) st (visitReqs c rs st)"
        by (rule search_post_extend) (simp_all add: done_names_def Done)
      then show ?thesis using False Done refs by (auto simp: visitReqs.simps Let_def)
    next
      case Unvisited
      obtain cyc st' where res: "visit c ?m st = (cyc, st')" by fastforce
      have post: "search_post c {?m} st (cyc, st')"
        using "3.IH"(3) [of ?m] "3.prems" False Unvisited edge res by auto
      show ?thesis
      proof (cases "cyc = []")
        case True
        with post have st': "dfs_inv c st'" "cs_stack st' = cs_stack st"
            "done_names st \<subseteq> done_names st'" "?m \<in> done_names st'"
          by (auto simp: search_post_def)
        have "search_post c (local_refs c rs) st' (visitReqs c rs st')"
          using "3.IH"(4) [of ?m cyc st'] "3.prems" False Unvisited res True st' refs by auto
        then have "search_post c (insert ?m (local_refs c rs)) st (visitReqs c rs st')"
          by (rule search_post_extend) (use st' in auto)
        with True False Unvisited res refs show ?thesis
          by (auto simp: visitReqs.simps Let_def)
      next
        case cyc: False
        with post False Unvisited res show ?thesis
          by (auto simp: visitReqs.simps Let_def search_post_def)
      qed
    qed
  qed
qed

lemma localCycle_from_search:
  assumes "dfs_inv c st" and "cs_stack st = []"
  shows "if localCycle_from c cps st \<noteq> [] then is_cycle (local_graph c) (localCycle_from c cps st)
         else \<forall>n \<in> done_names st \<union> (\<lambda>cp. ct_Name (cp_Type cp)) ` set cps.
                (n, n) \<notin> (local_graph c)\<^sup>+"
  using assms
proof (induction cps arbitrary: st)
  case Nil
  then show ?case by (auto simp: dfs_inv_def)
next
  case (Cons cp cps)
  let ?n = "ct_Name (cp_Type cp)"
  show ?case
  proof (cases "cs_state st ?n = Unvisited")
    case True
    have post: "search_post c {?n} st (visit c ?n st)"
      using Cons.prems True by (intro visit_search) auto
    obtain cyc st' where res: "visit c ?n st = (cyc, st')" by fastforce
    show ?thesis
    proof (cases "cyc = []")
      case cyc: True
      with post res have st': "dfs_inv c st'" "cs_stack st' = []" "done_names st \<subseteq> done_names st'"
          "?n \<in> done_names st'"
        using Cons.prems(2) by (auto simp: search_post_def)
      show ?thesis
        using Cons.IH [OF st'(1,2)] True res cyc st'(3,4) by (simp split: if_splits) blast
    next
      case False
      with post res True show ?thesis by (simp add: search_post_def)
    qed
  next
    case False
    have "cs_state st ?n \<noteq> OnStack"
      using Cons.prems by (auto simp: dfs_inv_def)
    with False have "?n \<in> done_names st" by (cases "cs_state st ?n") (auto simp: done_names_def)
    then show ?thesis
      using Cons.IH [OF Cons.prems] False by (simp split: if_splits)
  qed
qed

lemma local_graph_names: "(n, m) \<in> local_graph c \<Longrightarrow> capability_of c n \<noteq> None"
  by (auto simp: local_graph_def local_refs_def cap_reqs_def Capability_zero_def
           split: option.splits)

lemma localCycle_search:
  "(localCycle c = [] \<longleftrightarrow> acyclic (local_graph c)) \<and>
   (localCycle c \<noteq> [] \<longrightarrow> is_cycle (local_graph c) (localCycle c))"
proof -
  let ?st = "\<lparr>cs_state = (\<lambda>_. Unvisited), cs_stack = []\<rparr> :: cycleState"
  have "dfs_inv c ?st" by (simp add: dfs_inv_def done_names_def)
  from localCycle_from_search [OF this, of "c_Capabilities c"]
  have run: "if localCycle c \<noteq> [] then is_cycle (local_graph c) (localCycle c)
     else \<forall>n \<in> (\<lambda>cp. ct_Name (cp_Type cp)) ` set (c_Capabilities c).
            (n, n) \<notin> (local_graph c)\<^sup>+"
    by (simp add: localCycle_def split: if_splits)
  have "acyclic (local_graph c)" if "localCycle c = []"
  proof (rule acyclicI, rule allI)
    fix n
    show "(n, n) \<notin> (local_graph c)\<^sup>+"
    proof
      assume cyc: "(n, n) \<in> (local_graph c)\<^sup>+"
      then obtain m where "(n, m) \<in> local_graph c" by (meson tranclD)
      then have "capability_of c n \<noteq> None" by (rule local_graph_names)
      with run that cyc show False by (auto simp: capability_of_None_iff)
    qed
  qed
  moreover have "\<not> acyclic (local_graph c)" if "localCycle c \<noteq> []"
    using run that is_cycle_trancl by (auto simp: acyclic_def)
  ultimately show ?thesis using run by auto
qed

text \<open>C8: the search reports a cycle exactly when the local references of the contract have one,
  and what it reports is one.\<close>

theorem localCycle_correct:
  "(localCycle c = [] \<longleftrightarrow> acyclic (local_graph c)) \<and>
   (localCycle c = [] \<or> is_cycle (local_graph c) (localCycle c))"
  using localCycle_search by blast

end
