(* ===== verification/Ops_Validate.thy ===== *)
theory Ops_Validate
  imports Ops_LocalCycle
begin

text \<open>
  \<open>Contract.Validate\<close> of \<open>contract.go\<close>: each loop of the function is one definition, in the
  order of the code, returning the error texts it adds and the set of names it collects. The
  main result is that a contract has no defect exactly when it is well formed
  (\<open>contract_wf\<close>), a statement without loops or texts.
\<close>

section \<open>The loops of Validate\<close>

fun validateAssertions ::
  "AssertionSlot list \<Rightarrow> (string \<rightharpoonup> AssertionSlot) \<Rightarrow> string list \<times> (string \<rightharpoonup> AssertionSlot)" where
  "validateAssertions [] slots = ([], slots)"
| "validateAssertions (s # ss) slots =
     (if as_Name s = '''' then
        (case validateAssertions ss slots of (errs, m) \<Rightarrow>
           (''assertion slot with empty name'' # errs, m))
      else if (case slots (as_Name s) of None \<Rightarrow> False | Some q \<Rightarrow> as_Name q \<noteq> '''') then
        (case validateAssertions ss slots of (errs, m) \<Rightarrow>
           ((''duplicate assertion slot '' @ go_quote (as_Name s)) # errs, m))
      else
        (let typeErrs = (case as_Type s of
               TypeOther t \<Rightarrow> [''assertion '' @ go_quote (as_Name s) @ '': unknown value type '' @ go_quote t]
             | TypeString \<Rightarrow> []
             | _ \<Rightarrow> if as_Enum s \<noteq> []
                    then [''assertion '' @ go_quote (as_Name s) @ '': enum is only valid for String'']
                    else []);
             ageErrs = (if as_MaxAge s \<le> 0
                        then [''assertion '' @ go_quote (as_Name s) @ '': maxAge must be positive''] else [])
         in case validateAssertions ss (slots(as_Name s \<mapsto> s)) of (errs, m) \<Rightarrow>
              (typeErrs @ ageErrs @ errs, m)))"

fun validateDependencySlots :: "DependencySlot list \<Rightarrow> string set \<Rightarrow> string list \<times> string set" where
  "validateDependencySlots [] seen = ([], seen)"
| "validateDependencySlots (d # ds) seen =
     (if ds_Name d = '''' \<or> ds_Name d \<in> seen then
        (case validateDependencySlots ds seen of (errs, m) \<Rightarrow>
           ((''dependency slot '' @ go_quote (ds_Name d) @ '' empty or duplicate'') # errs, m))
      else validateDependencySlots ds (insert (ds_Name d) seen))"

fun validateEnvelopes ::
  "(string \<rightharpoonup> AssertionSlot) \<Rightarrow> Envelope list \<Rightarrow> string set \<Rightarrow> string list \<times> string set" where
  "validateEnvelopes slots [] seen = ([], seen)"
| "validateEnvelopes slots (e # es) seen =
     (if env_Name e = '''' \<or> env_Name e \<in> seen then
        (case validateEnvelopes slots es seen of (errs, m) \<Rightarrow>
           ((''envelope '' @ go_quote (env_Name e) @ '' empty or duplicate'') # errs, m))
      else
        (let classErrs = (case env_Class e of
               EnvelopeClassOther s \<Rightarrow> [''envelope '' @ go_quote (env_Name e) @ '': unknown class '' @ go_quote s]
             | _ \<Rightarrow> []);
             emptyErrs = (if env_Requirements e = []
                          then [''envelope '' @ go_quote (env_Name e) @ '' has no requirements''] else []);
             predErrs = concat (map (\<lambda>p. case Predicate_validate slots p of
                 None \<Rightarrow> []
               | Some err \<Rightarrow> [''envelope '' @ go_quote (env_Name e) @ '': '' @ err]) (env_Requirements e))
         in case validateEnvelopes slots es (insert (env_Name e) seen) of (errs, m) \<Rightarrow>
              (classErrs @ emptyErrs @ predErrs @ errs, m)))"

fun validateCapabilityTypes ::
  "Capability list \<Rightarrow> string set \<Rightarrow> CapabilityType set \<Rightarrow> string list \<times> string set" where
  "validateCapabilityTypes [] byName byType = ([], byName)"
| "validateCapabilityTypes (cp # cps) byName byType =
     (let q = go_quote (CapabilityType_String (cp_Type cp));
          typeErrs = (if \<not> CapabilityType_complete (cp_Type cp)
                      then [''capability '' @ q @ '': type must set domain, name and revision''] else []);
          dupErrs = (if ct_Name (cp_Type cp) \<in> byName \<or> cp_Type cp \<in> byType
                     then [''duplicate capability '' @ q] else [])
      in case validateCapabilityTypes cps (insert (ct_Name (cp_Type cp)) byName)
                (insert (cp_Type cp) byType) of (errs, m) \<Rightarrow> (typeErrs @ dupErrs @ errs, m))"

definition requirement_kinds :: "Requirement \<Rightarrow> nat" where
  "requirement_kinds r =
     (if r_Predicate r \<noteq> None then 1 else 0) + (if r_Dependency r \<noteq> None then 1 else 0) +
     (if r_LocalCapability r \<noteq> '''' then 1 else 0) + (if r_Envelope r \<noteq> '''' then 1 else 0)"

definition validateRequirement ::
  "(string \<rightharpoonup> AssertionSlot) \<Rightarrow> string set \<Rightarrow> string set \<Rightarrow> string set \<Rightarrow> string \<Rightarrow> Requirement \<Rightarrow>
     string list" where
  "validateRequirement slots depSlots envelopes byName wher r =
     (case r_OnUnmet r of
        ImpactOther s \<Rightarrow> [wher @ '': onUnmet must be DEGRADED or UNAVAILABLE, got '' @ go_quote s]
      | _ \<Rightarrow> []) @
     (case r_Predicate r of
        None \<Rightarrow> []
      | Some p \<Rightarrow> (case Predicate_validate slots p of None \<Rightarrow> [] | Some err \<Rightarrow> [wher @ '': '' @ err])) @
     (case r_Dependency r of
        None \<Rightarrow> []
      | Some d \<Rightarrow>
          (if dr_Slot d \<notin> depSlots
           then [wher @ '': undeclared dependency slot '' @ go_quote (dr_Slot d)] else []) @
          (if \<not> CapabilityType_complete (dr_Capability d)
           then [wher @ '': dependency capability must be fully qualified''] else [])) @
     (if r_LocalCapability r \<noteq> '''' \<and> r_LocalCapability r \<notin> byName
      then [wher @ '': undeclared local capability '' @ go_quote (r_LocalCapability r)] else []) @
     (if r_Envelope r \<noteq> '''' \<and> r_Envelope r \<notin> envelopes
      then [wher @ '': undeclared envelope '' @ go_quote (r_Envelope r)] else []) @
     (if requirement_kinds r \<noteq> 1
      then [wher @ '': must reference exactly one of predicate, dependency, local capability or envelope'']
      else [])"

fun validateRequirements ::
  "(string \<rightharpoonup> AssertionSlot) \<Rightarrow> string set \<Rightarrow> string set \<Rightarrow> string set \<Rightarrow> CapabilityType \<Rightarrow> nat \<Rightarrow>
     Requirement list \<Rightarrow> string list" where
  "validateRequirements slots depSlots envelopes byName t i [] = []"
| "validateRequirements slots depSlots envelopes byName t i (r # rs) =
     validateRequirement slots depSlots envelopes byName
       (''capability '' @ go_quote (CapabilityType_String t) @ '' requirement '' @ show_nat i) r @
     validateRequirements slots depSlots envelopes byName t (Suc i) rs"

definition validateCapability ::
  "(string \<rightharpoonup> AssertionSlot) \<Rightarrow> string set \<Rightarrow> string set \<Rightarrow> string set \<Rightarrow> Capability \<Rightarrow> string list" where
  "validateCapability slots depSlots envelopes byName cp =
     (if cp_Requirements cp = []
      then [''capability '' @ go_quote (CapabilityType_String (cp_Type cp)) @ '' has no requirements'']
      else []) @
     validateRequirements slots depSlots envelopes byName (cp_Type cp) 0 (cp_Requirements cp)"

definition Validate :: "Contract \<Rightarrow> string list" where
  "Validate c =
     (case validateAssertions (c_Assertions c) Map.empty of (slotErrs, slots) \<Rightarrow>
      case validateDependencySlots (c_DependencySlots c) {} of (depErrs, depSlots) \<Rightarrow>
      case validateEnvelopes slots (c_Envelopes c) {} of (envErrs, envelopes) \<Rightarrow>
      case validateCapabilityTypes (c_Capabilities c) {} {} of (typeErrs, byName) \<Rightarrow>
        (if \<not> ContractIdentity_complete (c_Identity c)
         then [''contract identity must set namespace, name, uid and specDigest''] else []) @
        slotErrs @ depErrs @ envErrs @ typeErrs @
        concat (map (validateCapability slots depSlots envelopes byName) (c_Capabilities c)) @
        (if localCycle c \<noteq> []
         then [''capability dependency cycle: ['' @ go_Join (localCycle c) '' '' @ '']''] else []))"

section \<open>What a contract without defects is\<close>

definition slot_wf :: "AssertionSlot \<Rightarrow> bool" where
  "slot_wf s \<longleftrightarrow> as_Name s \<noteq> '''' \<and> 0 < as_MaxAge s \<and>
     as_Type s \<in> {TypeBoolean, TypeInteger, TypeString} \<and> (as_Type s \<noteq> TypeString \<longrightarrow> as_Enum s = [])"

definition predicate_wf :: "Contract \<Rightarrow> Predicate \<Rightarrow> bool" where
  "predicate_wf c p \<longleftrightarrow> Predicate_validate (slot_of c) p = None"

definition envelope_wf :: "Contract \<Rightarrow> Envelope \<Rightarrow> bool" where
  "envelope_wf c e \<longleftrightarrow> env_Name e \<noteq> '''' \<and> env_Class e \<in> {EnvelopeMinimum, EnvelopeRecommended} \<and>
     env_Requirements e \<noteq> [] \<and> (\<forall>p \<in> set (env_Requirements e). predicate_wf c p)"

definition requirement_wf :: "Contract \<Rightarrow> Requirement \<Rightarrow> bool" where
  "requirement_wf c r \<longleftrightarrow>
     r_OnUnmet r \<in> {ImpactDegraded, ImpactUnavailable} \<and> requirement_kinds r = 1 \<and>
     (\<forall>p. r_Predicate r = Some p \<longrightarrow> predicate_wf c p) \<and>
     (\<forall>d. r_Dependency r = Some d \<longrightarrow>
        dr_Slot d \<in> ds_Name ` set (c_DependencySlots c) \<and> CapabilityType_complete (dr_Capability d)) \<and>
     (r_LocalCapability r \<noteq> '''' \<longrightarrow> capability_of c (r_LocalCapability r) \<noteq> None) \<and>
     (r_Envelope r \<noteq> '''' \<longrightarrow> envelope_of c (r_Envelope r) \<noteq> None)"

definition capability_wf :: "Contract \<Rightarrow> Capability \<Rightarrow> bool" where
  "capability_wf c cp \<longleftrightarrow> CapabilityType_complete (cp_Type cp) \<and> cp_Requirements cp \<noteq> [] \<and>
     (\<forall>r \<in> set (cp_Requirements cp). requirement_wf c r)"

definition contract_wf :: "Contract \<Rightarrow> bool" where
  "contract_wf c \<longleftrightarrow>
     ContractIdentity_complete (c_Identity c) \<and>
     distinct (map as_Name (c_Assertions c)) \<and> (\<forall>s \<in> set (c_Assertions c). slot_wf s) \<and>
     distinct (map ds_Name (c_DependencySlots c)) \<and> '''' \<notin> ds_Name ` set (c_DependencySlots c) \<and>
     distinct (map env_Name (c_Envelopes c)) \<and> (\<forall>e \<in> set (c_Envelopes c). envelope_wf c e) \<and>
     distinct (map (\<lambda>cp. ct_Name (cp_Type cp)) (c_Capabilities c)) \<and>
     (\<forall>cp \<in> set (c_Capabilities c). capability_wf c cp) \<and>
     acyclic (local_graph c)"

section \<open>Validate decides well-formedness\<close>

definition slots_keyed :: "(string \<rightharpoonup> AssertionSlot) \<Rightarrow> bool" where
  "slots_keyed slots \<longleftrightarrow> (\<forall>k q. slots k = Some q \<longrightarrow> as_Name q = k \<and> k \<noteq> '''')"

lemma validateAssertions_iff:
  assumes "slots_keyed slots"
  shows "fst (validateAssertions ss slots) = [] \<longleftrightarrow>
           (\<forall>s \<in> set ss. slot_wf s) \<and> distinct (map as_Name ss) \<and> as_Name ` set ss \<inter> dom slots = {}"
  using assms
proof (induction ss arbitrary: slots)
  case (Cons s ss)
  have keyed: "slots_keyed (slots(as_Name s \<mapsto> s))" if "as_Name s \<noteq> ''''"
    using Cons.prems that by (auto simp: slots_keyed_def)
  have dup: "(case slots (as_Name s) of None \<Rightarrow> False | Some q \<Rightarrow> as_Name q \<noteq> '''') \<longleftrightarrow>
      as_Name s \<in> dom slots"
    using Cons.prems by (auto simp: slots_keyed_def split: option.splits)
  show ?case
  proof (cases "as_Name s = '''' \<or> as_Name s \<in> dom slots")
    case True
    then show ?thesis by (auto simp: dup slot_wf_def Let_def split: prod.splits)
  next
    case False
    then have IH: "fst (validateAssertions ss (slots(as_Name s \<mapsto> s))) = [] \<longleftrightarrow>
        (\<forall>s \<in> set ss. slot_wf s) \<and> distinct (map as_Name ss) \<and>
        as_Name ` set ss \<inter> dom (slots(as_Name s \<mapsto> s)) = {}"
      by (intro Cons.IH keyed) simp
    obtain errs m where r: "validateAssertions ss (slots(as_Name s \<mapsto> s)) = (errs, m)"
      by fastforce
    have "fst (validateAssertions (s # ss) slots) = [] \<longleftrightarrow> slot_wf s \<and> errs = []"
      using False dup r by (cases "as_Type s") (auto simp: slot_wf_def Let_def)
    with IH r False show ?thesis by auto
  qed
qed simp

lemma validateAssertions_map:
  assumes "slots_keyed slots" and "fst (validateAssertions ss slots) = []"
  shows "snd (validateAssertions ss slots) k =
           (case List.find (\<lambda>s. as_Name s = k) ss of Some s \<Rightarrow> Some s | None \<Rightarrow> slots k)"
  using assms
proof (induction ss arbitrary: slots)
  case (Cons s ss)
  let ?slots = "slots(as_Name s \<mapsto> s)"
  have wf: "as_Name s \<noteq> ''''" "as_Name s \<notin> dom slots" "distinct (map as_Name (s # ss))"
    using Cons.prems(2) unfolding validateAssertions_iff [OF Cons.prems(1), of "s # ss"]
    by (auto simp: slot_wf_def)
  then have keyed: "slots_keyed ?slots" using Cons.prems(1) by (auto simp: slots_keyed_def)
  have step: "snd (validateAssertions (s # ss) slots) = snd (validateAssertions ss ?slots)"
    using wf by (auto simp: Let_def dom_def split: prod.splits option.splits)
  have errs: "fst (validateAssertions ss ?slots) = []"
    using Cons.prems(2) wf by (auto simp: Let_def dom_def split: prod.splits option.splits)
  have "List.find (\<lambda>q. as_Name q = as_Name s) ss = None"
    using wf(3) by (auto simp: find_None_iff image_iff)
  then show ?case
    unfolding step Cons.IH [OF keyed errs] by (cases "as_Name s = k") (auto split: option.split)
qed simp

lemma validateDependencySlots_iff:
  "fst (validateDependencySlots ds seen) = [] \<longleftrightarrow>
     distinct (map ds_Name ds) \<and> '''' \<notin> ds_Name ` set ds \<and> ds_Name ` set ds \<inter> seen = {}"
  by (induction ds seen rule: validateDependencySlots.induct) (auto split: prod.splits)

lemma validateDependencySlots_set:
  "fst (validateDependencySlots ds seen) = [] \<Longrightarrow>
     snd (validateDependencySlots ds seen) = ds_Name ` set ds \<union> seen"
  by (induction ds seen rule: validateDependencySlots.induct) (auto split: prod.splits if_splits)

lemma predErrs_Nil_iff:
  "concat (map (\<lambda>p. case Predicate_validate slots p of None \<Rightarrow> [] | Some err \<Rightarrow> [f err]) ps) = [] \<longleftrightarrow>
     (\<forall>p \<in> set ps. Predicate_validate slots p = None)"
  by (induction ps) (auto split: option.splits)

lemma validateEnvelopes_iff:
  "fst (validateEnvelopes (slot_of c) es seen) = [] \<longleftrightarrow>
     (\<forall>e \<in> set es. envelope_wf c e) \<and> distinct (map env_Name es) \<and> env_Name ` set es \<inter> seen = {}"
proof (induction es arbitrary: seen)
  case (Cons e es)
  have "envelope_wf c e \<longleftrightarrow> env_Name e \<noteq> '''' \<and>
      (case env_Class e of EnvelopeClassOther s \<Rightarrow> False | _ \<Rightarrow> True) \<and> env_Requirements e \<noteq> [] \<and>
      (\<forall>p \<in> set (env_Requirements e). Predicate_validate (slot_of c) p = None)"
    by (auto simp: envelope_wf_def predicate_wf_def split: EnvelopeClass.splits)
  moreover obtain errs m
    where r: "validateEnvelopes (slot_of c) es (insert (env_Name e) seen) = (errs, m)"
    by fastforce
  ultimately have "fst (validateEnvelopes (slot_of c) (e # es) seen) = [] \<longleftrightarrow>
      envelope_wf c e \<and> env_Name e \<notin> seen \<and> errs = []"
    by (auto simp: Let_def predErrs_Nil_iff split: prod.splits EnvelopeClass.splits)
  with Cons.IH [of "insert (env_Name e) seen"] r show ?case by auto
qed simp

lemma validateEnvelopes_set:
  "fst (validateEnvelopes slots es seen) = [] \<Longrightarrow>
     snd (validateEnvelopes slots es seen) = env_Name ` set es \<union> seen"
  by (induction slots es seen rule: validateEnvelopes.induct)
     (auto simp: Let_def split: prod.splits if_splits)

lemma validateCapabilityTypes_iff:
  assumes "ct_Name ` byType = byName"
  shows "fst (validateCapabilityTypes cps byName byType) = [] \<longleftrightarrow>
     (\<forall>cp \<in> set cps. CapabilityType_complete (cp_Type cp)) \<and>
     distinct (map (\<lambda>cp. ct_Name (cp_Type cp)) cps) \<and>
     (\<lambda>cp. ct_Name (cp_Type cp)) ` set cps \<inter> byName = {}"
  using assms
proof (induction cps byName byType rule: validateCapabilityTypes.induct)
  case (2 cp cps byName byType)
  have "cp_Type cp \<in> byType \<Longrightarrow> ct_Name (cp_Type cp) \<in> byName" using "2.prems" by auto
  with 2 show ?case by (auto simp: Let_def split: prod.splits)
qed simp

lemma validateCapabilityTypes_set:
  "snd (validateCapabilityTypes cps byName byType) = (\<lambda>cp. ct_Name (cp_Type cp)) ` set cps \<union> byName"
  by (induction cps byName byType rule: validateCapabilityTypes.induct)
     (auto simp: Let_def split: prod.splits)

lemma validateRequirement_iff:
  "validateRequirement (slot_of c) (ds_Name ` set (c_DependencySlots c)) (env_Name ` set (c_Envelopes c))
      ((\<lambda>cp. ct_Name (cp_Type cp)) ` set (c_Capabilities c)) w r = [] \<longleftrightarrow> requirement_wf c r"
proof -
  have cap: "r_LocalCapability r \<in> (\<lambda>cp. ct_Name (cp_Type cp)) ` set (c_Capabilities c) \<longleftrightarrow>
      capability_of c (r_LocalCapability r) \<noteq> None"
    by (simp add: capability_of_None_iff)
  have env: "r_Envelope r \<in> env_Name ` set (c_Envelopes c) \<longleftrightarrow> envelope_of c (r_Envelope r) \<noteq> None"
    by (auto simp: envelope_of_def find_None_iff image_iff) metis
  have impact: "(case r_OnUnmet r of ImpactOther s \<Rightarrow> [f s] | _ \<Rightarrow> []) = [] \<longleftrightarrow>
      r_OnUnmet r \<in> {ImpactDegraded, ImpactUnavailable}" for f :: "string \<Rightarrow> string"
    by (cases "r_OnUnmet r") auto
  have pred: "(case r_Predicate r of None \<Rightarrow> [] | Some p \<Rightarrow>
        (case Predicate_validate (slot_of c) p of None \<Rightarrow> [] | Some err \<Rightarrow> [f err])) = [] \<longleftrightarrow>
      (\<forall>p. r_Predicate r = Some p \<longrightarrow> predicate_wf c p)" for f :: "string \<Rightarrow> string"
    by (auto simp: predicate_wf_def split: option.splits)
  have dep: "(case r_Dependency r of None \<Rightarrow> [] | Some d \<Rightarrow>
        (if dr_Slot d \<notin> ds_Name ` set (c_DependencySlots c) then [f d] else []) @
        (if \<not> CapabilityType_complete (dr_Capability d) then [g d] else [])) = [] \<longleftrightarrow>
      (\<forall>d. r_Dependency r = Some d \<longrightarrow>
        dr_Slot d \<in> ds_Name ` set (c_DependencySlots c) \<and> CapabilityType_complete (dr_Capability d))"
    for f g :: "DependencyRequirement \<Rightarrow> string"
    by (cases "r_Dependency r") simp_all
  show ?thesis
    unfolding validateRequirement_def requirement_wf_def append_is_Nil_conv impact pred dep cap env
      if_singleton_Nil by blast
qed

lemma validateRequirements_iff:
  "validateRequirements slots deps envs names t i rs = [] \<longleftrightarrow>
     (\<forall>r \<in> set rs. \<exists>w. validateRequirement slots deps envs names w r = [])"
  if "\<And>w w' r. validateRequirement slots deps envs names w r = [] \<longleftrightarrow>
      validateRequirement slots deps envs names w' r = []"
  using that by (induction slots deps envs names t i rs rule: validateRequirements.induct) auto

lemma Validate_Nil_iff: "Validate c = [] \<longleftrightarrow> contract_wf c"
proof -
  obtain slotErrs slots where a: "validateAssertions (c_Assertions c) Map.empty = (slotErrs, slots)"
    by fastforce
  obtain depErrs deps where d: "validateDependencySlots (c_DependencySlots c) {} = (depErrs, deps)"
    by fastforce
  obtain envErrs envs where e: "validateEnvelopes slots (c_Envelopes c) {} = (envErrs, envs)"
    by fastforce
  obtain typeErrs names where t: "validateCapabilityTypes (c_Capabilities c) {} {} = (typeErrs, names)"
    by fastforce
  have keyed: "slots_keyed Map.empty" by (simp add: slots_keyed_def)
  have slots: "slots = slot_of c" if "slotErrs = []"
    using validateAssertions_map [OF keyed, of "c_Assertions c"] that a
    by (auto simp: slot_of_def fun_eq_iff split: option.splits)
  have deps: "deps = ds_Name ` set (c_DependencySlots c)" if "depErrs = []"
    using validateDependencySlots_set [of "c_DependencySlots c" "{}"] d that by simp
  have envs: "envs = env_Name ` set (c_Envelopes c)" if "envErrs = []"
    using validateEnvelopes_set [of slots "c_Envelopes c" "{}"] e that by simp
  have names: "names = (\<lambda>cp. ct_Name (cp_Type cp)) ` set (c_Capabilities c)"
    using validateCapabilityTypes_set [of "c_Capabilities c" "{}" "{}"] t by simp
  have caps: "concat (map (validateCapability slots deps envs names) (c_Capabilities c)) = [] \<longleftrightarrow>
      (\<forall>cp \<in> set (c_Capabilities c). cp_Requirements cp \<noteq> [] \<and>
         (\<forall>r \<in> set (cp_Requirements cp). requirement_wf c r))"
    if "slotErrs = []" "depErrs = []" "envErrs = []"
    unfolding slots [OF that(1)] deps [OF that(2)] envs [OF that(3)] names
    by (auto simp: validateCapability_def validateRequirements_iff validateRequirement_iff)
  have S: "slotErrs = [] \<longleftrightarrow>
      (\<forall>s \<in> set (c_Assertions c). slot_wf s) \<and> distinct (map as_Name (c_Assertions c))"
    using a validateAssertions_iff [OF keyed, of "c_Assertions c"] by simp
  have D: "depErrs = [] \<longleftrightarrow> distinct (map ds_Name (c_DependencySlots c)) \<and>
      '''' \<notin> ds_Name ` set (c_DependencySlots c)"
    using d validateDependencySlots_iff [of "c_DependencySlots c" "{}"] by simp
  have E: "envErrs = [] \<longleftrightarrow>
      (\<forall>e \<in> set (c_Envelopes c). envelope_wf c e) \<and> distinct (map env_Name (c_Envelopes c))"
    if "slotErrs = []"
    using e slots [OF that] validateEnvelopes_iff [of c "c_Envelopes c" "{}"] by simp
  have T: "typeErrs = [] \<longleftrightarrow> (\<forall>cp \<in> set (c_Capabilities c). CapabilityType_complete (cp_Type cp)) \<and>
      distinct (map (\<lambda>cp. ct_Name (cp_Type cp)) (c_Capabilities c))"
    using t validateCapabilityTypes_iff [of "{}" "{}" "c_Capabilities c"] by simp
  have "Validate c = [] \<longleftrightarrow> ContractIdentity_complete (c_Identity c) \<and> slotErrs = [] \<and> depErrs = [] \<and>
      envErrs = [] \<and> typeErrs = [] \<and>
      concat (map (validateCapability slots deps envs names) (c_Capabilities c)) = [] \<and> localCycle c = []"
    by (simp only: Validate_def a d e t prod.case append_is_Nil_conv if_singleton_Nil not_not)
  with S D E T caps localCycle_search [of c] show ?thesis
    unfolding contract_wf_def capability_wf_def by blast
qed

text \<open>C9: a contract has no defect exactly when it is well formed.\<close>

theorem Validate_iff_wf: "Validate c = [] \<longleftrightarrow> contract_wf c"
  by (rule Validate_Nil_iff)

end
