(* ===== verification/Ops_Result.thy ===== *)
theory Ops_Result
  imports Ops_Contract
begin

text \<open>
  The output of an evaluation (\<open>result.go\<close>), the observations and the snapshot it reads
  (\<open>target.go\<close>), and \<open>normalize\<close>, which puts reasons in canonical form. The empty reason code,
  Go's zero value, is \<open>ReasonEmpty\<close>.
\<close>

section \<open>Reasons\<close>

datatype ReasonCode =
    ReasonEmpty
  | ReasonPredicateUnmet | ReasonDependencyUnmet | ReasonLocalUnmet | ReasonEnvelopeUnmet
  | ReasonEvidenceUnbound | ReasonEvidenceMissing | ReasonEvidenceStale
  | ReasonEvidenceTargetReplaced | ReasonEvidenceContractChanged | ReasonEvidenceProviderChanged
  | ReasonProviderUnavailable | ReasonConflictingEvidence | ReasonEvidenceTypeMismatch
  | ReasonDependencyUnbound | ReasonDependencyTargetMissing | ReasonDependencyTargetInvalid
  | ReasonDependencyContractMismatch | ReasonDependencyCapabilityAbsent | ReasonDependencyUnknown
  | ReasonLocalUnknown | ReasonEnvelopeUnknown | ReasonConflictingImpact
  | ReasonInvalidContract | ReasonContractUnresolved | ReasonContractAmbiguous
  | ReasonCrossNamespaceContract | ReasonDuplicateTargetUID | ReasonDuplicateAssertionBinding
  | ReasonDuplicateDependencyBinding | ReasonInvalidBinding | ReasonUnknownEnvelopeSelection
  | ReasonDependencyCycle

fun ReasonCode_str :: "ReasonCode \<Rightarrow> string" where
  "ReasonCode_str ReasonEmpty = ''''"
| "ReasonCode_str ReasonPredicateUnmet = ''predicate-unmet''"
| "ReasonCode_str ReasonDependencyUnmet = ''dependency-unmet''"
| "ReasonCode_str ReasonLocalUnmet = ''local-capability-unmet''"
| "ReasonCode_str ReasonEnvelopeUnmet = ''envelope-unsatisfied''"
| "ReasonCode_str ReasonEvidenceUnbound = ''evidence-unbound''"
| "ReasonCode_str ReasonEvidenceMissing = ''evidence-missing''"
| "ReasonCode_str ReasonEvidenceStale = ''evidence-stale''"
| "ReasonCode_str ReasonEvidenceTargetReplaced = ''evidence-inapplicable-target-replaced''"
| "ReasonCode_str ReasonEvidenceContractChanged = ''evidence-inapplicable-contract-changed''"
| "ReasonCode_str ReasonEvidenceProviderChanged = ''evidence-inapplicable-provider-changed''"
| "ReasonCode_str ReasonProviderUnavailable = ''provider-unavailable''"
| "ReasonCode_str ReasonConflictingEvidence = ''conflicting-authoritative-evidence''"
| "ReasonCode_str ReasonEvidenceTypeMismatch = ''evidence-type-mismatch''"
| "ReasonCode_str ReasonDependencyUnbound = ''dependency-unbound''"
| "ReasonCode_str ReasonDependencyTargetMissing = ''dependency-target-missing''"
| "ReasonCode_str ReasonDependencyTargetInvalid = ''dependency-target-invalid''"
| "ReasonCode_str ReasonDependencyContractMismatch = ''dependency-contract-mismatch''"
| "ReasonCode_str ReasonDependencyCapabilityAbsent = ''dependency-capability-not-provided''"
| "ReasonCode_str ReasonDependencyUnknown = ''dependency-unknown''"
| "ReasonCode_str ReasonLocalUnknown = ''local-capability-unknown''"
| "ReasonCode_str ReasonEnvelopeUnknown = ''envelope-unknown''"
| "ReasonCode_str ReasonConflictingImpact = ''conflicting-impact''"
| "ReasonCode_str ReasonInvalidContract = ''invalid-contract''"
| "ReasonCode_str ReasonContractUnresolved = ''contract-unresolved''"
| "ReasonCode_str ReasonContractAmbiguous = ''contract-ambiguous''"
| "ReasonCode_str ReasonCrossNamespaceContract = ''cross-namespace-contract-ref''"
| "ReasonCode_str ReasonDuplicateTargetUID = ''duplicate-target-uid''"
| "ReasonCode_str ReasonDuplicateAssertionBinding = ''duplicate-assertion-binding''"
| "ReasonCode_str ReasonDuplicateDependencyBinding = ''duplicate-dependency-binding''"
| "ReasonCode_str ReasonInvalidBinding = ''invalid-binding''"
| "ReasonCode_str ReasonUnknownEnvelopeSelection = ''unknown-envelope-selection''"
| "ReasonCode_str ReasonDependencyCycle = ''dependency-cycle''"

text \<open>No two codes have the same text.\<close>

definition all_ReasonCodes :: "ReasonCode list" where
  "all_ReasonCodes =
     [ReasonEmpty, ReasonPredicateUnmet, ReasonDependencyUnmet, ReasonLocalUnmet, ReasonEnvelopeUnmet,
      ReasonEvidenceUnbound, ReasonEvidenceMissing, ReasonEvidenceStale,
      ReasonEvidenceTargetReplaced, ReasonEvidenceContractChanged, ReasonEvidenceProviderChanged,
      ReasonProviderUnavailable, ReasonConflictingEvidence, ReasonEvidenceTypeMismatch,
      ReasonDependencyUnbound, ReasonDependencyTargetMissing, ReasonDependencyTargetInvalid,
      ReasonDependencyContractMismatch, ReasonDependencyCapabilityAbsent, ReasonDependencyUnknown,
      ReasonLocalUnknown, ReasonEnvelopeUnknown, ReasonConflictingImpact,
      ReasonInvalidContract, ReasonContractUnresolved, ReasonContractAmbiguous,
      ReasonCrossNamespaceContract, ReasonDuplicateTargetUID, ReasonDuplicateAssertionBinding,
      ReasonDuplicateDependencyBinding, ReasonInvalidBinding, ReasonUnknownEnvelopeSelection,
      ReasonDependencyCycle]"

lemma ReasonCode_str_inj: "ReasonCode_str c = ReasonCode_str d \<Longrightarrow> c = d"
proof -
  have "distinct (map ReasonCode_str all_ReasonCodes)" by code_simp
  moreover have "c \<in> set all_ReasonCodes" for c by (cases c) (simp_all add: all_ReasonCodes_def)
  ultimately show "ReasonCode_str c = ReasonCode_str d \<Longrightarrow> c = d"
    by (metis distinct_map inj_onD)
qed

record Reason =
  rs_Code :: ReasonCode
  rs_Subject :: string
  rs_Detail :: string

definition Reason_zero :: Reason where
  "Reason_zero = \<lparr>rs_Code = ReasonEmpty, rs_Subject = '''', rs_Detail = ''''\<rparr>"

definition mkReason :: "ReasonCode \<Rightarrow> string \<Rightarrow> string \<Rightarrow> Reason" where
  "mkReason code subject detail = \<lparr>rs_Code = code, rs_Subject = subject, rs_Detail = detail\<rparr>"

definition Reason_less :: "Reason \<Rightarrow> Reason \<Rightarrow> bool" where
  "Reason_less a b =
     (if rs_Code a \<noteq> rs_Code b then ReasonCode_str (rs_Code a) < ReasonCode_str (rs_Code b)
      else if rs_Subject a \<noteq> rs_Subject b then rs_Subject a < rs_Subject b
      else rs_Detail a < rs_Detail b)"


definition Reason_key :: "Reason \<Rightarrow> string list" where
  "Reason_key r = [ReasonCode_str (rs_Code r), rs_Subject r, rs_Detail r]"

lemma Reason_less_key: "Reason_less a b \<longleftrightarrow> Reason_key a < Reason_key b"
  using ReasonCode_str_inj [of "rs_Code a" "rs_Code b"] by (auto simp: Reason_less_def Reason_key_def)

interpretation reason_order: total_less Reason_less
proof (rule total_less_by_key [OF Reason_less_key])
  show "inj Reason_key"
    by (rule injI) (auto simp: Reason_key_def intro!: Reason.equality ReasonCode_str_inj)
qed

text \<open>
  \<open>normalize\<close> sorts a copy of the reasons and drops each one equal to the last one kept.
\<close>

fun dedupe :: "'a option \<Rightarrow> 'a list \<Rightarrow> 'a list" where
  "dedupe kept [] = []"
| "dedupe kept (r # rs) = (if kept = Some r then dedupe kept rs else r # dedupe (Some r) rs)"

definition normalize :: "Reason list \<Rightarrow> Reason list" where
  "normalize rs = (if rs = [] then [] else dedupe None (sort_slice Reason_less rs))"

lemma set_dedupe: "set rs \<subseteq> set (dedupe kept rs) \<union> set_option kept" "set (dedupe kept rs) \<subseteq> set rs"
  by (induction kept rs rule: dedupe.induct) auto

lemma dedupe_sorted:
  assumes "sorted_wrt (\<lambda>a b. \<not> Reason_less b a) rs"
    and "\<And>k r. kept = Some k \<Longrightarrow> r \<in> set rs \<Longrightarrow> \<not> Reason_less r k"
  shows "sorted_wrt Reason_less (dedupe kept rs) \<and>
    (\<forall>k r. kept = Some k \<longrightarrow> r \<in> set (dedupe kept rs) \<longrightarrow> Reason_less k r)"
  using assms
proof (induction kept rs rule: dedupe.induct)
  case (2 kept r rs)
  show ?case
  proof (cases "kept = Some r")
    case True
    with 2 show ?thesis by simp
  next
    case False
    have IH: "sorted_wrt Reason_less (dedupe (Some r) rs)"
      "\<And>r'. r' \<in> set (dedupe (Some r) rs) \<Longrightarrow> Reason_less r r'"
      using "2.IH"(2) [OF False] "2.prems"(1) by auto
    have "Reason_less k r" if "kept = Some k" for k
      using that False "2.prems"(2) [of k r] reason_order.total [of k r] by auto
    with IH False show ?thesis using reason_order.trans by auto
  qed
qed simp

lemma set_normalize [simp]: "set (normalize rs) = set rs"
  using set_dedupe(1) [of "sort_slice Reason_less rs" None] set_dedupe(2) [of None "sort_slice Reason_less rs"]
  by (auto simp: normalize_def)

lemma normalize_Nil_iff [simp]: "normalize rs = [] \<longleftrightarrow> rs = []"
  by (metis set_empty set_normalize)

lemma normalize_sorted: "sorted_wrt Reason_less (normalize rs)"
  using dedupe_sorted [of "sort_slice Reason_less rs" None] reason_order.sorted_sort_slice
  by (simp add: normalize_def)

lemma sorted_set_unique:
  "sorted_wrt Reason_less xs \<Longrightarrow> sorted_wrt Reason_less ys \<Longrightarrow> set xs = set ys \<Longrightarrow> xs = ys"
proof (induction xs arbitrary: ys)
  case (Cons x xs)
  then obtain y ys' where ys: "ys = y # ys'" by (cases ys) auto
  have "x = y"
    using Cons.prems ys reason_order.asym by (metis list.set_intros(1) set_ConsD sorted_wrt.simps(2))
  moreover have "x \<notin> set xs" "y \<notin> set ys'"
    using Cons.prems(1,2) ys reason_order.irrefl by auto
  ultimately have "set xs = set ys'" using Cons.prems(3) ys by auto
  with Cons ys \<open>x = y\<close> show ?case by simp
qed simp

text \<open>Reasons that form the same set have the same canonical form, whatever their order and
  multiplicity.\<close>

lemma normalize_cong: "set rs = set rs' \<Longrightarrow> normalize rs = normalize rs'"
  by (rule sorted_set_unique) (simp_all add: normalize_sorted)

section \<open>Observations and snapshots\<close>

datatype Outcome = OutcomeValue | OutcomeProviderUnavailable | OutcomeOther string

record Observation =
  o_Key :: ApplicabilityKey
  o_Outcome :: Outcome
  o_Value :: Value
  o_ObservedAt :: instant
  o_ValidUntil :: instant
  o_EvidenceRef :: string

record Snapshot =
  s_At :: instant
  s_Contracts :: "Contract list"
  s_Targets :: "Target list"
  s_Observations :: "Observation list"

section \<open>Results\<close>

datatype CapabilityState = Available | Degraded | Unavailable | Unknown

fun CapabilityState_str :: "CapabilityState \<Rightarrow> string" where
  "CapabilityState_str Available = ''AVAILABLE''"
| "CapabilityState_str Degraded = ''DEGRADED''"
| "CapabilityState_str Unavailable = ''UNAVAILABLE''"
| "CapabilityState_str Unknown = ''UNKNOWN''"

datatype EnvelopeState = Satisfied | Unsatisfied | EnvUnknown

datatype SyncState = SyncNotApplicable

datatype EvidenceStatus =
    EvidenceCurrent | EvidenceUnbound | EvidenceMissing | EvidenceStale | EvidenceInapplicable
  | EvidenceProviderUnavailable | EvidenceConflicting | EvidenceTypeMismatch

record SlotEvidence =
  se_Slot :: string
  se_Status :: EvidenceStatus
  se_Provider :: ProviderIdentity
  se_EvidenceRef :: string

record CapabilityResult =
  cr_Type :: CapabilityType
  cr_State :: CapabilityState
  cr_Reasons :: "Reason list"

record EnvelopeResult =
  er_Name :: string
  er_Class :: EnvelopeClass
  er_State :: EnvelopeState
  er_Reasons :: "Reason list"

record TargetAssessment =
  ta_Target :: TargetIdentity
  ta_Contract :: ContractIdentity
  ta_Valid :: bool
  ta_InvalidReasons :: "Reason list"
  ta_Sync :: SyncState
  ta_EnvelopeSelection :: string
  ta_Evidence :: "SlotEvidence list"
  ta_Capabilities :: "CapabilityResult list"
  ta_Envelopes :: "EnvelopeResult list"

record Assessment =
  a_Targets :: "TargetAssessment list"

definition Assessment_Target :: "Assessment \<Rightarrow> string \<Rightarrow> TargetAssessment option" where
  "Assessment_Target a uid = List.find (\<lambda>t. ti_UID (ta_Target t) = uid) (a_Targets a)"

definition TargetAssessment_Capability :: "TargetAssessment \<Rightarrow> string \<Rightarrow> CapabilityResult option" where
  "TargetAssessment_Capability t name = List.find (\<lambda>c. ct_Name (cr_Type c) = name) (ta_Capabilities t)"

definition TargetAssessment_Envelope :: "TargetAssessment \<Rightarrow> string \<Rightarrow> EnvelopeResult option" where
  "TargetAssessment_Envelope t name = List.find (\<lambda>e. er_Name e = name) (ta_Envelopes t)"

section \<open>The summary\<close>

record CapabilityRef =
  cref_TargetUID :: string
  cref_Capability :: CapabilityType

record Summary =
  sm_Affected :: "CapabilityRef list"
  sm_Unaffected :: "CapabilityRef list"
  sm_Unknown :: "CapabilityRef list"
  sm_Invalid :: "string list"

definition Summary_zero :: Summary where
  "Summary_zero = \<lparr>sm_Affected = [], sm_Unaffected = [], sm_Unknown = [], sm_Invalid = []\<rparr>"

definition summarize_capability :: "string \<Rightarrow> CapabilityResult \<Rightarrow> Summary \<Rightarrow> Summary" where
  "summarize_capability uid c s =
     (let ref = \<lparr>cref_TargetUID = uid, cref_Capability = cr_Type c\<rparr> in
      case cr_State c of
        Available \<Rightarrow> s\<lparr>sm_Unaffected := sm_Unaffected s @ [ref]\<rparr>
      | Degraded \<Rightarrow> s\<lparr>sm_Affected := sm_Affected s @ [ref]\<rparr>
      | Unavailable \<Rightarrow> s\<lparr>sm_Affected := sm_Affected s @ [ref]\<rparr>
      | Unknown \<Rightarrow> s\<lparr>sm_Unknown := sm_Unknown s @ [ref]\<rparr>)"

definition summarize_target :: "TargetAssessment \<Rightarrow> Summary \<Rightarrow> Summary" where
  "summarize_target t s =
     (if \<not> ta_Valid t then s\<lparr>sm_Invalid := sm_Invalid s @ [ti_UID (ta_Target t)]\<rparr>
      else fold (summarize_capability (ti_UID (ta_Target t))) (ta_Capabilities t) s)"

definition Summarize :: "Assessment \<Rightarrow> Summary" where
  "Summarize a = fold summarize_target (a_Targets a) Summary_zero"

text \<open>The references of the capabilities of valid targets in given states, in assessment order.\<close>

definition refs_in :: "CapabilityState set \<Rightarrow> TargetAssessment list \<Rightarrow> CapabilityRef list" where
  "refs_in S ts = concat (map (\<lambda>t. map (\<lambda>c. \<lparr>cref_TargetUID = ti_UID (ta_Target t), cref_Capability = cr_Type c\<rparr>)
      (filter (\<lambda>c. cr_State c \<in> S) (ta_Capabilities t))) (filter ta_Valid ts))"

lemma summarize_capabilities:
  "fold (summarize_capability uid) cs s =
     s\<lparr>sm_Affected := sm_Affected s @ map (\<lambda>c. \<lparr>cref_TargetUID = uid, cref_Capability = cr_Type c\<rparr>)
           (filter (\<lambda>c. cr_State c \<in> {Degraded, Unavailable}) cs),
       sm_Unaffected := sm_Unaffected s @ map (\<lambda>c. \<lparr>cref_TargetUID = uid, cref_Capability = cr_Type c\<rparr>)
           (filter (\<lambda>c. cr_State c \<in> {Available}) cs),
       sm_Unknown := sm_Unknown s @ map (\<lambda>c. \<lparr>cref_TargetUID = uid, cref_Capability = cr_Type c\<rparr>)
           (filter (\<lambda>c. cr_State c \<in> {Unknown}) cs)\<rparr>"
proof (induction cs arbitrary: s)
  case (Cons c cs)
  then show ?case by (cases "cr_State c") (simp_all add: summarize_capability_def Let_def)
qed simp

lemma summarize_targets:
  "fold summarize_target ts s =
     \<lparr>sm_Affected = sm_Affected s @ refs_in {Degraded, Unavailable} ts,
      sm_Unaffected = sm_Unaffected s @ refs_in {Available} ts,
      sm_Unknown = sm_Unknown s @ refs_in {Unknown} ts,
      sm_Invalid = sm_Invalid s @ map (\<lambda>t. ti_UID (ta_Target t)) (filter (\<lambda>t. \<not> ta_Valid t) ts)\<rparr>"
  by (induction ts arbitrary: s)
     (auto simp: summarize_target_def summarize_capabilities refs_in_def)

text \<open>C7: \<open>normalize\<close> returns the reasons without repetitions in strictly increasing order, and two
  lists of reasons have the same canonical form exactly when they hold the same reasons.\<close>

theorem normalize_canonical:
  "sorted_wrt Reason_less (normalize rs) \<and> set (normalize rs) = set rs \<and>
   (normalize rs = normalize rs' \<longleftrightarrow> set rs = set rs')"
  using normalize_sorted normalize_cong by (metis set_normalize)

text \<open>The summary groups every capability of every valid target under exactly one heading,
  in assessment order, and lists exactly the invalid targets; nothing is collapsed or lost.\<close>

theorem Summarize_partition:
  "Summarize a =
     \<lparr>sm_Affected = refs_in {Degraded, Unavailable} (a_Targets a), sm_Unaffected = refs_in {Available} (a_Targets a),
      sm_Unknown = refs_in {Unknown} (a_Targets a),
      sm_Invalid = map (\<lambda>t. ti_UID (ta_Target t)) (filter (\<lambda>t. \<not> ta_Valid t) (a_Targets a))\<rparr>"
  by (simp add: Summarize_def summarize_targets Summary_zero_def)

end
