(* ===== verification/SCC_Tarjan.thy ===== *)
theory SCC_Tarjan
  imports Go_Prelude
begin

text \<open>
  Tarjan's search for strongly connected components, as \<open>rejectCycles\<close> of \<open>evaluator.go\<close> runs it
  over the capability graph. The search is stated for any successor function; the recursion is
  bounded by fuel and a result \<open>None\<close> stands for a run that does not return. On a finite graph
  the fuel is never used up (\<open>strongConnect_post\<close>), and what is collected are exactly the
  components on a cycle.
\<close>

section \<open>The search\<close>

text \<open>The variables \<open>index\<close>, \<open>low\<close>, \<open>onStack\<close>, \<open>stack\<close> (here the top is the head),
  \<open>cyclic\<close> and \<open>next\<close> captured by the closure. A missing key of a Go map reads as 0.\<close>

record 'a tarjan =
  tj_index :: "'a \<rightharpoonup> nat"
  tj_low :: "'a \<Rightarrow> nat"
  tj_onStack :: "'a \<Rightarrow> bool"
  tj_stack :: "'a list"
  tj_cyclic :: "'a list list"
  tj_next :: nat

definition tarjan_init :: "'a tarjan" where
  "tarjan_init = \<lparr>tj_index = Map.empty, tj_low = (\<lambda>_. 0), tj_onStack = (\<lambda>_. False), tj_stack = [],
     tj_cyclic = [], tj_next = 0\<rparr>"

definition idx :: "'a tarjan \<Rightarrow> 'a \<Rightarrow> nat" where
  "idx s v = (case tj_index s v of None \<Rightarrow> 0 | Some i \<Rightarrow> i)"

definition sc_enter :: "'a \<Rightarrow> 'a tarjan \<Rightarrow> 'a tarjan" where
  "sc_enter v s = s\<lparr>tj_index := (tj_index s)(v \<mapsto> tj_next s), tj_low := (tj_low s)(v := tj_next s),
     tj_next := Suc (tj_next s), tj_stack := v # tj_stack s, tj_onStack := (tj_onStack s)(v := True)\<rparr>"

definition sc_lower :: "'a \<Rightarrow> nat \<Rightarrow> 'a tarjan \<Rightarrow> 'a tarjan" where
  "sc_lower v k s = s\<lparr>tj_low := (tj_low s)(v := min (tj_low s v) k)\<rparr>"

text \<open>The loop that pops one component; an empty stack would be an index panic.\<close>

fun sc_pop :: "'a \<Rightarrow> 'a list \<Rightarrow> ('a \<Rightarrow> bool) \<Rightarrow> ('a list \<times> 'a list \<times> ('a \<Rightarrow> bool)) option" where
  "sc_pop v [] on = None"
| "sc_pop v (w # ws) on =
     (if w = v then Some ([w], ws, on(w := False))
      else case sc_pop v ws (on(w := False)) of
        None \<Rightarrow> None
      | Some (scc, rest, on') \<Rightarrow> Some (w # scc, rest, on'))"

definition sc_finish :: "'a \<Rightarrow> bool \<Rightarrow> 'a tarjan \<Rightarrow> 'a tarjan option" where
  "sc_finish v selfLoop s =
     (if tj_low s v \<noteq> idx s v then Some s
      else case sc_pop v (tj_stack s) (tj_onStack s) of
        None \<Rightarrow> None
      | Some (scc, rest, on') \<Rightarrow>
          Some (s\<lparr>tj_stack := rest, tj_onStack := on',
             tj_cyclic := (if length scc > 1 \<or> selfLoop then tj_cyclic s @ [scc] else tj_cyclic s)\<rparr>))"

function strongConnect :: "('a \<Rightarrow> 'a list) \<Rightarrow> nat \<Rightarrow> 'a \<Rightarrow> 'a tarjan \<Rightarrow> 'a tarjan option"
  and visitEdges ::
    "('a \<Rightarrow> 'a list) \<Rightarrow> nat \<Rightarrow> 'a \<Rightarrow> 'a list \<Rightarrow> bool \<Rightarrow> 'a tarjan \<Rightarrow> (bool \<times> 'a tarjan) option" where
  "strongConnect succ 0 v s = None"
| "strongConnect succ (Suc fuel) v s =
     (case visitEdges succ fuel v (succ v) False (sc_enter v s) of
        None \<Rightarrow> None
      | Some (selfLoop, s') \<Rightarrow> sc_finish v selfLoop s')"
| "visitEdges succ fuel v [] selfLoop s = Some (selfLoop, s)"
| "visitEdges succ fuel v (w # ws) selfLoop s =
     (if tj_index s w = None then
        (case strongConnect succ fuel w s of
           None \<Rightarrow> None
         | Some s' \<Rightarrow> visitEdges succ fuel v ws (selfLoop \<or> w = v) (sc_lower v (tj_low s' w) s'))
      else visitEdges succ fuel v ws (selfLoop \<or> w = v)
             (if tj_onStack s w then sc_lower v (idx s w) s else s))"
  by pat_completeness auto

termination
  by (relation "measures [
        \<lambda>x. case x of Inl (succ, fuel, v, s) \<Rightarrow> fuel | Inr (succ, fuel, v, ws, b, s) \<Rightarrow> fuel,
        \<lambda>x. case x of Inl (succ, fuel, v, s) \<Rightarrow> 0 | Inr (succ, fuel, v, ws, b, s) \<Rightarrow> Suc (length ws)]")
     auto

fun connectAll :: "('a \<Rightarrow> 'a list) \<Rightarrow> nat \<Rightarrow> 'a list \<Rightarrow> 'a tarjan \<Rightarrow> 'a tarjan option" where
  "connectAll succ fuel [] s = Some s"
| "connectAll succ fuel (n # ns) s =
     (if tj_index s n = None then
        (case strongConnect succ fuel n s of None \<Rightarrow> None | Some s' \<Rightarrow> connectAll succ fuel ns s')
      else connectAll succ fuel ns s)"

section \<open>The invariant\<close>

definition succ_rel :: "('a \<Rightarrow> 'a list) \<Rightarrow> ('a \<times> 'a) set" where
  "succ_rel succ = {(x, y). y \<in> set (succ x)}"

definition visited :: "'a tarjan \<Rightarrow> 'a set" where
  "visited s = dom (tj_index s)"

lemma index_None_iff: "tj_index s w = None \<longleftrightarrow> w \<notin> visited s"
  by (auto simp: visited_def)

text \<open>The component of a node: what it reaches and is reached by.\<close>

definition component :: "('a \<Rightarrow> 'a list) \<Rightarrow> 'a \<Rightarrow> 'a set" where
  "component succ x = {y. (x, y) \<in> (succ_rel succ)\<^sup>* \<and> (y, x) \<in> (succ_rel succ)\<^sup>*}"

text \<open>
  \<open>G\<close> are the nodes of the open calls. Stack nodes are ordered by index; an open node reaches
  every stack node above it, and every stack node reaches an open node below it. Popped nodes
  are closed under successors, and the collected components are those popped ones on a cycle.
\<close>

definition stack_inv :: "'a set \<Rightarrow> 'a tarjan \<Rightarrow> bool" where
  "stack_inv G s \<longleftrightarrow>
     sorted_wrt (\<lambda>x y. idx s y < idx s x) (tj_stack s) \<and>
     (\<forall>x. tj_onStack s x \<longleftrightarrow> x \<in> set (tj_stack s)) \<and>
     set (tj_stack s) \<subseteq> visited s \<and> G \<subseteq> set (tj_stack s) \<and>
     (\<forall>x \<in> visited s. idx s x < tj_next s)"

definition reach_inv :: "('a \<Rightarrow> 'a list) \<Rightarrow> 'a set \<Rightarrow> 'a tarjan \<Rightarrow> bool" where
  "reach_inv succ G s \<longleftrightarrow>
     (\<forall>x \<in> visited s - G. set (succ x) \<subseteq> visited s) \<and>
     (\<forall>x \<in> visited s - set (tj_stack s). set (succ x) \<subseteq> visited s - set (tj_stack s)) \<and>
     (\<forall>x \<in> G. \<forall>y \<in> set (tj_stack s). idx s x \<le> idx s y \<longrightarrow> (x, y) \<in> (succ_rel succ)\<^sup>*) \<and>
     (\<forall>y \<in> set (tj_stack s). \<exists>x \<in> G. idx s x \<le> idx s y \<and> (y, x) \<in> (succ_rel succ)\<^sup>*)"

definition cyclic_inv :: "('a \<Rightarrow> 'a list) \<Rightarrow> 'a tarjan \<Rightarrow> bool" where
  "cyclic_inv succ s \<longleftrightarrow>
     (\<Union>C \<in> set (tj_cyclic s). set C) =
       {x \<in> visited s - set (tj_stack s). (x, x) \<in> (succ_rel succ)\<^sup>+} \<and>
     (\<forall>C \<in> set (tj_cyclic s). \<forall>x \<in> set C. set C = component succ x)"

definition tarjan_inv :: "('a \<Rightarrow> 'a list) \<Rightarrow> 'a set \<Rightarrow> 'a tarjan \<Rightarrow> bool" where
  "tarjan_inv succ G s \<longleftrightarrow> stack_inv G s \<and> reach_inv succ G s \<and> cyclic_inv succ s"

lemma reach_invD:
  assumes "reach_inv succ G s"
  shows "x \<in> visited s \<Longrightarrow> x \<notin> G \<Longrightarrow> set (succ x) \<subseteq> visited s"
    and "x \<in> visited s - set (tj_stack s) \<Longrightarrow> set (succ x) \<subseteq> visited s - set (tj_stack s)"
    and "x \<in> G \<Longrightarrow> y \<in> set (tj_stack s) \<Longrightarrow> idx s x \<le> idx s y \<Longrightarrow> (x, y) \<in> (succ_rel succ)\<^sup>*"
    and "y \<in> set (tj_stack s) \<Longrightarrow> \<exists>x \<in> G. idx s x \<le> idx s y \<and> (y, x) \<in> (succ_rel succ)\<^sup>*"
  using assms unfolding reach_inv_def by simp_all

text \<open>The low link of the node \<open>v\<close> whose edges are being followed.\<close>

definition low_inv :: "('a \<Rightarrow> 'a list) \<Rightarrow> 'a \<Rightarrow> 'a tarjan \<Rightarrow> bool" where
  "low_inv succ v s \<longleftrightarrow>
     tj_low s v \<le> idx s v \<and>
     (tj_low s v = idx s v \<or>
      (\<exists>x \<in> set (tj_stack s). idx s x = tj_low s v \<and> (v, x) \<in> (succ_rel succ)\<^sup>*)) \<and>
     (\<forall>y \<in> set (tj_stack s). idx s v < idx s y \<longrightarrow>
        (\<forall>z \<in> set (succ y). z \<in> set (tj_stack s) \<and> idx s z < idx s v \<longrightarrow> tj_low s v \<le> idx s z))"

text \<open>What a call keeps of the state it starts in: \<open>X\<close> are the nodes whose low link it may
  lower.\<close>

definition extends :: "'a set \<Rightarrow> 'a tarjan \<Rightarrow> 'a tarjan \<Rightarrow> bool" where
  "extends X s s' \<longleftrightarrow>
     visited s \<subseteq> visited s' \<and>
     (\<forall>x \<in> visited s. tj_index s' x = tj_index s x \<and> tj_low s' x \<le> tj_low s x \<and>
        (x \<notin> X \<longrightarrow> tj_low s' x = tj_low s x)) \<and>
     (\<exists>ys. tj_stack s' = ys @ tj_stack s \<and> set ys \<inter> visited s = {}) \<and>
     tj_next s \<le> tj_next s' \<and> (\<forall>x \<in> visited s' - visited s. tj_next s \<le> idx s' x)"

lemma idx_extends: "extends X s s' \<Longrightarrow> x \<in> visited s \<Longrightarrow> idx s' x = idx s x"
  by (auto simp: extends_def idx_def)

lemma extends_refl [simp]: "extends X s s"
  by (auto simp: extends_def)

lemma extends_trans:
  assumes "extends X s t" and "extends Y t u" and "Y \<inter> visited s \<subseteq> X"
  shows "extends X s u"
proof -
  have st: "visited s \<subseteq> visited t" and tu: "visited t \<subseteq> visited u"
    and nst: "tj_next s \<le> tj_next t" and ntu: "tj_next t \<le> tj_next u"
    using assms(1,2) by (simp_all add: extends_def)
  obtain ys zs where stacks: "tj_stack t = ys @ tj_stack s" "set ys \<inter> visited s = {}"
      "tj_stack u = zs @ tj_stack t" "set zs \<inter> visited t = {}"
    using assms(1,2) by (auto simp: extends_def)
  have old: "tj_index u x = tj_index s x \<and> tj_low u x \<le> tj_low s x \<and>
      (x \<notin> X \<longrightarrow> tj_low u x = tj_low s x)" if "x \<in> visited s" for x
  proof -
    have "tj_index t x = tj_index s x \<and> tj_low t x \<le> tj_low s x \<and> (x \<notin> X \<longrightarrow> tj_low t x = tj_low s x)"
      using assms(1) that by (simp add: extends_def)
    moreover have "tj_index u x = tj_index t x \<and> tj_low u x \<le> tj_low t x \<and>
        (x \<notin> Y \<longrightarrow> tj_low u x = tj_low t x)"
      using assms(2) that st by (simp add: extends_def subset_iff)
    ultimately show ?thesis using assms(3) that by force
  qed
  have new: "tj_next s \<le> idx u x" if "x \<in> visited u - visited s" for x
  proof (cases "x \<in> visited t")
    case True
    with assms(1) that have "tj_next s \<le> idx t x" by (simp add: extends_def)
    with idx_extends [OF assms(2) True] show ?thesis by simp
  next
    case False
    with assms(2) that have "tj_next t \<le> idx u x" by (simp add: extends_def)
    with nst show ?thesis by simp
  qed
  have "set (zs @ ys) \<inter> visited s = {}" using stacks(2,4) st by auto
  then have "\<exists>ys. tj_stack u = ys @ tj_stack s \<and> set ys \<inter> visited s = {}"
    using stacks by (intro exI [of _ "zs @ ys"]) simp
  with old new st tu nst ntu show ?thesis
    unfolding extends_def by (simp add: subset_trans)
qed

lemma extends_stack_iff:
  "extends X s s' \<Longrightarrow> x \<in> visited s \<Longrightarrow> x \<in> set (tj_stack s') \<longleftrightarrow> x \<in> set (tj_stack s)"
  by (auto simp: extends_def)

lemma extends_old:
  "extends X s s' \<Longrightarrow> x \<in> visited s' \<Longrightarrow> idx s' x < tj_next s \<Longrightarrow> x \<in> visited s"
  unfolding extends_def by (meson DiffI leD)

section \<open>Entering a node and following one edge\<close>

lemma enter_simps [simp]:
  "visited (sc_enter v s) = insert v (visited s)" "tj_stack (sc_enter v s) = v # tj_stack s"
  "tj_next (sc_enter v s) = Suc (tj_next s)" "tj_cyclic (sc_enter v s) = tj_cyclic s"
  "idx (sc_enter v s) = (idx s)(v := tj_next s)"
  "tj_low (sc_enter v s) = (tj_low s)(v := tj_next s)"
  "tj_onStack (sc_enter v s) = (tj_onStack s)(v := True)"
  by (auto simp: sc_enter_def visited_def idx_def fun_eq_iff)

lemma lower_simps [simp]:
  "visited (sc_lower v k s) = visited s" "tj_stack (sc_lower v k s) = tj_stack s"
  "tj_next (sc_lower v k s) = tj_next s" "tj_cyclic (sc_lower v k s) = tj_cyclic s"
  "idx (sc_lower v k s) = idx s" "tj_onStack (sc_lower v k s) = tj_onStack s"
  "tj_low (sc_lower v k s) = (tj_low s)(v := min (tj_low s v) k)"
  by (auto simp: sc_lower_def visited_def idx_def fun_eq_iff)

lemma tarjan_inv_lower [simp]: "tarjan_inv succ G (sc_lower v k s) \<longleftrightarrow> tarjan_inv succ G s"
  by (simp add: tarjan_inv_def stack_inv_def reach_inv_def cyclic_inv_def)

lemma extends_lower [simp]: "extends {v} s (sc_lower v k s)"
  by (auto simp: extends_def sc_lower_def visited_def idx_def)

lemma extends_enter: "v \<notin> visited s \<Longrightarrow> extends X s (sc_enter v s)"
  by (auto simp: extends_def sc_enter_def visited_def idx_def)

lemma tarjan_inv_enter:
  assumes inv: "tarjan_inv succ G s" and v: "v \<notin> visited s"
    and reach: "\<And>g. g \<in> G \<Longrightarrow> (g, v) \<in> (succ_rel succ)\<^sup>*"
  shows "tarjan_inv succ (insert v G) (sc_enter v s)" and "low_inv succ v (sc_enter v s)"
proof -
  have stk: "stack_inv G s" and rch: "reach_inv succ G s" and cyc: "cyclic_inv succ s"
    using inv by (simp_all add: tarjan_inv_def)
  have sub: "set (tj_stack s) \<subseteq> visited s" "G \<subseteq> set (tj_stack s)" "v \<notin> set (tj_stack s)" "v \<notin> G"
    and lt: "\<And>x. x \<in> visited s \<Longrightarrow> idx s x < tj_next s"
    using stk v by (auto simp: stack_inv_def)
  have lt': "\<And>x. x \<in> set (tj_stack s) \<Longrightarrow> idx s x < tj_next s" using lt sub by blast
  have ne: "\<And>x. x \<in> visited s \<Longrightarrow> x \<noteq> v" "\<And>x. x \<in> set (tj_stack s) \<Longrightarrow> x \<noteq> v" using v sub by auto
  have sorted: "sorted_wrt (\<lambda>x y. ((idx s)(v := tj_next s)) y < ((idx s)(v := tj_next s)) x) (tj_stack s)"
    using stk ne(2) by (auto simp: stack_inv_def intro: sorted_wrt_mono_rel [rotated])
  have 1: "stack_inv (insert v G) (sc_enter v s)"
    using stk sub lt' sorted lt v unfolding stack_inv_def by (auto simp: less_Suc_eq)
  have popped: "insert v (visited s) - set (v # tj_stack s) = visited s - set (tj_stack s)"
    using v by auto
  have 2: "reach_inv succ (insert v G) (sc_enter v s)"
    unfolding reach_inv_def
  proof (intro conjI ballI impI)
    fix x assume "x \<in> visited (sc_enter v s) - insert v G"
    then show "set (succ x) \<subseteq> visited (sc_enter v s)" using rch by (auto simp: reach_inv_def)
  next
    fix x assume "x \<in> visited (sc_enter v s) - set (tj_stack (sc_enter v s))"
    then have "x \<in> visited s - set (tj_stack s)" by auto
    then have "set (succ x) \<subseteq> visited s - set (tj_stack s)" using rch by (simp add: reach_inv_def)
    then show "set (succ x) \<subseteq> visited (sc_enter v s) - set (tj_stack (sc_enter v s))"
      using v by auto
  next
    fix x y
    assume x: "x \<in> insert v G" and y: "y \<in> set (tj_stack (sc_enter v s))"
      and le: "idx (sc_enter v s) x \<le> idx (sc_enter v s) y"
    show "(x, y) \<in> (succ_rel succ)\<^sup>*"
    proof (cases "y = v")
      case True
      with x reach show ?thesis by auto
    next
      case False
      then have y': "y \<in> set (tj_stack s)" using y by simp
      with le lt' [OF y'] False have "x \<noteq> v" by auto
      with x y' le False rch show ?thesis by (auto simp: reach_inv_def)
    qed
  next
    fix y assume y: "y \<in> set (tj_stack (sc_enter v s))"
    show "\<exists>x\<in>insert v G. idx (sc_enter v s) x \<le> idx (sc_enter v s) y \<and> (y, x) \<in> (succ_rel succ)\<^sup>*"
    proof (cases "y = v")
      case False
      then obtain x where x: "x \<in> G" "idx s x \<le> idx s y" "(y, x) \<in> (succ_rel succ)\<^sup>*"
        using y rch by (auto simp: reach_inv_def)
      with False sub(4) show ?thesis by (intro bexI [of _ x]) auto
    qed auto
  qed
  have 3: "cyclic_inv succ (sc_enter v s)"
    using cyc popped by (simp add: cyclic_inv_def)
  show "tarjan_inv succ (insert v G) (sc_enter v s)"
    using 1 2 3 by (simp add: tarjan_inv_def)
  show "low_inv succ v (sc_enter v s)"
    using lt' by (force simp: low_inv_def)
qed

section \<open>Closing a node\<close>

lemma sc_pop_split:
  "v \<notin> set ys \<Longrightarrow> sc_pop v (ys @ v # zs) on = Some (ys @ [v], zs, \<lambda>x. on x \<and> x \<notin> set (ys @ [v]))"
  by (induction ys arbitrary: on) (auto simp: fun_eq_iff)

lemma closed_rtrancl: "(x, y) \<in> r\<^sup>* \<Longrightarrow> x \<in> A \<Longrightarrow> (\<And>a b. a \<in> A \<Longrightarrow> (a, b) \<in> r \<Longrightarrow> b \<in> A) \<Longrightarrow> y \<in> A"
  by (induction rule: rtrancl_induct) auto

text \<open>The state just before \<open>v\<close> is closed: all its edges have been followed.\<close>

definition closing :: "('a \<Rightarrow> 'a list) \<Rightarrow> 'a set \<Rightarrow> 'a \<Rightarrow> 'a tarjan \<Rightarrow> bool" where
  "closing succ G v s \<longleftrightarrow>
     tarjan_inv succ (insert v G) s \<and> low_inv succ v s \<and> (\<forall>g \<in> G. idx s g < idx s v) \<and>
     (\<forall>w \<in> set (succ v). w \<in> visited s \<and>
        (w \<in> set (tj_stack s) \<and> idx s w < idx s v \<longrightarrow> tj_low s v \<le> idx s w))"

lemma closing_keep:
  assumes c: "closing succ G v s" and low: "tj_low s v \<noteq> idx s v"
  shows "tarjan_inv succ G s"
proof -
  have inv: "stack_inv (insert v G) s" "reach_inv succ (insert v G) s" "cyclic_inv succ s"
    and G: "\<And>g. g \<in> G \<Longrightarrow> idx s g < idx s v"
    and lv: "low_inv succ v s" and sv: "set (succ v) \<subseteq> visited s"
    using c by (auto simp: closing_def tarjan_inv_def)
  from lv low obtain x where x: "x \<in> set (tj_stack s)" "idx s x < idx s v"
      "(v, x) \<in> (succ_rel succ)\<^sup>*"
    by (auto simp: low_inv_def)
  have "\<exists>x \<in> G. idx s x \<le> idx s y \<and> (y, x) \<in> (succ_rel succ)\<^sup>*" if y: "y \<in> set (tj_stack s)" for y
  proof -
    obtain a where a: "a \<in> insert v G" "idx s a \<le> idx s y" "(y, a) \<in> (succ_rel succ)\<^sup>*"
      using reach_invD(4) [OF inv(2) y] by blast
    obtain b where b: "b \<in> insert v G" "idx s b \<le> idx s x" "(x, b) \<in> (succ_rel succ)\<^sup>*"
      using reach_invD(4) [OF inv(2) x(1)] by blast
    show ?thesis
    proof (cases "a = v")
      case True
      have "(y, b) \<in> (succ_rel succ)\<^sup>*"
        using a(3) x(3) b(3) True by (meson rtrancl_trans)
      moreover have "b \<in> G" using b x(2) by auto
      ultimately show ?thesis using True a(2) b(2) x(2) by (intro bexI [of _ b]) auto
    next
      case False
      with a show ?thesis by auto
    qed
  qed
  then have "reach_inv succ G s" using inv(2) sv by (auto simp: reach_inv_def)
  then show ?thesis using inv by (auto simp: tarjan_inv_def stack_inv_def)
qed

lemma closing_component:
  assumes c: "closing succ G v s" and low: "tj_low s v = idx s v"
    and stack: "tj_stack s = ys @ v # zs"
  shows "set (ys @ [v]) = {y \<in> set (tj_stack s). idx s v \<le> idx s y}"
    and "y \<in> set (ys @ [v]) \<Longrightarrow>
           set (succ y) \<subseteq> set (ys @ [v]) \<union> (visited s - set (tj_stack s))"
    and "x \<in> set (ys @ [v]) \<Longrightarrow> component succ x = set (ys @ [v])"
proof -
  let ?C = "set (ys @ [v])" and ?P = "visited s - set (tj_stack s)"
  have stk: "stack_inv (insert v G) s" and rch: "reach_inv succ (insert v G) s"
    and G: "\<And>g. g \<in> G \<Longrightarrow> idx s g < idx s v" and lv: "low_inv succ v s"
    and sv: "\<And>w. w \<in> set (succ v) \<Longrightarrow> w \<in> visited s"
    and slow: "\<And>w. w \<in> set (succ v) \<Longrightarrow> w \<in> set (tj_stack s) \<Longrightarrow> idx s w < idx s v \<Longrightarrow> False"
    using c low by (auto simp: closing_def tarjan_inv_def)
  have ord: "\<And>y. y \<in> set ys \<Longrightarrow> idx s v < idx s y" "\<And>z. z \<in> set zs \<Longrightarrow> idx s z < idx s v"
    using stk by (auto simp: stack_inv_def stack sorted_wrt_append)
  show C: "?C = {y \<in> set (tj_stack s). idx s v \<le> idx s y}"
    using ord stack by fastforce
  have edges: "set (succ y) \<subseteq> ?C \<union> ?P" if y: "y \<in> ?C" for y
  proof
    fix z assume z: "z \<in> set (succ y)"
    have "y \<in> visited s" using y stk stack by (auto simp: stack_inv_def)
    moreover have "y \<in> G \<Longrightarrow> False" using y C G [of y] by auto
    ultimately have "z \<in> visited s" using z sv reach_invD(1) [OF rch, of y] by (cases "y = v") auto
    moreover have "\<not> idx s z < idx s v" if zs: "z \<in> set (tj_stack s)"
    proof (cases "y = v")
      case True
      with z zs slow show ?thesis by blast
    next
      case False
      with y ord(1) have "idx s v < idx s y" and "y \<in> set (tj_stack s)" by (auto simp: stack)
      then have "idx s z < idx s v \<Longrightarrow> tj_low s v \<le> idx s z"
        using lv z zs unfolding low_inv_def by blast
      with low show ?thesis by linarith
    qed
    ultimately show "z \<in> ?C \<union> ?P" unfolding C by auto
  qed
  then show "y \<in> ?C \<Longrightarrow> set (succ y) \<subseteq> ?C \<union> ?P" .
  have closed: "b \<in> ?C \<union> ?P" if ab: "a \<in> ?C \<union> ?P" "(a, b) \<in> succ_rel succ" for a b
  proof -
    have "b \<in> set (succ a)" using ab(2) by (simp add: succ_rel_def)
    with ab(1) edges [of a] reach_invD(2) [OF rch, of a] show ?thesis by blast
  qed
  have closedP: "\<And>a b. a \<in> ?P \<Longrightarrow> (a, b) \<in> succ_rel succ \<Longrightarrow> b \<in> ?P"
    using reach_invD(2) [OF rch] unfolding succ_rel_def by blast
  have from_v: "(v, y) \<in> (succ_rel succ)\<^sup>*" if "y \<in> ?C" for y
    using reach_invD(3) [OF rch, of v y] that C by blast
  have to_v: "(y, v) \<in> (succ_rel succ)\<^sup>*" if y: "y \<in> ?C" for y
  proof -
    obtain x where x: "x \<in> insert v G" "(y, x) \<in> (succ_rel succ)\<^sup>*"
      using reach_invD(4) [OF rch, of y] y C by blast
    have "x \<in> ?C \<union> ?P"
      by (rule closed_rtrancl [OF x(2)]) (use y closed in blast)+
    moreover have "x \<in> set (tj_stack s)" using x(1) stk by (auto simp: stack_inv_def)
    ultimately have "x \<in> ?C" by blast
    then have "idx s v \<le> idx s x" unfolding C by simp
    then have "x = v" using x(1) G [of x] by auto
    with x(2) show ?thesis by simp
  qed
  show "component succ x = ?C" if x: "x \<in> ?C"
  proof
    show "?C \<subseteq> component succ x"
      using x from_v to_v unfolding component_def by (blast intro: rtrancl_trans)
    show "component succ x \<subseteq> ?C"
    proof
      fix y assume y: "y \<in> component succ x"
      then have xy: "(x, y) \<in> (succ_rel succ)\<^sup>*" "(y, x) \<in> (succ_rel succ)\<^sup>*"
        by (simp_all add: component_def)
      have "y \<in> ?C \<union> ?P"
        by (rule closed_rtrancl [OF xy(1)]) (use x closed in blast)+
      moreover have "y \<notin> ?P"
      proof
        assume "y \<in> ?P"
        then have "x \<in> ?P" by (rule closed_rtrancl [OF xy(2)]) (rule closedP)
        then show False using x stack by auto
      qed
      ultimately show "y \<in> ?C" by blast
    qed
  qed
qed

lemma component_cyclic_iff:
  assumes "component succ v = C" and "x \<in> C"
  shows "(x, x) \<in> (succ_rel succ)\<^sup>+ \<longleftrightarrow> C \<noteq> {v} \<or> v \<in> set (succ v)"
proof -
  have v: "v \<in> C" using assms(1) by (auto simp: component_def)
  have xv: "(x, v) \<in> (succ_rel succ)\<^sup>*" "(v, x) \<in> (succ_rel succ)\<^sup>*"
    using assms by (auto simp: component_def)
  have "(v, v) \<in> (succ_rel succ)\<^sup>+" if "y \<in> C" "y \<noteq> v" for y
    using that assms(1) by (auto simp: component_def dest!: rtranclD)
  moreover have "(v, v) \<in> (succ_rel succ)\<^sup>+" if "v \<in> set (succ v)"
    using that by (auto simp: succ_rel_def)
  moreover have "v \<in> set (succ v)" if cyc: "(v, v) \<in> (succ_rel succ)\<^sup>+" and "C = {v}"
  proof -
    obtain w where w: "(v, w) \<in> succ_rel succ" "(w, v) \<in> (succ_rel succ)\<^sup>*"
      using cyc by (meson tranclD)
    then have "w \<in> C" using assms(1) by (auto simp: component_def)
    with w that show ?thesis by (simp add: succ_rel_def)
  qed
  ultimately have "(v, v) \<in> (succ_rel succ)\<^sup>+ \<longleftrightarrow> C \<noteq> {v} \<or> v \<in> set (succ v)" using v by blast
  moreover have "(x, x) \<in> (succ_rel succ)\<^sup>+ \<longleftrightarrow> (v, v) \<in> (succ_rel succ)\<^sup>+"
    using xv by (meson rtrancl_trancl_trancl trancl_rtrancl_trancl)
  ultimately show ?thesis by simp
qed

lemma closing_pop:
  assumes c: "closing succ G v s" and low: "tj_low s v = idx s v"
    and stack: "tj_stack s = ys @ v # zs"
    and s': "s' = s\<lparr>tj_stack := zs, tj_onStack := (\<lambda>x. tj_onStack s x \<and> x \<notin> set (ys @ [v])),
       tj_cyclic := (if length (ys @ [v]) > 1 \<or> v \<in> set (succ v) then tj_cyclic s @ [ys @ [v]]
                     else tj_cyclic s)\<rparr>"
  shows "tarjan_inv succ G s'"
proof -
  let ?C = "set (ys @ [v])"
  have stk: "stack_inv (insert v G) s" and rch: "reach_inv succ (insert v G) s"
    and cyc: "cyclic_inv succ s" and G: "\<And>g. g \<in> G \<Longrightarrow> idx s g < idx s v"
    using c by (auto simp: closing_def tarjan_inv_def)
  note comp = closing_component [OF c low stack]
  have [simp]: "visited s' = visited s" "idx s' = idx s" "tj_stack s' = zs" "tj_next s' = tj_next s"
    by (auto simp: s' visited_def idx_def fun_eq_iff)
  have on: "tj_onStack s' = (\<lambda>x. tj_onStack s x \<and> x \<notin> set (ys @ [v]))"
    and cl: "tj_cyclic s' = (if length (ys @ [v]) > 1 \<or> v \<in> set (succ v)
      then tj_cyclic s @ [ys @ [v]] else tj_cyclic s)"
    by (simp_all add: s')
  have zs: "\<And>z. z \<in> set zs \<Longrightarrow> idx s z < idx s v" "\<And>z. z \<in> set zs \<Longrightarrow> z \<notin> ?C" and vys: "v \<notin> set ys"
    using stk by (force simp: stack_inv_def stack sorted_wrt_append)+
  have Gzs: "G \<subseteq> set zs"
  proof
    fix g assume g: "g \<in> G"
    then have "g \<in> set (tj_stack s)" using stk by (auto simp: stack_inv_def)
    moreover have "g \<notin> ?C" using G [OF g] unfolding comp(1) by auto
    ultimately show "g \<in> set zs" by (auto simp: stack)
  qed
  have popped: "visited s - set zs = (visited s - set (tj_stack s)) \<union> ?C"
    using stk zs(2) by (auto simp: stack_inv_def stack)
  have 1: "stack_inv G s'"
    using stk Gzs zs(2) unfolding stack_inv_def by (auto simp: on stack sorted_wrt_append)
  have 2: "reach_inv succ G s'"
    unfolding reach_inv_def
  proof (intro conjI ballI impI)
    fix x assume x: "x \<in> visited s' - G"
    show "set (succ x) \<subseteq> visited s'"
      using x c reach_invD(1) [OF rch, of x] by (cases "x = v") (auto simp: closing_def)
  next
    fix x assume "x \<in> visited s' - set (tj_stack s')"
    then have "x \<in> (visited s - set (tj_stack s)) \<union> ?C" by (simp add: popped del: set_append)
    then have "set (succ x) \<subseteq> (visited s - set (tj_stack s)) \<union> ?C"
      using comp(2) [of x] reach_invD(2) [OF rch, of x] by blast
    then show "set (succ x) \<subseteq> visited s' - set (tj_stack s')" by (simp add: popped del: set_append)
  next
    fix x y assume "x \<in> G" "y \<in> set (tj_stack s')" "idx s' x \<le> idx s' y"
    then show "(x, y) \<in> (succ_rel succ)\<^sup>*" using reach_invD(3) [OF rch, of x y] by (simp add: stack)
  next
    fix y assume y: "y \<in> set (tj_stack s')"
    then obtain x where "x \<in> insert v G" "idx s x \<le> idx s y" "(y, x) \<in> (succ_rel succ)\<^sup>*"
      using reach_invD(4) [OF rch, of y] by (auto simp: stack)
    with zs(1) [of y] y show "\<exists>x\<in>G. idx s' x \<le> idx s' y \<and> (y, x) \<in> (succ_rel succ)\<^sup>*" by force
  qed
  have compv: "component succ v = ?C" by (rule comp(3)) simp
  have size: "length (ys @ [v]) > 1 \<longleftrightarrow> ?C \<noteq> {v}"
    using vys by (cases ys) auto
  have cycC: "{x \<in> ?C. (x, x) \<in> (succ_rel succ)\<^sup>+} =
      (if length (ys @ [v]) > 1 \<or> v \<in> set (succ v) then ?C else {})"
    unfolding size using component_cyclic_iff [OF compv] by auto
  have union: "(\<Union>C \<in> set (tj_cyclic s'). set C) = (\<Union>C \<in> set (tj_cyclic s). set C) \<union>
      (if length (ys @ [v]) > 1 \<or> v \<in> set (succ v) then ?C else {})"
    unfolding cl by auto
  have split: "{x \<in> visited s' - set (tj_stack s'). (x, x) \<in> (succ_rel succ)\<^sup>+} =
      {x \<in> visited s - set (tj_stack s). (x, x) \<in> (succ_rel succ)\<^sup>+} \<union>
      {x \<in> ?C. (x, x) \<in> (succ_rel succ)\<^sup>+}"
    using popped by auto
  have "\<forall>C \<in> set (tj_cyclic s'). \<forall>x \<in> set C. set C = component succ x"
  proof (intro ballI)
    fix C x assume "C \<in> set (tj_cyclic s')" and x: "x \<in> set C"
    then consider "C \<in> set (tj_cyclic s)" | "C = ys @ [v]" by (auto simp: cl split: if_splits)
    then show "set C = component succ x"
      using cyc comp(3) [of x] x by cases (simp_all add: cyclic_inv_def)
  qed
  then have 3: "cyclic_inv succ s'"
    using cyc unfolding cyclic_inv_def union split cycC by blast
  show ?thesis using 1 2 3 by (simp add: tarjan_inv_def)
qed

section \<open>The search as a whole\<close>

definition connect_post ::
  "('a \<Rightarrow> 'a list) \<Rightarrow> 'a set \<Rightarrow> 'a set \<Rightarrow> 'a \<Rightarrow> 'a tarjan \<Rightarrow> 'a tarjan \<Rightarrow> bool" where
  "connect_post succ U G v s s' \<longleftrightarrow>
     tarjan_inv succ G s' \<and> extends {} s s' \<and> visited s' \<subseteq> U \<and> v \<in> visited s' \<and>
     tj_low s' v \<le> idx s' v \<and>
     (tj_low s' v = idx s' v \<or>
      (\<exists>x \<in> set (tj_stack s'). idx s' x = tj_low s' v \<and> (v, x) \<in> (succ_rel succ)\<^sup>*)) \<and>
     (\<forall>y \<in> set (tj_stack s') - set (tj_stack s). \<forall>z \<in> set (succ y).
        z \<in> set (tj_stack s) \<longrightarrow> tj_low s' v \<le> idx s' z)"

definition edges_post ::
  "('a \<Rightarrow> 'a list) \<Rightarrow> 'a set \<Rightarrow> 'a set \<Rightarrow> 'a \<Rightarrow> 'a list \<Rightarrow> 'a tarjan \<Rightarrow> 'a tarjan \<Rightarrow> bool" where
  "edges_post succ U G v ws s s' \<longleftrightarrow>
     tarjan_inv succ G s' \<and> extends {v} s s' \<and> visited s' \<subseteq> U \<and> low_inv succ v s' \<and>
     (\<forall>w \<in> set ws. w \<in> visited s' \<and>
        (w \<in> set (tj_stack s') \<and> idx s' w < idx s' v \<longrightarrow> tj_low s' v \<le> idx s' w))"

lemma tarjan_invD:
  assumes "tarjan_inv succ G s"
  shows "stack_inv G s" "reach_inv succ G s" "cyclic_inv succ s"
    and "set (tj_stack s) \<subseteq> visited s" "G \<subseteq> set (tj_stack s)"
    and "x \<in> visited s \<Longrightarrow> idx s x < tj_next s"
    and "tj_onStack s x \<longleftrightarrow> x \<in> set (tj_stack s)"
  using assms by (auto simp: tarjan_inv_def stack_inv_def)

text \<open>Following an edge to a node visited before.\<close>

lemma low_inv_old_edge:
  assumes inv: "tarjan_inv succ G s" and low: "low_inv succ v s" and w: "w \<in> set (succ v)"
    and on: "tj_onStack s w"
  shows "low_inv succ v (sc_lower v (idx s w) s)"
proof -
  have "w \<in> set (tj_stack s)" using inv on by (simp add: tarjan_invD(7))
  moreover have "(v, w) \<in> (succ_rel succ)\<^sup>*" using w by (auto simp: succ_rel_def)
  ultimately have "min (tj_low s v) (idx s w) = idx s v \<or>
      (\<exists>x \<in> set (tj_stack s). idx s x = min (tj_low s v) (idx s w) \<and> (v, x) \<in> (succ_rel succ)\<^sup>*)"
    using low unfolding low_inv_def min_def by (auto split: if_splits)
  then show ?thesis using low unfolding low_inv_def by (auto simp: min.coboundedI1)
qed

text \<open>Following an edge to a new node: its low link covers the edges out of its subtree.\<close>

lemma low_inv_new_edge:
  assumes inv: "tarjan_inv succ G s" and v: "v \<in> G" and low: "low_inv succ v s"
    and w: "w \<in> set (succ v)" "w \<notin> visited s" and post: "connect_post succ U G w s s'"
  shows "low_inv succ v (sc_lower v (tj_low s' w) s')"
proof -
  have ext: "extends {} s s'" and lw: "tj_low s' w \<le> idx s' w" and w': "w \<in> visited s'"
    using post by (simp_all add: connect_post_def)
  have vs: "v \<in> visited s" using v inv tarjan_invD(4,5) by blast
  have vlow: "tj_low s' v = tj_low s v" using ext vs by (simp add: extends_def)
  have vidx: "idx s' v = idx s v" using ext vs by (rule idx_extends)
  have "idx s v < tj_next s" using inv vs by (rule tarjan_invD(6))
  moreover have "tj_next s \<le> idx s' w" using ext w(2) w' by (simp add: extends_def)
  ultimately have wv: "idx s' v < idx s' w" and vnext: "idx s v < tj_next s" using vidx by simp_all
  have keep: "x \<in> set (tj_stack s')" "idx s' x = idx s x" if "x \<in> set (tj_stack s)" for x
  proof -
    have "x \<in> visited s" using that tarjan_invD(4) [OF inv] by blast
    then show "x \<in> set (tj_stack s')" "idx s' x = idx s x"
      using that by (simp_all add: extends_stack_iff [OF ext] idx_extends [OF ext])
  qed
  have vw: "(v, w) \<in> (succ_rel succ)\<^sup>*" using w(1) by (auto simp: succ_rel_def)
  let ?l = "min (tj_low s v) (tj_low s' w)"
  have "?l = idx s' v \<or> (\<exists>x \<in> set (tj_stack s'). idx s' x = ?l \<and> (v, x) \<in> (succ_rel succ)\<^sup>*)"
  proof (cases "tj_low s v \<le> tj_low s' w")
    case True
    then have l: "?l = tj_low s v" by simp
    show ?thesis unfolding l using low keep vidx unfolding low_inv_def by metis
  next
    case False
    then have l: "?l = tj_low s' w" by simp
    have "tj_low s v \<le> idx s v" using low by (simp add: low_inv_def)
    with False wv vidx have "tj_low s' w \<noteq> idx s' w" by simp
    then obtain x where "x \<in> set (tj_stack s')" "idx s' x = tj_low s' w" "(w, x) \<in> (succ_rel succ)\<^sup>*"
      using post unfolding connect_post_def by blast
    then show ?thesis unfolding l using vw by (meson rtrancl_trans)
  qed
  moreover have "?l \<le> idx s' z"
    if y: "y \<in> set (tj_stack s')" "idx s' v < idx s' y" and z: "z \<in> set (succ y)"
      "z \<in> set (tj_stack s')" "idx s' z < idx s' v" for y z
  proof -
    have "z \<in> visited s'" using z(2) post tarjan_invD(4) unfolding connect_post_def by blast
    moreover have "idx s' z < tj_next s" using z(3) vidx vnext by simp
    ultimately have zs: "z \<in> visited s" using ext by (metis extends_old)
    then have zst: "z \<in> set (tj_stack s)" and zi: "idx s' z = idx s z"
      using z(2) by (simp_all add: extends_stack_iff [OF ext] idx_extends [OF ext])
    show ?thesis
    proof (cases "y \<in> visited s")
      case True
      then have "y \<in> set (tj_stack s)" "idx s' y = idx s y"
        using y(1) by (simp_all add: extends_stack_iff [OF ext] idx_extends [OF ext])
      with low y z zst zi vidx have "tj_low s v \<le> idx s z" unfolding low_inv_def by metis
      with zi show ?thesis by simp
    next
      case False
      then have "y \<notin> set (tj_stack s)" using inv tarjan_invD(4) by blast
      with post y z zst have "tj_low s' w \<le> idx s' z" unfolding connect_post_def by blast
      then show ?thesis by simp
    qed
  qed
  moreover have "?l \<le> idx s' v" using low vidx by (simp add: low_inv_def min.coboundedI1)
  ultimately show ?thesis unfolding low_inv_def by (simp add: vlow)
qed

lemma edges_post_step:
  assumes post: "edges_post succ U G v ws t s'" and ext: "extends {v} s t"
    and v: "v \<in> visited s" and w: "w \<in> visited t"
    and low: "w \<in> set (tj_stack t) \<Longrightarrow> idx t w < idx t v \<Longrightarrow> tj_low t v \<le> idx t w"
  shows "edges_post succ U G v (w # ws) s s'"
proof -
  have ext': "extends {v} t s'" using post by (simp add: edges_post_def)
  have "v \<in> visited t" using v ext by (auto simp: extends_def)
  then have "idx s' v = idx t v" "idx s' w = idx t w" "tj_low s' v \<le> tj_low t v"
    "w \<in> set (tj_stack s') \<longleftrightarrow> w \<in> set (tj_stack t)" "w \<in> visited s'"
    using ext' w idx_extends [OF ext'] extends_stack_iff [OF ext'] by (auto simp: extends_def)
  moreover have "extends {v} s s'" using ext ext' by (rule extends_trans) simp
  ultimately show ?thesis using post low unfolding edges_post_def by auto
qed

lemma sc_finish_post:
  assumes c: "closing succ G v t" and ext: "extends {} s t" and U: "visited t \<subseteq> U"
    and v: "v \<notin> visited s" and vt: "v \<in> visited t"
    and stk: "\<exists>ys. tj_stack t = ys @ v # tj_stack s"
  shows "\<exists>s'. sc_finish v (v \<in> set (succ v)) t = Some s' \<and> connect_post succ U G v s s'"
proof (cases "tj_low t v = idx t v")
  case False
  have inv: "tarjan_inv succ G t" by (rule closing_keep [OF c False])
  have low: "low_inv succ v t" and tv: "tarjan_inv succ (insert v G) t"
    using c by (simp_all add: closing_def)
  obtain ys where ys: "tj_stack t = ys @ v # tj_stack s" using stk by blast
  have ord: "\<And>y. y \<in> set ys \<Longrightarrow> idx t v < idx t y" "\<And>z. z \<in> set (tj_stack s) \<Longrightarrow> idx t z < idx t v"
    using tarjan_invD(1) [OF tv] by (auto simp: stack_inv_def ys sorted_wrt_append)
  have "tj_low t v \<le> idx t z"
    if y: "y \<in> set (tj_stack t) - set (tj_stack s)" and z: "z \<in> set (succ y)" "z \<in> set (tj_stack s)" for y z
  proof (cases "y = v")
    case True
    with c z ord(2) ys show ?thesis by (auto simp: closing_def)
  next
    case False
    with y ys have "y \<in> set ys" by auto
    then have "y \<in> set (tj_stack t)" "idx t v < idx t y" using ord(1) ys by auto
    moreover have "z \<in> set (tj_stack t)" "idx t z < idx t v" using z(2) ord(2) ys by auto
    ultimately show ?thesis using low z(1) unfolding low_inv_def by blast
  qed
  with inv ext U vt low show ?thesis
    using False unfolding connect_post_def low_inv_def by (simp add: sc_finish_def)
next
  case True
  obtain ys where ys: "tj_stack t = ys @ v # tj_stack s" using stk by blast
  have "sorted_wrt (\<lambda>x y. idx t y < idx t x) (ys @ v # tj_stack s)"
    using c ys by (simp add: closing_def tarjan_inv_def stack_inv_def)
  then have vys: "v \<notin> set ys" by (auto simp: sorted_wrt_append)
  define s' where "s' = t\<lparr>tj_stack := tj_stack s, tj_onStack := (\<lambda>x. tj_onStack t x \<and> x \<notin> set (ys @ [v])),
       tj_cyclic := (if length (ys @ [v]) > 1 \<or> v \<in> set (succ v) then tj_cyclic t @ [ys @ [v]]
                     else tj_cyclic t)\<rparr>"
  have inv: "tarjan_inv succ G s'" by (rule closing_pop [OF c True ys s'_def])
  have same: "visited s' = visited t" "idx s' = idx t" "tj_low s' = tj_low t" "tj_next s' = tj_next t"
      "tj_index s' = tj_index t" "tj_stack s' = tj_stack s"
    by (auto simp: s'_def visited_def idx_def fun_eq_iff)
  have "extends {} s s'" using ext unfolding extends_def same by auto
  moreover have "sc_finish v (v \<in> set (succ v)) t = Some s'"
    using True by (simp add: sc_finish_def ys sc_pop_split [OF vys] s'_def)
  ultimately show ?thesis
    using inv U vt True unfolding connect_post_def by (intro exI [of _ s']) (simp add: same)
qed

lemma visitEdges_selfLoop:
  "visitEdges succ fuel v ws b s = Some (b', s') \<Longrightarrow> b' = (b \<or> v \<in> set ws)"
  by (induction ws arbitrary: b s) (auto split: if_splits option.splits)

definition graph_on :: "('a \<Rightarrow> 'a list) \<Rightarrow> 'a set \<Rightarrow> bool" where
  "graph_on succ U \<longleftrightarrow> finite U \<and> (\<forall>x \<in> U. set (succ x) \<subseteq> U)"

lemma strongConnect_post_aux:
  "graph_on succ U \<Longrightarrow> tarjan_inv succ G s \<Longrightarrow> visited s \<subseteq> U \<Longrightarrow> v \<in> U - visited s \<Longrightarrow>
     (\<And>g. g \<in> G \<Longrightarrow> (g, v) \<in> (succ_rel succ)\<^sup>*) \<Longrightarrow> card (U - visited s) \<le> fuel \<Longrightarrow>
     \<exists>s'. strongConnect succ fuel v s = Some s' \<and> connect_post succ U G v s s'"
  "graph_on succ U \<Longrightarrow> tarjan_inv succ G s \<Longrightarrow> visited s \<subseteq> U \<Longrightarrow> v \<in> G \<Longrightarrow>
     (\<And>g. g \<in> G \<Longrightarrow> idx s g \<le> idx s v) \<Longrightarrow> set ws \<subseteq> set (succ v) \<Longrightarrow> low_inv succ v s \<Longrightarrow>
     card (U - visited s) \<le> fuel \<Longrightarrow>
     \<exists>b' s'. visitEdges succ fuel v ws b s = Some (b', s') \<and> edges_post succ U G v ws s s'"
proof (induction succ fuel v s and succ fuel v ws b s arbitrary: G and G
       rule: strongConnect_visitEdges.induct)
  case (1 succ v s)
  then have "finite (U - visited s)" by (simp add: graph_on_def)
  with 1 show ?case by auto
next
  case (2 succ fuel v s)
  let ?t = "sc_enter v s"
  have v: "v \<notin> visited s" "v \<in> U" using "2.prems"(4) by auto
  have fin: "finite (U - visited s)" using "2.prems"(1) by (simp add: graph_on_def)
  have inv: "tarjan_inv succ (insert v G) ?t" and low: "low_inv succ v ?t"
    using tarjan_inv_enter [OF "2.prems"(2) v(1) "2.prems"(5)] by auto
  have Gs: "g \<in> visited s" "idx s g < tj_next s" if "g \<in> G" for g
    using that tarjan_invD [OF "2.prems"(2)] by blast+
  have "U - visited ?t = (U - visited s) - {v}" by auto
  then have fuel: "card (U - visited ?t) \<le> fuel"
    using "2.prems"(4,6) fin by (simp add: card_Diff_singleton)
  have "\<exists>b' s'. visitEdges succ fuel v (succ v) False ?t = Some (b', s') \<and>
      edges_post succ U (insert v G) v (succ v) ?t s'"
    using "2.prems"(1) inv "2.prems"(3) v Gs low fuel by (intro "2.IH") (auto intro: less_imp_le)
  then obtain b' t where t: "visitEdges succ fuel v (succ v) False ?t = Some (b', t)"
      "edges_post succ U (insert v G) v (succ v) ?t t"
    by blast
  have b': "b' = (v \<in> set (succ v))" using visitEdges_selfLoop [OF t(1)] by simp
  have ext: "extends {v} ?t t" using t(2) by (simp add: edges_post_def)
  have ext0: "extends {} s t"
    by (rule extends_trans [OF extends_enter [OF v(1)] ext]) (use v(1) in simp)
  have "idx t v = tj_next s" using idx_extends [OF ext, of v] by simp
  moreover have "idx t g = idx s g" if "g \<in> G" for g
    using idx_extends [OF ext0] Gs(1) that by blast
  ultimately have "closing succ G v t"
    using t(2) Gs(2) unfolding closing_def edges_post_def by auto
  moreover have "\<exists>ys. tj_stack t = ys @ v # tj_stack s" using ext by (auto simp: extends_def)
  moreover have "visited t \<subseteq> U" "v \<in> visited t"
    using t(2) ext by (auto simp: edges_post_def extends_def)
  ultimately obtain s' where "sc_finish v (v \<in> set (succ v)) t = Some s'" "connect_post succ U G v s s'"
    using sc_finish_post [of succ G v t s U] ext0 v(1) by blast
  with t(1) b' show ?case by simp
next
  case (3 succ fuel v b s)
  then show ?case by (simp add: edges_post_def)
next
  case (4 succ fuel v w ws b s)
  have v: "v \<in> visited s" using "4.prems"(4) tarjan_invD(4,5) [OF "4.prems"(2)] by blast
  have w: "w \<in> set (succ v)" "w \<in> U"
    using "4.prems" v by (auto simp: graph_on_def)
  show ?case
  proof (cases "w \<in> visited s")
    case True
    let ?t = "if tj_onStack s w then sc_lower v (idx s w) s else s"
    have low: "low_inv succ v ?t"
      using low_inv_old_edge [OF "4.prems"(2,7) w(1)] "4.prems"(7) by simp
    have t: "tarjan_inv succ G ?t" "visited ?t = visited s" "idx ?t = idx s" "extends {v} s ?t"
      using "4.prems"(2) by auto
    obtain b' s' where r: "visitEdges succ fuel v ws (b \<or> w = v) ?t = Some (b', s')"
        "edges_post succ U G v ws ?t s'"
      using "4.IH"(3) [of G] True "4.prems" low t by (auto simp: index_None_iff)
    have "edges_post succ U G v (w # ws) s s'"
      using True tarjan_invD(7) [OF "4.prems"(2)] t
      by (intro edges_post_step [OF r(2) t(4) v]) (auto split: if_splits)
    with r(1) True show ?thesis by (auto simp: index_None_iff)
  next
    case False
    have reach: "(g, w) \<in> (succ_rel succ)\<^sup>*" if "g \<in> G" for g
    proof -
      have "(g, v) \<in> (succ_rel succ)\<^sup>*"
        using that "4.prems"(4,5) tarjan_invD(5) [OF "4.prems"(2)]
        by (intro reach_invD(3) [OF tarjan_invD(2) [OF "4.prems"(2)]]) auto
      moreover have "(v, w) \<in> succ_rel succ" using w(1) by (simp add: succ_rel_def)
      ultimately show ?thesis by (rule rtrancl_into_rtrancl)
    qed
    obtain s1 where s1: "strongConnect succ fuel w s = Some s1" "connect_post succ U G w s s1"
      using "4.IH"(1) [of G] False "4.prems" w(2) reach by (auto simp: index_None_iff)
    let ?t = "sc_lower v (tj_low s1 w) s1"
    have ext: "extends {} s s1" and ws1: "w \<in> visited s1" and sub: "visited s1 \<subseteq> U"
      and inv1: "tarjan_inv succ G s1"
      using s1(2) by (simp_all add: connect_post_def)
    have low: "low_inv succ v ?t"
      by (rule low_inv_new_edge [OF "4.prems"(2,4,7) w(1) False s1(2)])
    have idx1: "idx s1 x = idx s x" if "x \<in> visited s" for x using ext that by (rule idx_extends)
    have Gv: "g \<in> visited s" if "g \<in> G" for g
      using that tarjan_invD(4,5) [OF "4.prems"(2)] by blast
    have "visited s \<subseteq> visited s1" using ext by (simp add: extends_def)
    then have fuel: "card (U - visited s1) \<le> fuel"
      using "4.prems"(1,8) by (meson Diff_mono card_mono finite_Diff graph_on_def order.trans subset_refl)
    have "\<exists>b' s'. visitEdges succ fuel v ws (b \<or> w = v) ?t = Some (b', s') \<and>
        edges_post succ U G v ws ?t s'"
      using "4.prems" False s1(1) inv1 sub low fuel idx1 Gv v
      by (intro "4.IH"(2)) (auto simp: index_None_iff)
    then obtain b' s' where r: "visitEdges succ fuel v ws (b \<or> w = v) ?t = Some (b', s')"
        "edges_post succ U G v ws ?t s'"
      by blast
    have "extends {v} s ?t"
    proof -
      have "extends {v} s s1" using ext by (auto simp: extends_def)
      then show ?thesis using extends_lower by (rule extends_trans) simp
    qed
    moreover have "tj_next s \<le> idx s1 w" using ext False ws1 by (auto simp: extends_def)
    moreover have "idx s1 v < tj_next s"
      using idx1 [OF v] tarjan_invD(6) [OF "4.prems"(2) v] by simp
    ultimately have "edges_post succ U G v (w # ws) s s'"
      using ws1 by (intro edges_post_step [OF r(2) _ v]) auto
    with r(1) s1(1) False show ?thesis by (auto simp: index_None_iff)
  qed
qed

section \<open>The whole search\<close>

lemma connectAll_post:
  "graph_on succ U \<Longrightarrow> tarjan_inv succ {} s \<Longrightarrow> visited s \<subseteq> U \<Longrightarrow> set ns \<subseteq> U \<Longrightarrow> card U \<le> fuel \<Longrightarrow>
   \<exists>s'. connectAll succ fuel ns s = Some s' \<and> tarjan_inv succ {} s' \<and> visited s' \<subseteq> U \<and>
     set ns \<union> visited s \<subseteq> visited s'"
proof (induction ns arbitrary: s)
  case (Cons n ns)
  show ?case
  proof (cases "n \<in> visited s")
    case True
    moreover obtain s' where "connectAll succ fuel ns s = Some s'" "tarjan_inv succ {} s'"
        "visited s' \<subseteq> U" "set ns \<union> visited s \<subseteq> visited s'"
      using Cons.IH [OF Cons.prems(1-3)] Cons.prems(4,5) by auto
    ultimately show ?thesis by (auto simp: index_None_iff)
  next
    case False
    have "card (U - visited s) \<le> fuel"
      using Cons.prems(1,5) by (meson card_mono Diff_subset graph_on_def order.trans)
    then obtain s1 where s1: "strongConnect succ fuel n s = Some s1" "connect_post succ U {} n s s1"
      using strongConnect_post_aux(1) [OF Cons.prems(1,2,3), of n] Cons.prems(4) False by auto
    then have keep: "visited s \<subseteq> visited s1" "n \<in> visited s1" "tarjan_inv succ {} s1" "visited s1 \<subseteq> U"
      by (auto simp: connect_post_def extends_def)
    then obtain s' where s': "connectAll succ fuel ns s1 = Some s'" "tarjan_inv succ {} s'"
        "visited s' \<subseteq> U" "set ns \<union> visited s1 \<subseteq> visited s'"
      using Cons.IH [OF Cons.prems(1) keep(3,4)] Cons.prems(4,5) by auto
    with keep have "set (n # ns) \<union> visited s \<subseteq> visited s'" by auto
    with s' s1(1) False show ?thesis by (simp add: index_None_iff)
  qed
qed simp

lemma tarjan_inv_init: "tarjan_inv succ {} tarjan_init"
  by (auto simp: tarjan_inv_def stack_inv_def reach_inv_def cyclic_inv_def tarjan_init_def visited_def)

lemma tarjan_inv_empty_stack: "tarjan_inv succ {} s \<Longrightarrow> tj_stack s = []"
  using reach_invD(4) [of succ "{}" s "hd (tj_stack s)"] tarjan_invD(2) [of succ "{}" s]
  by (cases "tj_stack s") auto

text \<open>
  The contract of the search for its clients: over a finite set of nodes closed under the
  successor function, \<open>cyclicComponents\<close> returns, and what it returns are the strongly connected
  components that lie on a cycle, each whole.
\<close>

definition cyclicComponents :: "('a \<Rightarrow> 'a list) \<Rightarrow> 'a list \<Rightarrow> 'a list list option" where
  "cyclicComponents succ ns = map_option tj_cyclic (connectAll succ (length ns) ns tarjan_init)"

locale finite_graph =
  fixes succ :: "'a \<Rightarrow> 'a list" and nodes :: "'a list"
  assumes closed: "x \<in> set nodes \<Longrightarrow> set (succ x) \<subseteq> set nodes"
begin

lemma cyclicComponents_correct:
  "\<exists>sccs. cyclicComponents succ nodes = Some sccs \<and>
     (\<Union>C \<in> set sccs. set C) = {x \<in> set nodes. (x, x) \<in> (succ_rel succ)\<^sup>+} \<and>
     (\<forall>C \<in> set sccs. \<forall>x \<in> set C. set C = component succ x)"
proof -
  have "graph_on succ (set nodes)" using closed by (simp add: graph_on_def)
  from connectAll_post [OF this tarjan_inv_init, of nodes "length nodes"]
  obtain s where s: "connectAll succ (length nodes) nodes tarjan_init = Some s" "tarjan_inv succ {} s"
      "visited s = set nodes"
    by (auto simp: tarjan_init_def visited_def card_length)
  then have "cyclic_inv succ s" "tj_stack s = []"
    using tarjan_inv_empty_stack by (auto simp: tarjan_inv_def)
  with s show ?thesis by (auto simp: cyclicComponents_def cyclic_inv_def)
qed

end

end
