(* ===== verification/Ops_Evaluator.thy ===== *)
theory Ops_Evaluator
  imports Ops_Validate Ops_Result SCC_Tarjan
begin

text \<open>
  The evaluator of \<open>evaluator.go\<close>, operation by operation. A pointer to a target state is its
  position in \<open>e_store\<close>; a pointer to a contract is its position in the snapshot together with
  the contract, which is never written. The maps the evaluation only fills as caches
  (\<open>targetState.evidence\<close>, \<open>capMemo\<close>, \<open>envMemo\<close>) are one record \<open>memo\<close> that is threaded
  through the calls. A Go map from keys to slices, where a missing key reads as the empty slice,
  is a total function.
\<close>

section \<open>State\<close>

record slotEvidence =
  sv_status :: EvidenceStatus
  sv_code :: ReasonCode
  sv_detail :: string
  sv_value :: Value
  sv_provider :: ProviderIdentity
  sv_ref :: string

type_synonym contractPtr = "nat \<times> Contract"

record targetState =
  ts_t :: Target
  ts_contract :: "contractPtr option"
  ts_invalid :: "Reason list"

record capKey =
  ck_uid :: string
  ck_name :: string

definition capKey_less :: "capKey \<Rightarrow> capKey \<Rightarrow> bool" where
  "capKey_less k o' =
     (if ck_uid k \<noteq> ck_uid o' then ck_uid k < ck_uid o' else ck_name k < ck_name o')"

interpretation cap_key_order: total_less capKey_less
proof (rule total_less_by_key [where key = "\<lambda>k. [ck_uid k, ck_name k]"])
  show "inj (\<lambda>k :: capKey. [ck_uid k, ck_name k])"
    by (rule injI) (auto intro!: capKey.equality)
qed (auto simp: capKey_less_def)

record obsKey =
  ok_namespace :: string
  ok_name :: string
  ok_slot :: string

record evaluator =
  e_at :: instant
  e_contracts :: "ContractIdentity \<Rightarrow> contractPtr list"
  e_store :: "targetState list"
  e_byUID :: "string \<Rightarrow> nat list"
  e_order :: "nat list"
  e_obs :: "obsKey \<Rightarrow> Observation list"
  e_validatedCache :: "nat \<Rightarrow> string list option"

record memo =
  m_evidence :: "nat \<Rightarrow> string \<Rightarrow> slotEvidence option"
  m_cap :: "capKey \<Rightarrow> CapabilityResult option"
  m_env :: "capKey \<Rightarrow> EnvelopeResult option"

definition memo_init :: memo where
  "memo_init = \<lparr>m_evidence = (\<lambda>_ _. None), m_cap = (\<lambda>_. None), m_env = (\<lambda>_. None)\<rparr>"

definition append_at :: "'k \<Rightarrow> 'v \<Rightarrow> ('k \<Rightarrow> 'v list) \<Rightarrow> 'k \<Rightarrow> 'v list" where
  "append_at k v m = m(k := m k @ [v])"

definition TargetIdentity_less :: "TargetIdentity \<Rightarrow> TargetIdentity \<Rightarrow> bool" where
  "TargetIdentity_less a b =
     (if ti_UID a \<noteq> ti_UID b then ti_UID a < ti_UID b
      else if ti_Namespace a \<noteq> ti_Namespace b then ti_Namespace a < ti_Namespace b
      else ti_Name a < ti_Name b)"

definition obs_key :: "Observation \<Rightarrow> obsKey" where
  "obs_key o' = \<lparr>ok_namespace = ti_Namespace (ak_Target (o_Key o')), ok_name = ti_Name (ak_Target (o_Key o')),
     ok_slot = ak_Slot (o_Key o')\<rparr>"

definition newEvaluator :: "Snapshot \<Rightarrow> evaluator" where
  "newEvaluator s =
     \<lparr>e_at = s_At s,
      e_contracts = fold (\<lambda>p. append_at (c_Identity (snd p)) p) (enumerate 0 (s_Contracts s)) (\<lambda>_. []),
      e_store = map (\<lambda>t. \<lparr>ts_t = t, ts_contract = None, ts_invalid = []\<rparr>) (s_Targets s),
      e_byUID = fold (\<lambda>p. append_at (ti_UID (t_Identity (snd p))) (fst p)) (enumerate 0 (s_Targets s)) (\<lambda>_. []),
      e_order = sort_slice
        (\<lambda>i j. TargetIdentity_less (t_Identity (s_Targets s ! i)) (t_Identity (s_Targets s ! j)))
        [0..<length (s_Targets s)],
      e_obs = fold (\<lambda>o'. append_at (obs_key o') o') (s_Observations s) (\<lambda>_. []),
      e_validatedCache = (\<lambda>_. None)\<rparr>"

section \<open>Target resolution\<close>

definition hasDepSlot :: "Contract \<Rightarrow> string \<Rightarrow> bool" where
  "hasDepSlot c slot \<longleftrightarrow> (\<exists>d \<in> set (c_DependencySlots c). ds_Name d = slot)"

text \<open>\<open>validate\<close> with its cache, keyed by the contract's address.\<close>

definition validate :: "contractPtr \<Rightarrow> evaluator \<Rightarrow> string list \<times> evaluator" where
  "validate p e = (case e_validatedCache e (fst p) of
       Some errs \<Rightarrow> (errs, e)
     | None \<Rightarrow>
         let errs = sort_Strings (Validate (snd p))
         in (errs, e\<lparr>e_validatedCache := (e_validatedCache e)(fst p \<mapsto> errs)\<rparr>))"

fun assertionBindings_bad :: "Contract \<Rightarrow> string set \<Rightarrow> AssertionBinding list \<Rightarrow> Reason list" where
  "assertionBindings_bad c seen [] = []"
| "assertionBindings_bad c seen (b # bs) =
     (if slot_of c (ab_Slot b) = None \<or> pi_Name (ab_Provider b) = '''' then
        mkReason ReasonInvalidBinding (''assertion:'' @ ab_Slot b) ''undeclared slot or empty provider''
          # assertionBindings_bad c seen bs
      else
        (if ab_Slot b \<in> seen then [mkReason ReasonDuplicateAssertionBinding (''assertion:'' @ ab_Slot b) '''']
         else []) @
        assertionBindings_bad c (insert (ab_Slot b) seen) bs)"

fun dependencyBindings_bad :: "Contract \<Rightarrow> string set \<Rightarrow> DependencyBinding list \<Rightarrow> Reason list" where
  "dependencyBindings_bad c seen [] = []"
| "dependencyBindings_bad c seen (b # bs) =
     (if \<not> hasDepSlot c (db_Slot b) \<or> db_TargetUID b = '''' \<or> \<not> ContractIdentity_complete (db_Contract b) then
        mkReason ReasonInvalidBinding (''dependency:'' @ db_Slot b)
            ''undeclared slot, empty target UID or incomplete contract identity''
          # dependencyBindings_bad c seen bs
      else
        (if db_Slot b \<in> seen then [mkReason ReasonDuplicateDependencyBinding (''dependency:'' @ db_Slot b) '''']
         else []) @
        dependencyBindings_bad c (insert (db_Slot b) seen) bs)"

definition envelopeSelection_bad :: "Contract \<Rightarrow> string \<Rightarrow> Reason list" where
  "envelopeSelection_bad c sel =
     (if sel \<noteq> '''' \<and> envelope_of c sel = None
      then [mkReason ReasonUnknownEnvelopeSelection (''envelope:'' @ sel) ''''] else [])"

text \<open>Write the contract pointer and append reasons to \<open>invalid\<close> of the state at \<open>i\<close>.\<close>

definition put_state :: "nat \<Rightarrow> contractPtr option \<Rightarrow> Reason list \<Rightarrow> evaluator \<Rightarrow> evaluator" where
  "put_state i p rs e =
     (let ts = e_store e ! i in
      e\<lparr>e_store := (e_store e)[i := ts\<lparr>ts_contract := p, ts_invalid := ts_invalid ts @ rs\<rparr>]\<rparr>)"

definition resolveTarget :: "nat \<Rightarrow> evaluator \<Rightarrow> evaluator" where
  "resolveTarget i e =
     (let t = ts_t (e_store e ! i);
          uid = ti_UID (t_Identity t);
          subject = ''contract:'' @ ContractIdentity_String (t_ContractRef t);
          dup = (if 1 < length (e_byUID e uid)
                 then [mkReason ReasonDuplicateTargetUID (''target:'' @ uid) ''''] else [])
      in
      if ci_Namespace (t_ContractRef t) \<noteq> ti_Namespace (t_Identity t) then
        put_state i None (dup @ [mkReason ReasonCrossNamespaceContract subject '''']) e
      else
        (case e_contracts e (t_ContractRef t) of
           [] \<Rightarrow> put_state i None (dup @ [mkReason ReasonContractUnresolved subject '''']) e
         | [p] \<Rightarrow>
             (case validate p e of (errs, e') \<Rightarrow>
                if errs \<noteq> [] then
                  put_state i (Some p) (dup @ [mkReason ReasonInvalidContract subject (go_Join errs ''; '')]) e'
                else
                  put_state i (Some p)
                    (dup @ assertionBindings_bad (snd p) {} (t_AssertionBindings t) @
                     dependencyBindings_bad (snd p) {} (t_DependencyBindings t) @
                     envelopeSelection_bad (snd p) (t_EnvelopeSelection t)) e')
         | cs \<Rightarrow>
             put_state i None
               (dup @ [mkReason ReasonContractAmbiguous subject
                         (show_nat (length cs) @ '' contracts share this identity'')]) e))"

definition resolveTargets :: "evaluator \<Rightarrow> evaluator" where
  "resolveTargets e = fold resolveTarget (e_order e) e"

definition ts_valid :: "targetState \<Rightarrow> bool" where
  "ts_valid ts \<longleftrightarrow> ts_invalid ts = []"

definition depBinding :: "targetState \<Rightarrow> string \<Rightarrow> DependencyBinding option" where
  "depBinding ts slot = List.find (\<lambda>b. db_Slot b = slot) (t_DependencyBindings (ts_t ts))"

definition assertionBinding :: "targetState \<Rightarrow> string \<Rightarrow> AssertionBinding option" where
  "assertionBinding ts slot = List.find (\<lambda>b. ab_Slot b = slot) (t_AssertionBindings (ts_t ts))"

definition uniqueValid :: "evaluator \<Rightarrow> string \<Rightarrow> nat option" where
  "uniqueValid e uid = (case e_byUID e uid of
       [i] \<Rightarrow> if ts_valid (e_store e ! i) then Some i else None
     | _ \<Rightarrow> None)"

text \<open>Reading through the contract pointer. A nil pointer would panic; \<open>resolve_inv\<close> below says
  that a valid target state has one, and only valid ones are read through.\<close>

definition Contract_zero :: Contract where
  "Contract_zero = \<lparr>c_Identity = \<lparr>ci_Namespace = '''', ci_Name = '''', ci_UID = '''', ci_SpecDigest = ''''\<rparr>,
     c_Assertions = [], c_DependencySlots = [], c_Capabilities = [], c_Envelopes = []\<rparr>"

definition contract_at :: "evaluator \<Rightarrow> nat \<Rightarrow> Contract" where
  "contract_at e i = (case ts_contract (e_store e ! i) of None \<Rightarrow> Contract_zero | Some p \<Rightarrow> snd p)"

definition uid_at :: "evaluator \<Rightarrow> nat \<Rightarrow> string" where
  "uid_at e i = ti_UID (t_Identity (ts_t (e_store e ! i)))"

section \<open>Cross-target cycle rejection\<close>

definition requirement_edge :: "evaluator \<Rightarrow> capKey \<Rightarrow> nat \<Rightarrow> Requirement \<Rightarrow> capKey option" where
  "requirement_edge e n i r =
     (if r_LocalCapability r \<noteq> '''' then Some \<lparr>ck_uid = ck_uid n, ck_name = r_LocalCapability r\<rparr>
      else case r_Dependency r of
        None \<Rightarrow> None
      | Some d \<Rightarrow>
          (case depBinding (e_store e ! i) (dr_Slot d) of
             None \<Rightarrow> None
           | Some b \<Rightarrow>
               (case uniqueValid e (db_TargetUID b) of
                  None \<Rightarrow> None
                | Some j \<Rightarrow>
                    if t_ContractRef (ts_t (e_store e ! j)) \<noteq> db_Contract b then None
                    else map_option (\<lambda>dc. \<lparr>ck_uid = uid_at e j, ck_name = ct_Name (cp_Type dc)\<rparr>)
                           (capabilityByType (contract_at e j) (dr_Capability d)))))"

definition edges :: "evaluator \<Rightarrow> capKey \<Rightarrow> capKey list" where
  "edges e n = (case uniqueValid e (ck_uid n) of
       None \<Rightarrow> []
     | Some i \<Rightarrow>
         (case capability_of (contract_at e i) (ck_name n) of
            None \<Rightarrow> []
          | Some cp \<Rightarrow> sort_slice capKey_less (List.map_filter (requirement_edge e n i) (cp_Requirements cp))))"

definition cap_nodes :: "evaluator \<Rightarrow> capKey list" where
  "cap_nodes e = sort_slice capKey_less
     (concat (map (\<lambda>i. if ts_valid (e_store e ! i)
                       then map (\<lambda>cp. \<lparr>ck_uid = uid_at e i, ck_name = ct_Name (cp_Type cp)\<rparr>)
                              (c_Capabilities (contract_at e i))
                       else []) (e_order e)))"

definition invalidate :: "Reason \<Rightarrow> nat \<Rightarrow> evaluator \<Rightarrow> evaluator" where
  "invalidate r i e =
     e\<lparr>e_store := (e_store e)[i := (e_store e ! i)\<lparr>ts_invalid := ts_invalid (e_store e ! i) @ [r]\<rparr>]\<rparr>"

text \<open>The inner loop ranges over a Go map, in no fixed order; each round writes the states of
  another UID, so the order of the UIDs is immaterial. Here it is that of the last occurrences.\<close>

definition rejectComponent :: "capKey list \<Rightarrow> evaluator \<Rightarrow> evaluator" where
  "rejectComponent scc e =
     (let scc' = sort_slice capKey_less scc;
          all = map (\<lambda>n. ck_uid n @ ''/'' @ ck_name n) scc'
      in fold (\<lambda>uid.
           let names = map ck_name (filter (\<lambda>n. ck_uid n = uid) scc') in
           fold (invalidate (mkReason ReasonDependencyCycle (''capabilities:'' @ go_Join names '','')
                  (''cycle members: '' @ go_Join all '',''))) (e_byUID e uid))
         (remdups (map ck_uid scc')) e)"

definition rejectCycles :: "evaluator \<Rightarrow> evaluator option" where
  "rejectCycles e = map_option (\<lambda>cyclic. fold rejectComponent cyclic e) (cyclicComponents (edges e) (cap_nodes e))"

end
