(* ===== verification/Ops_Evidence.thy ===== *)
theory Ops_Evidence
  imports Ops_Evaluator
begin

text \<open>
  Evidence selection of \<open>evaluator.go\<close>: which observation, if any, is the current statement of
  the authoritative provider about an assertion slot.
\<close>

section \<open>Currentness and applicability\<close>

definition current :: "evaluator \<Rightarrow> Observation \<Rightarrow> AssertionSlot \<Rightarrow> bool" where
  "current e o' slot =
     (if time_Sub (e_at e) (o_ObservedAt o') > as_MaxAge slot then False
      else IsZero (o_ValidUntil o') \<or> e_at e < o_ValidUntil o')"

definition mismatch :: "ApplicabilityKey \<Rightarrow> ApplicabilityKey \<Rightarrow> ReasonCode" where
  "mismatch got want =
     (if ak_Target got \<noteq> ak_Target want \<or> ak_ResolvedUID got \<noteq> ak_ResolvedUID want
      then ReasonEvidenceTargetReplaced
      else if ak_Contract got \<noteq> ak_Contract want then ReasonEvidenceContractChanged
      else ReasonEvidenceProviderChanged)"

definition mismatch_rank :: "ReasonCode \<Rightarrow> nat" where
  "mismatch_rank c =
     (if c = ReasonEvidenceProviderChanged then 1
      else if c = ReasonEvidenceContractChanged then 2
      else if c = ReasonEvidenceTargetReplaced then 3 else 0)"

definition worseMismatch :: "ReasonCode \<Rightarrow> ReasonCode \<Rightarrow> ReasonCode" where
  "worseMismatch a b = (if mismatch_rank b > mismatch_rank a then b else a)"

definition wanted_key :: "targetState \<Rightarrow> string \<Rightarrow> ProviderIdentity \<Rightarrow> ApplicabilityKey" where
  "wanted_key ts slot prov =
     \<lparr>ak_Target = t_Identity (ts_t ts), ak_ResolvedUID = t_ResolvedUID (ts_t ts),
      ak_Contract = t_ContractRef (ts_t ts), ak_Slot = slot, ak_Provider = prov\<rparr>"

text \<open>The first loop of \<open>resolveEvidence\<close>: statements from after the evaluation instant are
  skipped, the others are applicable or leave the worst mismatch.\<close>

fun partition_obs ::
  "instant \<Rightarrow> ApplicabilityKey \<Rightarrow> Observation list \<Rightarrow> Observation list \<Rightarrow> ReasonCode \<Rightarrow>
     Observation list \<times> ReasonCode" where
  "partition_obs at want [] app inapp = (app, inapp)"
| "partition_obs at want (o' # os) app inapp =
     (if o_ObservedAt o' > at then partition_obs at want os app inapp
      else if o_Key o' = want then partition_obs at want os (app @ [o']) inapp
      else partition_obs at want os app (worseMismatch inapp (mismatch (o_Key o') want)))"

definition latest_instant :: "Observation list \<Rightarrow> instant" where
  "latest_instant os = fold (\<lambda>o' l. if o_ObservedAt o' > l then o_ObservedAt o' else l) (tl os)
     (o_ObservedAt (hd os))"

definition ref_less :: "Observation \<Rightarrow> Observation \<Rightarrow> bool" where
  "ref_less a b \<longleftrightarrow> o_EvidenceRef a < o_EvidenceRef b"

interpretation ref_order: weak_less ref_less
  by (rule weak_less_by_key) (rule ref_less_def)

definition latest_group :: "Observation list \<Rightarrow> Observation list" where
  "latest_group os = sort_slice ref_less (filter (\<lambda>o'. o_ObservedAt o' = latest_instant os) os)"

definition malformed :: "AssertionSlot \<Rightarrow> Observation \<Rightarrow> bool" where
  "malformed slot o' \<longleftrightarrow> o_Outcome o' \<noteq> OutcomeProviderUnavailable \<and>
     (o_Outcome o' \<noteq> OutcomeValue \<or> \<not> admits slot (o_Value o'))"

definition incompatible :: "Observation \<Rightarrow> Observation \<Rightarrow> bool" where
  "incompatible o' other \<longleftrightarrow> o_Outcome other \<noteq> o_Outcome o' \<or>
     o_Outcome o' = OutcomeValue \<and> \<not> Value_equal (o_Value other) (o_Value o')"

definition slotEvidence_zero :: slotEvidence where
  "slotEvidence_zero = \<lparr>sv_status = EvidenceMissing, sv_code = ReasonEmpty, sv_detail = '''',
     sv_value = Value_zero, sv_provider = ProviderIdentity_zero, sv_ref = ''''\<rparr>"

text \<open>What is decided once the applicable statements are known to be nonempty.\<close>

definition judge_group ::
  "evaluator \<Rightarrow> AssertionSlot \<Rightarrow> slotEvidence \<Rightarrow> instant \<Rightarrow> Observation list \<Rightarrow> slotEvidence" where
  "judge_group e slot ev latest grp =
     (if \<exists>o' \<in> set grp. \<not> current e o' slot then
        ev\<lparr>sv_status := EvidenceStale, sv_code := ReasonEvidenceStale,
           sv_detail := ''latest observation at '' @ go_RFC3339 latest @ '' exceeds currentness bound''\<rparr>
      else case List.find (malformed slot) grp of
        Some o' \<Rightarrow>
          ev\<lparr>sv_status := EvidenceTypeMismatch, sv_code := ReasonEvidenceTypeMismatch,
             sv_detail := ''slot type '' @ ValueType_str (as_Type slot) @
               '', observed non-canonical or undeclared '' @ Value_String (o_Value o')\<rparr>
      | None \<Rightarrow>
          (if \<exists>other \<in> set (tl grp). incompatible (hd grp) other then
             ev\<lparr>sv_status := EvidenceConflicting, sv_code := ReasonConflictingEvidence,
                sv_detail := ''incompatible statements at the latest instant''\<rparr>
           else if o_Outcome (hd grp) = OutcomeProviderUnavailable then
             ev\<lparr>sv_status := EvidenceProviderUnavailable, sv_code := ReasonProviderUnavailable\<rparr>
           else ev\<lparr>sv_status := EvidenceCurrent, sv_value := o_Value (hd grp)\<rparr>))"

definition resolveEvidence :: "evaluator \<Rightarrow> nat \<Rightarrow> AssertionSlot \<Rightarrow> slotEvidence" where
  "resolveEvidence e i slot =
     (let ts = e_store e ! i in
      case assertionBinding ts (as_Name slot) of
        None \<Rightarrow> slotEvidence_zero\<lparr>sv_status := EvidenceUnbound, sv_code := ReasonEvidenceUnbound\<rparr>
      | Some b \<Rightarrow>
          (let want = wanted_key ts (as_Name slot) (ab_Provider b);
               ev = slotEvidence_zero\<lparr>sv_provider := ab_Provider b\<rparr>;
               k = \<lparr>ok_namespace = ti_Namespace (t_Identity (ts_t ts)),
                    ok_name = ti_Name (t_Identity (ts_t ts)), ok_slot = as_Name slot\<rparr>
           in case partition_obs (e_at e) want (e_obs e k) [] ReasonEmpty of (app, inapp) \<Rightarrow>
                if app = [] then
                  (if inapp \<noteq> ReasonEmpty then ev\<lparr>sv_status := EvidenceInapplicable, sv_code := inapp\<rparr>
                   else ev\<lparr>sv_status := EvidenceMissing, sv_code := ReasonEvidenceMissing\<rparr>)
                else
                  (let grp = latest_group app
                   in judge_group e slot (ev\<lparr>sv_ref := o_EvidenceRef (hd grp)\<rparr>) (latest_instant app) grp)))"

text \<open>\<open>evidence\<close>, with its cache.\<close>

definition evidence :: "evaluator \<Rightarrow> nat \<Rightarrow> AssertionSlot \<Rightarrow> memo \<Rightarrow> slotEvidence \<times> memo" where
  "evidence e i slot m = (case m_evidence m i (as_Name slot) of
       Some ev \<Rightarrow> (ev, m)
     | None \<Rightarrow>
         let ev = resolveEvidence e i slot
         in (ev, m\<lparr>m_evidence := (m_evidence m)(i := (m_evidence m i)(as_Name slot \<mapsto> ev))\<rparr>))"

end
