(* ===== verification/Ops_Capability.thy ===== *)
theory Ops_Capability
  imports Ops_Evidence
begin

text \<open>
  Requirement evaluation and output of \<open>evaluator.go\<close>. \<open>capability\<close> calls itself through local
  and dependency requirements; the model bounds the depth of the calls by fuel and \<open>None\<close> stands
  for a run that does not return. The callee is an argument of the functions between two nested
  calls (\<open>dependency\<close>, \<open>requirement\<close>, \<open>capLoop\<close>), so that each is a definition of its own.
\<close>

section \<open>Predicates and envelopes\<close>

datatype verdict = accepted | unmet | unproven

definition slot_or_zero :: "Contract \<Rightarrow> string \<Rightarrow> AssertionSlot" where
  "slot_or_zero c name = (case slot_of c name of None \<Rightarrow> AssertionSlot_zero | Some s \<Rightarrow> s)"

text \<open>The verdict on a predicate, given the evidence for its slot.\<close>

definition predicate_verdict :: "Predicate \<Rightarrow> slotEvidence \<Rightarrow> verdict \<times> Reason" where
  "predicate_verdict p ev =
     (let subject = ''assertion:'' @ p_Assertion p in
      if sv_status ev \<noteq> EvidenceCurrent then (unproven, mkReason (sv_code ev) subject (sv_detail ev))
      else if Predicate_eval p (sv_value ev) then (accepted, Reason_zero)
      else (unmet, mkReason ReasonPredicateUnmet subject
              (Predicate_String p @ ''; observed '' @ Value_String (sv_value ev))))"

definition predicate :: "evaluator \<Rightarrow> nat \<Rightarrow> Predicate \<Rightarrow> memo \<Rightarrow> (verdict \<times> Reason) \<times> memo" where
  "predicate e i p m =
     (case evidence e i (slot_or_zero (contract_at e i) (p_Assertion p)) m of (ev, m') \<Rightarrow>
        (predicate_verdict p ev, m'))"

fun predicates :: "evaluator \<Rightarrow> nat \<Rightarrow> Predicate list \<Rightarrow> memo \<Rightarrow> (verdict \<times> Reason) list \<times> memo" where
  "predicates e i [] m = ([], m)"
| "predicates e i (p # ps) m =
     (case predicate e i p m of (v, m1) \<Rightarrow>
      case predicates e i ps m1 of (vs, m2) \<Rightarrow> (v # vs, m2))"

text \<open>The reasons of the verdicts that are not accepted, in order.\<close>

definition open_reasons :: "(verdict \<times> Reason) list \<Rightarrow> Reason list" where
  "open_reasons vs = map snd (filter (\<lambda>v. fst v \<noteq> accepted) vs)"

definition finishEnvelope :: "Envelope \<Rightarrow> (verdict \<times> Reason) list \<Rightarrow> EnvelopeResult" where
  "finishEnvelope env vs =
     \<lparr>er_Name = env_Name env, er_Class = env_Class env,
      er_State = (if unmet \<in> fst ` set vs then Unsatisfied
                  else if unproven \<in> fst ` set vs then EnvUnknown else Satisfied),
      er_Reasons = normalize (open_reasons vs)\<rparr>"

definition envelopeResult :: "evaluator \<Rightarrow> nat \<Rightarrow> Envelope \<Rightarrow> memo \<Rightarrow> EnvelopeResult \<times> memo" where
  "envelopeResult e i env m =
     (let k = \<lparr>ck_uid = uid_at e i, ck_name = env_Name env\<rparr> in
      case m_env m k of
        Some r \<Rightarrow> (r, m)
      | None \<Rightarrow>
          (case predicates e i (env_Requirements env) m of (vs, m') \<Rightarrow>
             let res = finishEnvelope env vs in (res, m'\<lparr>m_env := (m_env m')(k \<mapsto> res)\<rparr>)))"

section \<open>Requirements\<close>

type_synonym callee = "nat \<Rightarrow> Capability \<Rightarrow> memo \<Rightarrow> (CapabilityResult \<times> memo) option"

text \<open>The verdict on a dependency from the state of the capability it resolves to.\<close>

definition dependency_verdict :: "string \<Rightarrow> CapabilityState \<Rightarrow> verdict \<times> Reason" where
  "dependency_verdict subject st = (case st of
       Available \<Rightarrow> (accepted, Reason_zero)
     | Unknown \<Rightarrow> (unproven, mkReason ReasonDependencyUnknown subject '''')
     | _ \<Rightarrow> (unmet, mkReason ReasonDependencyUnmet subject (CapabilityState_str st)))"

definition local_verdict :: "string \<Rightarrow> CapabilityState \<Rightarrow> verdict \<times> Reason" where
  "local_verdict subject st = (case st of
       Available \<Rightarrow> (accepted, Reason_zero)
     | Unknown \<Rightarrow> (unproven, mkReason ReasonLocalUnknown subject '''')
     | _ \<Rightarrow> (unmet, mkReason ReasonLocalUnmet subject (CapabilityState_str st)))"

definition envelope_verdict :: "string \<Rightarrow> EnvelopeState \<Rightarrow> verdict \<times> Reason" where
  "envelope_verdict subject st = (case st of
       Satisfied \<Rightarrow> (accepted, Reason_zero)
     | Unsatisfied \<Rightarrow> (unmet, mkReason ReasonEnvelopeUnmet subject '''')
     | EnvUnknown \<Rightarrow> (unproven, mkReason ReasonEnvelopeUnknown subject ''''))"

text \<open>A dependency resolves to a capability of a target, or to the reason why it does not.\<close>

definition resolve_dependency ::
  "evaluator \<Rightarrow> nat \<Rightarrow> DependencyRequirement \<Rightarrow> Reason + (string \<times> nat \<times> Capability)" where
  "resolve_dependency e i d = (case depBinding (e_store e ! i) (dr_Slot d) of
       None \<Rightarrow> Inl (mkReason ReasonDependencyUnbound (''dependency:'' @ dr_Slot d) '''')
     | Some b \<Rightarrow>
         (let subject = ''dependency:'' @ dr_Slot d @ ''->'' @ db_TargetUID b @ ''/'' @
                CapabilityType_String (dr_Capability d)
          in
          if e_byUID e (db_TargetUID b) = [] then Inl (mkReason ReasonDependencyTargetMissing subject '''')
          else case uniqueValid e (db_TargetUID b) of
            None \<Rightarrow> Inl (mkReason ReasonDependencyTargetInvalid subject '''')
          | Some j \<Rightarrow>
              (let ref = t_ContractRef (ts_t (e_store e ! j)) in
               if ref \<noteq> db_Contract b then
                 Inl (mkReason ReasonDependencyContractMismatch subject
                   (''bound '' @ ContractIdentity_String (db_Contract b) @ '', target has '' @
                    ContractIdentity_String ref))
               else case capabilityByType (contract_at e j) (dr_Capability d) of
                 None \<Rightarrow> Inl (mkReason ReasonDependencyCapabilityAbsent subject '''')
               | Some dc \<Rightarrow> Inr (subject, j, dc))))"

definition dependency ::
  "evaluator \<Rightarrow> callee \<Rightarrow> nat \<Rightarrow> DependencyRequirement \<Rightarrow> memo \<Rightarrow> ((verdict \<times> Reason) \<times> memo) option" where
  "dependency e call i d m = (case resolve_dependency e i d of
       Inl r \<Rightarrow> Some ((unproven, r), m)
     | Inr (subject, j, dc) \<Rightarrow>
         map_option (\<lambda>(r, m'). (dependency_verdict subject (cr_State r), m')) (call j dc m))"

definition requirement ::
  "evaluator \<Rightarrow> callee \<Rightarrow> nat \<Rightarrow> Requirement \<Rightarrow> memo \<Rightarrow> ((verdict \<times> Reason) \<times> memo) option" where
  "requirement e call i req m = (case r_Predicate req of
       Some p \<Rightarrow> Some (predicate e i p m)
     | None \<Rightarrow>
         (case r_Dependency req of
            Some d \<Rightarrow> dependency e call i d m
          | None \<Rightarrow>
              if r_LocalCapability req \<noteq> '''' then
                (let lcl = (case capability_of (contract_at e i) (r_LocalCapability req) of
                              None \<Rightarrow> Capability_zero | Some cp \<Rightarrow> cp)
                 in map_option (\<lambda>(r, m'). (local_verdict (''local:'' @ r_LocalCapability req) (cr_State r), m'))
                      (call i lcl m))
              else if r_Envelope req \<noteq> '''' then
                (let env = (case envelope_of (contract_at e i) (r_Envelope req) of
                              None \<Rightarrow> Envelope_zero | Some x \<Rightarrow> x)
                 in case envelopeResult e i env m of (er, m') \<Rightarrow>
                      Some (envelope_verdict (''envelope:'' @ r_Envelope req) (er_State er), m'))
              else Some ((accepted, Reason_zero), m)))"

section \<open>Capabilities\<close>

fun capLoop ::
  "evaluator \<Rightarrow> callee \<Rightarrow> nat \<Rightarrow> Requirement list \<Rightarrow> memo \<Rightarrow> ((verdict \<times> Reason) list \<times> memo) option" where
  "capLoop e call i [] m = Some ([], m)"
| "capLoop e call i (req # reqs) m =
     (case requirement e call i req m of
        None \<Rightarrow> None
      | Some (v, m1) \<Rightarrow>
          (case capLoop e call i reqs m1 of
             None \<Rightarrow> None
           | Some (vs, m2) \<Rightarrow> Some (v # vs, m2)))"

text \<open>The declared impacts of the unmet requirements (the map \<open>impacts\<close>).\<close>

definition impacts :: "Requirement list \<Rightarrow> (verdict \<times> Reason) list \<Rightarrow> Impact list" where
  "impacts reqs vs =
     remdups (map (\<lambda>x. r_OnUnmet (fst x)) (filter (\<lambda>x. fst (snd x) = unmet) (zip reqs vs)))"

definition finishCapability :: "Capability \<Rightarrow> (verdict \<times> Reason) list \<Rightarrow> CapabilityResult" where
  "finishCapability cp vs =
     (let imps = impacts (cp_Requirements cp) vs; reasons = open_reasons vs;
          res = (\<lambda>st rs. \<lparr>cr_Type = cp_Type cp, cr_State = st, cr_Reasons = normalize rs\<rparr>)
      in
      if unproven \<in> fst ` set vs then res Unknown reasons
      else if 1 < length imps then
        res Unknown (reasons @ [mkReason ReasonConflictingImpact
          (''capability:'' @ CapabilityType_String (cp_Type cp)) ''''])
      else if ImpactDegraded \<in> set imps then res Degraded reasons
      else if ImpactUnavailable \<in> set imps then res Unavailable reasons
      else res Available reasons)"

primrec capability :: "nat \<Rightarrow> evaluator \<Rightarrow> callee" where
  "capability 0 e i cp m = None"
| "capability (Suc fuel) e i cp m =
     (let k = \<lparr>ck_uid = uid_at e i, ck_name = ct_Name (cp_Type cp)\<rparr> in
      case m_cap m k of
        Some r \<Rightarrow> Some (r, m)
      | None \<Rightarrow>
          (case capLoop e (capability fuel e) i (cp_Requirements cp) m of
             None \<Rightarrow> None
           | Some (vs, m') \<Rightarrow>
               let res = finishCapability cp vs in Some (res, m'\<lparr>m_cap := (m_cap m')(k \<mapsto> res)\<rparr>)))"

section \<open>Output\<close>

fun slotEvidences :: "evaluator \<Rightarrow> nat \<Rightarrow> AssertionSlot list \<Rightarrow> memo \<Rightarrow> SlotEvidence list \<times> memo" where
  "slotEvidences e i [] m = ([], m)"
| "slotEvidences e i (s # ss) m =
     (case evidence e i s m of (ev, m1) \<Rightarrow>
      case slotEvidences e i ss m1 of (out, m2) \<Rightarrow>
        (\<lparr>se_Slot = as_Name s, se_Status = sv_status ev, se_Provider = sv_provider ev,
          se_EvidenceRef = sv_ref ev\<rparr> # out, m2))"

fun capabilities ::
  "nat \<Rightarrow> evaluator \<Rightarrow> nat \<Rightarrow> Capability list \<Rightarrow> memo \<Rightarrow> (CapabilityResult list \<times> memo) option" where
  "capabilities fuel e i [] m = Some ([], m)"
| "capabilities fuel e i (cp # cps) m =
     (case capability fuel e i cp m of
        None \<Rightarrow> None
      | Some (r, m1) \<Rightarrow>
          (case capabilities fuel e i cps m1 of None \<Rightarrow> None | Some (rs, m2) \<Rightarrow> Some (r # rs, m2)))"

fun envelopeResults :: "evaluator \<Rightarrow> nat \<Rightarrow> Envelope list \<Rightarrow> memo \<Rightarrow> EnvelopeResult list \<times> memo" where
  "envelopeResults e i [] m = ([], m)"
| "envelopeResults e i (env # envs) m =
     (case envelopeResult e i env m of (r, m1) \<Rightarrow>
      case envelopeResults e i envs m1 of (rs, m2) \<Rightarrow> (r # rs, m2))"

definition slot_name_less :: "AssertionSlot \<Rightarrow> AssertionSlot \<Rightarrow> bool" where
  "slot_name_less a b \<longleftrightarrow> as_Name a < as_Name b"

definition result_type_less :: "CapabilityResult \<Rightarrow> CapabilityResult \<Rightarrow> bool" where
  "result_type_less a b \<longleftrightarrow> CapabilityType_less (cr_Type a) (cr_Type b)"

definition envelope_name_less :: "EnvelopeResult \<Rightarrow> EnvelopeResult \<Rightarrow> bool" where
  "envelope_name_less a b \<longleftrightarrow> er_Name a < er_Name b"

definition assess :: "nat \<Rightarrow> evaluator \<Rightarrow> nat \<Rightarrow> memo \<Rightarrow> (TargetAssessment \<times> memo) option" where
  "assess fuel e i m =
     (let ts = e_store e ! i;
          c = contract_at e i;
          out = \<lparr>ta_Target = t_Identity (ts_t ts), ta_Contract = t_ContractRef (ts_t ts),
                 ta_Valid = ts_valid ts, ta_InvalidReasons = [], ta_Sync = SyncNotApplicable,
                 ta_EnvelopeSelection = t_EnvelopeSelection (ts_t ts), ta_Evidence = [],
                 ta_Capabilities = [], ta_Envelopes = []\<rparr>
      in
      if \<not> ts_valid ts then Some (out\<lparr>ta_InvalidReasons := normalize (ts_invalid ts)\<rparr>, m)
      else
        (case slotEvidences e i (sort_slice slot_name_less (c_Assertions c)) m of (evs, m1) \<Rightarrow>
         case capabilities fuel e i (c_Capabilities c) m1 of
           None \<Rightarrow> None
         | Some (crs, m2) \<Rightarrow>
             (case envelopeResults e i (c_Envelopes c) m2 of (ers, m3) \<Rightarrow>
                Some (out\<lparr>ta_Evidence := evs, ta_Capabilities := sort_slice result_type_less crs,
                          ta_Envelopes := sort_slice envelope_name_less ers\<rparr>, m3))))"

fun assessAll :: "nat \<Rightarrow> evaluator \<Rightarrow> nat list \<Rightarrow> memo \<Rightarrow> (TargetAssessment list \<times> memo) option" where
  "assessAll fuel e [] m = Some ([], m)"
| "assessAll fuel e (i # is) m =
     (case assess fuel e i m of
        None \<Rightarrow> None
      | Some (t, m1) \<Rightarrow>
          (case assessAll fuel e is m1 of None \<Rightarrow> None | Some (ts, m2) \<Rightarrow> Some (t # ts, m2)))"

datatype EvalError = ErrNoEvaluationInstant

text \<open>A depth of one call per capability of a valid target is enough (\<open>Evaluate_returns\<close>).\<close>

definition eval_fuel :: "evaluator \<Rightarrow> nat" where
  "eval_fuel e = Suc (length (cap_nodes e))"

definition Evaluate :: "Snapshot \<Rightarrow> (EvalError + Assessment) option" where
  "Evaluate s =
     (if IsZero (s_At s) then Some (Inl ErrNoEvaluationInstant)
      else case rejectCycles (resolveTargets (newEvaluator s)) of
        None \<Rightarrow> None
      | Some e \<Rightarrow>
          map_option (\<lambda>(ts, m). Inr \<lparr>a_Targets = ts\<rparr>) (assessAll (eval_fuel e) e (e_order e) memo_init))"

end
