(* ===== verification/Ops_Resolution.thy ===== *)
theory Ops_Resolution
  imports Ops_Capability
begin

text \<open>
  What target resolution and cycle rejection establish. \<open>resolution\<close> says, without a cache and
  without a store, which contract a target resolves to and why it is invalid;
  \<open>resolveTargets_store\<close> says that the loop computes it for every target. From it follow the
  facts about a valid target that the rest of the evaluation relies on (\<open>resolved_inv\<close>), and that
  the capability graph is closed, so that the contract of the component search applies.
\<close>

section \<open>Maps of slices\<close>

lemma fold_append_at:
  "fold (\<lambda>x. append_at (f x) (g x)) xs m k = m k @ map g (filter (\<lambda>x. f x = k) xs)"
  by (induction xs arbitrary: m) (simp_all add: append_at_def)

lemma e_contracts_new:
  "e_contracts (newEvaluator s) k = filter (\<lambda>p. c_Identity (snd p) = k) (enumerate 0 (s_Contracts s))"
  using fold_append_at [of "\<lambda>p. c_Identity (snd p)" "\<lambda>p. p" "enumerate 0 (s_Contracts s)" "\<lambda>_. []" k]
  by (simp add: newEvaluator_def)

lemma filter_enumerate:
  "map fst (filter (\<lambda>p. P (snd p)) (enumerate 0 xs)) = filter (\<lambda>i. P (xs ! i)) [0..<length xs]"
proof (induction xs rule: rev_induct)
  case (snoc x xs)
  have "filter (\<lambda>i. P ((xs @ [x]) ! i)) [0..<length xs] = filter (\<lambda>i. P (xs ! i)) [0..<length xs]"
    by (rule filter_cong) (auto simp: nth_append)
  with snoc show ?case by (simp add: enumerate_append_eq)
qed simp

lemma e_byUID_new:
  "e_byUID (newEvaluator s) uid =
     filter (\<lambda>i. ti_UID (t_Identity (s_Targets s ! i)) = uid) [0..<length (s_Targets s)]"
  using fold_append_at [of "\<lambda>p. ti_UID (t_Identity (snd p))" fst "enumerate 0 (s_Targets s)" "\<lambda>_. []" uid]
    filter_enumerate [of "\<lambda>t. ti_UID (t_Identity t) = uid" "s_Targets s"]
  by (simp add: newEvaluator_def)

lemma e_obs_new: "e_obs (newEvaluator s) k = filter (\<lambda>o'. obs_key o' = k) (s_Observations s)"
  using fold_append_at [of obs_key "\<lambda>o'. o'" "s_Observations s" "\<lambda>_. []" k]
  by (simp add: newEvaluator_def)

section \<open>Resolution without the cache\<close>

definition resolution :: "evaluator \<Rightarrow> Target \<Rightarrow> contractPtr option \<times> Reason list" where
  "resolution e t =
     (let uid = ti_UID (t_Identity t);
          subject = ''contract:'' @ ContractIdentity_String (t_ContractRef t);
          dup = (if 1 < length (e_byUID e uid)
                 then [mkReason ReasonDuplicateTargetUID (''target:'' @ uid) ''''] else [])
      in
      if ci_Namespace (t_ContractRef t) \<noteq> ti_Namespace (t_Identity t) then
        (None, dup @ [mkReason ReasonCrossNamespaceContract subject ''''])
      else
        (case e_contracts e (t_ContractRef t) of
           [] \<Rightarrow> (None, dup @ [mkReason ReasonContractUnresolved subject ''''])
         | [p] \<Rightarrow>
             (Some p, dup @
                (if Validate (snd p) \<noteq> [] then
                   [mkReason ReasonInvalidContract subject (go_Join (sort_Strings (Validate (snd p))) ''; '')]
                 else
                   assertionBindings_bad (snd p) {} (t_AssertionBindings t) @
                   dependencyBindings_bad (snd p) {} (t_DependencyBindings t) @
                   envelopeSelection_bad (snd p) (t_EnvelopeSelection t)))
         | cs \<Rightarrow>
             (None, dup @ [mkReason ReasonContractAmbiguous subject
                             (show_nat (length cs) @ '' contracts share this identity'')])))"

definition cache_ok :: "evaluator \<Rightarrow> bool" where
  "cache_ok e \<longleftrightarrow>
     (\<forall>k p errs. p \<in> set (e_contracts e k) \<longrightarrow> e_validatedCache e (fst p) = Some errs \<longrightarrow>
        errs = sort_Strings (Validate (snd p))) \<and>
     (\<forall>k k' p p'. p \<in> set (e_contracts e k) \<longrightarrow> p' \<in> set (e_contracts e k') \<longrightarrow> fst p = fst p' \<longrightarrow> p = p')"

text \<open>The fields a resolution step leaves alone.\<close>

definition same_input :: "evaluator \<Rightarrow> evaluator \<Rightarrow> bool" where
  "same_input e e' \<longleftrightarrow> e_at e' = e_at e \<and> e_contracts e' = e_contracts e \<and> e_byUID e' = e_byUID e \<and>
     e_order e' = e_order e \<and> e_obs e' = e_obs e"

lemma resolution_cong: "same_input e e' \<Longrightarrow> resolution e' = resolution e"
  by (rule ext) (simp only: resolution_def same_input_def)

lemma same_input_trans: "same_input e e' \<Longrightarrow> same_input e' e'' \<Longrightarrow> same_input e e''"
  by (simp add: same_input_def)

lemma same_input_refl [simp]: "same_input e e"
  by (simp add: same_input_def)

lemma validate_cached:
  assumes "cache_ok e" and "p \<in> set (e_contracts e k)"
  shows "fst (validate p e) = sort_Strings (Validate (snd p)) \<and> cache_ok (snd (validate p e)) \<and>
    same_input e (snd (validate p e)) \<and> e_store (snd (validate p e)) = e_store e"
proof (cases "e_validatedCache e (fst p)")
  case None
  have "cache_ok (e\<lparr>e_validatedCache := (e_validatedCache e)(fst p \<mapsto> sort_Strings (Validate (snd p)))\<rparr>)"
  proof -
    have uniq: "p' = p" if "p' \<in> set (e_contracts e k')" "fst p' = fst p" for p' k'
      using assms that unfolding cache_ok_def by blast
    have old: "errs = sort_Strings (Validate (snd p'))"
      if "p' \<in> set (e_contracts e k')" "e_validatedCache e (fst p') = Some errs" for p' k' errs
      using assms(1) that unfolding cache_ok_def by blast
    have "errs = sort_Strings (Validate (snd p'))"
      if "p' \<in> set (e_contracts e k')"
        "((e_validatedCache e)(fst p \<mapsto> sort_Strings (Validate (snd p)))) (fst p') = Some errs" for p' k' errs
      using that uniq [OF that(1)] old [OF that(1)] by (cases "fst p' = fst p") auto
    with assms(1) show ?thesis unfolding cache_ok_def by simp
  qed
  with None show ?thesis by (simp add: validate_def Let_def same_input_def)
next
  case (Some errs)
  with assms have "errs = sort_Strings (Validate (snd p))" unfolding cache_ok_def by blast
  with Some assms(1) show ?thesis by (simp add: validate_def)
qed

lemma put_state_fields:
  "same_input e (put_state i p rs e)" "cache_ok (put_state i p rs e) \<longleftrightarrow> cache_ok e"
  "e_store (put_state i p rs e) =
     (e_store e)[i := (e_store e ! i)\<lparr>ts_contract := p, ts_invalid := ts_invalid (e_store e ! i) @ rs\<rparr>]"
  by (simp_all add: put_state_def Let_def same_input_def cache_ok_def)

lemma resolveTarget_eq:
  assumes "cache_ok e"
  shows "same_input e (resolveTarget i e) \<and> cache_ok (resolveTarget i e) \<and>
    e_store (resolveTarget i e) = (let ts = e_store e ! i; r = resolution e (ts_t ts) in
      (e_store e)[i := ts\<lparr>ts_contract := fst r, ts_invalid := ts_invalid ts @ snd r\<rparr>])"
proof -
  let ?t = "ts_t (e_store e ! i)"
  let ?cs = "e_contracts e (t_ContractRef ?t)"
  consider (cross) "ci_Namespace (t_ContractRef ?t) \<noteq> ti_Namespace (t_Identity ?t)"
    | (none) "ci_Namespace (t_ContractRef ?t) = ti_Namespace (t_Identity ?t)" "?cs = []"
    | (one) p where "ci_Namespace (t_ContractRef ?t) = ti_Namespace (t_Identity ?t)" "?cs = [p]"
    | (many) p q ps where "ci_Namespace (t_ContractRef ?t) = ti_Namespace (t_Identity ?t)" "?cs = p # q # ps"
    by (metis neq_Nil_conv)
  then show ?thesis
  proof cases
    case (one p)
    obtain errs e1 where v: "validate p e = (errs, e1)" by fastforce
    have v': "errs = sort_Strings (Validate (snd p))" "cache_ok e1" "same_input e e1" "e_store e1 = e_store e"
      using validate_cached [OF assms, of p "t_ContractRef ?t"] one(2) v by simp_all
    show ?thesis
      using one v' same_input_trans [OF v'(3) put_state_fields(1)]
      by (simp add: resolveTarget_def resolution_def v put_state_fields(2,3) Let_def)
  qed (use assms in \<open>simp_all add: resolveTarget_def resolution_def put_state_fields Let_def\<close>)
qed

text \<open>The loop over all targets, each visited once.\<close>

lemma fold_resolveTarget:
  assumes "cache_ok e" and "distinct is" and "\<And>i. i \<in> set is \<Longrightarrow> i < length (e_store e)"
  shows "same_input e (fold resolveTarget is e) \<and> length (e_store (fold resolveTarget is e)) = length (e_store e) \<and>
    (\<forall>j < length (e_store e). e_store (fold resolveTarget is e) ! j =
      (let ts = e_store e ! j; r = resolution e (ts_t ts) in
       if j \<in> set is then ts\<lparr>ts_contract := fst r, ts_invalid := ts_invalid ts @ snd r\<rparr> else ts))"
  using assms
proof (induction "is" arbitrary: e)
  case (Cons i "is")
  let ?e = "resolveTarget i e"
  have step: "same_input e ?e" "cache_ok ?e"
    "e_store ?e = (let ts = e_store e ! i; r = resolution e (ts_t ts) in
      (e_store e)[i := ts\<lparr>ts_contract := fst r, ts_invalid := ts_invalid ts @ snd r\<rparr>])"
    using resolveTarget_eq [OF Cons.prems(1), of i] by auto
  have len: "length (e_store ?e) = length (e_store e)" using step(3) by (simp add: Let_def)
  have res: "resolution ?e = resolution e"
    using step(1) by (rule resolution_cong)
  have IH: "same_input ?e (fold resolveTarget is ?e)"
    "length (e_store (fold resolveTarget is ?e)) = length (e_store e)"
    "\<And>j. j < length (e_store e) \<Longrightarrow> e_store (fold resolveTarget is ?e) ! j =
      (let ts = e_store ?e ! j; r = resolution e (ts_t ts) in
       if j \<in> set is then ts\<lparr>ts_contract := fst r, ts_invalid := ts_invalid ts @ snd r\<rparr> else ts)"
    using Cons.IH [OF step(2)] Cons.prems(2,3) len res by (auto simp: Let_def)
  have "e_store ?e ! j = (if j = i then (e_store e ! i)\<lparr>ts_contract := fst (resolution e (ts_t (e_store e ! i))),
      ts_invalid := ts_invalid (e_store e ! i) @ snd (resolution e (ts_t (e_store e ! i)))\<rparr> else e_store e ! j)"
    if "j < length (e_store e)" for j
    using step(3) that by (simp add: Let_def nth_list_update)
  with IH same_input_trans [OF step(1) IH(1)] Cons.prems(2) show ?case
    by (simp add: Let_def)
qed simp

abbreviation resolved :: "Snapshot \<Rightarrow> evaluator" where
  "resolved s \<equiv> resolveTargets (newEvaluator s)"

lemma cache_ok_new: "cache_ok (newEvaluator s)"
proof -
  have "p = p'" if "p \<in> set (enumerate 0 (s_Contracts s))" "p' \<in> set (enumerate 0 (s_Contracts s))" "fst p = fst p'"
    for p p'
    using that by (auto simp: in_set_enumerate_eq prod_eq_iff)
  then show ?thesis
    unfolding cache_ok_def e_contracts_new by (auto simp: newEvaluator_def)
qed

lemma new_order: "set (e_order (newEvaluator s)) = {..<length (s_Targets s)}" "distinct (e_order (newEvaluator s))"
  by (auto simp: newEvaluator_def)

lemma resolved_input: "same_input (newEvaluator s) (resolved s)"
  and resolved_length [simp]: "length (e_store (resolved s)) = length (s_Targets s)"
  and resolved_store: "i < length (s_Targets s) \<Longrightarrow> e_store (resolved s) ! i =
     \<lparr>ts_t = s_Targets s ! i, ts_contract = fst (resolution (newEvaluator s) (s_Targets s ! i)),
      ts_invalid = snd (resolution (newEvaluator s) (s_Targets s ! i))\<rparr>"
proof -
  have "length (e_store (newEvaluator s)) = length (s_Targets s)" by (simp add: newEvaluator_def)
  with fold_resolveTarget [OF cache_ok_new new_order(2), of s] new_order(1) [of s]
  show "same_input (newEvaluator s) (resolved s)" "length (e_store (resolved s)) = length (s_Targets s)"
    "i < length (s_Targets s) \<Longrightarrow> e_store (resolved s) ! i =
     \<lparr>ts_t = s_Targets s ! i, ts_contract = fst (resolution (newEvaluator s) (s_Targets s ! i)),
      ts_invalid = snd (resolution (newEvaluator s) (s_Targets s ! i))\<rparr>"
    unfolding resolveTargets_def by (auto simp: Let_def newEvaluator_def)
qed

section \<open>When a target is valid\<close>

lemma assertionBindings_bad_iff:
  "assertionBindings_bad c seen bs = [] \<longleftrightarrow>
     (\<forall>b \<in> set bs. slot_of c (ab_Slot b) \<noteq> None \<and> pi_Name (ab_Provider b) \<noteq> '''') \<and>
     distinct (map ab_Slot bs) \<and> seen \<inter> ab_Slot ` set bs = {}"
  by (induction c seen bs rule: assertionBindings_bad.induct) auto

lemma dependencyBindings_bad_iff:
  "dependencyBindings_bad c seen bs = [] \<longleftrightarrow>
     (\<forall>b \<in> set bs. hasDepSlot c (db_Slot b) \<and> db_TargetUID b \<noteq> '''' \<and>
        ContractIdentity_complete (db_Contract b)) \<and>
     distinct (map db_Slot bs) \<and> seen \<inter> db_Slot ` set bs = {}"
  by (induction c seen bs rule: dependencyBindings_bad.induct) auto

definition bindings_wf :: "Contract \<Rightarrow> Target \<Rightarrow> bool" where
  "bindings_wf c t \<longleftrightarrow>
     distinct (map ab_Slot (t_AssertionBindings t)) \<and>
     (\<forall>b \<in> set (t_AssertionBindings t). slot_of c (ab_Slot b) \<noteq> None \<and> pi_Name (ab_Provider b) \<noteq> '''') \<and>
     distinct (map db_Slot (t_DependencyBindings t)) \<and>
     (\<forall>b \<in> set (t_DependencyBindings t). hasDepSlot c (db_Slot b) \<and> db_TargetUID b \<noteq> '''' \<and>
        ContractIdentity_complete (db_Contract b)) \<and>
     (t_EnvelopeSelection t = '''' \<or> envelope_of c (t_EnvelopeSelection t) \<noteq> None)"

text \<open>A target of a snapshot is well formed when no other target has its UID, its contract
  reference stays in its namespace and names exactly one contract, and that contract and the
  target's bindings to it are well formed.\<close>

definition target_wf :: "Snapshot \<Rightarrow> Target \<Rightarrow> Contract \<Rightarrow> bool" where
  "target_wf s t c \<longleftrightarrow>
     length (filter (\<lambda>t'. ti_UID (t_Identity t') = ti_UID (t_Identity t)) (s_Targets s)) \<le> 1 \<and>
     ci_Namespace (t_ContractRef t) = ti_Namespace (t_Identity t) \<and>
     filter (\<lambda>c'. c_Identity c' = t_ContractRef t) (s_Contracts s) = [c] \<and>
     contract_wf c \<and> bindings_wf c t"

lemma resolution_valid_iff:
  "snd (resolution e t) = [] \<longleftrightarrow>
     length (e_byUID e (ti_UID (t_Identity t))) \<le> 1 \<and>
     ci_Namespace (t_ContractRef t) = ti_Namespace (t_Identity t) \<and>
     (\<exists>p. e_contracts e (t_ContractRef t) = [p] \<and> contract_wf (snd p) \<and> bindings_wf (snd p) t)"
  by (auto simp: resolution_def Let_def bindings_wf_def assertionBindings_bad_iff Validate_Nil_iff
        dependencyBindings_bad_iff envelopeSelection_bad_def split: list.splits if_splits)

lemma resolution_contract:
  "snd (resolution e t) = [] \<Longrightarrow> e_contracts e (t_ContractRef t) = [p] \<Longrightarrow> fst (resolution e t) = Some p"
  by (auto simp: resolution_def Let_def split: list.splits if_splits)

lemma map_snd_filter_enumerate:
  "map snd (filter (\<lambda>p. P (snd p)) (enumerate 0 xs)) = filter P xs"
  by (induction xs rule: rev_induct) (simp_all add: enumerate_append_eq)

lemma length_byUID_new:
  "length (e_byUID (newEvaluator s) uid) = length (filter (\<lambda>t. ti_UID (t_Identity t) = uid) (s_Targets s))"
  using arg_cong [OF filter_enumerate [of "\<lambda>t. ti_UID (t_Identity t) = uid" "s_Targets s"], of length]
    arg_cong [OF map_snd_filter_enumerate [of "\<lambda>t. ti_UID (t_Identity t) = uid" "s_Targets s"], of length]
  by (simp add: e_byUID_new)

lemma contracts_new_snd:
  "map snd (e_contracts (newEvaluator s) k) = filter (\<lambda>c. c_Identity c = k) (s_Contracts s)"
  unfolding e_contracts_new by (rule map_snd_filter_enumerate)

lemma resolved_valid_iff:
  assumes "i < length (s_Targets s)"
  shows "ts_valid (e_store (resolved s) ! i) \<longleftrightarrow> (\<exists>c. target_wf s (s_Targets s ! i) c)"
proof -
  let ?t = "s_Targets s ! i"
  have "(\<exists>p. e_contracts (newEvaluator s) (t_ContractRef ?t) = [p] \<and> Q (snd p)) \<longleftrightarrow>
      (\<exists>c. filter (\<lambda>c. c_Identity c = t_ContractRef ?t) (s_Contracts s) = [c] \<and> Q c)" for Q
    unfolding contracts_new_snd [symmetric] by (auto simp: map_eq_Cons_conv)
  then show ?thesis
    unfolding ts_valid_def resolved_store [OF assms] target_wf_def length_byUID_new [symmetric]
    by (simp add: resolution_valid_iff)
qed

section \<open>The invariant of a resolved evaluator\<close>

definition eval_inv :: "evaluator \<Rightarrow> bool" where
  "eval_inv e \<longleftrightarrow>
     set (e_order e) = {..<length (e_store e)} \<and> distinct (e_order e) \<and>
     (\<forall>uid. e_byUID e uid = filter (\<lambda>i. uid_at e i = uid) [0..<length (e_store e)]) \<and>
     (\<forall>i < length (e_store e). ts_valid (e_store e ! i) \<longrightarrow>
        contract_wf (contract_at e i) \<and> ts_contract (e_store e ! i) \<noteq> None \<and>
        bindings_wf (contract_at e i) (ts_t (e_store e ! i)) \<and>
        length (e_byUID e (uid_at e i)) \<le> 1)"

lemma eval_inv_resolved: "eval_inv (resolved s)"
proof -
  let ?e = "resolved s" and ?n = "newEvaluator s"
  have uid: "uid_at ?e i = ti_UID (t_Identity (s_Targets s ! i))" if "i < length (s_Targets s)" for i
    using that by (simp add: uid_at_def resolved_store)
  have fields: "e_byUID ?e = e_byUID ?n" "e_order ?e = e_order ?n" "e_contracts ?e = e_contracts ?n"
    using resolved_input [of s] by (simp_all add: same_input_def)
  have "e_byUID ?e u = filter (\<lambda>i. uid_at ?e i = u) [0..<length (e_store ?e)]" for u
    unfolding fields e_byUID_new by (auto intro!: filter_cong simp: uid)
  moreover have "contract_wf (contract_at ?e i) \<and> ts_contract (e_store ?e ! i) \<noteq> None \<and>
      bindings_wf (contract_at ?e i) (ts_t (e_store ?e ! i)) \<and> length (e_byUID ?e (uid_at ?e i)) \<le> 1"
    if i: "i < length (s_Targets s)" and v: "ts_valid (e_store ?e ! i)" for i
  proof -
    have r: "snd (resolution ?n (s_Targets s ! i)) = []" using v i by (simp add: ts_valid_def resolved_store)
    then obtain p where p: "e_contracts ?n (t_ContractRef (s_Targets s ! i)) = [p]" "contract_wf (snd p)"
        "bindings_wf (snd p) (s_Targets s ! i)" "length (e_byUID ?n (ti_UID (t_Identity (s_Targets s ! i)))) \<le> 1"
      unfolding resolution_valid_iff by blast
    then show ?thesis
      using resolution_contract [OF r p(1)] i by (simp add: contract_at_def resolved_store uid fields)
  qed
  ultimately show ?thesis using new_order [of s] by (simp add: eval_inv_def fields)
qed

lemma eval_invD:
  assumes "eval_inv e"
  shows "set (e_order e) = {..<length (e_store e)}" "distinct (e_order e)"
    and "e_byUID e uid = filter (\<lambda>i. uid_at e i = uid) [0..<length (e_store e)]"
    and "i < length (e_store e) \<Longrightarrow> ts_valid (e_store e ! i) \<Longrightarrow> contract_wf (contract_at e i)"
    and "i < length (e_store e) \<Longrightarrow> ts_valid (e_store e ! i) \<Longrightarrow> length (e_byUID e (uid_at e i)) \<le> 1"
    and "i < length (e_store e) \<Longrightarrow> ts_valid (e_store e ! i) \<Longrightarrow> bindings_wf (contract_at e i) (ts_t (e_store e ! i))"
    and "i < length (e_store e) \<Longrightarrow> ts_valid (e_store e ! i) \<Longrightarrow> ts_contract (e_store e ! i) \<noteq> None"
  using assms unfolding eval_inv_def by auto

text \<open>The lookup by UID finds exactly the valid targets.\<close>

lemma uniqueValid_iff:
  assumes "eval_inv e"
  shows "uniqueValid e uid = Some i \<longleftrightarrow> i < length (e_store e) \<and> ts_valid (e_store e ! i) \<and> uid_at e i = uid"
proof
  assume "uniqueValid e uid = Some i"
  then have "e_byUID e uid = [i]" "ts_valid (e_store e ! i)"
    by (auto simp: uniqueValid_def split: list.splits if_splits)
  moreover from this have "i \<in> set (e_byUID e uid)" by simp
  then have "i \<in> set (filter (\<lambda>i. uid_at e i = uid) [0..<length (e_store e)])"
    by (simp only: eval_invD(3) [OF assms])
  ultimately show "i < length (e_store e) \<and> ts_valid (e_store e ! i) \<and> uid_at e i = uid"
    by simp
next
  assume i: "i < length (e_store e) \<and> ts_valid (e_store e ! i) \<and> uid_at e i = uid"
  then have "i \<in> set (e_byUID e uid)" using eval_invD(3) [OF assms, of uid] by simp
  moreover have "length (e_byUID e uid) \<le> 1" using eval_invD(5) [OF assms] i by blast
  ultimately have "e_byUID e uid = [i]" by (cases "e_byUID e uid") auto
  with i show "uniqueValid e uid = Some i" by (simp add: uniqueValid_def)
qed

section \<open>The capability graph\<close>

lemma uid_in_order: "eval_inv e \<Longrightarrow> i \<in> set (e_order e) \<longleftrightarrow> i < length (e_store e)"
  by (simp add: eval_invD(1))

lemma capability_of_SomeD:
  "capability_of c n = Some cp \<Longrightarrow> cp \<in> set (c_Capabilities c) \<and> ct_Name (cp_Type cp) = n"
  unfolding capability_of_def by (drule find_SomeD) simp

lemma capability_of_declared:
  "capability_of c n \<noteq> None \<longleftrightarrow> (\<exists>cp \<in> set (c_Capabilities c). ct_Name (cp_Type cp) = n)"
  by (auto simp: capability_of_None_iff)

lemma cap_nodes_iff:
  assumes "eval_inv e"
  shows "k \<in> set (cap_nodes e) \<longleftrightarrow>
    (\<exists>i. uniqueValid e (ck_uid k) = Some i \<and> capability_of (contract_at e i) (ck_name k) \<noteq> None)"
proof -
  have key: "k = \<lparr>ck_uid = u, ck_name = n\<rparr> \<longleftrightarrow> u = ck_uid k \<and> n = ck_name k" for u n
    by (cases k) auto
  have "k \<in> set (cap_nodes e) \<longleftrightarrow> (\<exists>i \<in> set (e_order e). ts_valid (e_store e ! i) \<and> uid_at e i = ck_uid k \<and>
      (\<exists>cp \<in> set (c_Capabilities (contract_at e i)). ct_Name (cp_Type cp) = ck_name k))"
    unfolding cap_nodes_def set_sort_slice set_concat set_map UN_iff bex_simps
    by (rule bex_cong [OF refl]) (auto simp: key image_iff)
  then show ?thesis
    unfolding uniqueValid_iff [OF assms] capability_of_declared uid_in_order [OF assms] Bex_def by blast
qed

lemma requirement_edge_nodes:
  assumes inv: "eval_inv e" and i: "uniqueValid e (ck_uid n) = Some i"
    and r: "requirement_wf (contract_at e i) r" and k: "requirement_edge e n i r = Some k"
  shows "k \<in> set (cap_nodes e)"
proof (cases "r_LocalCapability r = ''''")
  case False
  with k r i show ?thesis
    by (auto simp: requirement_edge_def cap_nodes_iff [OF inv] requirement_wf_def)
next
  case True
  with k obtain d j dc u where *: "capabilityByType (contract_at e j) d = Some dc"
      "uniqueValid e u = Some j" "k = \<lparr>ck_uid = uid_at e j, ck_name = ct_Name (cp_Type dc)\<rparr>"
    by (auto simp: requirement_edge_def split: option.splits if_splits)
  then have "dc \<in> set (c_Capabilities (contract_at e j))" "uniqueValid e (uid_at e j) = Some j"
    unfolding capabilityByType_def uniqueValid_iff [OF inv] by (auto dest: find_SomeD)
  with * show ?thesis unfolding cap_nodes_iff [OF inv] capability_of_declared by auto
qed

lemma set_map_filter: "y \<in> set (List.map_filter f xs) \<longleftrightarrow> (\<exists>x \<in> set xs. f x = Some y)"
  by (induction xs) (auto simp: List.map_filter_simps split: option.splits)

lemma edges_iff:
  "k \<in> set (edges e n) \<longleftrightarrow>
     (\<exists>i cp r. uniqueValid e (ck_uid n) = Some i \<and> capability_of (contract_at e i) (ck_name n) = Some cp \<and>
        r \<in> set (cp_Requirements cp) \<and> requirement_edge e n i r = Some k)"
proof (cases "uniqueValid e (ck_uid n)")
  case (Some i)
  then show ?thesis
    by (cases "capability_of (contract_at e i) (ck_name n)") (auto simp: edges_def set_map_filter)
qed (simp add: edges_def)

lemma edges_nodes:
  assumes "eval_inv e"
  shows "set (edges e n) \<subseteq> set (cap_nodes e)"
proof
  fix k
  assume "k \<in> set (edges e n)"
  then obtain i cp r where r: "uniqueValid e (ck_uid n) = Some i"
      "capability_of (contract_at e i) (ck_name n) = Some cp" "r \<in> set (cp_Requirements cp)"
      "requirement_edge e n i r = Some k"
    unfolding edges_iff by blast
  then have "contract_wf (contract_at e i)" "cp \<in> set (c_Capabilities (contract_at e i))"
    using eval_invD(4) [OF assms] uniqueValid_iff [OF assms] capability_of_SomeD by blast+
  with r(3) have "requirement_wf (contract_at e i) r" by (simp add: contract_wf_def capability_wf_def)
  from requirement_edge_nodes [OF assms r(1) this r(4)] show "k \<in> set (cap_nodes e)" .
qed

interpretation snapshot_graph: finite_graph "edges (resolved s)" "cap_nodes (resolved s)" for s
  by unfold_locales (rule edges_nodes [OF eval_inv_resolved])

section \<open>Cycle rejection\<close>

text \<open>\<open>e'\<close> is \<open>e\<close> with reasons appended to exactly the states of the UIDs in \<open>U\<close>.\<close>

definition rejects :: "string set \<Rightarrow> evaluator \<Rightarrow> evaluator \<Rightarrow> bool" where
  "rejects U e e' \<longleftrightarrow> same_input e e' \<and> length (e_store e') = length (e_store e) \<and>
     (\<forall>j < length (e_store e). \<exists>rs.
        e_store e' ! j = (e_store e ! j)\<lparr>ts_invalid := ts_invalid (e_store e ! j) @ rs\<rparr> \<and>
        (rs \<noteq> [] \<longleftrightarrow> uid_at e j \<in> U) \<and> (\<forall>r \<in> set rs. rs_Code r = ReasonDependencyCycle))"

lemma rejectsD:
  assumes "rejects U e e'" and "j < length (e_store e)"
  shows "ts_t (e_store e' ! j) = ts_t (e_store e ! j)" "ts_contract (e_store e' ! j) = ts_contract (e_store e ! j)"
    and "uid_at e' j = uid_at e j" "contract_at e' j = contract_at e j"
    and "ts_valid (e_store e' ! j) \<longleftrightarrow> ts_valid (e_store e ! j) \<and> uid_at e j \<notin> U"
proof -
  obtain rs where rs: "e_store e' ! j = (e_store e ! j)\<lparr>ts_invalid := ts_invalid (e_store e ! j) @ rs\<rparr>"
      "rs \<noteq> [] \<longleftrightarrow> uid_at e j \<in> U"
    using assms unfolding rejects_def by blast
  then show "ts_t (e_store e' ! j) = ts_t (e_store e ! j)" "ts_contract (e_store e' ! j) = ts_contract (e_store e ! j)"
    "uid_at e' j = uid_at e j" "contract_at e' j = contract_at e j"
    "ts_valid (e_store e' ! j) \<longleftrightarrow> ts_valid (e_store e ! j) \<and> uid_at e j \<notin> U"
    by (auto simp: uid_at_def contract_at_def ts_valid_def)
qed

lemma rejects_refl: "rejects {} e e"
proof -
  have "e_store e ! j = (e_store e ! j)\<lparr>ts_invalid := ts_invalid (e_store e ! j) @ []\<rparr>" for j by simp
  then show ?thesis unfolding rejects_def by (metis empty_iff same_input_refl set_empty)
qed

lemma rejects_trans:
  assumes "rejects U e e'" and "rejects V e' e''"
  shows "rejects (U \<union> V) e e''"
proof -
  have "\<exists>rs. e_store e'' ! j = (e_store e ! j)\<lparr>ts_invalid := ts_invalid (e_store e ! j) @ rs\<rparr> \<and>
      (rs \<noteq> [] \<longleftrightarrow> uid_at e j \<in> U \<union> V) \<and> (\<forall>r \<in> set rs. rs_Code r = ReasonDependencyCycle)"
    if j: "j < length (e_store e)" for j
  proof -
    obtain rs where rs: "e_store e' ! j = (e_store e ! j)\<lparr>ts_invalid := ts_invalid (e_store e ! j) @ rs\<rparr>"
        "rs \<noteq> [] \<longleftrightarrow> uid_at e j \<in> U" "\<forall>r \<in> set rs. rs_Code r = ReasonDependencyCycle"
      using assms(1) j unfolding rejects_def by blast
    have j': "j < length (e_store e')" using assms(1) j by (simp add: rejects_def)
    obtain rs' where rs': "e_store e'' ! j = (e_store e' ! j)\<lparr>ts_invalid := ts_invalid (e_store e' ! j) @ rs'\<rparr>"
        "rs' \<noteq> [] \<longleftrightarrow> uid_at e' j \<in> V" "\<forall>r \<in> set rs'. rs_Code r = ReasonDependencyCycle"
      using assms(2) j' unfolding rejects_def by blast
    show ?thesis
      using rs rs' rejectsD(3) [OF assms(1) j] by (intro exI [of _ "rs @ rs'"]) auto
  qed
  moreover have "same_input e e''" "length (e_store e'') = length (e_store e)"
    using assms same_input_trans by (auto simp: rejects_def)
  ultimately show ?thesis unfolding rejects_def by simp
qed

text \<open>The loops of the rejection: over the states of a UID, the UIDs of a component, and the
  components.\<close>

lemma rejects_fold_invalidate:
  assumes "rs_Code r = ReasonDependencyCycle" and "distinct is" and "set is = {i. i < length (e_store e) \<and> uid_at e i = uid}"
  shows "rejects {uid} e (fold (invalidate r) is e)"
proof -
  have run: "same_input e (fold (invalidate r) is e) \<and> length (e_store (fold (invalidate r) is e)) = length (e_store e) \<and>
      (\<forall>j < length (e_store e). e_store (fold (invalidate r) is e) ! j =
         (e_store e ! j)\<lparr>ts_invalid := ts_invalid (e_store e ! j) @ (if j \<in> set is then [r] else [])\<rparr>)"
    if "distinct is" "set is \<subseteq> {..<length (e_store e)}" for "is" e
    using that
  proof (induction "is" arbitrary: e)
    case (Cons i "is")
    let ?e = "invalidate r i e"
    have "same_input e ?e" "length (e_store ?e) = length (e_store e)"
      by (simp_all add: invalidate_def same_input_def)
    moreover have "e_store ?e ! j = (e_store e ! j)\<lparr>ts_invalid := ts_invalid (e_store e ! j) @ (if j = i then [r] else [])\<rparr>"
      if "j < length (e_store e)" for j
      using that by (simp add: invalidate_def nth_list_update)
    moreover have "set is \<subseteq> {..<length (e_store ?e)}" using Cons.prems(2) calculation(2) by simp
    ultimately show ?case
      using Cons.IH [of ?e] Cons.prems(1) same_input_trans by auto
  qed simp
  have "set is \<subseteq> {..<length (e_store e)}" using assms(3) by auto
  from run [OF assms(2) this] assms show ?thesis unfolding rejects_def by fastforce
qed

lemma eval_inv_rejects:
  assumes inv: "eval_inv e" and rej: "rejects U e e'"
  shows "eval_inv e'"
proof -
  have len: "length (e_store e') = length (e_store e)"
    and fields: "e_byUID e' = e_byUID e" "e_order e' = e_order e"
    using rej by (simp_all add: rejects_def same_input_def)
  have "e_byUID e' uid = filter (\<lambda>i. uid_at e' i = uid) [0..<length (e_store e')]" for uid
    unfolding fields len eval_invD(3) [OF inv] by (rule filter_cong) (simp_all add: rejectsD(3) [OF rej])
  moreover have "contract_wf (contract_at e' i) \<and> ts_contract (e_store e' ! i) \<noteq> None \<and>
      bindings_wf (contract_at e' i) (ts_t (e_store e' ! i)) \<and> length (e_byUID e' (uid_at e' i)) \<le> 1"
    if "i < length (e_store e)" "ts_valid (e_store e' ! i)" for i
  proof -
    have "ts_valid (e_store e ! i)" using that rejectsD(5) [OF rej] by blast
    from eval_invD(4-7) [OF inv that(1) this] show ?thesis
      unfolding fields rejectsD [OF rej that(1)] by blast
  qed
  ultimately show ?thesis
    using eval_invD(1,2) [OF inv] unfolding eval_inv_def len fields(2) by blast
qed

lemma rejects_component:
  assumes "eval_inv e"
  shows "rejects (ck_uid ` set scc) e (rejectComponent scc e)"
proof -
  let ?scc = "sort_slice capKey_less scc"
  define step where "step = (\<lambda>uid.
     let names = map ck_name (filter (\<lambda>n. ck_uid n = uid) ?scc) in
     fold (invalidate (mkReason ReasonDependencyCycle (''capabilities:'' @ go_Join names '','')
       (''cycle members: '' @ go_Join (map (\<lambda>n. ck_uid n @ ''/'' @ ck_name n) ?scc) '',''))) (e_byUID e uid))"
  have run: "rejects (set us) e' (fold step us e')" if "rejects U e e'" for us U e'
    using that
  proof (induction us arbitrary: U e')
    case (Cons u us)
    have inv': "eval_inv e'" by (rule eval_inv_rejects [OF assms Cons.prems])
    have "e_byUID e u = e_byUID e' u" using Cons.prems by (simp add: rejects_def same_input_def)
    then have "set (e_byUID e u) = {i. i < length (e_store e') \<and> uid_at e' i = u}" "distinct (e_byUID e u)"
      by (auto simp: eval_invD(3) [OF inv'])
    then have step: "rejects {u} e' (step u e')"
      unfolding step_def Let_def by (intro rejects_fold_invalidate) (simp_all add: mkReason_def)
    from rejects_trans [OF step Cons.IH [OF rejects_trans [OF Cons.prems step]]] show ?case by simp
  qed (simp add: rejects_refl)
  have "rejectComponent scc e = fold step (remdups (map ck_uid ?scc)) e"
    by (simp add: rejectComponent_def step_def Let_def)
  with run [OF rejects_refl, of "remdups (map ck_uid ?scc)"] show ?thesis by simp
qed

lemma rejects_components:
  "eval_inv e \<Longrightarrow> rejects (ck_uid ` (\<Union>C \<in> set sccs. set C)) e (fold rejectComponent sccs e)"
proof (induction sccs arbitrary: e)
  case (Cons C sccs)
  have step: "rejects (ck_uid ` set C) e (rejectComponent C e)" by (rule rejects_component [OF Cons.prems])
  from rejects_trans [OF step Cons.IH [OF eval_inv_rejects [OF Cons.prems step]]]
  show ?case by (simp add: image_Un)
qed (simp add: rejects_refl)

text \<open>The capabilities on a cycle of the resolved snapshot.\<close>

definition on_cycle :: "Snapshot \<Rightarrow> capKey \<Rightarrow> bool" where
  "on_cycle s k \<longleftrightarrow> (k, k) \<in> (succ_rel (edges (resolved s)))\<^sup>+"

lemma on_cycle_node: "on_cycle s k \<Longrightarrow> k \<in> set (cap_nodes (resolved s))"
  unfolding on_cycle_def
  by (drule tranclD2) (use edges_nodes [OF eval_inv_resolved] in \<open>auto simp: succ_rel_def\<close>)

lemma rejectCycles_rejects:
  "\<exists>e. rejectCycles (resolved s) = Some e \<and> rejects (ck_uid ` {k. on_cycle s k}) (resolved s) e"
proof -
  obtain sccs where sccs: "cyclicComponents (edges (resolved s)) (cap_nodes (resolved s)) = Some sccs"
      "(\<Union>C \<in> set sccs. set C) = {x \<in> set (cap_nodes (resolved s)). (x, x) \<in> (succ_rel (edges (resolved s)))\<^sup>+}"
    using snapshot_graph.cyclicComponents_correct by blast
  have "{x \<in> set (cap_nodes (resolved s)). (x, x) \<in> (succ_rel (edges (resolved s)))\<^sup>+} = {k. on_cycle s k}"
    using on_cycle_node by (auto simp: on_cycle_def)
  with sccs rejects_components [OF eval_inv_resolved, of sccs s] show ?thesis
    by (simp add: rejectCycles_def)
qed

section \<open>The evaluator after rejection\<close>

definition prepared :: "Snapshot \<Rightarrow> evaluator" where
  "prepared s = the (rejectCycles (resolved s))"

lemma rejectCycles_prepared: "rejectCycles (resolved s) = Some (prepared s)"
  and prepared_rejects: "rejects (ck_uid ` {k. on_cycle s k}) (resolved s) (prepared s)"
  using rejectCycles_rejects [of s] by (auto simp: prepared_def)

lemma eval_inv_prepared: "eval_inv (prepared s)"
  by (rule eval_inv_rejects [OF eval_inv_resolved prepared_rejects])

end
