(* ===== verification/Ops_Composition.thy ===== *)
theory Ops_Composition
  imports Ops_Resolution
begin

text \<open>
  The evaluation of capabilities against a specification without caches and without recursion
  depth: \<open>cap_spec\<close> composes the verdicts of a capability's requirements, reading the states of
  the capabilities it depends on from an assignment of states. On an evaluator whose capability
  graph is acyclic, the recursion returns and computes the one assignment that satisfies the
  equations.
\<close>

section \<open>The specification\<close>

definition evidence_spec :: "evaluator \<Rightarrow> nat \<Rightarrow> string \<Rightarrow> slotEvidence" where
  "evidence_spec e i name = resolveEvidence e i (slot_or_zero (contract_at e i) name)"

definition pred_spec :: "evaluator \<Rightarrow> nat \<Rightarrow> Predicate \<Rightarrow> verdict \<times> Reason" where
  "pred_spec e i p = predicate_verdict p (evidence_spec e i (p_Assertion p))"

definition env_spec :: "evaluator \<Rightarrow> nat \<Rightarrow> Envelope \<Rightarrow> EnvelopeResult" where
  "env_spec e i env = finishEnvelope env (map (pred_spec e i) (env_Requirements env))"

definition req_spec :: "evaluator \<Rightarrow> (capKey \<Rightarrow> CapabilityState) \<Rightarrow> nat \<Rightarrow> Requirement \<Rightarrow> verdict \<times> Reason" where
  "req_spec e look i req = (case r_Predicate req of
       Some p \<Rightarrow> pred_spec e i p
     | None \<Rightarrow>
         (case r_Dependency req of
            Some d \<Rightarrow>
              (case resolve_dependency e i d of
                 Inl r \<Rightarrow> (unproven, r)
               | Inr (subject, j, dc) \<Rightarrow>
                   dependency_verdict subject (look \<lparr>ck_uid = uid_at e j, ck_name = ct_Name (cp_Type dc)\<rparr>))
          | None \<Rightarrow>
              if r_LocalCapability req \<noteq> '''' then
                local_verdict (''local:'' @ r_LocalCapability req)
                  (look \<lparr>ck_uid = uid_at e i, ck_name = r_LocalCapability req\<rparr>)
              else if r_Envelope req \<noteq> '''' then
                envelope_verdict (''envelope:'' @ r_Envelope req)
                  (er_State (env_spec e i (case envelope_of (contract_at e i) (r_Envelope req) of
                                             None \<Rightarrow> Envelope_zero | Some x \<Rightarrow> x)))
              else (accepted, Reason_zero)))"

definition cap_spec ::
  "evaluator \<Rightarrow> (capKey \<Rightarrow> CapabilityState) \<Rightarrow> nat \<Rightarrow> Capability \<Rightarrow> CapabilityResult" where
  "cap_spec e look i cp = finishCapability cp (map (req_spec e look i) (cp_Requirements cp))"

definition slot_result :: "evaluator \<Rightarrow> nat \<Rightarrow> AssertionSlot \<Rightarrow> SlotEvidence" where
  "slot_result e i s =
     (let ev = resolveEvidence e i s in
      \<lparr>se_Slot = as_Name s, se_Status = sv_status ev, se_Provider = sv_provider ev, se_EvidenceRef = sv_ref ev\<rparr>)"

text \<open>The assessment of one target that an assignment of states to capabilities gives.\<close>

definition assess_spec :: "evaluator \<Rightarrow> (capKey \<Rightarrow> CapabilityState) \<Rightarrow> nat \<Rightarrow> TargetAssessment" where
  "assess_spec e look i =
     (let ts = e_store e ! i; c = contract_at e i; v = ts_valid ts in
      \<lparr>ta_Target = t_Identity (ts_t ts), ta_Contract = t_ContractRef (ts_t ts), ta_Valid = v,
       ta_InvalidReasons = (if v then [] else normalize (ts_invalid ts)), ta_Sync = SyncNotApplicable,
       ta_EnvelopeSelection = t_EnvelopeSelection (ts_t ts),
       ta_Evidence = (if v then map (slot_result e i) (sort_slice slot_name_less (c_Assertions c)) else []),
       ta_Capabilities = (if v then sort_slice result_type_less (map (cap_spec e look i) (c_Capabilities c)) else []),
       ta_Envelopes = (if v then sort_slice envelope_name_less (map (env_spec e i) (c_Envelopes c)) else [])\<rparr>)"

text \<open>The assignment an assessment itself reports.\<close>

definition assessed_state :: "Assessment \<Rightarrow> capKey \<Rightarrow> CapabilityState" where
  "assessed_state a k = (case Assessment_Target a (ck_uid k) of
       None \<Rightarrow> Unknown
     | Some t \<Rightarrow>
         (case TargetAssessment_Capability t (ck_name k) of None \<Rightarrow> Unknown | Some r \<Rightarrow> cr_State r))"

text \<open>A verdict reads the assignment only along the edges of the capability graph.\<close>

lemma resolve_dependency_edge:
  "resolve_dependency e i d = Inr (subject, j, dc) \<Longrightarrow> r_Dependency r = Some d \<Longrightarrow> r_LocalCapability r = '''' \<Longrightarrow>
     requirement_edge e n i r = Some \<lparr>ck_uid = uid_at e j, ck_name = ct_Name (cp_Type dc)\<rparr> \<and>
     (\<exists>uid. uniqueValid e uid = Some j) \<and> dc \<in> set (c_Capabilities (contract_at e j))"
  by (auto simp: resolve_dependency_def requirement_edge_def Let_def capabilityByType_def
      split: option.splits if_splits dest: find_SomeD)

lemma kinds_exclusive:
  assumes "requirement_kinds r = 1"
  shows "r_Predicate r = Some p \<Longrightarrow> r_Dependency r = None \<and> r_LocalCapability r = '''' \<and> r_Envelope r = ''''"
    and "r_Dependency r = Some d \<Longrightarrow> r_Predicate r = None \<and> r_LocalCapability r = '''' \<and> r_Envelope r = ''''"
    and "r_LocalCapability r \<noteq> '''' \<Longrightarrow> r_Predicate r = None \<and> r_Dependency r = None \<and> r_Envelope r = ''''"
    and "r_Envelope r \<noteq> '''' \<Longrightarrow> r_Predicate r = None \<and> r_Dependency r = None \<and> r_LocalCapability r = ''''"
  using assms by (auto simp: requirement_kinds_def split: if_splits)

lemma req_spec_cong:
  assumes k1: "requirement_kinds r = 1" and uid: "ck_uid n = uid_at e i"
    and agree: "\<And>k. requirement_edge e n i r = Some k \<Longrightarrow> look k = look' k"
  shows "req_spec e look i r = req_spec e look' i r"
proof (cases "r_Dependency r")
  case None
  then show ?thesis
    using agree uid by (auto simp: req_spec_def requirement_edge_def split: option.splits)
next
  case (Some d)
  then have other: "r_Predicate r = None" "r_LocalCapability r = ''''" using kinds_exclusive(2) [OF k1] by blast+
  show ?thesis
  proof (cases "resolve_dependency e i d")
    case (Inr x)
    obtain subject j dc where x: "x = (subject, j, dc)" by (cases x) auto
    from resolve_dependency_edge [OF Inr [unfolded x] Some other(2), of n] agree
    show ?thesis using Some other Inr x by (auto simp: req_spec_def)
  qed (use Some other in \<open>simp add: req_spec_def\<close>)
qed

section \<open>Acyclic evaluators\<close>

locale acyclic_evaluator =
  fixes e :: evaluator
  assumes inv: "eval_inv e" and acyc: "acyclic (succ_rel (edges e))"
begin

definition rank :: "capKey \<Rightarrow> nat" where
  "rank k = card {y \<in> set (cap_nodes e). (k, y) \<in> (succ_rel (edges e))\<^sup>+}"

lemma rank_edge:
  assumes "k' \<in> set (edges e k)"
  shows "rank k' < rank k"
proof -
  let ?r = "succ_rel (edges e)"
  have kk: "(k, k') \<in> ?r" using assms by (simp add: succ_rel_def)
  have "k' \<in> set (cap_nodes e)" using assms edges_nodes [OF inv] by blast
  moreover have "(k', k') \<notin> ?r\<^sup>+" using acyc by (simp add: acyclic_def)
  ultimately have "{y \<in> set (cap_nodes e). (k', y) \<in> ?r\<^sup>+} \<subset> {y \<in> set (cap_nodes e). (k, y) \<in> ?r\<^sup>+}"
    using kk by (auto intro: trancl_into_trancl2)
  then show ?thesis unfolding rank_def by (intro psubset_card_mono) auto
qed

lemma rank_fuel: "rank k < eval_fuel e"
proof -
  have "rank k \<le> card (set (cap_nodes e))" unfolding rank_def by (intro card_mono) auto
  also have "\<dots> \<le> length (cap_nodes e)" by (rule card_length)
  finally show ?thesis by (simp add: eval_fuel_def)
qed

text \<open>A capability of a valid target.\<close>

definition cap_at :: "nat \<Rightarrow> Capability \<Rightarrow> bool" where
  "cap_at i cp \<longleftrightarrow> i < length (e_store e) \<and> ts_valid (e_store e ! i) \<and> cp \<in> set (c_Capabilities (contract_at e i))"

definition key :: "nat \<Rightarrow> Capability \<Rightarrow> capKey" where
  "key i cp = \<lparr>ck_uid = uid_at e i, ck_name = ct_Name (cp_Type cp)\<rparr>"

lemma cap_at_lookup:
  assumes "cap_at i cp"
  shows "uniqueValid e (uid_at e i) = Some i" "contract_wf (contract_at e i)"
    and "capability_of (contract_at e i) (ct_Name (cp_Type cp)) = Some cp"
proof -
  show "uniqueValid e (uid_at e i) = Some i" using assms by (simp add: cap_at_def uniqueValid_iff [OF inv])
  show wf: "contract_wf (contract_at e i)" using assms eval_invD(4) [OF inv] by (simp add: cap_at_def)
  show "capability_of (contract_at e i) (ct_Name (cp_Type cp)) = Some cp"
    using find_unique [of "\<lambda>cp. ct_Name (cp_Type cp)" "c_Capabilities (contract_at e i)" cp] wf assms
    unfolding capability_of_def cap_at_def contract_wf_def by simp
qed

lemma key_inj:
  assumes "cap_at i cp" "cap_at j cq" "key i cp = key j cq"
  shows "i = j \<and> cp = cq"
proof -
  have eq: "uid_at e i = uid_at e j" "ct_Name (cp_Type cp) = ct_Name (cp_Type cq)"
    using assms(3) by (simp_all add: key_def)
  have "Some i = Some j"
    using cap_at_lookup(1) [OF assms(1)] cap_at_lookup(1) [OF assms(2)] unfolding eq(1) by (rule trans [OF sym])
  then have ij: "i = j" by simp
  have "Some cp = Some cq"
    using cap_at_lookup(3) [OF assms(1)] cap_at_lookup(3) [OF assms(2)] unfolding eq(2) ij
    by (rule trans [OF sym])
  with ij show ?thesis by simp
qed

lemma cap_at_requirement:
  "cap_at i cp \<Longrightarrow> r \<in> set (cp_Requirements cp) \<Longrightarrow> requirement_wf (contract_at e i) r"
  using cap_at_lookup(2) by (auto simp: contract_wf_def capability_wf_def cap_at_def)

lemma requirement_edge_in:
  assumes "cap_at i cp" and "r \<in> set (cp_Requirements cp)" and "requirement_edge e (key i cp) i r = Some k"
  shows "k \<in> set (edges e (key i cp))"
  unfolding edges_iff
proof (intro exI conjI)
  show "uniqueValid e (ck_uid (key i cp)) = Some i"
    "capability_of (contract_at e i) (ck_name (key i cp)) = Some cp"
    using cap_at_lookup [OF assms(1)] by (simp_all add: key_def)
qed (use assms in auto)

lemma cap_spec_cong:
  assumes "cap_at i cp" and "\<And>k. k \<in> set (edges e (key i cp)) \<Longrightarrow> look k = look' k"
  shows "cap_spec e look i cp = cap_spec e look' i cp"
proof -
  have "req_spec e look i r = req_spec e look' i r" if "r \<in> set (cp_Requirements cp)" for r
  proof (rule req_spec_cong)
    show "requirement_kinds r = 1" using cap_at_requirement [OF assms(1) that] by (simp add: requirement_wf_def)
    show "look k = look' k" if "requirement_edge e (key i cp) i r = Some k" for k
      using requirement_edge_in [OF assms(1) \<open>r \<in> _\<close> that] by (rule assms(2))
  qed (simp add: key_def)
  then show ?thesis unfolding cap_spec_def by (simp cong: map_cong)
qed

text \<open>The assignment of states, by unfolding the equations to a given depth.\<close>

primrec unfold_states :: "nat \<Rightarrow> capKey \<Rightarrow> CapabilityState" where
  "unfold_states 0 k = Unknown"
| "unfold_states (Suc n) k = (case uniqueValid e (ck_uid k) of
       None \<Rightarrow> Unknown
     | Some i \<Rightarrow>
         (case capability_of (contract_at e i) (ck_name k) of
            None \<Rightarrow> Unknown
          | Some cp \<Rightarrow> cr_State (cap_spec e (unfold_states n) i cp)))"

definition state_of :: "capKey \<Rightarrow> CapabilityState" where
  "state_of = unfold_states (eval_fuel e)"

lemma cap_at_lookupI:
  "uniqueValid e (ck_uid k) = Some i \<Longrightarrow> capability_of (contract_at e i) (ck_name k) = Some cp \<Longrightarrow>
     cap_at i cp \<and> key i cp = k"
  using capability_of_SomeD by (cases k) (auto simp: cap_at_def key_def uniqueValid_iff [OF inv])

lemma unfold_states_stable:
  "rank k < n \<Longrightarrow> rank k < n' \<Longrightarrow> unfold_states n k = unfold_states n' k"
proof (induction n arbitrary: n' k)
  case (Suc n)
  then obtain m where n': "n' = Suc m" by (cases n') auto
  show ?case
  proof (cases "uniqueValid e (ck_uid k)")
    case (Some i)
    show ?thesis
    proof (cases "capability_of (contract_at e i) (ck_name k)")
      case (Some cp)
      note at = cap_at_lookupI [OF \<open>uniqueValid e (ck_uid k) = Some i\<close> Some]
      have "unfold_states n k' = unfold_states m k'" if "k' \<in> set (edges e (key i cp))" for k'
        using Suc.IH [of k' m] rank_edge [OF that] at Suc.prems n' by simp
      then have "cap_spec e (unfold_states n) i cp = cap_spec e (unfold_states m) i cp"
        using at by (intro cap_spec_cong) auto
      then show ?thesis using n' Some \<open>uniqueValid e (ck_uid k) = Some i\<close> by simp
    qed (use n' Some in simp)
  qed (use n' in simp)
qed simp

lemma state_of_eq:
  assumes "cap_at i cp"
  shows "state_of (key i cp) = cr_State (cap_spec e state_of i cp)"
proof -
  have "state_of (key i cp) = unfold_states (Suc (eval_fuel e)) (key i cp)"
    unfolding state_of_def using rank_fuel [of "key i cp"] by (intro unfold_states_stable) simp_all
  also have "\<dots> = cr_State (cap_spec e state_of i cp)"
    using cap_at_lookup [OF assms] by (simp add: key_def state_of_def)
  finally show ?thesis .
qed

text \<open>The caches hold only what the specification gives.\<close>

definition memo_ok :: "memo \<Rightarrow> bool" where
  "memo_ok m \<longleftrightarrow>
     (\<forall>i name ev. m_evidence m i name = Some ev \<longrightarrow> ev = evidence_spec e i name) \<and>
     (\<forall>k r. m_env m k = Some r \<longrightarrow> (\<exists>i env. uniqueValid e (ck_uid k) = Some i \<and>
        envelope_of (contract_at e i) (ck_name k) = Some env \<and> r = env_spec e i env)) \<and>
     (\<forall>k r. m_cap m k = Some r \<longrightarrow> (\<exists>i cp. cap_at i cp \<and> key i cp = k \<and> r = cap_spec e state_of i cp))"

lemma memo_ok_init: "memo_ok memo_init"
  by (simp add: memo_ok_def memo_init_def)

lemma evidence_correct:
  assumes "memo_ok m" and "slot_of (contract_at e i) (as_Name slot) = Some slot"
  shows "\<exists>m'. evidence e i slot m = (evidence_spec e i (as_Name slot), m') \<and> memo_ok m'"
proof (cases "m_evidence m i (as_Name slot)")
  case None
  have "resolveEvidence e i slot = evidence_spec e i (as_Name slot)"
    using assms(2) by (simp add: evidence_spec_def slot_or_zero_def)
  with None assms(1) show ?thesis by (auto simp: evidence_def memo_ok_def Let_def)
next
  case (Some ev)
  with assms(1) show ?thesis by (auto simp: evidence_def memo_ok_def)
qed

lemma predicate_correct:
  assumes "memo_ok m" and "predicate_wf (contract_at e i) p"
  shows "\<exists>m'. predicate e i p m = (pred_spec e i p, m') \<and> memo_ok m'"
proof -
  obtain slot where slot: "slot_of (contract_at e i) (p_Assertion p) = Some slot"
    using assms(2) by (auto simp: predicate_wf_def Predicate_validate_def split: option.splits)
  then have "as_Name slot = p_Assertion p" unfolding slot_of_def by (auto dest: find_SomeD)
  with evidence_correct [OF assms(1), of i slot] slot show ?thesis
    by (auto simp: predicate_def pred_spec_def slot_or_zero_def)
qed

lemma predicates_correct:
  "memo_ok m \<Longrightarrow> (\<And>p. p \<in> set ps \<Longrightarrow> predicate_wf (contract_at e i) p) \<Longrightarrow>
     \<exists>m'. predicates e i ps m = (map (pred_spec e i) ps, m') \<and> memo_ok m'"
proof (induction ps arbitrary: m)
  case (Cons p ps)
  obtain m1 where m1: "predicate e i p m = (pred_spec e i p, m1)" "memo_ok m1"
    using predicate_correct [OF Cons.prems(1), of i p] Cons.prems(2) by auto
  with Cons.IH [OF m1(2)] Cons.prems(2) show ?case by auto
qed simp

lemma envelope_correct:
  assumes "memo_ok m" and "uniqueValid e (uid_at e i) = Some i"
    and "envelope_of (contract_at e i) (env_Name env) = Some env"
  shows "\<exists>m'. envelopeResult e i env m = (env_spec e i env, m') \<and> memo_ok m'"
proof (cases "m_env m \<lparr>ck_uid = uid_at e i, ck_name = env_Name env\<rparr>")
  case None
  have "i < length (e_store e)" "ts_valid (e_store e ! i)" using assms(2) uniqueValid_iff [OF inv] by blast+
  then have "contract_wf (contract_at e i)" by (rule eval_invD(4) [OF inv])
  moreover have "env \<in> set (c_Envelopes (contract_at e i))"
    using assms(3) unfolding envelope_of_def by (auto dest: find_SomeD)
  ultimately have "\<And>p. p \<in> set (env_Requirements env) \<Longrightarrow> predicate_wf (contract_at e i) p"
    by (simp add: contract_wf_def envelope_wf_def)
  from predicates_correct [OF assms(1) this]
  obtain m1 where m1: "predicates e i (env_Requirements env) m = (map (pred_spec e i) (env_Requirements env), m1)"
      "memo_ok m1" by blast
  let ?k = "\<lparr>ck_uid = uid_at e i, ck_name = env_Name env\<rparr>"
  have "memo_ok (m1\<lparr>m_env := (m_env m1)(?k \<mapsto> env_spec e i env)\<rparr>)"
    using m1(2) assms(2,3) unfolding memo_ok_def by simp
  with None m1(1) show ?thesis by (simp add: envelopeResult_def env_spec_def Let_def)
next
  case (Some r)
  then obtain j env' where "uniqueValid e (uid_at e i) = Some j"
      "envelope_of (contract_at e j) (env_Name env) = Some env'" "r = env_spec e j env'"
    using assms(1) unfolding memo_ok_def by fastforce
  with assms Some show ?thesis by (simp add: envelopeResult_def)
qed

text \<open>The contract of the recursive call, up to a rank.\<close>

definition calls_ok :: "callee \<Rightarrow> nat \<Rightarrow> bool" where
  "calls_ok call n \<longleftrightarrow> (\<forall>i cp m. cap_at i cp \<longrightarrow> rank (key i cp) < n \<longrightarrow> memo_ok m \<longrightarrow>
     (\<exists>m'. call i cp m = Some (cap_spec e state_of i cp, m') \<and> memo_ok m'))"

lemma calls_okD:
  "calls_ok call n \<Longrightarrow> cap_at i cp \<Longrightarrow> rank (key i cp) < n \<Longrightarrow> memo_ok m \<Longrightarrow>
     \<exists>m'. call i cp m = Some (cap_spec e state_of i cp, m') \<and> memo_ok m'"
  by (simp add: calls_ok_def)

lemma requirement_correct:
  assumes call: "calls_ok call n" and m: "memo_ok m" and at: "cap_at i cp"
    and r: "r \<in> set (cp_Requirements cp)" and n: "rank (key i cp) \<le> n"
  shows "\<exists>m'. requirement e call i r m = Some (req_spec e state_of i r, m') \<and> memo_ok m'"
proof -
  have wf: "requirement_wf (contract_at e i) r" by (rule cap_at_requirement [OF at r])
  then have k1: "requirement_kinds r = 1" by (simp add: requirement_wf_def)
  have callee: "\<exists>m'. call j dc m = Some (cap_spec e state_of j dc, m') \<and> memo_ok m'"
    if "cap_at j dc" "requirement_edge e (key i cp) i r = Some (key j dc)" for j dc
    using calls_okD [OF call that(1) _ m] rank_edge [OF requirement_edge_in [OF at r that(2)]] n by simp
  consider (pred) p where "r_Predicate r = Some p" | (dep) d where "r_Dependency r = Some d"
    | (lcl) "r_LocalCapability r \<noteq> ''''" | (env) "r_Envelope r \<noteq> ''''"
    using k1 by (force simp: requirement_kinds_def split: if_splits)
  then show ?thesis
  proof cases
    case (pred p)
    with wf have "predicate_wf (contract_at e i) p" by (simp add: requirement_wf_def)
    from predicate_correct [OF m this] pred show ?thesis by (auto simp: requirement_def req_spec_def)
  next
    case (dep d)
    then have other: "r_Predicate r = None" "r_LocalCapability r = ''''"
      using kinds_exclusive(2) [OF k1] by blast+
    show ?thesis
    proof (cases "resolve_dependency e i d")
      case (Inl reason)
      with dep other m show ?thesis by (simp add: requirement_def req_spec_def dependency_def)
    next
      case (Inr x)
      obtain subject j dc where x: "x = (subject, j, dc)" by (cases x) auto
      from resolve_dependency_edge [OF Inr [unfolded x] dep other(2), of "key i cp"]
      have edge: "requirement_edge e (key i cp) i r = Some (key j dc)" and j: "cap_at j dc"
        by (auto simp: key_def cap_at_def uniqueValid_iff [OF inv])
      from callee [OF j edge] show ?thesis
        using dep other Inr x state_of_eq [OF j]
        by (auto simp: requirement_def req_spec_def dependency_def key_def)
    qed
  next
    case lcl
    then have other: "r_Predicate r = None" "r_Dependency r = None" using kinds_exclusive(3) [OF k1] by blast+
    obtain lc where lc: "capability_of (contract_at e i) (r_LocalCapability r) = Some lc"
      using wf lcl by (auto simp: requirement_wf_def)
    then have lcat: "cap_at i lc" and name: "ct_Name (cp_Type lc) = r_LocalCapability r"
      using at capability_of_SomeD by (auto simp: cap_at_def)
    have "requirement_edge e (key i cp) i r = Some (key i lc)"
      using lcl name by (simp add: requirement_edge_def key_def)
    from callee [OF lcat this] show ?thesis
      using lcl other lc state_of_eq [OF lcat] name by (auto simp: requirement_def req_spec_def key_def)
  next
    case env
    then have other: "r_Predicate r = None" "r_Dependency r = None" "r_LocalCapability r = ''''"
      using kinds_exclusive(4) [OF k1] by blast+
    obtain x where x: "envelope_of (contract_at e i) (r_Envelope r) = Some x"
      using wf env by (auto simp: requirement_wf_def)
    moreover from this have "env_Name x = r_Envelope r" unfolding envelope_of_def by (auto dest: find_SomeD)
    ultimately obtain m' where "envelopeResult e i x m = (env_spec e i x, m')" "memo_ok m'"
      using envelope_correct [OF m cap_at_lookup(1) [OF at], of x] by auto
    with env other x show ?thesis by (simp add: requirement_def req_spec_def)
  qed
qed

lemma capLoop_correct:
  assumes call: "calls_ok call n" and at: "cap_at i cp" and n: "rank (key i cp) \<le> n"
  shows "memo_ok m \<Longrightarrow> set reqs \<subseteq> set (cp_Requirements cp) \<Longrightarrow>
    \<exists>m'. capLoop e call i reqs m = Some (map (req_spec e state_of i) reqs, m') \<and> memo_ok m'"
proof (induction reqs arbitrary: m)
  case (Cons r reqs)
  obtain m1 where m1: "requirement e call i r m = Some (req_spec e state_of i r, m1)" "memo_ok m1"
    using requirement_correct [OF call Cons.prems(1) at _ n, of r] Cons.prems(2) by auto
  with Cons.IH [OF m1(2)] Cons.prems(2) show ?case by auto
qed simp

lemma capability_correct: "calls_ok (capability fuel e) fuel"
proof (induction fuel)
  case 0
  then show ?case by (simp add: calls_ok_def)
next
  case (Suc fuel)
  show ?case unfolding calls_ok_def
  proof (intro allI impI)
    fix i cp m
    assume at: "cap_at i cp" and rk: "rank (key i cp) < Suc fuel" and m: "memo_ok m"
    show "\<exists>m'. capability (Suc fuel) e i cp m = Some (cap_spec e state_of i cp, m') \<and> memo_ok m'"
    proof (cases "m_cap m (key i cp)")
      case (Some r)
      then obtain j cq where "cap_at j cq" "key j cq = key i cp" "r = cap_spec e state_of j cq"
        using m unfolding memo_ok_def by blast
      with key_inj [OF this(1) at] Some m show ?thesis by (simp add: key_def)
    next
      case None
      obtain m1 where m1: "capLoop e (capability fuel e) i (cp_Requirements cp) m =
          Some (map (req_spec e state_of i) (cp_Requirements cp), m1)" "memo_ok m1"
        using capLoop_correct [OF Suc.IH at _ m, of "cp_Requirements cp"] rk by auto
      have "memo_ok (m1\<lparr>m_cap := (m_cap m1)(key i cp \<mapsto> cap_spec e state_of i cp)\<rparr>)"
        using m1(2) at unfolding memo_ok_def by auto
      with None m1(1) show ?thesis by (simp add: key_def cap_spec_def Let_def)
    qed
  qed
qed

lemma capabilities_correct:
  "memo_ok m \<Longrightarrow> (\<And>cp. cp \<in> set cps \<Longrightarrow> cap_at i cp) \<Longrightarrow>
     \<exists>m'. capabilities (eval_fuel e) e i cps m = Some (map (cap_spec e state_of i) cps, m') \<and> memo_ok m'"
proof (induction cps arbitrary: m)
  case (Cons cp cps)
  have at: "cap_at i cp" using Cons.prems(2) by simp
  obtain m1 where m1: "capability (eval_fuel e) e i cp m = Some (cap_spec e state_of i cp, m1)" "memo_ok m1"
    using calls_okD [OF capability_correct at rank_fuel Cons.prems(1)] by auto
  with Cons.IH [OF m1(2)] Cons.prems(2) show ?case by auto
qed simp

lemma envelopeResults_correct:
  "memo_ok m \<Longrightarrow> uniqueValid e (uid_at e i) = Some i \<Longrightarrow>
     (\<And>x. x \<in> set envs \<Longrightarrow> envelope_of (contract_at e i) (env_Name x) = Some x) \<Longrightarrow>
     \<exists>m'. envelopeResults e i envs m = (map (env_spec e i) envs, m') \<and> memo_ok m'"
proof (induction envs arbitrary: m)
  case (Cons x envs)
  obtain m1 where m1: "envelopeResult e i x m = (env_spec e i x, m1)" "memo_ok m1"
    using envelope_correct [OF Cons.prems(1,2), of x] Cons.prems(3) by auto
  with Cons.IH [OF m1(2)] Cons.prems(2,3) show ?case by auto
qed simp

lemma slotEvidences_correct:
  "memo_ok m \<Longrightarrow> (\<And>s. s \<in> set ss \<Longrightarrow> slot_of (contract_at e i) (as_Name s) = Some s) \<Longrightarrow>
     \<exists>m'. slotEvidences e i ss m = (map (slot_result e i) ss, m') \<and> memo_ok m'"
proof (induction ss arbitrary: m)
  case (Cons s ss)
  have s: "slot_of (contract_at e i) (as_Name s) = Some s" using Cons.prems(2) by simp
  obtain m1 where m1: "evidence e i s m = (evidence_spec e i (as_Name s), m1)" "memo_ok m1"
    using evidence_correct [OF Cons.prems(1) s] by auto
  moreover have "evidence_spec e i (as_Name s) = resolveEvidence e i s"
    using s by (simp add: evidence_spec_def slot_or_zero_def)
  ultimately show ?case using Cons.IH [OF m1(2)] Cons.prems(2) by (auto simp: slot_result_def Let_def)
qed simp

lemma assess_correct:
  assumes m: "memo_ok m" and i: "i < length (e_store e)"
  shows "\<exists>m'. assess (eval_fuel e) e i m = Some (assess_spec e state_of i, m') \<and> memo_ok m'"
proof (cases "ts_valid (e_store e ! i)")
  case False
  with m show ?thesis by (simp add: assess_def assess_spec_def Let_def)
next
  case True
  let ?c = "contract_at e i"
  have wf: "contract_wf ?c" using eval_invD(4) [OF inv i True] .
  have uv: "uniqueValid e (uid_at e i) = Some i" using i True by (simp add: uniqueValid_iff [OF inv])
  have slots: "slot_of ?c (as_Name s) = Some s" if "s \<in> set (c_Assertions ?c)" for s
    using find_unique [OF _ that, of as_Name] wf unfolding slot_of_def contract_wf_def by simp
  have envs: "envelope_of ?c (env_Name x) = Some x" if "x \<in> set (c_Envelopes ?c)" for x
    using find_unique [OF _ that, of env_Name] wf unfolding envelope_of_def contract_wf_def by simp
  obtain m1 where m1: "slotEvidences e i (sort_slice slot_name_less (c_Assertions ?c)) m =
      (map (slot_result e i) (sort_slice slot_name_less (c_Assertions ?c)), m1)" "memo_ok m1"
    using slotEvidences_correct [OF m, of "sort_slice slot_name_less (c_Assertions ?c)" i] slots by auto
  obtain m2 where m2: "capabilities (eval_fuel e) e i (c_Capabilities ?c) m1 =
      Some (map (cap_spec e state_of i) (c_Capabilities ?c), m2)" "memo_ok m2"
    using capabilities_correct [OF m1(2), of "c_Capabilities ?c" i] i True by (auto simp: cap_at_def)
  obtain m3 where m3: "envelopeResults e i (c_Envelopes ?c) m2 = (map (env_spec e i) (c_Envelopes ?c), m3)"
      "memo_ok m3"
    using envelopeResults_correct [OF m2(2) uv, of "c_Envelopes ?c"] envs by auto
  show ?thesis using True m1 m2 m3 by (simp add: assess_def assess_spec_def Let_def)
qed

lemma assessAll_correct:
  "memo_ok m \<Longrightarrow> set is \<subseteq> {..<length (e_store e)} \<Longrightarrow>
     \<exists>m'. assessAll (eval_fuel e) e is m = Some (map (assess_spec e state_of) is, m') \<and> memo_ok m'"
proof (induction "is" arbitrary: m)
  case (Cons i "is")
  obtain m1 where m1: "assess (eval_fuel e) e i m = Some (assess_spec e state_of i, m1)" "memo_ok m1"
    using assess_correct [OF Cons.prems(1), of i] Cons.prems(2) by auto
  with Cons.IH [OF m1(2)] Cons.prems(2) show ?case by auto
qed simp

text \<open>What the assessment reports for a capability is the state the specification gives it, so
  the assessment satisfies the equations itself.\<close>

lemma cap_spec_type [simp]: "cr_Type (cap_spec e' look i cp) = cp_Type cp"
  by (simp add: cap_spec_def finishCapability_def Let_def)

lemma assess_spec_target [simp]:
  "ti_UID (ta_Target (assess_spec e' look i)) = uid_at e' i"
  by (simp add: assess_spec_def Let_def uid_at_def)

lemma same_uid_valid:
  assumes "i < length (e_store e)" "ts_valid (e_store e ! i)" "j < length (e_store e)" "uid_at e j = uid_at e i"
  shows "j = i"
proof -
  have "{i, j} \<subseteq> set (e_byUID e (uid_at e i))" using assms eval_invD(3) [OF inv] by simp
  moreover have "length (e_byUID e (uid_at e i)) \<le> 1" using eval_invD(5) [OF inv assms(1,2)] .
  ultimately show ?thesis by (cases "e_byUID e (uid_at e i)") auto
qed

lemma assessed_state_eq:
  assumes at: "cap_at i cp" and a: "a_Targets a = map (assess_spec e look) (e_order e)"
  shows "assessed_state a (key i cp) = cr_State (cap_spec e look i cp)"
proof -
  have i: "i < length (e_store e)" "ts_valid (e_store e ! i)" "cp \<in> set (c_Capabilities (contract_at e i))"
    using at by (simp_all add: cap_at_def)
  have "Assessment_Target a (uid_at e i) = Some (assess_spec e look i)"
    unfolding Assessment_Target_def a
  proof (rule find_only)
    show "x = assess_spec e look i"
      if x: "x \<in> set (map (assess_spec e look) (e_order e))" "ti_UID (ta_Target x) = uid_at e i" for x
    proof -
      obtain j where j: "j < length (e_store e)" "x = assess_spec e look j"
        using x(1) eval_invD(1) [OF inv] by auto
      with x(2) have "j = i" by (intro same_uid_valid [OF i(1,2)]) simp_all
      with j show ?thesis by simp
    qed
  qed (use i eval_invD(1) [OF inv] in auto)
  moreover have "TargetAssessment_Capability (assess_spec e look i) (ct_Name (cp_Type cp)) = Some (cap_spec e look i cp)"
    unfolding TargetAssessment_Capability_def
  proof (rule find_only)
    show "x = cap_spec e look i cp"
      if x: "x \<in> set (ta_Capabilities (assess_spec e look i))" "ct_Name (cr_Type x) = ct_Name (cp_Type cp)" for x
    proof -
      obtain cq where cq: "cq \<in> set (c_Capabilities (contract_at e i))" "x = cap_spec e look i cq"
        using x(1) i by (auto simp: assess_spec_def Let_def)
      then have "cap_at i cq" using i by (simp add: cap_at_def)
      moreover have "key i cq = key i cp" using x(2) cq(2) by (simp add: key_def)
      ultimately show ?thesis using key_inj at cq(2) by blast
    qed
  qed (use i in \<open>auto simp: assess_spec_def Let_def\<close>)
  ultimately show ?thesis by (simp add: assessed_state_def key_def)
qed

lemma edge_cap_at:
  assumes "k \<in> set (edges e n)"
  shows "\<exists>j dc. cap_at j dc \<and> key j dc = k"
proof -
  have "k \<in> set (cap_nodes e)" using assms edges_nodes [OF inv] by blast
  then show ?thesis unfolding cap_nodes_iff [OF inv] using cap_at_lookupI by blast
qed

lemma assess_spec_cong:
  assumes "\<And>i cp. cap_at i cp \<Longrightarrow> look (key i cp) = look' (key i cp)" and "i < length (e_store e)"
  shows "assess_spec e look i = assess_spec e look' i"
proof -
  have "cap_spec e look i cp = cap_spec e look' i cp"
    if "ts_valid (e_store e ! i)" "cp \<in> set (c_Capabilities (contract_at e i))" for cp
    using that assms edge_cap_at by (intro cap_spec_cong) (auto simp: cap_at_def, metis cap_at_def)
  then show ?thesis by (simp add: assess_spec_def Let_def cong: map_cong)
qed

lemma assessment_solves:
  assumes "a_Targets a = map (assess_spec e state_of) (e_order e)"
  shows "a_Targets a = map (assess_spec e (assessed_state a)) (e_order e)"
proof -
  have "state_of (key i cp) = assessed_state a (key i cp)" if "cap_at i cp" for i cp
    using assessed_state_eq [OF that assms] state_of_eq [OF that] by simp
  then show ?thesis
    unfolding assms using assess_spec_cong [of state_of "assessed_state a"] eval_invD(1) [OF inv] by auto
qed

text \<open>The equations have one solution.\<close>

lemma solution_unique:
  assumes "\<And>i cp. cap_at i cp \<Longrightarrow> look (key i cp) = cr_State (cap_spec e look i cp)" and "cap_at i cp"
  shows "look (key i cp) = state_of (key i cp)"
  using assms(2)
proof (induction "rank (key i cp)" arbitrary: i cp rule: less_induct)
  case less
  have "look k = state_of k" if "k \<in> set (edges e (key i cp))" for k
    using less.hyps edge_cap_at [OF that] rank_edge [OF that] by blast
  then have "cap_spec e look i cp = cap_spec e state_of i cp" by (rule cap_spec_cong [OF less.prems])
  with assms(1) [OF less.prems] state_of_eq [OF less.prems] show ?case by simp
qed

end

section \<open>The evaluator of a snapshot\<close>

lemma prepared_edges: "set (edges (prepared s) n) \<subseteq> set (edges (resolved s) n)"
proof
  fix k
  assume "k \<in> set (edges (prepared s) n)"
  then obtain i cp r where *: "uniqueValid (prepared s) (ck_uid n) = Some i"
      "capability_of (contract_at (prepared s) i) (ck_name n) = Some cp"
      "r \<in> set (cp_Requirements cp)" "requirement_edge (prepared s) n i r = Some k"
    unfolding edges_iff by blast
  have len: "length (e_store (prepared s)) = length (e_store (resolved s))"
    using prepared_rejects [of s] by (simp add: rejects_def)
  have keep: "uniqueValid (resolved s) u = Some j \<and> contract_at (prepared s) j = contract_at (resolved s) j \<and>
      ts_t (e_store (prepared s) ! j) = ts_t (e_store (resolved s) ! j) \<and> uid_at (prepared s) j = uid_at (resolved s) j"
    if "uniqueValid (prepared s) u = Some j" for u j
    using that rejectsD [OF prepared_rejects [of s], of j] len
    unfolding uniqueValid_iff [OF eval_inv_prepared] uniqueValid_iff [OF eval_inv_resolved] by auto
  have "requirement_edge (resolved s) n i r = Some k"
    using *(4) keep keep [OF *(1)]
    by (auto simp: requirement_edge_def depBinding_def split: if_splits option.splits)
  with * keep [OF *(1)] show "k \<in> set (edges (resolved s) n)" unfolding edges_iff by auto
qed

lemma prepared_acyclic: "acyclic (succ_rel (edges (prepared s)))"
proof (rule acyclicI, rule allI, rule notI)
  fix k
  let ?r = "succ_rel (edges (prepared s))"
  assume cyc: "(k, k) \<in> ?r\<^sup>+"
  have "?r \<subseteq> succ_rel (edges (resolved s))" using prepared_edges by (auto simp: succ_rel_def)
  with cyc have "on_cycle s k" unfolding on_cycle_def by (rule trancl_mono)
  from cyc obtain k' where "(k, k') \<in> ?r" by (meson tranclD)
  then obtain i where "uniqueValid (prepared s) (ck_uid k) = Some i" by (auto simp: succ_rel_def edges_iff)
  then have i: "i < length (e_store (prepared s))" "ts_valid (e_store (prepared s) ! i)" "uid_at (prepared s) i = ck_uid k"
    by (simp_all add: uniqueValid_iff [OF eval_inv_prepared])
  moreover have "length (e_store (prepared s)) = length (e_store (resolved s))"
    using prepared_rejects [of s] by (simp add: rejects_def)
  ultimately show False
    using rejectsD(3,5) [OF prepared_rejects, of i s] \<open>on_cycle s k\<close> by auto
qed

interpretation prep: acyclic_evaluator "prepared s" for s
  by unfold_locales (rule eval_inv_prepared, rule prepared_acyclic)

lemma Evaluate_eq:
  assumes "\<not> IsZero (s_At s)"
  shows "Evaluate s = Some (Inr \<lparr>a_Targets = map (assess_spec (prepared s) (prep.state_of s)) (e_order (prepared s))\<rparr>)"
proof -
  obtain m where "assessAll (eval_fuel (prepared s)) (prepared s) (e_order (prepared s)) memo_init =
      Some (map (assess_spec (prepared s) (prep.state_of s)) (e_order (prepared s)), m)"
    using prep.assessAll_correct [OF prep.memo_ok_init, of "e_order (prepared s)" s]
      eval_invD(1) [OF eval_inv_prepared, of s] by auto
  then show ?thesis using assms by (simp add: Evaluate_def rejectCycles_prepared)
qed

end
