(* ===== verification/Ops_Demo.thy ===== *)
theory Ops_Demo
  imports Ops_Result
begin

text \<open>
  A small snapshot on which properties are exercised: a store whose capability \<open>write\<close> rests on
  one observed assertion, and a service whose capability \<open>serve\<close> depends on it, with a local
  capability above and a minimum envelope beside.
\<close>

definition demo_store_id :: ContractIdentity where
  "demo_store_id = \<lparr>ci_Namespace = ''n'', ci_Name = ''store'', ci_UID = ''c1'', ci_SpecDigest = ''d1''\<rparr>"

definition demo_svc_id :: ContractIdentity where
  "demo_svc_id = \<lparr>ci_Namespace = ''n'', ci_Name = ''svc'', ci_UID = ''c2'', ci_SpecDigest = ''d2''\<rparr>"

definition demo_slot :: AssertionSlot where
  "demo_slot = \<lparr>as_Name = ''up'', as_Type = TypeBoolean, as_Enum = [], as_MaxAge = 10\<rparr>"

definition demo_predicate :: Predicate where
  "demo_predicate = \<lparr>p_Assertion = ''up'', p_Op = OpIsTrue, p_Operand = Value_zero\<rparr>"

definition demo_requirement :: Requirement where
  "demo_requirement = \<lparr>r_Predicate = Some demo_predicate, r_Dependency = None, r_LocalCapability = '''',
     r_Envelope = '''', r_OnUnmet = ImpactDegraded\<rparr>"

definition demo_type :: "string \<Rightarrow> CapabilityType" where
  "demo_type n = \<lparr>ct_Domain = ''d'', ct_Name = n, ct_Revision = ''1''\<rparr>"

definition demo_write :: Capability where
  "demo_write = \<lparr>cp_Type = demo_type ''write'', cp_Requirements = [demo_requirement]\<rparr>"

definition demo_store :: Contract where
  "demo_store = \<lparr>c_Identity = demo_store_id, c_Assertions = [demo_slot], c_DependencySlots = [],
     c_Capabilities = [demo_write], c_Envelopes = []\<rparr>"

definition demo_serve :: Capability where
  "demo_serve = \<lparr>cp_Type = demo_type ''serve'', cp_Requirements =
     [\<lparr>r_Predicate = None, r_Dependency = Some \<lparr>dr_Slot = ''db'', dr_Capability = demo_type ''write''\<rparr>,
       r_LocalCapability = '''', r_Envelope = '''', r_OnUnmet = ImpactUnavailable\<rparr>]\<rparr>"

definition demo_api :: Capability where
  "demo_api = \<lparr>cp_Type = demo_type ''api'', cp_Requirements =
     [\<lparr>r_Predicate = None, r_Dependency = None, r_LocalCapability = ''serve'', r_Envelope = '''',
       r_OnUnmet = ImpactUnavailable\<rparr>,
      \<lparr>r_Predicate = None, r_Dependency = None, r_LocalCapability = '''', r_Envelope = ''min'',
       r_OnUnmet = ImpactDegraded\<rparr>]\<rparr>"

definition demo_svc :: Contract where
  "demo_svc = \<lparr>c_Identity = demo_svc_id, c_Assertions = [demo_slot], c_DependencySlots = [\<lparr>ds_Name = ''db''\<rparr>],
     c_Capabilities = [demo_serve, demo_api],
     c_Envelopes = [\<lparr>env_Name = ''min'', env_Class = EnvelopeMinimum, env_Requirements = [demo_predicate]\<rparr>]\<rparr>"

definition demo_provider :: ProviderIdentity where
  "demo_provider = \<lparr>pi_Name = ''p'', pi_ConfigRevision = ''1''\<rparr>"

definition demo_target :: "string \<Rightarrow> ContractIdentity \<Rightarrow> DependencyBinding list \<Rightarrow> Target" where
  "demo_target uid c deps = \<lparr>t_Identity = \<lparr>ti_Namespace = ''n'', ti_Name = uid, ti_UID = uid\<rparr>,
     t_ResolvedUID = ''r'', t_ContractRef = c,
     t_AssertionBindings = [\<lparr>ab_Slot = ''up'', ab_Provider = demo_provider\<rparr>],
     t_DependencyBindings = deps, t_EnvelopeSelection = ''''\<rparr>"

definition demo_targets :: "Target list" where
  "demo_targets = [demo_target ''t2'' demo_svc_id [\<lparr>db_Slot = ''db'', db_TargetUID = ''t1'', db_Contract = demo_store_id\<rparr>],
     demo_target ''t1'' demo_store_id []]"

definition demo_obs :: "Target \<Rightarrow> instant \<Rightarrow> bool \<Rightarrow> Observation" where
  "demo_obs t at b = \<lparr>o_Key = \<lparr>ak_Target = t_Identity t, ak_ResolvedUID = ''r'', ak_Contract = t_ContractRef t,
       ak_Slot = ''up'', ak_Provider = demo_provider\<rparr>,
     o_Outcome = OutcomeValue, o_Value = Value_Bool b, o_ObservedAt = at, o_ValidUntil = 0, o_EvidenceRef = ''e''\<rparr>"

definition demo_snapshot :: Snapshot where
  "demo_snapshot = \<lparr>s_At = 100, s_Contracts = [demo_store, demo_svc], s_Targets = demo_targets,
     s_Observations = [demo_obs (demo_targets ! 0) 95 True, demo_obs (demo_targets ! 1) 91 False,
       demo_obs (demo_targets ! 1) 96 True]\<rparr>"

end
