(* ===== verification/Ops_EvidenceSpec.thy ===== *)
theory Ops_EvidenceSpec
  imports Ops_Evidence Ops_Demo
begin

text \<open>
  Evidence selection stated on the set of observations: no loop, no order. \<open>classify\<close> gives the
  status and the reason code of a slot from the applicable statements at the latest instant, and
  \<open>resolveEvidence\<close> computes it. As \<open>classify\<close> reads only a set, the order in which
  observations arrive has no influence.
\<close>

section \<open>The observations that count\<close>

definition observable :: "instant \<Rightarrow> Observation set \<Rightarrow> Observation set" where
  "observable at S = {o' \<in> S. o_ObservedAt o' \<le> at}"

definition applicable :: "instant \<Rightarrow> ApplicabilityKey \<Rightarrow> Observation set \<Rightarrow> Observation set" where
  "applicable at want S = {o' \<in> observable at S. o_Key o' = want}"

definition latest :: "Observation set \<Rightarrow> Observation set" where
  "latest A = {o' \<in> A. \<forall>p \<in> A. o_ObservedAt p \<le> o_ObservedAt o'}"

definition worst_mismatch :: "ReasonCode set \<Rightarrow> ReasonCode" where
  "worst_mismatch C =
     (if ReasonEvidenceTargetReplaced \<in> C then ReasonEvidenceTargetReplaced
      else if ReasonEvidenceContractChanged \<in> C then ReasonEvidenceContractChanged
      else if ReasonEvidenceProviderChanged \<in> C then ReasonEvidenceProviderChanged
      else ReasonEmpty)"

lemma partition_obs_app:
  "fst (partition_obs at want os app inapp) = app @ filter (\<lambda>o'. o_ObservedAt o' \<le> at \<and> o_Key o' = want) os"
  by (induction at want os app inapp rule: partition_obs.induct) auto

lemma mismatch_code:
  "mismatch k w \<in> {ReasonEvidenceTargetReplaced, ReasonEvidenceContractChanged, ReasonEvidenceProviderChanged}"
  by (simp add: mismatch_def)

lemma worse_worst:
  assumes "a = worst_mismatch C"
    and "b \<in> {ReasonEvidenceTargetReplaced, ReasonEvidenceContractChanged, ReasonEvidenceProviderChanged}"
  shows "worseMismatch a b = worst_mismatch (insert b C)"
  using assms by (auto simp: worseMismatch_def mismatch_rank_def worst_mismatch_def)

lemma partition_obs_inapp:
  "inapp = worst_mismatch C \<Longrightarrow>
     snd (partition_obs at want os app inapp) =
       worst_mismatch (C \<union> (\<lambda>o'. mismatch (o_Key o') want) ` {o' \<in> set os. o_ObservedAt o' \<le> at \<and> o_Key o' \<noteq> want})"
proof (induction at want os app inapp arbitrary: C rule: partition_obs.induct)
  case (2 at want o' os app inapp)
  consider (later) "o_ObservedAt o' > at" | (app) "o_ObservedAt o' \<le> at" "o_Key o' = want"
    | (inapp) "o_ObservedAt o' \<le> at" "o_Key o' \<noteq> want" by linarith
  then show ?case
  proof cases
    case later
    then have "{p \<in> set (o' # os). o_ObservedAt p \<le> at \<and> o_Key p \<noteq> want} = {p \<in> set os. o_ObservedAt p \<le> at \<and> o_Key p \<noteq> want}"
      by auto
    with later "2.IH"(1) [OF _ "2.prems"] show ?thesis by simp
  next
    case app
    then have "{p \<in> set (o' # os). o_ObservedAt p \<le> at \<and> o_Key p \<noteq> want} = {p \<in> set os. o_ObservedAt p \<le> at \<and> o_Key p \<noteq> want}"
      by auto
    with app "2.IH"(2) [OF _ _ "2.prems"] show ?thesis by simp
  next
    case inapp
    then have "{p \<in> set (o' # os). o_ObservedAt p \<le> at \<and> o_Key p \<noteq> want} =
        insert o' {p \<in> set os. o_ObservedAt p \<le> at \<and> o_Key p \<noteq> want}"
      by auto
    with inapp "2.IH"(3) [OF _ _ worse_worst [OF "2.prems" mismatch_code]] show ?thesis by simp
  qed
qed simp

lemma latest_instant_max:
  assumes "os \<noteq> []"
  shows "latest_instant os \<in> o_ObservedAt ` set os \<and> (\<forall>o' \<in> set os. o_ObservedAt o' \<le> latest_instant os)"
proof -
  let ?f = "\<lambda>o' l. if o_ObservedAt o' > l then o_ObservedAt o' else l"
  have run: "fold ?f xs l \<in> insert l (o_ObservedAt ` set xs) \<and> l \<le> fold ?f xs l \<and>
      (\<forall>o' \<in> set xs. o_ObservedAt o' \<le> fold ?f xs l)" for xs :: "Observation list" and l
  proof (induction xs arbitrary: l)
    case (Cons x xs)
    from Cons [of "?f x l"] show ?case by (auto split: if_splits)
  qed simp
  from assms obtain x xs where "os = x # xs" by (cases os) auto
  with run [of xs "o_ObservedAt x"] show ?thesis by (auto simp: latest_instant_def)
qed

lemma latest_group_set:
  assumes "os \<noteq> []"
  shows "set (latest_group os) = latest (set os)" "latest_group os \<noteq> []" "latest (set os) \<noteq> {}"
proof -
  have m: "latest_instant os \<in> o_ObservedAt ` set os" "\<And>o'. o' \<in> set os \<Longrightarrow> o_ObservedAt o' \<le> latest_instant os"
    using latest_instant_max [OF assms] by auto
  show set: "set (latest_group os) = latest (set os)"
    using m unfolding latest_group_def latest_def by (auto intro: antisym)
  obtain o' where "o' \<in> set os" "o_ObservedAt o' = latest_instant os" using m(1) by auto
  then show "latest_group os \<noteq> []" by (auto simp: latest_group_def filter_empty_conv)
  with set show "latest (set os) \<noteq> {}" by (metis set_empty)
qed

section \<open>The classification\<close>

definition classify :: "evaluator \<Rightarrow> AssertionSlot \<Rightarrow> ApplicabilityKey \<Rightarrow> Observation set \<Rightarrow> EvidenceStatus \<times> ReasonCode" where
  "classify e slot want S =
     (let L = latest (applicable (e_at e) want S);
          inapp = worst_mismatch ((\<lambda>o'. mismatch (o_Key o') want) ` {o' \<in> observable (e_at e) S. o_Key o' \<noteq> want})
      in
      if L = {} then
        (if inapp = ReasonEmpty then (EvidenceMissing, ReasonEvidenceMissing) else (EvidenceInapplicable, inapp))
      else if \<exists>o' \<in> L. \<not> current e o' slot then (EvidenceStale, ReasonEvidenceStale)
      else if \<exists>o' \<in> L. malformed slot o' then (EvidenceTypeMismatch, ReasonEvidenceTypeMismatch)
      else if \<exists>o' \<in> L. \<exists>p \<in> L. incompatible o' p then (EvidenceConflicting, ReasonConflictingEvidence)
      else if \<exists>o' \<in> L. o_Outcome o' = OutcomeProviderUnavailable
        then (EvidenceProviderUnavailable, ReasonProviderUnavailable)
      else (EvidenceCurrent, ReasonEmpty))"

text \<open>Between well-formed statements, compatible means saying the same.\<close>

definition statement :: "Observation \<Rightarrow> Value option" where
  "statement o' = (if o_Outcome o' = OutcomeValue then Some (o_Value o') else None)"

lemma incompatible_statement:
  "\<not> malformed slot o' \<Longrightarrow> \<not> malformed slot p \<Longrightarrow> incompatible o' p \<longleftrightarrow> statement o' \<noteq> statement p"
  by (auto simp: malformed_def incompatible_def statement_def Value_equal_canonical admits_canonical)

lemma hd_incompatible:
  assumes "grp \<noteq> []" and "\<And>o'. o' \<in> set grp \<Longrightarrow> \<not> malformed slot o'"
  shows "(\<exists>p \<in> set (tl grp). incompatible (hd grp) p) \<longleftrightarrow> (\<exists>o' \<in> set grp. \<exists>p \<in> set grp. incompatible o' p)"
proof -
  obtain x xs where grp: "grp = x # xs" using assms(1) by (cases grp) auto
  have "\<not> malformed slot o'" if "o' \<in> set (x # xs)" for o' using assms(2) that grp by simp
  then have inc: "incompatible o' p \<longleftrightarrow> statement o' \<noteq> statement p" if "o' \<in> set (x # xs)" "p \<in> set (x # xs)" for o' p
    using that incompatible_statement by blast
  have "(\<exists>o' \<in> set (x # xs). \<exists>p \<in> set (x # xs). incompatible o' p) \<longleftrightarrow>
      (\<exists>o' \<in> set (x # xs). \<exists>p \<in> set (x # xs). statement o' \<noteq> statement p)"
    using inc by blast
  also have "\<dots> \<longleftrightarrow> (\<exists>p \<in> set xs. statement x \<noteq> statement p)" by (simp, metis)
  also have "\<dots> \<longleftrightarrow> (\<exists>p \<in> set xs. incompatible x p)" using inc by simp
  finally show ?thesis unfolding grp by simp
qed

lemma judge_group_classified:
  assumes "grp \<noteq> []"
  shows "(sv_status (judge_group e slot ev t grp), sv_code (judge_group e slot ev t grp)) =
    (if \<exists>o' \<in> set grp. \<not> current e o' slot then (EvidenceStale, ReasonEvidenceStale)
     else if \<exists>o' \<in> set grp. malformed slot o' then (EvidenceTypeMismatch, ReasonEvidenceTypeMismatch)
     else if \<exists>o' \<in> set grp. \<exists>p \<in> set grp. incompatible o' p then (EvidenceConflicting, ReasonConflictingEvidence)
     else if \<exists>o' \<in> set grp. o_Outcome o' = OutcomeProviderUnavailable
       then (EvidenceProviderUnavailable, ReasonProviderUnavailable)
     else (EvidenceCurrent, sv_code ev))"
proof (cases "List.find (malformed slot) grp")
  case None
  then have nm: "\<And>o'. o' \<in> set grp \<Longrightarrow> \<not> malformed slot o'" using find_ex_iff [of "malformed slot" grp] by auto
  have hd: "hd grp \<in> set grp" using assms by simp
  have pu: "(\<exists>o' \<in> set grp. o_Outcome o' = OutcomeProviderUnavailable) \<longleftrightarrow> o_Outcome (hd grp) = OutcomeProviderUnavailable"
    if nc: "\<not> (\<exists>o' \<in> set grp. \<exists>p \<in> set grp. incompatible o' p)"
  proof -
    have "o_Outcome o' = o_Outcome (hd grp)" if "o' \<in> set grp" for o'
      using that hd nc unfolding incompatible_def by blast
    then show ?thesis using hd by metis
  qed
  have conflict: "(\<exists>p \<in> set (tl grp). incompatible (hd grp) p) \<longleftrightarrow>
      (\<exists>o' \<in> set grp. \<exists>p \<in> set grp. incompatible o' p)"
    by (rule hd_incompatible [OF assms nm])
  show ?thesis
  proof (cases "\<exists>o' \<in> set grp. \<exists>p \<in> set grp. incompatible o' p")
    case True
    then have "\<exists>p \<in> set (tl grp). incompatible (hd grp) p" using conflict by blast
    with True None nm show ?thesis by (simp add: judge_group_def)
  next
    case False
    then have "\<not> (\<exists>p \<in> set (tl grp). incompatible (hd grp) p)" using conflict by blast
    with False None nm pu [OF False] show ?thesis by (simp add: judge_group_def)
  qed
next
  case (Some o')
  then have "\<exists>o' \<in> set grp. malformed slot o'" by (auto dest: find_SomeD)
  with Some show ?thesis by (simp add: judge_group_def)
qed

definition obs_of :: "evaluator \<Rightarrow> nat \<Rightarrow> AssertionSlot \<Rightarrow> Observation set" where
  "obs_of e i slot = set (e_obs e
     \<lparr>ok_namespace = ti_Namespace (t_Identity (ts_t (e_store e ! i))),
      ok_name = ti_Name (t_Identity (ts_t (e_store e ! i))), ok_slot = as_Name slot\<rparr>)"

text \<open>What \<open>resolveEvidence\<close> does once the slot is bound.\<close>

lemma resolveEvidence_bound:
  assumes "assertionBinding (e_store e ! i) (as_Name slot) = Some b"
  defines "want \<equiv> wanted_key (e_store e ! i) (as_Name slot) (ab_Provider b)"
  defines "A \<equiv> applicable (e_at e) want (obs_of e i slot)"
  defines "inapp \<equiv> worst_mismatch ((\<lambda>o'. mismatch (o_Key o') want) ` {o' \<in> observable (e_at e) (obs_of e i slot). o_Key o' \<noteq> want})"
  defines "ev \<equiv> slotEvidence_zero\<lparr>sv_provider := ab_Provider b\<rparr>"
  shows "A = {} \<Longrightarrow> resolveEvidence e i slot =
      (if inapp \<noteq> ReasonEmpty then ev\<lparr>sv_status := EvidenceInapplicable, sv_code := inapp\<rparr>
       else ev\<lparr>sv_status := EvidenceMissing, sv_code := ReasonEvidenceMissing\<rparr>)"
    and "A \<noteq> {} \<Longrightarrow> \<exists>grp t. grp \<noteq> [] \<and> set grp = latest A \<and> sorted_wrt (\<lambda>a b. \<not> ref_less b a) grp \<and>
      resolveEvidence e i slot = judge_group e slot (ev\<lparr>sv_ref := o_EvidenceRef (hd grp)\<rparr>) t grp"
proof -
  let ?os = "e_obs e \<lparr>ok_namespace = ti_Namespace (t_Identity (ts_t (e_store e ! i))),
      ok_name = ti_Name (t_Identity (ts_t (e_store e ! i))), ok_slot = as_Name slot\<rparr>"
  obtain app ina where p: "partition_obs (e_at e) want ?os [] ReasonEmpty = (app, ina)" by fastforce
  have app: "set app = A"
    using partition_obs_app [of "e_at e" want ?os "[]" ReasonEmpty] p
    by (auto simp: A_def applicable_def observable_def obs_of_def)
  have "ReasonEmpty = worst_mismatch {}" by (simp add: worst_mismatch_def)
  from partition_obs_inapp [OF this, of "e_at e" want ?os "[]"] p
  have ina: "ina = inapp" by (simp add: inapp_def observable_def obs_of_def conj_assoc)
  show "A = {} \<Longrightarrow> resolveEvidence e i slot =
      (if inapp \<noteq> ReasonEmpty then ev\<lparr>sv_status := EvidenceInapplicable, sv_code := inapp\<rparr>
       else ev\<lparr>sv_status := EvidenceMissing, sv_code := ReasonEvidenceMissing\<rparr>)"
    using p app ina assms(1) by (simp add: resolveEvidence_def want_def ev_def Let_def)
  assume "A \<noteq> {}"
  then have ne: "app \<noteq> []" using app by auto
  have "resolveEvidence e i slot = judge_group e slot (ev\<lparr>sv_ref := o_EvidenceRef (hd (latest_group app))\<rparr>)
      (latest_instant app) (latest_group app)"
    using p ne assms(1) by (simp add: resolveEvidence_def want_def ev_def Let_def)
  moreover have "sorted_wrt (\<lambda>a b. \<not> ref_less b a) (latest_group app)"
    unfolding latest_group_def by (rule ref_order.sorted_sort_slice)
  ultimately show "\<exists>grp t. grp \<noteq> [] \<and> set grp = latest A \<and> sorted_wrt (\<lambda>a b. \<not> ref_less b a) grp \<and>
      resolveEvidence e i slot = judge_group e slot (ev\<lparr>sv_ref := o_EvidenceRef (hd grp)\<rparr>) t grp"
    using latest_group_set [OF ne] app by metis
qed

lemma latest_finite_nonempty:
  assumes "finite A" "A \<noteq> {}"
  shows "latest A \<noteq> {}"
proof -
  obtain xs where "set xs = A" using assms(1) finite_list by blast
  with assms(2) latest_group_set(3) [of xs] show ?thesis by auto
qed

lemma finite_applicable: "finite (applicable at want (obs_of e i slot))"
  by (simp add: applicable_def observable_def obs_of_def)

lemma resolveEvidence_classified:
  assumes b: "assertionBinding (e_store e ! i) (as_Name slot) = Some b"
  shows "(sv_status (resolveEvidence e i slot), sv_code (resolveEvidence e i slot)) =
    classify e slot (wanted_key (e_store e ! i) (as_Name slot) (ab_Provider b)) (obs_of e i slot)"
proof -
  let ?want = "wanted_key (e_store e ! i) (as_Name slot) (ab_Provider b)"
  let ?A = "applicable (e_at e) ?want (obs_of e i slot)"
  show ?thesis
  proof (cases "?A = {}")
    case True
    then show ?thesis using resolveEvidence_bound(1) [OF b True] by (simp add: classify_def latest_def)
  next
    case False
    then obtain grp t where grp: "grp \<noteq> []" "set grp = latest ?A"
        "resolveEvidence e i slot = judge_group e slot
          (slotEvidence_zero\<lparr>sv_provider := ab_Provider b, sv_ref := o_EvidenceRef (hd grp)\<rparr>) t grp"
      using resolveEvidence_bound(2) [OF b False] by auto
    moreover have "latest ?A \<noteq> {}" using latest_finite_nonempty [OF finite_applicable False] .
    ultimately show ?thesis
      using judge_group_classified [OF grp(1), of e slot _ t]
      by (simp add: classify_def slotEvidence_zero_def)
  qed
qed

text \<open>Evidence is current exactly when the slot is bound and the latest applicable statements
  exist, are all current and admitted, and all report the value.\<close>

lemma judge_group_current:
  assumes "grp \<noteq> []"
  shows "sv_status (judge_group e slot ev t grp) = EvidenceCurrent \<and> sv_value (judge_group e slot ev t grp) = v \<longleftrightarrow>
    (\<forall>o' \<in> set grp. current e o' slot \<and> o_Outcome o' = OutcomeValue \<and> admits slot (o_Value o') \<and> o_Value o' = v)"
    (is "?L \<longleftrightarrow> ?R")
proof
  assume R: ?R
  then have "List.find (malformed slot) grp = None"
    using find_ex_iff [of "malformed slot" grp] by (auto simp: malformed_def)
  moreover have "\<not> (\<exists>p \<in> set (tl grp). incompatible (hd grp) p)"
  proof -
    have "\<not> malformed slot p" "statement p = Some v" if "p \<in> set grp" for p
      using that R by (auto simp: malformed_def statement_def)
    with assms show ?thesis
      by (metis hd_in_set incompatible_statement list.set_sel(2))
  qed
  moreover have "hd grp \<in> set grp" using assms by simp
  ultimately show ?L using R by (auto simp: judge_group_def)
next
  assume L: ?L
  have cl: "(if \<exists>o' \<in> set grp. \<not> current e o' slot then (EvidenceStale, ReasonEvidenceStale)
     else if \<exists>o' \<in> set grp. malformed slot o' then (EvidenceTypeMismatch, ReasonEvidenceTypeMismatch)
     else if \<exists>o' \<in> set grp. \<exists>p \<in> set grp. incompatible o' p then (EvidenceConflicting, ReasonConflictingEvidence)
     else if \<exists>o' \<in> set grp. o_Outcome o' = OutcomeProviderUnavailable
       then (EvidenceProviderUnavailable, ReasonProviderUnavailable)
     else (EvidenceCurrent, sv_code ev)) = (EvidenceCurrent, sv_code (judge_group e slot ev t grp))"
    using judge_group_classified [OF assms, of e slot ev t] L by simp
  then have all: "\<forall>o' \<in> set grp. current e o' slot" "\<forall>o' \<in> set grp. \<not> malformed slot o'"
      "\<forall>o' \<in> set grp. \<forall>p \<in> set grp. \<not> incompatible o' p" "\<forall>o' \<in> set grp. o_Outcome o' \<noteq> OutcomeProviderUnavailable"
    by (simp_all split: if_splits)
  have "List.find (malformed slot) grp = None" using find_ex_iff [of "malformed slot" grp] all(2) by auto
  moreover have hd: "hd grp \<in> set grp" using assms by simp
  moreover have "\<not> (\<exists>p \<in> set (tl grp). incompatible (hd grp) p)" using all(3) hd by (metis list.set_sel(2) assms)
  ultimately have v: "o_Value (hd grp) = v" using L all by (simp add: judge_group_def split: if_splits)
  show ?R
  proof
    fix o'
    assume o': "o' \<in> set grp"
    have wf: "o_Outcome o' = OutcomeValue" "admits slot (o_Value o')"
      using all o' by (auto simp: malformed_def)
    have "statement (hd grp) = statement o'" using all(2,3) o' hd incompatible_statement by blast
    with wf v all(1) o' show "current e o' slot \<and> o_Outcome o' = OutcomeValue \<and> admits slot (o_Value o') \<and> o_Value o' = v"
      by (auto simp: statement_def split: if_splits)
  qed
qed

lemma resolveEvidence_current:
  "sv_status (resolveEvidence e i slot) = EvidenceCurrent \<and> sv_value (resolveEvidence e i slot) = v \<longleftrightarrow>
     (\<exists>b. assertionBinding (e_store e ! i) (as_Name slot) = Some b \<and>
        (let L = latest (applicable (e_at e) (wanted_key (e_store e ! i) (as_Name slot) (ab_Provider b)) (obs_of e i slot))
         in L \<noteq> {} \<and> (\<forall>o' \<in> L. current e o' slot \<and> o_Outcome o' = OutcomeValue \<and>
              admits slot (o_Value o') \<and> o_Value o' = v)))"
proof (cases "assertionBinding (e_store e ! i) (as_Name slot)")
  case None
  then show ?thesis by (simp add: resolveEvidence_def)
next
  case (Some b)
  let ?A = "applicable (e_at e) (wanted_key (e_store e ! i) (as_Name slot) (ab_Provider b)) (obs_of e i slot)"
  show ?thesis
  proof (cases "?A = {}")
    case True
    with resolveEvidence_bound(1) [OF Some True] Some show ?thesis by (simp add: latest_def)
  next
    case False
    then obtain grp t ev where grp: "grp \<noteq> []" "set grp = latest ?A" "resolveEvidence e i slot = judge_group e slot ev t grp"
      using resolveEvidence_bound(2) [OF Some False] by blast
    have "latest ?A \<noteq> {}" using latest_finite_nonempty [OF finite_applicable False] .
    with judge_group_current [OF grp(1)] grp Some show ?thesis by (simp add: Let_def)
  qed
qed

section \<open>Independence of the order of observations\<close>

lemma hd_ref_least:
  assumes "grp \<noteq> []" "sorted_wrt (\<lambda>a b. \<not> ref_less b a) grp" "p \<in> set grp"
  shows "o_EvidenceRef (hd grp) \<le> o_EvidenceRef p"
  using assms by (cases grp) (auto simp: ref_less_def)

lemma judge_group_fields:
  "sv_provider (judge_group e slot ev t grp) = sv_provider ev" "sv_ref (judge_group e slot ev t grp) = sv_ref ev"
  "sv_status (judge_group e slot ev t grp) \<noteq> EvidenceCurrent \<Longrightarrow> sv_value (judge_group e slot ev t grp) = sv_value ev"
  by (auto simp: judge_group_def split: option.splits if_splits)

lemma judge_group_cong:
  assumes g: "grp \<noteq> []" "grp' \<noteq> []" and set: "set grp = set grp'"
    and cur: "\<And>o'. current e o' slot = current e' o' slot"
    and ev: "sv_code ev = sv_code ev'" "sv_value ev = sv_value ev'"
  shows "sv_status (judge_group e slot ev t grp) = sv_status (judge_group e' slot ev' t' grp')"
    and "sv_code (judge_group e slot ev t grp) = sv_code (judge_group e' slot ev' t' grp')"
    and "sv_value (judge_group e slot ev t grp) = sv_value (judge_group e' slot ev' t' grp')"
proof -
  let ?j = "judge_group e slot ev t grp" and ?j' = "judge_group e' slot ev' t' grp'"
  have "(sv_status ?j, sv_code ?j) = (sv_status ?j', sv_code ?j')"
    unfolding judge_group_classified [OF g(1)] judge_group_classified [OF g(2)] set cur ev(1) ..
  then show st: "sv_status ?j = sv_status ?j'" and "sv_code ?j = sv_code ?j'" by simp_all
  show "sv_value ?j = sv_value ?j'"
  proof (cases "sv_status ?j = EvidenceCurrent")
    case True
    then have "sv_status ?j = EvidenceCurrent \<and> sv_value ?j = sv_value ?j" by simp
    then have "sv_status ?j' = EvidenceCurrent \<and> sv_value ?j' = sv_value ?j"
      unfolding judge_group_current [OF g(1)] judge_group_current [OF g(2)] set cur .
    then show ?thesis by simp
  next
    case False
    with st ev(2) judge_group_fields(3) [of e slot ev t grp] judge_group_fields(3) [of e' slot ev' t' grp']
    show ?thesis by simp
  qed
qed

lemma resolveEvidence_cong:
  assumes at: "e_at e' = e_at e" and st: "e_store e' ! i = e_store e ! i"
    and obs: "obs_of e' i slot = obs_of e i slot"
  shows "sv_status (resolveEvidence e' i slot) = sv_status (resolveEvidence e i slot) \<and>
    sv_code (resolveEvidence e' i slot) = sv_code (resolveEvidence e i slot) \<and>
    sv_value (resolveEvidence e' i slot) = sv_value (resolveEvidence e i slot) \<and>
    sv_provider (resolveEvidence e' i slot) = sv_provider (resolveEvidence e i slot) \<and>
    sv_ref (resolveEvidence e' i slot) = sv_ref (resolveEvidence e i slot)"
proof (cases "assertionBinding (e_store e ! i) (as_Name slot)")
  case None
  with st show ?thesis by (simp add: resolveEvidence_def)
next
  case (Some b)
  then have b': "assertionBinding (e_store e' ! i) (as_Name slot) = Some b" using st by simp
  let ?w = "wanted_key (e_store e ! i) (as_Name slot) (ab_Provider b)"
  let ?A = "applicable (e_at e) ?w (obs_of e i slot)"
  have A: "applicable (e_at e') (wanted_key (e_store e' ! i) (as_Name slot) (ab_Provider b)) (obs_of e' i slot) = ?A"
    using at st obs by simp
  have cur: "current e' o' slot = current e o' slot" for o' by (simp add: current_def at)
  show ?thesis
  proof (cases "?A = {}")
    case True
    then show ?thesis
      using resolveEvidence_bound(1) [OF Some True] resolveEvidence_bound(1) [OF b'] A at st obs by simp
  next
    case False
    then obtain grp t where g: "grp \<noteq> []" "set grp = latest ?A" "sorted_wrt (\<lambda>a b. \<not> ref_less b a) grp"
        "resolveEvidence e i slot = judge_group e slot (slotEvidence_zero\<lparr>sv_provider := ab_Provider b,
           sv_ref := o_EvidenceRef (hd grp)\<rparr>) t grp"
      using resolveEvidence_bound(2) [OF Some False] by auto
    from False obtain grp' t' where g': "grp' \<noteq> []" "set grp' = latest ?A" "sorted_wrt (\<lambda>a b. \<not> ref_less b a) grp'"
        "resolveEvidence e' i slot = judge_group e' slot (slotEvidence_zero\<lparr>sv_provider := ab_Provider b,
           sv_ref := o_EvidenceRef (hd grp')\<rparr>) t' grp'"
      using resolveEvidence_bound(2) [OF b'] unfolding A by auto
    have "hd grp \<in> set grp'" "hd grp' \<in> set grp" using g(1,2) g'(1,2) hd_in_set by auto
    then have "o_EvidenceRef (hd grp) = o_EvidenceRef (hd grp')"
      using hd_ref_least [OF g(1,3)] hd_ref_least [OF g'(1,3)] by (meson antisym)
    with judge_group_cong [OF g'(1) g(1) _ cur, of "slotEvidence_zero\<lparr>sv_provider := ab_Provider b, sv_ref := o_EvidenceRef (hd grp')\<rparr>"
        "slotEvidence_zero\<lparr>sv_provider := ab_Provider b, sv_ref := o_EvidenceRef (hd grp)\<rparr>" t' t]
    show ?thesis unfolding g(4) g'(4) by (simp add: judge_group_fields g(2) g'(2))
  qed
qed

text \<open>C4: Evidence counts as current, with a value, exactly when the slot is bound and the latest
  statements of the bound provider for exactly this binding, among those not from the future,
  exist, are all within their bounds and admitted by the slot, and all report that value. In
  particular no older statement is ever fallen back on.\<close>

theorem evidence_current_iff:
  "sv_status (resolveEvidence e i slot) = EvidenceCurrent \<and> sv_value (resolveEvidence e i slot) = v \<longleftrightarrow>
     (\<exists>b. assertionBinding (e_store e ! i) (as_Name slot) = Some b \<and>
        (let L = latest (applicable (e_at e) (wanted_key (e_store e ! i) (as_Name slot) (ab_Provider b)) (obs_of e i slot))
         in L \<noteq> {} \<and> L \<subseteq> {o'. current e o' slot \<and> o_Outcome o' = OutcomeValue \<and>
              admits slot (o_Value o') \<and> o_Value o' = v}))"
  unfolding resolveEvidence_current Let_def by blast

text \<open>C5: What the evidence of a slot is depends on the set of observations only, not on the
  order in which they are listed or on repetitions: status, reason code, value, provider and
  evidence reference are the same. (The free-text detail of a malformed value names the first
  malformed statement and is not claimed to be.)\<close>

theorem evidence_order_independent:
  assumes "e_at e' = e_at e" and "e_store e' ! i = e_store e ! i" and "obs_of e' i slot = obs_of e i slot"
  shows "sv_status (resolveEvidence e' i slot) = sv_status (resolveEvidence e i slot) \<and>
    sv_code (resolveEvidence e' i slot) = sv_code (resolveEvidence e i slot) \<and>
    sv_value (resolveEvidence e' i slot) = sv_value (resolveEvidence e i slot) \<and>
    sv_provider (resolveEvidence e' i slot) = sv_provider (resolveEvidence e i slot) \<and>
    sv_ref (resolveEvidence e' i slot) = sv_ref (resolveEvidence e i slot)"
  by (rule resolveEvidence_cong [OF assms])

text \<open>The status and reason code of a bound slot, on every branch: missing or inapplicable
  evidence (with the worst mismatch), stale, malformed, conflicting, provider unavailable, and
  current, in this order of precedence.\<close>

theorem evidence_classified:
  "assertionBinding (e_store e ! i) (as_Name slot) = None \<and>
     sv_status (resolveEvidence e i slot) = EvidenceUnbound \<and> sv_code (resolveEvidence e i slot) = ReasonEvidenceUnbound \<or>
   (\<exists>b. assertionBinding (e_store e ! i) (as_Name slot) = Some b \<and>
      (sv_status (resolveEvidence e i slot), sv_code (resolveEvidence e i slot)) =
        classify e slot (wanted_key (e_store e ! i) (as_Name slot) (ab_Provider b)) (obs_of e i slot))"
proof (cases "assertionBinding (e_store e ! i) (as_Name slot)")
  case None
  then show ?thesis by (simp add: resolveEvidence_def)
next
  case (Some b)
  with resolveEvidence_classified [OF Some] show ?thesis by blast
qed

text \<open>The demo with its observations listed backwards.\<close>

definition demo_reversed :: Snapshot where
  "demo_reversed = demo_snapshot\<lparr>s_Observations := rev (s_Observations demo_snapshot)\<rparr>"

theorem evidence_order_independent_witness:
  "sv_value (resolveEvidence (newEvaluator demo_reversed) 1 demo_slot) = Value_Bool True \<and>
   sv_status (resolveEvidence (newEvaluator demo_reversed) 1 demo_slot) = EvidenceCurrent"
proof -
  have "e_at (newEvaluator demo_reversed) = e_at (newEvaluator demo_snapshot)"
    "e_store (newEvaluator demo_reversed) ! 1 = e_store (newEvaluator demo_snapshot) ! 1"
    by (simp_all add: newEvaluator_def demo_reversed_def)
  moreover have "obs_of (newEvaluator demo_reversed) 1 demo_slot = obs_of (newEvaluator demo_snapshot) 1 demo_slot"
    by code_simp
  moreover have "sv_value (resolveEvidence (newEvaluator demo_snapshot) 1 demo_slot) = Value_Bool True"
    "sv_status (resolveEvidence (newEvaluator demo_snapshot) 1 demo_slot) = EvidenceCurrent"
    by code_simp+
  ultimately show ?thesis
    using evidence_order_independent [of "newEvaluator demo_reversed" "newEvaluator demo_snapshot" 1 demo_slot] by simp
qed

end
