(* ===== verification/Ops_Verdicts.thy ===== *)
theory Ops_Verdicts
  imports Ops_Capability Ops_Demo
begin

text \<open>The composition rule of capabilities: the state of a capability as a function of the
  verdicts on its requirements and the impacts they declare.\<close>

definition unmet_impacts :: "Requirement list \<Rightarrow> (verdict \<times> Reason) list \<Rightarrow> Impact set" where
  "unmet_impacts reqs vs = {r_OnUnmet r | r v. (r, v) \<in> set (zip reqs vs) \<and> fst v = unmet}"

lemma set_impacts: "set (impacts reqs vs) = unmet_impacts reqs vs"
  by (force simp: impacts_def unmet_impacts_def)

lemma length_impacts: "length (impacts reqs vs) = card (unmet_impacts reqs vs)"
proof -
  have "distinct (impacts reqs vs)" by (simp add: impacts_def)
  then show ?thesis unfolding set_impacts [symmetric] by (simp add: distinct_card)
qed

lemma finishCapability_state:
  assumes imp: "\<And>r. r \<in> set (cp_Requirements cp) \<Longrightarrow> r_OnUnmet r \<in> {ImpactDegraded, ImpactUnavailable}"
  shows "cr_State (finishCapability cp vs) =
    (let U = unmet_impacts (cp_Requirements cp) vs in
     if unproven \<in> fst ` set vs then Unknown
     else if U = {} then Available
     else if U = {ImpactDegraded} then Degraded
     else if U = {ImpactUnavailable} then Unavailable
     else Unknown)"
proof -
  let ?U = "unmet_impacts (cp_Requirements cp) vs"
  have "?U \<subseteq> {ImpactDegraded, ImpactUnavailable}"
  proof
    fix x
    assume "x \<in> ?U"
    then obtain r v where "(r, v) \<in> set (zip (cp_Requirements cp) vs)" "x = r_OnUnmet r"
      by (auto simp: unmet_impacts_def)
    then show "x \<in> {ImpactDegraded, ImpactUnavailable}" using imp [OF set_zip_leftD] by simp
  qed
  then consider "?U = {}" | "?U = {ImpactDegraded}" | "?U = {ImpactUnavailable}" | "?U = {ImpactDegraded, ImpactUnavailable}"
    by blast
  then show ?thesis
    by cases (simp_all add: finishCapability_def Let_def set_impacts length_impacts)
qed

lemma unmet_impacts_empty_iff:
  assumes "length vs = length reqs"
  shows "unmet_impacts reqs vs = {} \<longleftrightarrow> unmet \<notin> fst ` set vs"
proof -
  have "vs = map snd (zip reqs vs)" using assms by simp
  then have "set vs = snd ` set (zip reqs vs)" by (metis set_map)
  then show ?thesis unfolding unmet_impacts_def by force
qed

lemma all_accepted:
  "(\<forall>v \<in> set vs. fst v = accepted) \<longleftrightarrow> unproven \<notin> fst ` set vs \<and> unmet \<notin> fst ` set vs"
proof -
  have "v = accepted \<longleftrightarrow> v \<noteq> unproven \<and> v \<noteq> unmet" for v by (cases v) auto
  then show ?thesis unfolding image_iff by metis
qed

lemma finishCapability_Available:
  assumes "length vs = length (cp_Requirements cp)"
    and "\<And>r. r \<in> set (cp_Requirements cp) \<Longrightarrow> r_OnUnmet r \<in> {ImpactDegraded, ImpactUnavailable}"
  shows "cr_State (finishCapability cp vs) = Available \<longleftrightarrow> (\<forall>v \<in> set vs. fst v = accepted)"
proof -
  have "cr_State (finishCapability cp vs) = Available \<longleftrightarrow>
      unproven \<notin> fst ` set vs \<and> unmet_impacts (cp_Requirements cp) vs = {}"
    using finishCapability_state [OF assms(2), of cp vs] by (simp add: Let_def)
  then show ?thesis unfolding unmet_impacts_empty_iff [OF assms(1)] all_accepted .
qed

lemma finishEnvelope_state:
  "er_State (finishEnvelope env vs) = Satisfied \<longleftrightarrow> (\<forall>v \<in> set vs. fst v = accepted)"
  unfolding all_accepted by (simp add: finishEnvelope_def)

text \<open>C6: The composition rule: UNKNOWN when a requirement is unproven or when the unmet ones
  declare both impacts, AVAILABLE when none is unmet, otherwise the one impact the unmet
  requirements declare.\<close>

theorem capability_composition:
  assumes "\<And>r. r \<in> set (cp_Requirements cp) \<Longrightarrow> r_OnUnmet r \<in> {ImpactDegraded, ImpactUnavailable}"
  shows "cr_State (finishCapability cp vs) =
    (let U = unmet_impacts (cp_Requirements cp) vs in
     if unproven \<in> fst ` set vs then Unknown
     else if U = {} then Available
     else if U = {ImpactDegraded} then Degraded
     else if U = {ImpactUnavailable} then Unavailable
     else Unknown)"
  by (rule finishCapability_state [OF assms])

theorem capability_composition_witness:
  "cr_State (finishCapability demo_write [(unmet, Reason_zero)]) =
    (let U = unmet_impacts (cp_Requirements demo_write) [(unmet, Reason_zero)] in
     if unproven \<in> fst ` set [(unmet, Reason_zero)] then Unknown
     else if U = {} then Available
     else if U = {ImpactDegraded} then Degraded
     else if U = {ImpactUnavailable} then Unavailable
     else Unknown) \<and>
   cr_State (finishCapability demo_write [(unmet, Reason_zero)]) = Degraded"
proof
  show "cr_State (finishCapability demo_write [(unmet, Reason_zero)]) = Degraded" by code_simp
qed (rule capability_composition, simp add: demo_write_def demo_requirement_def)

end
