(* ===== verification/Ops_Properties.thy ===== *)
theory Ops_Properties
  imports Ops_Composition Ops_EvidenceSpec Ops_Verdicts
begin

text \<open>
  The properties of the evaluator as a whole: what a snapshot's assessment says about the
  snapshot. The evaluator's internal state after resolution and cycle rejection is
  \<open>prepared s\<close>; its targets are those of the snapshot (\<open>prepared_target\<close>).
\<close>

section \<open>The prepared evaluator in terms of the snapshot\<close>

lemma prepared_fields:
  "e_at (prepared s) = s_At s" "length (e_store (prepared s)) = length (s_Targets s)"
  "e_obs (prepared s) = e_obs (newEvaluator s)" "set (e_order (prepared s)) = {..<length (s_Targets s)}"
proof -
  show len: "length (e_store (prepared s)) = length (s_Targets s)"
    using prepared_rejects [of s] by (simp add: rejects_def)
  have "same_input (newEvaluator s) (prepared s)"
    using prepared_rejects [of s] same_input_trans [OF resolved_input] by (simp add: rejects_def)
  then show "e_at (prepared s) = s_At s" "e_obs (prepared s) = e_obs (newEvaluator s)"
    by (simp_all add: same_input_def newEvaluator_def)
  show "set (e_order (prepared s)) = {..<length (s_Targets s)}"
    using eval_invD(1) [OF eval_inv_prepared, of s] len by simp
qed

lemma prepared_target:
  assumes "i < length (s_Targets s)"
  shows "ts_t (e_store (prepared s) ! i) = s_Targets s ! i"
    "uid_at (prepared s) i = ti_UID (t_Identity (s_Targets s ! i))"
  using assms rejectsD(1) [OF prepared_rejects, of i s] by (simp_all add: resolved_store uid_at_def)

lemma resolved_contract:
  assumes i: "i < length (s_Targets s)" and v: "ts_valid (e_store (resolved s) ! i)"
  shows "target_wf s (s_Targets s ! i) (contract_at (resolved s) i)"
proof -
  let ?t = "s_Targets s ! i" and ?n = "newEvaluator s"
  have r: "snd (resolution ?n ?t) = []" using i v by (simp add: ts_valid_def resolved_store)
  obtain c where c: "target_wf s ?t c" using resolved_valid_iff [OF i] v by blast
  then have "map snd (e_contracts ?n (t_ContractRef ?t)) = [c]" by (simp add: target_wf_def contracts_new_snd)
  then obtain p where p: "e_contracts ?n (t_ContractRef ?t) = [p]" "snd p = c" by (auto simp: map_eq_Cons_conv)
  from resolution_contract [OF r p(1)] p(2) i c show ?thesis by (simp add: contract_at_def resolved_store)
qed

text \<open>A target is valid after preparation exactly when it is well formed and owns no capability on
  a dependency cycle.\<close>

lemma prepared_valid_iff:
  assumes "i < length (s_Targets s)"
  shows "ts_valid (e_store (prepared s) ! i) \<longleftrightarrow>
    (\<exists>c. target_wf s (s_Targets s ! i) c) \<and> (\<forall>k. on_cycle s k \<longrightarrow> ck_uid k \<noteq> ti_UID (t_Identity (s_Targets s ! i)))"
proof -
  have "uid_at (resolved s) i = ti_UID (t_Identity (s_Targets s ! i))"
    using assms by (simp add: uid_at_def resolved_store)
  moreover have "u \<notin> ck_uid ` {k. on_cycle s k} \<longleftrightarrow> (\<forall>k. on_cycle s k \<longrightarrow> ck_uid k \<noteq> u)" for u by blast
  ultimately show ?thesis
    using assms rejectsD(5) [OF prepared_rejects, of i s] resolved_valid_iff [OF assms] by simp
qed

lemma prepared_contract:
  assumes "i < length (s_Targets s)" and "ts_valid (e_store (prepared s) ! i)"
  shows "target_wf s (s_Targets s ! i) (contract_at (prepared s) i)"
  using resolved_contract [OF assms(1)] rejectsD(4,5) [OF prepared_rejects, of i s] assms by simp

section \<open>Proof of a requirement\<close>

text \<open>A predicate is proven for a target by an observation of the bound provider for exactly this
  binding: not later than the evaluation instant, within the bounds of the slot and the provider,
  admitted by the slot, satisfying the predicate, and superseded by no other statement.\<close>

definition proof_of :: "Snapshot \<Rightarrow> Target \<Rightarrow> AssertionSlot \<Rightarrow> AssertionBinding \<Rightarrow> Predicate \<Rightarrow> Observation \<Rightarrow> bool" where
  "proof_of s t slot b p o' \<longleftrightarrow>
     o_Key o' = \<lparr>ak_Target = t_Identity t, ak_ResolvedUID = t_ResolvedUID t, ak_Contract = t_ContractRef t,
       ak_Slot = as_Name slot, ak_Provider = ab_Provider b\<rparr> \<and>
     o_ObservedAt o' \<le> s_At s \<and> time_Sub (s_At s) (o_ObservedAt o') \<le> as_MaxAge slot \<and>
     (IsZero (o_ValidUntil o') \<or> s_At s < o_ValidUntil o') \<and>
     o_Outcome o' = OutcomeValue \<and> admits slot (o_Value o') \<and> Predicate_eval p (o_Value o') \<and>
     (\<forall>q \<in> set (s_Observations s). o_Key q = o_Key o' \<and> o_ObservedAt q \<le> s_At s \<longrightarrow>
        o_ObservedAt q < o_ObservedAt o' \<or>
        o_ObservedAt q = o_ObservedAt o' \<and> o_Outcome q = OutcomeValue \<and> o_Value q = o_Value o')"

definition predicate_proven :: "Snapshot \<Rightarrow> Target \<Rightarrow> Contract \<Rightarrow> Predicate \<Rightarrow> bool" where
  "predicate_proven s t c p \<longleftrightarrow>
     (\<exists>slot \<in> set (c_Assertions c). \<exists>b \<in> set (t_AssertionBindings t). \<exists>o' \<in> set (s_Observations s).
        as_Name slot = p_Assertion p \<and> ab_Slot b = as_Name slot \<and> proof_of s t slot b p o')"

definition requirement_proven :: "Snapshot \<Rightarrow> Assessment \<Rightarrow> Target \<Rightarrow> Contract \<Rightarrow> Requirement \<Rightarrow> bool" where
  "requirement_proven s a t c r \<longleftrightarrow>
     (\<forall>p. r_Predicate r = Some p \<longrightarrow> predicate_proven s t c p) \<and>
     (\<forall>d. r_Dependency r = Some d \<longrightarrow>
        (\<exists>b \<in> set (t_DependencyBindings t). \<exists>t' \<in> set (s_Targets s). db_Slot b = dr_Slot d \<and>
           ti_UID (t_Identity t') = db_TargetUID b \<and> t_ContractRef t' = db_Contract b \<and>
           assessed_state a \<lparr>ck_uid = db_TargetUID b, ck_name = ct_Name (dr_Capability d)\<rparr> = Available)) \<and>
     (r_LocalCapability r \<noteq> '''' \<longrightarrow>
        assessed_state a \<lparr>ck_uid = ti_UID (t_Identity t), ck_name = r_LocalCapability r\<rparr> = Available) \<and>
     (r_Envelope r \<noteq> '''' \<longrightarrow>
        (\<exists>env \<in> set (c_Envelopes c). env_Name env = r_Envelope r \<and>
           (\<forall>p \<in> set (env_Requirements env). predicate_proven s t c p)))"

lemma predicate_verdict_accepted:
  "fst (predicate_verdict p ev) = accepted \<longleftrightarrow> sv_status ev = EvidenceCurrent \<and> Predicate_eval p (sv_value ev)"
  by (simp add: predicate_verdict_def Let_def)

lemma pred_spec_proven:
  assumes i: "i < length (s_Targets s)" and v: "ts_valid (e_store (prepared s) ! i)"
    and p: "predicate_wf (contract_at (prepared s) i) p" and acc: "fst (pred_spec (prepared s) i p) = accepted"
  shows "predicate_proven s (s_Targets s ! i) (contract_at (prepared s) i) p"
proof -
  let ?e = "prepared s" and ?t = "s_Targets s ! i" and ?c = "contract_at (prepared s) i"
  obtain slot where slot: "slot_of ?c (p_Assertion p) = Some slot"
    using p by (auto simp: predicate_wf_def Predicate_validate_def split: option.splits)
  then have inc: "slot \<in> set (c_Assertions ?c)" and name: "as_Name slot = p_Assertion p"
    unfolding slot_of_def by (auto dest: find_SomeD)
  let ?v = "sv_value (resolveEvidence ?e i slot)"
  have cur: "sv_status (resolveEvidence ?e i slot) = EvidenceCurrent" and ev: "Predicate_eval p ?v"
    using acc slot by (simp_all add: pred_spec_def predicate_verdict_accepted evidence_spec_def slot_or_zero_def)
  then obtain b where b: "assertionBinding (e_store ?e ! i) (as_Name slot) = Some b"
    and L: "latest (applicable (s_At s) (wanted_key (e_store ?e ! i) (as_Name slot) (ab_Provider b)) (obs_of ?e i slot)) \<noteq> {}"
      "\<forall>o' \<in> latest (applicable (s_At s) (wanted_key (e_store ?e ! i) (as_Name slot) (ab_Provider b)) (obs_of ?e i slot)).
         current ?e o' slot \<and> o_Outcome o' = OutcomeValue \<and> admits slot (o_Value o') \<and> o_Value o' = ?v"
    using resolveEvidence_current [of ?e i slot ?v] by (auto simp: Let_def prepared_fields(1))
  let ?w = "wanted_key (e_store ?e ! i) (as_Name slot) (ab_Provider b)"
  have bt: "b \<in> set (t_AssertionBindings ?t)" "ab_Slot b = as_Name slot"
    using b prepared_target(1) [OF i] unfolding assertionBinding_def by (auto dest: find_SomeD)
  have w: "?w = \<lparr>ak_Target = t_Identity ?t, ak_ResolvedUID = t_ResolvedUID ?t, ak_Contract = t_ContractRef ?t,
       ak_Slot = as_Name slot, ak_Provider = ab_Provider b\<rparr>"
    by (simp add: wanted_key_def prepared_target(1) [OF i])
  have obs: "obs_of ?e i slot = {q \<in> set (s_Observations s). obs_key q =
      \<lparr>ok_namespace = ti_Namespace (t_Identity ?t), ok_name = ti_Name (t_Identity ?t), ok_slot = as_Name slot\<rparr>}"
    by (simp add: obs_of_def prepared_fields(3) e_obs_new prepared_target(1) [OF i])
  have app: "applicable (s_At s) ?w (obs_of ?e i slot) =
      {q \<in> set (s_Observations s). o_Key q = ?w \<and> o_ObservedAt q \<le> s_At s}"
    unfolding obs applicable_def observable_def w by (auto simp: obs_key_def)
  obtain o' where o': "o' \<in> latest (applicable (s_At s) ?w (obs_of ?e i slot))" using L(1) by blast
  then have o1: "o' \<in> set (s_Observations s)" "o_Key o' = ?w" "o_ObservedAt o' \<le> s_At s"
    unfolding latest_def app by simp_all
  have sup: "o_ObservedAt q < o_ObservedAt o' \<or>
        o_ObservedAt q = o_ObservedAt o' \<and> o_Outcome q = OutcomeValue \<and> o_Value q = o_Value o'"
    if q: "q \<in> set (s_Observations s)" "o_Key q = o_Key o'" "o_ObservedAt q \<le> s_At s" for q
  proof (cases "o_ObservedAt q = o_ObservedAt o'")
    case True
    then have "q \<in> latest (applicable (s_At s) ?w (obs_of ?e i slot))"
      using q o' o1(2) unfolding latest_def app by simp
    with L(2) o' True show ?thesis by simp
  next
    case False
    have "o_ObservedAt q \<le> o_ObservedAt o'" using q o' o1(2) unfolding latest_def app by simp
    with False show ?thesis by simp
  qed
  have "proof_of s ?t slot b p o'"
    using L(2) o' o1 ev sup unfolding proof_of_def w
    by (auto simp: current_def prepared_fields(1) not_less split: if_splits)
  with inc name bt o1(1) show ?thesis unfolding predicate_proven_def by blast
qed

lemma verdict_accepted [simp]:
  "fst (dependency_verdict subject st) = accepted \<longleftrightarrow> st = Available"
  "fst (local_verdict subject st) = accepted \<longleftrightarrow> st = Available"
  "fst (envelope_verdict subject es) = accepted \<longleftrightarrow> es = Satisfied"
  by (cases st; cases es; simp add: dependency_verdict_def local_verdict_def envelope_verdict_def)+

lemma req_spec_proven:
  assumes i: "i < length (s_Targets s)" and v: "ts_valid (e_store (prepared s) ! i)"
    and wf: "requirement_wf (contract_at (prepared s) i) r"
    and acc: "fst (req_spec (prepared s) (assessed_state a) i r) = accepted"
  shows "requirement_proven s a (s_Targets s ! i) (contract_at (prepared s) i) r"
proof -
  let ?e = "prepared s" and ?t = "s_Targets s ! i" and ?c = "contract_at (prepared s) i"
  have k1: "requirement_kinds r = 1" using wf by (simp add: requirement_wf_def)
  note excl = kinds_exclusive [OF k1]
  have "predicate_proven s ?t ?c p" if p: "r_Predicate r = Some p" for p
    using pred_spec_proven [OF i v] wf acc p by (simp add: requirement_wf_def req_spec_def)
  moreover have "\<exists>b \<in> set (t_DependencyBindings ?t). \<exists>t' \<in> set (s_Targets s). db_Slot b = dr_Slot d \<and>
      ti_UID (t_Identity t') = db_TargetUID b \<and> t_ContractRef t' = db_Contract b \<and>
      assessed_state a \<lparr>ck_uid = db_TargetUID b, ck_name = ct_Name (dr_Capability d)\<rparr> = Available"
    if d: "r_Dependency r = Some d" for d
  proof -
    obtain subject j dc where res: "resolve_dependency ?e i d = Inr (subject, j, dc)"
        "assessed_state a \<lparr>ck_uid = uid_at ?e j, ck_name = ct_Name (cp_Type dc)\<rparr> = Available"
      using acc d excl(2) [OF d] by (auto simp: req_spec_def split: sum.splits prod.splits)
    then obtain b where b: "depBinding (e_store ?e ! i) (dr_Slot d) = Some b" "uniqueValid ?e (db_TargetUID b) = Some j"
        "t_ContractRef (ts_t (e_store ?e ! j)) = db_Contract b" "capabilityByType (contract_at ?e j) (dr_Capability d) = Some dc"
      by (auto simp: resolve_dependency_def Let_def split: option.splits if_splits)
    have j: "j < length (s_Targets s)" "uid_at ?e j = db_TargetUID b"
      using b(2) by (simp_all add: uniqueValid_iff [OF eval_inv_prepared] prepared_fields(2))
    have "b \<in> set (t_DependencyBindings ?t)" "db_Slot b = dr_Slot d"
      using b(1) prepared_target(1) [OF i] unfolding depBinding_def by (auto dest: find_SomeD)
    moreover have "cp_Type dc = dr_Capability d" using b(4) unfolding capabilityByType_def by (auto dest: find_SomeD)
    ultimately show ?thesis
      using res(2) j b(3) prepared_target [OF j(1)] nth_mem [OF j(1)]
      by (intro bexI [of _ b] bexI [of _ "s_Targets s ! j"]) simp_all
  qed
  moreover have "assessed_state a \<lparr>ck_uid = ti_UID (t_Identity ?t), ck_name = r_LocalCapability r\<rparr> = Available"
    if l: "r_LocalCapability r \<noteq> ''''"
    using acc l excl(3) [OF l] by (simp add: req_spec_def prepared_target(2) [OF i])
  moreover have "\<exists>env \<in> set (c_Envelopes ?c). env_Name env = r_Envelope r \<and>
      (\<forall>p \<in> set (env_Requirements env). predicate_proven s ?t ?c p)" if n: "r_Envelope r \<noteq> ''''"
  proof -
    obtain env where env: "envelope_of ?c (r_Envelope r) = Some env"
      using wf n by (auto simp: requirement_wf_def)
    then have e: "env \<in> set (c_Envelopes ?c)" "env_Name env = r_Envelope r"
      unfolding envelope_of_def by (auto dest: find_SomeD)
    have sat: "fst (pred_spec ?e i p) = accepted" if "p \<in> set (env_Requirements env)" for p
      using acc n excl(4) [OF n] env that by (simp add: req_spec_def env_spec_def finishEnvelope_state)
    have "contract_wf ?c" using prepared_contract [OF i v] by (simp add: target_wf_def)
    with e(1) have "predicate_wf ?c p" if "p \<in> set (env_Requirements env)" for p
      using that by (simp add: contract_wf_def envelope_wf_def)
    with sat e pred_spec_proven [OF i v] show ?thesis by blast
  qed
  ultimately show ?thesis unfolding requirement_proven_def by blast
qed

lemma Evaluate_Inr_iff:
  "Evaluate s = Some (Inr a) \<longleftrightarrow> \<not> IsZero (s_At s) \<and>
     a = \<lparr>a_Targets = map (assess_spec (prepared s) (prep.state_of s)) (e_order (prepared s))\<rparr>"
proof (cases "IsZero (s_At s)")
  case True
  then show ?thesis by (simp add: Evaluate_def)
next
  case False
  then show ?thesis using Evaluate_eq [OF False] by auto
qed

lemma Evaluate_solves:
  assumes "Evaluate s = Some (Inr a)"
  shows "a_Targets a = map (assess_spec (prepared s) (assessed_state a)) (e_order (prepared s))"
  using assms prep.assessment_solves [of a s] unfolding Evaluate_Inr_iff by simp

lemma available_capability_proven:
  assumes "Evaluate s = Some (Inr a)" and "ta \<in> set (a_Targets a)"
    and "r \<in> set (ta_Capabilities ta)" and "cr_State r = Available"
  shows "\<exists>t c cp. t \<in> set (s_Targets s) \<and> t_Identity t = ta_Target ta \<and> target_wf s t c \<and>
    cp \<in> set (c_Capabilities c) \<and> cp_Type cp = cr_Type r \<and>
    (\<forall>req \<in> set (cp_Requirements cp). requirement_proven s a t c req)"
proof -
  obtain i where i: "i < length (s_Targets s)" "ta = assess_spec (prepared s) (assessed_state a) i"
    using assms(2) Evaluate_solves [OF assms(1)] prepared_fields(4) [of s] by auto
  have v: "ts_valid (e_store (prepared s) ! i)"
    using assms(3) i(2) by (auto simp: assess_spec_def Let_def split: if_splits)
  let ?c = "contract_at (prepared s) i"
  have wf: "target_wf s (s_Targets s ! i) ?c" by (rule prepared_contract [OF i(1) v])
  obtain cp where cp: "cp \<in> set (c_Capabilities ?c)" "r = cap_spec (prepared s) (assessed_state a) i cp"
    using assms(3) i(2) v by (auto simp: assess_spec_def Let_def)
  have rwf: "requirement_wf ?c req" if "req \<in> set (cp_Requirements cp)" for req
    using wf cp(1) that by (simp add: target_wf_def contract_wf_def capability_wf_def)
  have "\<forall>w \<in> set (map (req_spec (prepared s) (assessed_state a) i) (cp_Requirements cp)). fst w = accepted"
    using assms(4) rwf unfolding cp(2) cap_spec_def
    by (subst (asm) finishCapability_Available) (simp_all add: requirement_wf_def)
  then have "\<forall>req \<in> set (cp_Requirements cp). requirement_proven s a (s_Targets s ! i) ?c req"
    using req_spec_proven [OF i(1) v rwf] by simp
  moreover have "t_Identity (s_Targets s ! i) = ta_Target ta"
    by (simp add: i(2) assess_spec_def Let_def prepared_target(1) [OF i(1)])
  moreover have "cp_Type cp = cr_Type r" by (simp add: cp(2))
  ultimately show ?thesis using wf cp(1) nth_mem [OF i(1)] by blast
qed

section \<open>Properties\<close>

text \<open>C1: A capability is reported AVAILABLE only on proof. Whenever an assessment reports it, the
  target is a well-formed target of the snapshot, the capability is declared by its contract, and
  every requirement of it is proven: each predicate, its own or an envelope's, by the latest
  applicable, current, admitted observation of the bound provider; each dependency and each local
  reference by a capability the same assessment reports AVAILABLE.\<close>

theorem Available_proven:
  assumes "Evaluate s = Some (Inr a)" and "ta \<in> set (a_Targets a)"
    and "r \<in> set (ta_Capabilities ta)" and "cr_State r = Available"
  shows "\<exists>t c cp. t \<in> set (s_Targets s) \<and> t_Identity t = ta_Target ta \<and> target_wf s t c \<and>
    cp \<in> set (c_Capabilities c) \<and> cp_Type cp = cr_Type r \<and>
    (\<forall>req \<in> set (cp_Requirements cp). requirement_proven s a t c req)"
  using assms by (rule available_capability_proven)

text \<open>C2: The evaluation always returns. With an evaluation instant, its output is the one
  assessment in which every capability has the state that composing its requirements gives, the
  states of local and dependency requirements being read from that same assessment; the caches
  and the order of evaluation leave no trace. Without an instant it is the error.\<close>

theorem Evaluate_composition:
  "Evaluate s =
     (if IsZero (s_At s) then Some (Inl ErrNoEvaluationInstant)
      else Some (Inr \<lparr>a_Targets = map (assess_spec (prepared s) (prep.state_of s)) (e_order (prepared s))\<rparr>)) \<and>
   (IsZero (s_At s) \<or>
      (\<exists>a. Evaluate s = Some (Inr a) \<and>
         a_Targets a = map (assess_spec (prepared s) (assessed_state a)) (e_order (prepared s)) \<and>
         rejectCycles (resolveTargets (newEvaluator s)) = Some (prepared s)))"
  using Evaluate_eq [of s] Evaluate_solves [of s] rejectCycles_prepared [of s]
  by (auto simp: Evaluate_def)

text \<open>C3: Cycle rejection is exact. It returns; a target is valid afterwards exactly when it is
  well formed and owns no capability that lies on a cycle of the dependency graph; and the graph
  that is left has no cycle.\<close>

theorem rejectCycles_exact:
  "\<exists>e. rejectCycles (resolveTargets (newEvaluator s)) = Some e \<and> acyclic (succ_rel (edges e)) \<and>
     length (e_store e) = length (s_Targets s) \<and>
     (\<forall>i < length (s_Targets s). ts_t (e_store e ! i) = s_Targets s ! i \<and>
        (ts_valid (e_store e ! i) \<longleftrightarrow>
           (\<exists>c. target_wf s (s_Targets s ! i) c) \<and>
           (\<forall>k. (k, k) \<in> (succ_rel (edges (resolveTargets (newEvaluator s))))\<^sup>+ \<longrightarrow>
              ck_uid k \<noteq> ti_UID (t_Identity (s_Targets s ! i)))))"
  using rejectCycles_prepared [of s] prepared_acyclic [of s] prepared_fields(2) [of s] prepared_target(1) [of _ s]
    prepared_valid_iff [of _ s]
  by (simp add: on_cycle_def)

section \<open>The demo snapshot\<close>

definition demo_assessment :: Assessment where
  "demo_assessment = (case Evaluate demo_snapshot of Some (Inr a) \<Rightarrow> a | _ \<Rightarrow> \<lparr>a_Targets = []\<rparr>)"

lemma demo_run: "Evaluate demo_snapshot = Some (Inr demo_assessment)"
  by code_simp

theorem Available_proven_witness:
  "\<exists>ta \<in> set (a_Targets demo_assessment). \<exists>r \<in> set (ta_Capabilities ta).
     ct_Name (cr_Type r) = ''api'' \<and> cr_State r = Available \<and>
     (\<exists>t c cp. t \<in> set (s_Targets demo_snapshot) \<and> t_Identity t = ta_Target ta \<and> target_wf demo_snapshot t c \<and>
        cp \<in> set (c_Capabilities c) \<and> cp_Type cp = cr_Type r \<and>
        (\<forall>req \<in> set (cp_Requirements cp). requirement_proven demo_snapshot demo_assessment t c req))"
proof -
  have "\<exists>ta \<in> set (a_Targets demo_assessment). \<exists>r \<in> set (ta_Capabilities ta).
     ct_Name (cr_Type r) = ''api'' \<and> cr_State r = Available" by code_simp
  then obtain ta r where "ta \<in> set (a_Targets demo_assessment)" "r \<in> set (ta_Capabilities ta)"
      "ct_Name (cr_Type r) = ''api''" "cr_State r = Available" by blast
  with Available_proven [OF demo_run this(1,2,4)] show ?thesis by blast
qed

theorem rejectCycles_exact_witness:
  "\<exists>e. rejectCycles (resolveTargets (newEvaluator demo_snapshot)) = Some e \<and> acyclic (succ_rel (edges e)) \<and>
     ts_t (e_store e ! 1) = demo_targets ! 1 \<and>
     (ts_valid (e_store e ! 1) \<longleftrightarrow>
        (\<exists>c. target_wf demo_snapshot (demo_targets ! 1) c) \<and>
        (\<forall>k. (k, k) \<in> (succ_rel (edges (resolveTargets (newEvaluator demo_snapshot))))\<^sup>+ \<longrightarrow> ck_uid k \<noteq> ''t1''))"
proof -
  have t: "s_Targets demo_snapshot = demo_targets" "ti_UID (t_Identity (demo_targets ! 1)) = ''t1''"
      "1 < length demo_targets"
    by (simp_all add: demo_snapshot_def demo_targets_def demo_target_def)
  show ?thesis using rejectCycles_exact [of demo_snapshot] unfolding t(1) using t(2,3) by metis
qed

end
