(* ===== verification/Interaction_Profile.thy ===== *)
theory Interaction_Profile
  imports Ops_Identity
begin

text \<open>
  The declared reference profile (\<open>interaction/profile.go\<close>): responses, their execution
  contracts, the bounds a profile is held to at load, and the reasons a person must decide.
  Decoding JSON is left out; validation starts from the decoded value. The API's capability type
  has the fields of the evaluator's and is the same record here.
\<close>

section \<open>Data\<close>

record ActionRef =
  ar_Name :: string
  ar_Revision :: string

definition ActionRef_String :: "ActionRef \<Rightarrow> string" where
  "ActionRef_String a = ar_Name a @ ''@'' @ ar_Revision a"

record TargetRef =
  tr_Namespace :: string
  tr_Name :: string
  tr_UID :: string

record Execution =
  ex_Provider :: string
  ex_Approvers :: "string list"
  ex_ExpectedImpact :: "CapabilityType list"
  ex_MayInterrupt :: "CapabilityType list"
  ex_AckTimeout :: duration
  ex_CompletionTimeout :: duration
  ex_RecoveryWindow :: duration
  ex_ApprovalTTL :: duration
  ex_MaxSends :: int
  ex_MaxAttempts :: int
  ex_Retryable :: bool

record Response =
  re_Action :: ActionRef
  re_Target :: TargetRef
  re_For :: CapabilityType
  re_States :: "string list"
  re_Owner :: string
  re_RequiresApproval :: bool
  re_Risks :: "string list"
  re_Preconditions :: "CapabilityType list"
  re_Execution :: "Execution option"

record Profile =
  pf_Revision :: string
  pf_Responses :: "Response list"

section \<open>Budgets and the human boundary\<close>

text \<open>Durations are nanoseconds.\<close>

definition time_Hour :: duration where "time_Hour = 3600 * 1000000000"

definition DefaultApprovalTTL :: duration where "DefaultApprovalTTL = time_Hour"
definition DefaultMaxSends :: int where "DefaultMaxSends = 3"
definition DefaultMaxAttempts :: int where "DefaultMaxAttempts = 1"
definition maxExecDuration :: duration where "maxExecDuration = 24 * time_Hour"

definition HumanDecisionReasons :: "Response \<Rightarrow> string list" where
  "HumanDecisionReasons r =
     (if re_RequiresApproval r then [''approval-declared''] else []) @
     (if re_Risks r \<noteq> [] then [''risk-declared''] else []) @
     (case re_Execution r of
        None \<Rightarrow> []
      | Some e \<Rightarrow> if ex_MayInterrupt e \<noteq> [] then [''may-interrupt''] else [])"

definition SendBudget :: "Execution \<Rightarrow> int" where
  "SendBudget e = (if ex_MaxSends e = 0 then DefaultMaxSends else ex_MaxSends e)"

definition AttemptBudget :: "Execution \<Rightarrow> int" where
  "AttemptBudget e = (if ex_MaxAttempts e = 0 then DefaultMaxAttempts else ex_MaxAttempts e)"

definition ApprovalAge :: "Execution \<Rightarrow> duration" where
  "ApprovalAge e = (if ex_ApprovalTTL e = 0 then DefaultApprovalTTL else ex_ApprovalTTL e)"

definition Response_triggers :: "Response \<Rightarrow> string \<Rightarrow> bool" where
  "Response_triggers r st =
     (if re_States r = [] then st = ''DEGRADED'' \<or> st = ''UNAVAILABLE'' else st \<in> set (re_States r))"

section \<open>Validation\<close>

text \<open>\<open>utf8.RuneCountInString\<close>: a valid sequence counts once, a byte that does not start one
  counts by itself.\<close>

definition cont_byte :: "nat \<Rightarrow> bool" where
  "cont_byte n \<longleftrightarrow> 0x80 \<le> n \<and> n \<le> 0xBF"

definition second_ok :: "nat \<Rightarrow> nat \<Rightarrow> bool" where
  "second_ok b0 b1 =
     (if b0 = 0xE0 then 0xA0 \<le> b1 \<and> b1 \<le> 0xBF
      else if b0 = 0xED then 0x80 \<le> b1 \<and> b1 \<le> 0x9F
      else if b0 = 0xF0 then 0x90 \<le> b1 \<and> b1 \<le> 0xBF
      else if b0 = 0xF4 then 0x80 \<le> b1 \<and> b1 \<le> 0x8F
      else cont_byte b1)"

definition rune_size :: "nat list \<Rightarrow> nat" where
  "rune_size bs = (case bs of
       b0 # b1 # b2 # b3 # _ \<Rightarrow>
         if 0xC2 \<le> b0 \<and> b0 \<le> 0xDF \<and> cont_byte b1 then 2
         else if 0xE0 \<le> b0 \<and> b0 \<le> 0xEF \<and> second_ok b0 b1 \<and> cont_byte b2 then 3
         else if 0xF0 \<le> b0 \<and> b0 \<le> 0xF4 \<and> second_ok b0 b1 \<and> cont_byte b2 \<and> cont_byte b3 then 4
         else 1
     | [b0, b1, b2] \<Rightarrow>
         if 0xC2 \<le> b0 \<and> b0 \<le> 0xDF \<and> cont_byte b1 then 2
         else if 0xE0 \<le> b0 \<and> b0 \<le> 0xEF \<and> second_ok b0 b1 \<and> cont_byte b2 then 3
         else 1
     | [b0, b1] \<Rightarrow> if 0xC2 \<le> b0 \<and> b0 \<le> 0xDF \<and> cont_byte b1 then 2 else 1
     | _ \<Rightarrow> 1)"

lemma rune_size_pos: "0 < rune_size bs"
  by (simp add: rune_size_def split: list.splits)

function rune_count :: "nat list \<Rightarrow> nat" where
  "rune_count [] = 0"
| "rune_count (b # bs) = Suc (rune_count (drop (rune_size (b # bs)) (b # bs)))"
  by pat_completeness auto
termination rune_count
proof (relation "measure length")
  fix b :: nat and bs
  show "(drop (rune_size (b # bs)) (b # bs), b # bs) \<in> measure length"
    using rune_size_pos [of "b # bs"] by (simp only: in_measure length_drop) simp
qed simp

definition RuneCountInString :: "string \<Rightarrow> nat" where
  "RuneCountInString s = rune_count (map of_char s)"

text \<open>The regular expression \<open>nameRE\<close>: lower-case letters and digits, with dots and hyphens
  inside.\<close>

definition name_edge :: "char \<Rightarrow> bool" where
  "name_edge c \<longleftrightarrow> (let n = of_char c :: nat in 97 \<le> n \<and> n \<le> 122 \<or> 48 \<le> n \<and> n \<le> 57)"

definition nameRE :: "string \<Rightarrow> bool" where
  "nameRE s \<longleftrightarrow> s \<noteq> [] \<and> name_edge (hd s) \<and> name_edge (last s) \<and>
     (\<forall>c \<in> set s. name_edge c \<or> c = CHR ''-'' \<or> c = CHR ''.'')"

definition known_risks :: "string list" where
  "known_risks = [''data-loss'', ''service-interruption'', ''security-scope-expansion'']"

definition known_states :: "string list" where
  "known_states = [''DEGRADED'', ''UNAVAILABLE'', ''UNKNOWN'']"

text \<open>An error is its text; \<open>None\<close> is success. The first failing check decides, as in the code.\<close>

fun first_error :: "(bool \<times> string) list \<Rightarrow> string option" where
  "first_error [] = None"
| "first_error ((b, e) # cs) = (if b then Some e else first_error cs)"

definition checkField :: "string \<Rightarrow> string \<Rightarrow> nat \<Rightarrow> bool \<times> string" where
  "checkField field v mx = (let n = RuneCountInString v in
     (n < 1 \<or> mx < n, ''capability '' @ field @ '' must be 1-'' @ show_nat mx @ '' characters, got '' @ show_nat n))"

definition checkType :: "CapabilityType \<Rightarrow> string option" where
  "checkType c = first_error [checkField ''domain'' (ct_Domain c) 253, checkField ''name'' (ct_Name c) 63,
     checkField ''revision'' (ct_Revision c) 63]"

fun check_types :: "(nat \<Rightarrow> string) \<Rightarrow> nat \<Rightarrow> CapabilityType list \<Rightarrow> string option" where
  "check_types pre i [] = None"
| "check_types pre i (c # cs) = (case checkType c of
       Some err \<Rightarrow> Some (pre i @ err)
     | None \<Rightarrow> check_types pre (Suc i) cs)"

fun check_approvers :: "string set \<Rightarrow> string list \<Rightarrow> string option" where
  "check_approvers seen [] = None"
| "check_approvers seen (a # as) =
     (if a = '''' \<or> 128 < length a \<or> a \<in> seen
      then Some (''approver '' @ go_quote a @ '' invalid or repeated'')
      else check_approvers (insert a seen) as)"

definition orElse :: "'a option \<Rightarrow> 'a option \<Rightarrow> 'a option" where
  "orElse a b = (case a of Some x \<Rightarrow> Some x | None \<Rightarrow> b)"

definition duration_bad :: "duration \<Rightarrow> bool" where
  "duration_bad d \<longleftrightarrow> d \<le> 0 \<or> maxExecDuration < d"

definition Execution_validate :: "Execution \<Rightarrow> Response \<Rightarrow> string option" where
  "Execution_validate e r =
     orElse (first_error
       [(\<not> nameRE (ex_Provider e) \<or> 63 < length (ex_Provider e), ''provider '' @ go_quote (ex_Provider e) @ '' invalid''),
        (8 < length (ex_Approvers e), ''too many approvers''),
        (ex_ExpectedImpact e = [] \<or> 8 < length (ex_ExpectedImpact e), ''expectedImpact needs 1-8 capabilities''),
        (8 < length (ex_MayInterrupt e), ''too many mayInterrupt capabilities''),
        (ex_MaxSends e < 0 \<or> 5 < ex_MaxSends e, ''maxSends must be 0-5''),
        (ex_MaxAttempts e < 0 \<or> 3 < ex_MaxAttempts e, ''maxAttempts must be 0-3''),
        (HumanDecisionReasons r \<noteq> [] \<and> ex_Approvers e = [],
         ''a response that needs a human decision must declare approvers''),
        (duration_bad (ex_AckTimeout e), ''ackTimeout must be within (0, 24h0m0s]''),
        (duration_bad (ex_CompletionTimeout e), ''completionTimeout must be within (0, 24h0m0s]''),
        (duration_bad (ex_RecoveryWindow e), ''recoveryWindow must be within (0, 24h0m0s]''),
        (ex_ApprovalTTL e < 0 \<or> maxExecDuration < ex_ApprovalTTL e, ''approvalTTL must be within [0, 24h0m0s]'')])
     (orElse (check_approvers {} (ex_Approvers e))
     (orElse (check_types (\<lambda>i. ''capability '' @ show_nat i @ '': '') 0 (ex_ExpectedImpact e @ ex_MayInterrupt e))
       (if re_For r \<in> set (ex_ExpectedImpact e) then None else Some ''expectedImpact must include for'')))"

definition Response_validate :: "Response \<Rightarrow> string option" where
  "Response_validate r =
     orElse (first_error
       [(\<not> nameRE (ar_Name (re_Action r)) \<or> 63 < length (ar_Name (re_Action r)),
         ''action name '' @ go_quote (ar_Name (re_Action r)) @ '' invalid''),
        (ar_Revision (re_Action r) = '''' \<or> 63 < length (ar_Revision (re_Action r)),
         ''action revision must be 1-63 characters''),
        (\<not> nameRE (tr_Namespace (re_Target r)) \<or> \<not> nameRE (tr_Name (re_Target r)),
         ''target needs a namespace and a name''),
        (128 < length (tr_UID (re_Target r)), ''target uid too long''),
        (checkType (re_For r) \<noteq> None, ''for: '' @ (case checkType (re_For r) of None \<Rightarrow> '''' | Some err \<Rightarrow> err)),
        (128 < length (re_Owner r), ''owner too long''),
        (4 < length (re_Risks r), ''too many risks''),
        (8 < length (re_Preconditions r), ''too many preconditions'')])
     (orElse (first_error (map (\<lambda>s. (s \<notin> set known_states,
          ''state '' @ go_quote s @ '' is not DEGRADED, UNAVAILABLE or UNKNOWN'')) (re_States r)))
     (orElse (first_error (map (\<lambda>k. (k \<notin> set known_risks, ''risk '' @ go_quote k @ '' unknown'')) (re_Risks r)))
     (orElse (check_types (\<lambda>i. ''precondition '' @ show_nat i @ '': '') 0 (re_Preconditions r))
       (case re_Execution r of
          None \<Rightarrow> None
        | Some e \<Rightarrow> map_option (\<lambda>err. ''execution: '' @ err) (Execution_validate e r)))))"

fun validate_responses :: "nat \<Rightarrow> Response list \<Rightarrow> string option" where
  "validate_responses i [] = None"
| "validate_responses i (r # rs) = (case Response_validate r of
       Some err \<Rightarrow> Some (''interaction profile: response '' @ show_nat i @ '': '' @ err)
     | None \<Rightarrow> validate_responses (Suc i) rs)"

definition Profile_Validate :: "Profile \<Rightarrow> string option" where
  "Profile_Validate p =
     (if pf_Revision p = '''' \<or> 63 < length (pf_Revision p)
      then Some ''interaction profile: revision must be 1-63 characters''
      else if 128 < length (pf_Responses p)
      then Some (''interaction profile: '' @ show_nat (length (pf_Responses p)) @ '' responses, at most 128'')
      else validate_responses 0 (pf_Responses p))"

section \<open>What a validated profile guarantees\<close>

lemma orElse_None [simp]: "orElse a b = None \<longleftrightarrow> a = None \<and> b = None"
  by (cases a) (simp_all add: orElse_def)

lemma first_error_None: "first_error cs = None \<longleftrightarrow> (\<forall>c \<in> set cs. \<not> fst c)"
  by (induction cs rule: first_error.induct) auto

lemma check_types_None: "check_types pre i cs = None \<longleftrightarrow> (\<forall>c \<in> set cs. checkType c = None)"
  by (induction pre i cs rule: check_types.induct) (auto split: option.splits)

lemma check_approvers_None:
  "check_approvers seen as = None \<longleftrightarrow>
     distinct as \<and> seen \<inter> set as = {} \<and> (\<forall>a \<in> set as. a \<noteq> '''' \<and> length a \<le> 128)"
  by (induction seen as rule: check_approvers.induct) auto

lemma validate_responses_None: "validate_responses i rs = None \<longleftrightarrow> (\<forall>r \<in> set rs. Response_validate r = None)"
  by (induction i rs rule: validate_responses.induct) (auto split: option.splits)

definition execution_wf :: "Execution \<Rightarrow> Response \<Rightarrow> bool" where
  "execution_wf e r \<longleftrightarrow>
     nameRE (ex_Provider e) \<and> length (ex_Provider e) \<le> 63 \<and>
     length (ex_Approvers e) \<le> 8 \<and> distinct (ex_Approvers e) \<and>
     (\<forall>a \<in> set (ex_Approvers e). a \<noteq> '''' \<and> length a \<le> 128) \<and>
     (HumanDecisionReasons r = [] \<or> ex_Approvers e \<noteq> []) \<and>
     re_For r \<in> set (ex_ExpectedImpact e) \<and> length (ex_ExpectedImpact e) \<le> 8 \<and> length (ex_MayInterrupt e) \<le> 8 \<and>
     (\<forall>c \<in> set (ex_ExpectedImpact e) \<union> set (ex_MayInterrupt e). checkType c = None) \<and>
     1 \<le> SendBudget e \<and> SendBudget e \<le> 5 \<and> 1 \<le> AttemptBudget e \<and> AttemptBudget e \<le> 3 \<and>
     0 < ex_AckTimeout e \<and> ex_AckTimeout e \<le> maxExecDuration \<and>
     0 < ex_CompletionTimeout e \<and> ex_CompletionTimeout e \<le> maxExecDuration \<and>
     0 < ex_RecoveryWindow e \<and> ex_RecoveryWindow e \<le> maxExecDuration \<and>
     0 < ApprovalAge e \<and> ApprovalAge e \<le> maxExecDuration"

lemma budgets_iff:
  "1 \<le> SendBudget e \<and> SendBudget e \<le> 5 \<longleftrightarrow> 0 \<le> ex_MaxSends e \<and> ex_MaxSends e \<le> 5"
  "1 \<le> AttemptBudget e \<and> AttemptBudget e \<le> 3 \<longleftrightarrow> 0 \<le> ex_MaxAttempts e \<and> ex_MaxAttempts e \<le> 3"
  "0 < ApprovalAge e \<and> ApprovalAge e \<le> maxExecDuration \<longleftrightarrow> 0 \<le> ex_ApprovalTTL e \<and> ex_ApprovalTTL e \<le> maxExecDuration"
  by (auto simp: SendBudget_def AttemptBudget_def ApprovalAge_def DefaultMaxSends_def DefaultMaxAttempts_def
      DefaultApprovalTTL_def maxExecDuration_def time_Hour_def)

lemma Execution_validate_iff: "Execution_validate e r = None \<longleftrightarrow> execution_wf e r"
proof -
  have "Execution_validate e r = None \<longleftrightarrow>
      (nameRE (ex_Provider e) \<and> length (ex_Provider e) \<le> 63) \<and> length (ex_Approvers e) \<le> 8 \<and>
      (ex_ExpectedImpact e \<noteq> [] \<and> length (ex_ExpectedImpact e) \<le> 8) \<and> length (ex_MayInterrupt e) \<le> 8 \<and>
      (0 \<le> ex_MaxSends e \<and> ex_MaxSends e \<le> 5) \<and> (0 \<le> ex_MaxAttempts e \<and> ex_MaxAttempts e \<le> 3) \<and>
      (HumanDecisionReasons r = [] \<or> ex_Approvers e \<noteq> []) \<and>
      (0 < ex_AckTimeout e \<and> ex_AckTimeout e \<le> maxExecDuration) \<and>
      (0 < ex_CompletionTimeout e \<and> ex_CompletionTimeout e \<le> maxExecDuration) \<and>
      (0 < ex_RecoveryWindow e \<and> ex_RecoveryWindow e \<le> maxExecDuration) \<and>
      (0 \<le> ex_ApprovalTTL e \<and> ex_ApprovalTTL e \<le> maxExecDuration) \<and>
      (distinct (ex_Approvers e) \<and> (\<forall>a \<in> set (ex_Approvers e). a \<noteq> '''' \<and> length a \<le> 128)) \<and>
      (\<forall>c \<in> set (ex_ExpectedImpact e) \<union> set (ex_MayInterrupt e). checkType c = None) \<and>
      re_For r \<in> set (ex_ExpectedImpact e)"
    unfolding Execution_validate_def orElse_None first_error_None check_approvers_None check_types_None
    by (simp add: duration_bad_def not_less not_le)
  then show ?thesis unfolding execution_wf_def budgets_iff [symmetric] by (auto simp del: One_nat_def)
qed

lemma Profile_Validate_execution:
  assumes "Profile_Validate p = None" and "r \<in> set (pf_Responses p)" and "re_Execution r = Some e"
  shows "execution_wf e r"
proof -
  have "Response_validate r = None"
    using assms(1,2) by (simp add: Profile_Validate_def validate_responses_None split: if_splits)
  with assms(3) have "Execution_validate e r = None" by (simp add: Response_validate_def)
  then show ?thesis by (simp add: Execution_validate_iff)
qed

text \<open>In a profile that passes validation, every execution contract is within its bounds:
  send and attempt budgets are between 1 and 5 and between 1 and 3, every timeout and the approval
  age are positive and at most a day, the addressed capability is among the expected ones, and a
  response that needs a person names an approver.\<close>

theorem validated_execution_bounded:
  assumes "Profile_Validate p = None" and "r \<in> set (pf_Responses p)" and "re_Execution r = Some e"
  shows "execution_wf e r"
  by (rule Profile_Validate_execution [OF assms])

definition demo_execution :: Execution where
  "demo_execution = \<lparr>ex_Provider = ''p'', ex_Approvers = [''ann''],
     ex_ExpectedImpact = [\<lparr>ct_Domain = ''d'', ct_Name = ''write'', ct_Revision = ''1''\<rparr>], ex_MayInterrupt = [],
     ex_AckTimeout = 30, ex_CompletionTimeout = 60, ex_RecoveryWindow = 60, ex_ApprovalTTL = 0,
     ex_MaxSends = 0, ex_MaxAttempts = 0, ex_Retryable = False\<rparr>"

definition demo_response :: Response where
  "demo_response = \<lparr>re_Action = \<lparr>ar_Name = ''restart'', ar_Revision = ''1''\<rparr>,
     re_Target = \<lparr>tr_Namespace = ''n'', tr_Name = ''t1'', tr_UID = ''''\<rparr>,
     re_For = \<lparr>ct_Domain = ''d'', ct_Name = ''write'', ct_Revision = ''1''\<rparr>, re_States = [], re_Owner = ''ops'',
     re_RequiresApproval = True, re_Risks = [], re_Preconditions = [], re_Execution = Some demo_execution\<rparr>"

theorem validated_execution_bounded_witness:
  "execution_wf demo_execution demo_response \<and> SendBudget demo_execution = 3"
proof
  show "SendBudget demo_execution = 3" by code_simp
  have "Profile_Validate \<lparr>pf_Revision = ''1'', pf_Responses = [demo_response]\<rparr> = None" by code_simp
  from validated_execution_bounded [OF this] show "execution_wf demo_execution demo_response"
    by (simp add: demo_response_def)
qed

end
