(* ===== verification/Action_Types.thy ===== *)
theory Action_Types
  imports Interaction_Profile Ops_Result "HOL-Library.Word"
begin

text \<open>
  The data of package \<open>action\<close>: phases and records (\<open>types.go\<close>), decisions
  (\<open>approval.go\<close>), handoffs, receipts and results (\<open>provider.go\<close>). Fences, epochs and
  versions are 64-bit words; instants and durations are as in \<open>Go_Prelude\<close>. The \<open>copy\<close> and
  \<open>clone\<close> functions of the code only unshare memory and are the identity on values.
\<close>

section \<open>Phases\<close>

datatype Phase =
    PhaseNone | PhaseBlocked | PhaseAwaitingApproval | PhaseRejected | PhaseDispatching | PhaseAccepted
  | PhaseSucceeded | PhaseFailed | PhaseTimedOut | PhaseWithdrawn

definition inFlight :: "Phase \<Rightarrow> bool" where
  "inFlight p \<longleftrightarrow> p = PhaseDispatching \<or> p = PhaseAccepted"

definition occupies :: "Phase \<Rightarrow> bool" where
  "occupies p \<longleftrightarrow> p = PhaseDispatching \<or> p = PhaseAccepted \<or> p = PhaseTimedOut \<or> p = PhaseWithdrawn"

datatype Recovery =
    RecoveryNone | RecoveryPending | RecoveryRecovered | RecoveryPartial | RecoveryNotRecovered
  | RecoveryUnconfirmed | RecoveryInapplicable

definition Recovery_final :: "Recovery \<Rightarrow> bool" where
  "Recovery_final r \<longleftrightarrow> r \<noteq> RecoveryNone \<and> r \<noteq> RecoveryPending"

section \<open>Reasons of proposal views\<close>

datatype ViewCode =
    VOwnerUndeclared | VProviderUnregistered | VAuthorityInsufficient | VPreconditionUnproven
  | VPreconditionUnmet | VJournalNotDurable | VTargetBusy | VAttemptsExhausted | VExecutedNotRecovered
  | VOutcomeUnknown | VIdentityChanged | VJournalWriteFailed | VNoApprover
  | VDeclared string
  | VOwnerConflict
  | VApprovalUnverified | VApproverNotAllowed | VApprovalDigestMismatch | VApprovalExpired | VApprovalFuture

text \<open>The codes as strings; \<open>VDeclared\<close> carries a declared or derived human-decision reason.\<close>

fun ViewCode_str :: "ViewCode \<Rightarrow> string" where
  "ViewCode_str VOwnerUndeclared = ''owner-undeclared''"
| "ViewCode_str VProviderUnregistered = ''provider-unregistered''"
| "ViewCode_str VAuthorityInsufficient = ''authority-insufficient''"
| "ViewCode_str VPreconditionUnproven = ''precondition-unproven''"
| "ViewCode_str VPreconditionUnmet = ''precondition-unmet''"
| "ViewCode_str VJournalNotDurable = ''journal-not-durable''"
| "ViewCode_str VTargetBusy = ''target-busy''"
| "ViewCode_str VAttemptsExhausted = ''attempts-exhausted''"
| "ViewCode_str VExecutedNotRecovered = ''executed-not-recovered''"
| "ViewCode_str VOutcomeUnknown = ''outcome-unknown''"
| "ViewCode_str VIdentityChanged = ''identity-changed''"
| "ViewCode_str VJournalWriteFailed = ''journal-write-failed''"
| "ViewCode_str VNoApprover = ''no-approver''"
| "ViewCode_str (VDeclared s) = s"
| "ViewCode_str VOwnerConflict = ''owner-conflict''"
| "ViewCode_str VApprovalUnverified = ''approval-unverified''"
| "ViewCode_str VApproverNotAllowed = ''approver-not-allowed''"
| "ViewCode_str VApprovalDigestMismatch = ''approval-digest-mismatch''"
| "ViewCode_str VApprovalExpired = ''approval-expired''"
| "ViewCode_str VApprovalFuture = ''approval-future''"

definition ReasonNoPriorityAuthority :: string where
  "ReasonNoPriorityAuthority = ''no-priority-authority''"

record ViewReason =
  vr_Code :: ViewCode
  vr_Subject :: string

definition reason :: "ViewCode \<Rightarrow> string \<Rightarrow> ViewReason" where
  "reason c subject = \<lparr>vr_Code = c, vr_Subject = subject\<rparr>"

section \<open>Bindings, approvals and decisions\<close>

record Binding =
  bi_Target :: TargetIdentity
  bi_ResolvedUID :: string
  bi_Contract :: ContractIdentity
  bi_Providers :: "string list"
  bi_Dependencies :: "string list"

text \<open>\<open>Binding.equal\<close>, with its loops over the two lists.\<close>

definition Binding_equal :: "Binding \<Rightarrow> Binding \<Rightarrow> bool" where
  "Binding_equal b o' =
     (if bi_Target b \<noteq> bi_Target o' \<or> bi_ResolvedUID b \<noteq> bi_ResolvedUID o' \<or> bi_Contract b \<noteq> bi_Contract o' \<or>
         length (bi_Providers b) \<noteq> length (bi_Providers o') \<or>
         length (bi_Dependencies b) \<noteq> length (bi_Dependencies o') then False
      else list_all (\<lambda>(x, y). x = y) (zip (bi_Providers b) (bi_Providers o')) \<and>
           list_all (\<lambda>(x, y). x = y) (zip (bi_Dependencies b) (bi_Dependencies o')))"

lemma zip_all_eq: "length xs = length ys \<Longrightarrow> list_all (\<lambda>(x, y). x = y) (zip xs ys) \<longleftrightarrow> xs = ys"
  by (induction xs ys rule: list_induct2) simp_all

lemma Binding_equal_iff [simp]: "Binding_equal b o' \<longleftrightarrow> b = o'"
  by (cases b; cases o') (auto simp: Binding_equal_def zip_all_eq)

datatype ApprovalKind = KindNone | KindHuman | KindPolicy

record Approval =
  ap_Kind :: ApprovalKind
  ap_Principal :: string
  ap_DecisionID :: string

datatype Verdict = VerdictNone | Approve | Reject | VerdictOther string

record Decision =
  de_ID :: string
  de_ProposalID :: string
  de_Digest :: string
  de_Principal :: string
  de_Verdict :: Verdict
  de_DecidedAt :: instant
  de_Proof :: "nat list"

definition Decision_zero :: Decision where
  "Decision_zero = \<lparr>de_ID = '''', de_ProposalID = '''', de_Digest = '''', de_Principal = '''',
     de_Verdict = VerdictNone, de_DecidedAt = 0, de_Proof = []\<rparr>"

definition Decision_same :: "Decision \<Rightarrow> Decision \<Rightarrow> bool" where
  "Decision_same d o' \<longleftrightarrow> de_ID d = de_ID o' \<and> de_ProposalID d = de_ProposalID o' \<and> de_Digest d = de_Digest o' \<and>
     de_Principal d = de_Principal o' \<and> de_Verdict d = de_Verdict o' \<and> de_DecidedAt d = de_DecidedAt o' \<and>
     de_Proof d = de_Proof o'"

lemma Decision_same_iff [simp]: "Decision_same d o' \<longleftrightarrow> d = o'"
  by (cases d; cases o') (auto simp: Decision_same_def)

section \<open>Records\<close>

record CapRecovery =
  crec_Type :: CapabilityType
  crec_State :: CapabilityState

record Record =
  rc_Key :: string
  rc_ProposalID :: string
  rc_Subject :: string
  rc_TargetUID :: string
  rc_Digest :: string
  rc_Attempt :: int
  rc_Phase :: Phase
  rc_Fence :: "64 word"
  rc_SentFence :: "64 word"
  rc_Sends :: int
  rc_Approval :: Approval
  rc_Decision :: Decision
  rc_Refused :: bool
  rc_Binding :: Binding
  rc_Action :: ActionRef
  rc_Provider :: string
  rc_Owner :: string
  rc_For :: CapabilityType
  rc_Expected :: "CapabilityType list"
  rc_Execution :: Execution
  rc_CreatedAt :: instant
  rc_LastSentAt :: instant
  rc_AckedAt :: instant
  rc_CompletedAt :: instant
  rc_EndedAt :: instant
  rc_ProviderRef :: string
  rc_AckTimeout :: duration
  rc_CompletionTimeout :: duration
  rc_RecoveryWindow :: duration
  rc_Retryable :: bool
  rc_MaxAttempts :: int
  rc_MaxSends :: int
  rc_Recovery :: Recovery
  rc_RecoveryDetail :: "CapRecovery list"
  rc_Version :: "64 word"

record View =
  vw_ProposalID :: string
  vw_Digest :: string
  vw_Action :: ActionRef
  vw_For :: CapabilityType
  vw_Phase :: Phase
  vw_Attempt :: int
  vw_Reasons :: "ViewReason list"
  vw_Recovery :: Recovery
  vw_Detail :: "CapRecovery list"

section \<open>Handoffs, receipts and results\<close>

record Handoff =
  h_Key :: string
  h_Fence :: "64 word"
  h_ProposalID :: string
  h_Digest :: string
  h_Action :: ActionRef
  h_Owner :: string
  h_Target :: TargetIdentity
  h_ResolvedUID :: string
  h_Contract :: ContractIdentity
  h_For :: CapabilityType
  h_ExpectedImpact :: "CapabilityType list"
  h_Approval :: Approval

record Receipt =
  rp_Key :: string
  rp_Fence :: "64 word"
  rp_Digest :: string
  rp_Accepted :: bool
  rp_Ref :: string

datatype ResultState = ResultUnknown | ResultPending | ResultSucceeded | ResultFailed | ResultRefused | ResultOther string

record Result =
  rt_Key :: string
  rt_Fence :: "64 word"
  rt_Digest :: string
  rt_State :: ResultState
  rt_Ref :: string

text \<open>A registration without its connection to the provider, which is reached by name.\<close>

record Registration =
  rg_Owner :: string
  rg_Namespaces :: "string list"
  rg_Actions :: "string list"

definition authorises :: "Registration \<Rightarrow> string \<Rightarrow> string \<Rightarrow> ActionRef \<Rightarrow> bool" where
  "authorises r owner namespace a =
     (if rg_Owner r = '''' \<or> rg_Owner r \<noteq> owner then False
      else namespace \<in> set (rg_Namespaces r) \<and> ActionRef_String a \<in> set (rg_Actions r))"

end
