(* ===== verification/Action_Journal.thy ===== *)
theory Action_Journal
  imports Action_Types "HOL-Library.AList"
begin

text \<open>
  The durable execution log (\<open>journal.go\<close>): the interface as a record of operations with the laws
  its documentation promises as a locale, and the in-memory journal, which satisfies them.
\<close>

section \<open>The interface\<close>

datatype PutError = ErrConflict | ErrFenced

text \<open>The methods of \<open>Journal\<close> on a store of type \<open>'j\<close>; \<open>None\<close> is an error of \<open>Epoch\<close> or
  \<open>List\<close>.\<close>

record 'j journal_ops =
  j_Durable :: "'j \<Rightarrow> bool"
  j_Epoch :: "'j \<Rightarrow> 64 word option \<times> 'j"
  j_List :: "'j \<Rightarrow> Record list option"
  j_Put :: "Record \<Rightarrow> 'j \<Rightarrow> (PutError + Record) \<times> 'j"

text \<open>\<open>inv\<close> is the store's own invariant, \<open>recs\<close> what it holds by key and \<open>newest\<close> the newest
  epoch it has issued.\<close>

locale journal =
  fixes J :: "'j journal_ops" and inv :: "'j \<Rightarrow> bool"
    and recs :: "'j \<Rightarrow> string \<Rightarrow> Record option" and newest :: "'j \<Rightarrow> 64 word"
  assumes put_fenced: "rc_Fence r < newest j \<Longrightarrow> j_Put J r j = (Inl ErrFenced, j)"
    and put_refused: "j_Put J r j = (Inl err, j') \<Longrightarrow> j' = j"
    and put_stored: "j_Put J r j = (Inr r', j') \<Longrightarrow>
      r' = r\<lparr>rc_Version := rc_Version r + 1\<rparr> \<and> recs j' = (recs j)(rc_Key r \<mapsto> r') \<and> newest j' = newest j \<and>
      j_Durable J j' = j_Durable J j \<and>
      (case recs j (rc_Key r) of None \<Rightarrow> rc_Version r = 0 | Some c \<Rightarrow> rc_Version c = rc_Version r)"
    and put_inv: "inv j \<Longrightarrow> j_Put J r j = (x, j') \<Longrightarrow> inv j'"
    and put_succeeds: "newest j \<le> rc_Fence r \<Longrightarrow>
      (case recs j (rc_Key r) of None \<Rightarrow> rc_Version r = 0 | Some c \<Rightarrow> rc_Version c = rc_Version r) \<Longrightarrow>
      \<exists>r' j'. j_Put J r j = (Inr r', j')"
    and list_recs: "inv j \<Longrightarrow> j_List J j = Some l \<Longrightarrow> recs j k = Some r \<longleftrightarrow> r \<in> set l \<and> rc_Key r = k"
    and list_distinct: "inv j \<Longrightarrow> j_List J j = Some l \<Longrightarrow> distinct (map rc_Key l)"
    and epoch_newest: "j_Epoch J j = (Some ep, j') \<Longrightarrow> newest j' = ep"
    and epoch_recs: "j_Epoch J j = (y, j') \<Longrightarrow> recs j' = recs j \<and> j_Durable J j' = j_Durable J j"
    and epoch_inv: "inv j \<Longrightarrow> j_Epoch J j = (y, j') \<Longrightarrow> inv j'"
    and epoch_greater: "j_Epoch J j = (Some ep, j') \<Longrightarrow> newest j \<noteq> - 1 \<Longrightarrow> newest j < ep"
begin

lemma put_cases:
  obtains (fail) err where "j_Put J r j = (Inl err, j)"
    | (ok) r' j' where "j_Put J r j = (Inr r', j')" "r' = r\<lparr>rc_Version := rc_Version r + 1\<rparr>"
        "recs j' = (recs j)(rc_Key r \<mapsto> r')" "newest j' = newest j" "j_Durable J j' = j_Durable J j"
        "newest j \<le> rc_Fence r"
proof -
  obtain x j' where x: "j_Put J r j = (x, j')" by fastforce
  show ?thesis
  proof (cases x)
    case (Inl err)
    with x put_refused fail show ?thesis by metis
  next
    case (Inr r')
    with x put_stored [of r j r' j'] put_fenced [of r j] ok show ?thesis by (metis Inl_Inr_False fst_conv leI)
  qed
qed

text \<open>A stored record is listed, and a record whose version was read before another write of the
  same key is refused: no update is lost.\<close>

lemma put_listed:
  "inv j \<Longrightarrow> j_Put J r j = (Inr r', j') \<Longrightarrow> j_List J j' = Some l \<Longrightarrow> r' \<in> set l"
  using list_recs [of j' l "rc_Key r" r'] put_stored [of r j r' j'] put_inv [of j r "Inr r'" j'] by simp

lemma put_stale_refused:
  assumes "j_Put J r j = (Inr r', j')" and "rc_Key s = rc_Key r" and "rc_Version s = rc_Version r"
  shows "\<exists>err. j_Put J s j' = (Inl err, j')"
proof (cases rule: put_cases [of s j'])
  case (fail err)
  then show ?thesis by blast
next
  case (ok s' j'')
  have "recs j' (rc_Key s) = Some (r\<lparr>rc_Version := rc_Version r + 1\<rparr>)"
    using put_stored [OF assms(1)] assms(2) by simp
  with put_stored [OF ok(1)] assms(3) show ?thesis by simp
qed

text \<open>Once a newer epoch is issued, a writer with an older fence changes nothing.\<close>

lemma fenced_writer:
  assumes "j_Epoch J j = (Some ep, j')" and "rc_Fence r < ep"
  shows "j_Put J r j' = (Inl ErrFenced, j')"
  using epoch_newest [OF assms(1)] assms(2) by (intro put_fenced) simp

end

section \<open>The in-memory journal\<close>

record MemJournal =
  mj_durable :: bool
  mj_epoch :: "64 word"
  mj_recs :: "(string \<times> Record) list"

definition NewMemJournal :: MemJournal where
  "NewMemJournal = \<lparr>mj_durable = False, mj_epoch = 0, mj_recs = []\<rparr>"

definition NewSimulatedDurableJournal :: MemJournal where
  "NewSimulatedDurableJournal = \<lparr>mj_durable = True, mj_epoch = 0, mj_recs = []\<rparr>"

definition MemJournal_Epoch :: "MemJournal \<Rightarrow> 64 word option \<times> MemJournal" where
  "MemJournal_Epoch j = (let ep = mj_epoch j + 1 in (Some ep, j\<lparr>mj_epoch := ep\<rparr>))"

definition Record_key_less :: "Record \<Rightarrow> Record \<Rightarrow> bool" where
  "Record_key_less a b \<longleftrightarrow> rc_Key a < rc_Key b"

definition MemJournal_List :: "MemJournal \<Rightarrow> Record list option" where
  "MemJournal_List j = Some (sort_slice Record_key_less (map snd (mj_recs j)))"

definition MemJournal_Put :: "Record \<Rightarrow> MemJournal \<Rightarrow> (PutError + Record) \<times> MemJournal" where
  "MemJournal_Put r j =
     (if rc_Fence r < mj_epoch j then (Inl ErrFenced, j)
      else
        let conflict = (case map_of (mj_recs j) (rc_Key r) of
              None \<Rightarrow> rc_Version r \<noteq> 0
            | Some cur \<Rightarrow> rc_Version cur \<noteq> rc_Version r);
            r' = r\<lparr>rc_Version := rc_Version r + 1\<rparr>
        in if conflict then (Inl ErrConflict, j)
           else (Inr r', j\<lparr>mj_recs := AList.update (rc_Key r) r' (mj_recs j)\<rparr>))"

definition mem_ops :: "MemJournal journal_ops" where
  "mem_ops = \<lparr>j_Durable = mj_durable, j_Epoch = MemJournal_Epoch, j_List = MemJournal_List, j_Put = MemJournal_Put\<rparr>"

definition mem_inv :: "MemJournal \<Rightarrow> bool" where
  "mem_inv j \<longleftrightarrow> distinct (map fst (mj_recs j)) \<and> (\<forall>k r. (k, r) \<in> set (mj_recs j) \<longrightarrow> rc_Key r = k)"

definition mem_lookup :: "MemJournal \<Rightarrow> string \<Rightarrow> Record option" where
  "mem_lookup j = map_of (mj_recs j)"

lemma MemJournal_Put_stored:
  assumes "MemJournal_Put r j = (Inr r', j')"
  shows "r' = r\<lparr>rc_Version := rc_Version r + 1\<rparr>" "j' = j\<lparr>mj_recs := AList.update (rc_Key r) r' (mj_recs j)\<rparr>"
    and "\<not> rc_Fence r < mj_epoch j"
    and "case map_of (mj_recs j) (rc_Key r) of None \<Rightarrow> rc_Version r = 0 | Some c \<Rightarrow> rc_Version c = rc_Version r"
  using assms by (auto simp: MemJournal_Put_def Let_def split: if_splits option.splits)

lemma update_entry: "(k', v') \<in> set (AList.update k v al) \<Longrightarrow> (k', v') = (k, v) \<or> (k', v') \<in> set al"
  by (induction al) (auto split: if_splits)

lemma mem_inv_Put: "mem_inv j \<Longrightarrow> MemJournal_Put r j = (x, j') \<Longrightarrow> mem_inv j'"
proof (cases x)
  case (Inr r')
  assume inv: "mem_inv j" and put: "MemJournal_Put r j = (x, j')"
  note stored = MemJournal_Put_stored [OF put [unfolded Inr]]
  have "rc_Key r' = rc_Key r" by (simp add: stored(1))
  then show ?thesis
    using inv stored(2) update_entry unfolding mem_inv_def by (fastforce intro: distinct_update)
qed (auto simp: MemJournal_Put_def Let_def split: if_splits option.splits)

interpretation mem: journal mem_ops mem_inv mem_lookup mj_epoch
proof (unfold_locales, goal_cases)
  case (1 r j)
  then show ?case by (simp add: mem_ops_def MemJournal_Put_def)
next
  case (2 r j err j')
  then show ?case by (auto simp: mem_ops_def MemJournal_Put_def Let_def split: if_splits option.splits)
next
  case (3 r j r' j')
  then have "MemJournal_Put r j = (Inr r', j')" by (simp add: mem_ops_def)
  from MemJournal_Put_stored [OF this] show ?case by (simp add: mem_ops_def mem_lookup_def update_conv')
next
  case (4 j r x j')
  then show ?case using mem_inv_Put by (simp add: mem_ops_def)
next
  case (5 j r)
  then show ?case by (auto simp: mem_ops_def MemJournal_Put_def mem_lookup_def Let_def split: option.splits)
next
  case (6 j l k r)
  have "map_of (mj_recs j) k = Some r \<longleftrightarrow> (k, r) \<in> set (mj_recs j)"
    using 6(1) by (simp add: mem_inv_def)
  moreover have "r \<in> snd ` set (mj_recs j) \<and> rc_Key r = k \<longleftrightarrow> (k, r) \<in> set (mj_recs j)"
    using 6(1) unfolding mem_inv_def by force
  ultimately show ?case using 6(2) by (clarsimp simp: mem_ops_def MemJournal_List_def mem_lookup_def simp del: image_iff split_paired_Ex)
next
  case (7 j l)
  have "map rc_Key (map snd (mj_recs j)) = map fst (mj_recs j)" using 7(1) by (auto simp: mem_inv_def)
  then have "distinct (map rc_Key (map snd (mj_recs j)))" using 7(1) by (simp only: mem_inv_def)
  then have "distinct (map rc_Key (sort_slice Record_key_less (map snd (mj_recs j))))"
    by (metis mset_map mset_sort_slice mset_eq_imp_distinct_iff)
  with 7(2) show ?case by (simp add: mem_ops_def MemJournal_List_def)
next
  case (8 j ep j')
  then show ?case by (auto simp: mem_ops_def MemJournal_Epoch_def mem_lookup_def Let_def)
next
  case (9 j y j')
  then show ?case by (auto simp: mem_ops_def MemJournal_Epoch_def mem_lookup_def Let_def)
next
  case (10 j y j')
  then show ?case by (auto simp: mem_ops_def MemJournal_Epoch_def mem_inv_def Let_def)
next
  case (11 j ep j')
  then show ?case using inc_less_eq_triv_imp [of "mj_epoch j"]
    by (auto simp: mem_ops_def MemJournal_Epoch_def Let_def not_le [symmetric])
qed

end
