(* ===== verification/Action_Proposal.thy ===== *)
theory Action_Proposal
  imports Action_Types Ops_Properties Ops_Demo "HOL-Library.AList"
begin

text \<open>
  Proposals (\<open>proposal.go\<close>): the deterministic derivation of action proposals from a snapshot,
  its assessment and the declared profile, with the boundary at which a person must decide.
  The digest of a value (SHA-256 of its JSON encoding, in hexadecimal) is the parameter \<open>dg\<close>, a
  function of the encoded value; what rests on different values having different digests is
  stated with that hypothesis.
\<close>

section \<open>Data\<close>

record Proposal =
  pr_ID :: string
  pr_Digest :: string
  pr_Subject :: string
  pr_Episode :: int
  pr_Response :: Response
  pr_ProfileRevision :: string
  pr_Binding :: Binding
  pr_For :: CapabilityType
  pr_Expected :: "CapabilityType list"
  pr_Trigger :: CapabilityState
  pr_TriggerReasons :: "string list"
  pr_Preconditions :: "ViewReason list"
  pr_Human :: "string list"
  pr_OwnerConflict :: bool

record basis =
  b_ID :: string
  b_Trigger :: CapabilityState
  b_TriggerReasons :: "string list"
  b_Preconditions :: "ViewReason list"
  b_Binding :: Binding
  b_Human :: "string list"
  b_OwnerConflict :: bool
  b_Owner :: string
  b_Risks :: "string list"
  b_Execution :: Execution
  b_ProfileRevision :: string

record subject =
  sj_Target :: TargetIdentity
  sj_ResolvedUID :: string
  sj_Contract :: ContractIdentity
  sj_Providers :: "string list"
  sj_Dependencies :: "string list"
  sj_Action :: ActionRef
  sj_For :: CapabilityType
  sj_Profile :: string
  sj_Declaration :: string

record response =
  rk_Action :: ActionRef
  rk_For :: CapabilityType
  rk_Owner :: string
  rk_RequiresApproval :: bool
  rk_Risks :: "string list"
  rk_Preconditions :: "string list"

text \<open>The values whose digests are taken.\<close>

datatype digested =
    DResponse response
  | DDeclaration string "Execution option"
  | DSubject subject
  | DEpisode string int
  | DBasis basis
  | DDeclared Response

section \<open>Identities\<close>

definition sortedCopy :: "string list \<Rightarrow> string list" where
  "sortedCopy xs = sort_Strings xs"

definition responseKey :: "(digested \<Rightarrow> string) \<Rightarrow> Response \<Rightarrow> string" where
  "responseKey dg r = dg (DResponse
     \<lparr>rk_Action = re_Action r, rk_For = re_For r, rk_Owner = re_Owner r, rk_RequiresApproval = re_RequiresApproval r,
      rk_Risks = sortedCopy (re_Risks r),
      rk_Preconditions = sort_Strings (map CapabilityType_String (re_Preconditions r))\<rparr>)"

definition declarationKey :: "(digested \<Rightarrow> string) \<Rightarrow> Response \<Rightarrow> string" where
  "declarationKey dg r = dg (DDeclaration (responseKey dg r) (re_Execution r))"

definition bindingOf :: "Target \<Rightarrow> Binding" where
  "bindingOf t =
     \<lparr>bi_Target = t_Identity t, bi_ResolvedUID = t_ResolvedUID t, bi_Contract = t_ContractRef t,
      bi_Providers = sort_Strings (map (\<lambda>ab. ab_Slot ab @ ''='' @ ProviderIdentity_String (ab_Provider ab))
        (t_AssertionBindings t)),
      bi_Dependencies = sort_Strings (map (\<lambda>db. db_Slot db @ ''='' @ db_TargetUID db @ ''/'' @
        ContractIdentity_String (db_Contract db)) (t_DependencyBindings t))\<rparr>"

definition targetOf :: "Snapshot \<Rightarrow> string \<Rightarrow> Target option" where
  "targetOf s uid = List.find (\<lambda>t. ti_UID (t_Identity t) = uid) (s_Targets s)"

definition capState :: "TargetAssessment \<Rightarrow> CapabilityType \<Rightarrow> CapabilityResult option" where
  "capState ta c = List.find (\<lambda>r. cr_Type r = c) (ta_Capabilities ta)"

definition subjectKey :: "(digested \<Rightarrow> string) \<Rightarrow> Target \<Rightarrow> Response \<Rightarrow> string \<Rightarrow> string" where
  "subjectKey dg t r profile =
     (let b = bindingOf t in
      dg (DSubject \<lparr>sj_Target = t_Identity t, sj_ResolvedUID = t_ResolvedUID t, sj_Contract = t_ContractRef t,
        sj_Providers = bi_Providers b, sj_Dependencies = bi_Dependencies b, sj_Action = re_Action r,
        sj_For = re_For r, sj_Profile = profile, sj_Declaration = declarationKey dg r\<rparr>))"

section \<open>Derivation\<close>

definition applicable_response :: "TargetAssessment \<Rightarrow> Response \<Rightarrow> bool" where
  "applicable_response ta r \<longleftrightarrow>
     (\<forall>pc \<in> set (re_Preconditions r). case capState ta pc of
          None \<Rightarrow> True
        | Some res \<Rightarrow> \<not> (cr_State res = Degraded \<or> cr_State res = Unavailable))"

definition triggers :: "Response \<Rightarrow> CapabilityState \<Rightarrow> bool" where
  "triggers r s = (if re_States r = [] then s = Degraded \<or> s = Unavailable
     else CapabilityState_str s \<in> set (re_States r))"

text \<open>The proof state of a precondition.\<close>

definition precondition_code :: "TargetAssessment \<Rightarrow> CapabilityType \<Rightarrow> string" where
  "precondition_code ta pc = (case capState ta pc of
       None \<Rightarrow> ''unproven''
     | Some res \<Rightarrow> (case cr_State res of
           Available \<Rightarrow> ''proven''
         | Degraded \<Rightarrow> ''unmet''
         | Unavailable \<Rightarrow> ''unmet''
         | Unknown \<Rightarrow> ''unproven''))"

definition ViewReason_less :: "ViewReason \<Rightarrow> ViewReason \<Rightarrow> bool" where
  "ViewReason_less a b \<longleftrightarrow> vr_Subject a < vr_Subject b"

text \<open>\<open>ex\<close> is the response's execution block, which every caller has checked to be present.\<close>

definition proposalOf :: "(digested \<Rightarrow> string) \<Rightarrow> Target \<Rightarrow> TargetAssessment \<Rightarrow> Response \<Rightarrow> Execution \<Rightarrow> string \<Rightarrow>
    CapabilityResult \<Rightarrow> (string \<Rightarrow> int) \<Rightarrow> bool \<Rightarrow> bool \<Rightarrow> Proposal" where
  "proposalOf dg t ta r ex profile c episodes competing ownerConflict =
     (let key = subjectKey dg t r profile;
          ep = episodes key;
          human = HumanDecisionReasons r @ (if competing then [ReasonNoPriorityAuthority] else []);
          ident = take 32 (dg (DEpisode key ep));
          trs = sort_Strings (map (\<lambda>rs. ReasonCode_str (rs_Code rs) @ '':'' @ rs_Subject rs) (cr_Reasons c));
          pcs = sort_slice ViewReason_less
            (map (\<lambda>pc. reason (VDeclared (precondition_code ta pc)) (CapabilityType_String pc)) (re_Preconditions r));
          digest = dg (DBasis \<lparr>b_ID = ident, b_Trigger = cr_State c, b_TriggerReasons = trs, b_Preconditions = pcs,
            b_Binding = bindingOf t, b_Human = human, b_OwnerConflict = ownerConflict, b_Owner = re_Owner r,
            b_Risks = sortedCopy (re_Risks r), b_Execution = ex, b_ProfileRevision = profile\<rparr>)
      in \<lparr>pr_ID = ident, pr_Digest = digest, pr_Subject = key, pr_Episode = ep, pr_Response = r,
          pr_ProfileRevision = profile, pr_Binding = bindingOf t, pr_For = cr_Type c, pr_Expected = ex_ExpectedImpact ex,
          pr_Trigger = cr_State c, pr_TriggerReasons = trs, pr_Preconditions = pcs, pr_Human = human,
          pr_OwnerConflict = ownerConflict\<rparr>)"

text \<open>The declared responses of a target whose capability is in a triggering state: the guard of
  both loops over the profile.\<close>

definition addresses :: "Target \<Rightarrow> Response \<Rightarrow> bool" where
  "addresses t r \<longleftrightarrow> \<not> (tr_Namespace (re_Target r) \<noteq> ti_Namespace (t_Identity t) \<or>
     tr_Name (re_Target r) \<noteq> ti_Name (t_Identity t) \<or>
     (tr_UID (re_Target r) \<noteq> '''' \<and> tr_UID (re_Target r) \<noteq> ti_UID (t_Identity t)))"

definition triggered :: "TargetAssessment \<Rightarrow> Response \<Rightarrow> bool" where
  "triggered ta r = (case capState ta (re_For r) of None \<Rightarrow> False | Some c \<Rightarrow> triggers r (cr_State c))"

text \<open>The maps of sets the first loop fills, each a list of distinct pairs.\<close>

record tally =
  tl_viable :: "(CapabilityType \<times> string) list"
  tl_contracts :: "(string \<times> string) list"
  tl_owners :: "(string \<times> string) list"

definition ownerKey :: "Response \<Rightarrow> string" where
  "ownerKey r = CapabilityType_String (re_For r) @ ''|'' @ ActionRef_String (re_Action r)"

definition tally_response :: "(digested \<Rightarrow> string) \<Rightarrow> Target \<Rightarrow> TargetAssessment \<Rightarrow> Response \<Rightarrow> tally \<Rightarrow> tally" where
  "tally_response dg t ta r m =
     (if \<not> addresses t r then m
      else if \<not> triggered ta r then m
      else
        let m = m\<lparr>tl_owners := List.insert (ownerKey r, re_Owner r) (tl_owners m)\<rparr> in
        if \<not> applicable_response ta r then m
        else
          let rk = responseKey dg r;
              m = m\<lparr>tl_viable := List.insert (re_For r, rk) (tl_viable m)\<rparr>
          in if re_Execution r \<noteq> None
             then m\<lparr>tl_contracts := List.insert (rk, declarationKey dg r) (tl_contracts m)\<rparr>
             else m)"

definition tally_all :: "(digested \<Rightarrow> string) \<Rightarrow> Target \<Rightarrow> TargetAssessment \<Rightarrow> Response list \<Rightarrow> tally" where
  "tally_all dg t ta rs =
     fold (tally_response dg t ta) rs \<lparr>tl_viable = [], tl_contracts = [], tl_owners = []\<rparr>"

definition entries :: "'k \<Rightarrow> ('k \<times> 'v) list \<Rightarrow> nat" where
  "entries k m = length (filter (\<lambda>e. fst e = k) m)"

text \<open>The second loop: one canonical declaration per declaration key.\<close>

definition declare_response :: "(digested \<Rightarrow> string) \<Rightarrow> Target \<Rightarrow> TargetAssessment \<Rightarrow> Response \<Rightarrow>
    (string \<times> Response \<times> Execution) list \<Rightarrow> (string \<times> Response \<times> Execution) list" where
  "declare_response dg t ta r decls =
     (case re_Execution r of
        None \<Rightarrow> decls
      | Some ex \<Rightarrow>
          if \<not> addresses t r then decls
          else if \<not> triggered ta r then decls
          else
            let dk = declarationKey dg r in
            case map_of decls dk of
              None \<Rightarrow> AList.update dk (r, ex) decls
            | Some cur \<Rightarrow>
                if dg (DDeclared r) < dg (DDeclared (fst cur)) then AList.update dk (r, ex) decls else decls)"

text \<open>The zero result \<open>capState\<close> returns beside \<open>false\<close>; never used, since every declaration kept has
  its capability.\<close>

definition propose :: "(digested \<Rightarrow> string) \<Rightarrow> Target \<Rightarrow> TargetAssessment \<Rightarrow> string \<Rightarrow> (string \<Rightarrow> int) \<Rightarrow> tally \<Rightarrow>
    Response \<times> Execution \<Rightarrow> Proposal option" where
  "propose dg t ta revision episodes m d =
     (case d of (r, ex) \<Rightarrow>
        map_option (\<lambda>c.
          let competing = (entries (re_For r) (tl_viable m) > 1 \<or> entries (responseKey dg r) (tl_contracts m) > 1)
          in proposalOf dg t ta r ex revision c episodes competing (entries (ownerKey r) (tl_owners m) > 1))
        (capState ta (re_For r)))"

definition derive_target :: "(digested \<Rightarrow> string) \<Rightarrow> Snapshot \<Rightarrow> Profile \<Rightarrow> (string \<Rightarrow> int) \<Rightarrow> TargetAssessment \<Rightarrow> Proposal list" where
  "derive_target dg s p episodes ta =
     (if \<not> ta_Valid ta then []
      else case targetOf s (ti_UID (ta_Target ta)) of
        None \<Rightarrow> []
      | Some t \<Rightarrow>
          let m = tally_all dg t ta (pf_Responses p);
              decls = fold (declare_response dg t ta) (pf_Responses p) []
          in List.map_filter (propose dg t ta (pf_Revision p) episodes m) (map snd decls))"

definition Proposal_less :: "Proposal \<Rightarrow> Proposal \<Rightarrow> bool" where
  "Proposal_less a b =
     (if ti_UID (bi_Target (pr_Binding a)) \<noteq> ti_UID (bi_Target (pr_Binding b))
      then ti_UID (bi_Target (pr_Binding a)) < ti_UID (bi_Target (pr_Binding b))
      else pr_ID a < pr_ID b)"

definition derive :: "(digested \<Rightarrow> string) \<Rightarrow> Snapshot \<Rightarrow> Assessment \<Rightarrow> Profile option \<Rightarrow> (string \<Rightarrow> int) \<Rightarrow> Proposal list" where
  "derive dg s a p episodes = (case p of
       None \<Rightarrow> []
     | Some p \<Rightarrow> sort_slice Proposal_less (concat (map (derive_target dg s p episodes) (a_Targets a))))"

section \<open>What the loops compute\<close>

text \<open>The candidates of a target: its triggered declarations, and those that count as applicable.\<close>

definition candidates_of :: "Target \<Rightarrow> TargetAssessment \<Rightarrow> Response list \<Rightarrow> Response set" where
  "candidates_of t ta rs = {r \<in> set rs. addresses t r \<and> triggered ta r}"

definition viable_of :: "Target \<Rightarrow> TargetAssessment \<Rightarrow> Response list \<Rightarrow> Response set" where
  "viable_of t ta rs = {r \<in> candidates_of t ta rs. applicable_response ta r}"

lemma tally_fold:
  fixes dg t ta
  defines "f \<equiv> tally_response dg t ta"
  shows "set (tl_owners (fold f rs m)) = set (tl_owners m) \<union> (\<lambda>r. (ownerKey r, re_Owner r)) ` candidates_of t ta rs"
    and "set (tl_viable (fold f rs m)) = set (tl_viable m) \<union> (\<lambda>r. (re_For r, responseKey dg r)) ` viable_of t ta rs"
    and "set (tl_contracts (fold f rs m)) = set (tl_contracts m) \<union>
      (\<lambda>r. (responseKey dg r, declarationKey dg r)) ` {r \<in> viable_of t ta rs. re_Execution r \<noteq> None}"
  unfolding f_def
  by (induction rs arbitrary: m)
     (auto simp: candidates_of_def viable_of_def tally_response_def Let_def split: if_splits)

lemma tally_distinct:
  "distinct (tl_viable m) \<Longrightarrow> distinct (tl_viable (fold (tally_response dg t ta) rs m))"
  "distinct (tl_contracts m) \<Longrightarrow> distinct (tl_contracts (fold (tally_response dg t ta) rs m))"
  "distinct (tl_owners m) \<Longrightarrow> distinct (tl_owners (fold (tally_response dg t ta) rs m))"
  by (induction rs arbitrary: m) (simp_all add: tally_response_def Let_def)

lemma entries_card: "distinct m \<Longrightarrow> entries k m = card (snd ` {e \<in> set m. fst e = k})"
proof -
  assume "distinct m"
  then have "entries k m = card {e \<in> set m. fst e = k}"
    unfolding entries_def by (metis distinct_card distinct_filter set_filter)
  also have "\<dots> = card (snd ` {e \<in> set m. fst e = k})"
    by (rule card_image [symmetric]) (auto intro!: inj_onI prod_eqI)
  finally show ?thesis .
qed

lemma entries_le_1_iff:
  assumes "distinct m"
  shows "\<not> 1 < entries k m \<longleftrightarrow> (\<forall>v v'. (k, v) \<in> set m \<longrightarrow> (k, v') \<in> set m \<longrightarrow> v = v')"
proof -
  let ?S = "snd ` {e \<in> set m. fst e = k}"
  have "\<not> 1 < entries k m \<longleftrightarrow> card ?S \<le> 1" by (simp add: entries_card [OF assms] not_less)
  also have "\<dots> \<longleftrightarrow> (\<forall>v \<in> ?S. \<forall>v' \<in> ?S. v = v')"
    using card_le_Suc0_iff_eq [of ?S] by simp
  finally show ?thesis by force
qed

lemma entries_image:
  assumes "distinct m" and "set m = (\<lambda>r. (f r, g r)) ` S"
  shows "\<not> 1 < entries k m \<longleftrightarrow> (\<forall>r \<in> S. \<forall>r' \<in> S. f r = k \<longrightarrow> f r' = k \<longrightarrow> g r = g r')"
proof -
  have mem: "(k, v) \<in> set m \<longleftrightarrow> (\<exists>r \<in> S. f r = k \<and> g r = v)" for v by (auto simp: assms(2))
  show ?thesis unfolding entries_le_1_iff [OF assms(1)] mem by (rule iffI) (fast, metis)
qed

lemma tally_counts:
  "\<not> 1 < entries c (tl_viable (tally_all dg t ta rs)) \<longleftrightarrow>
     (\<forall>r \<in> viable_of t ta rs. \<forall>r' \<in> viable_of t ta rs. re_For r = c \<longrightarrow> re_For r' = c \<longrightarrow> responseKey dg r = responseKey dg r')"
  "\<not> 1 < entries k (tl_contracts (tally_all dg t ta rs)) \<longleftrightarrow>
     (\<forall>r \<in> {r \<in> viable_of t ta rs. re_Execution r \<noteq> None}. \<forall>r' \<in> {r \<in> viable_of t ta rs. re_Execution r \<noteq> None}.
        responseKey dg r = k \<longrightarrow> responseKey dg r' = k \<longrightarrow> declarationKey dg r = declarationKey dg r')"
  "\<not> 1 < entries k (tl_owners (tally_all dg t ta rs)) \<longleftrightarrow>
     (\<forall>r \<in> candidates_of t ta rs. \<forall>r' \<in> candidates_of t ta rs. ownerKey r = k \<longrightarrow> ownerKey r' = k \<longrightarrow> re_Owner r = re_Owner r')"
  unfolding tally_all_def
  by (rule entries_image; simp add: tally_distinct tally_fold)+

lemma tally_all_cong:
  assumes "set rs = set rs'"
  shows "1 < entries c (tl_viable (tally_all dg t ta rs)) \<longleftrightarrow> 1 < entries c (tl_viable (tally_all dg t ta rs'))"
    and "1 < entries k (tl_contracts (tally_all dg t ta rs)) \<longleftrightarrow> 1 < entries k (tl_contracts (tally_all dg t ta rs'))"
    and "1 < entries k (tl_owners (tally_all dg t ta rs)) \<longleftrightarrow> 1 < entries k (tl_owners (tally_all dg t ta rs'))"
proof -
  have "candidates_of t ta rs = candidates_of t ta rs'" "viable_of t ta rs = viable_of t ta rs'"
    using assms by (simp_all add: candidates_of_def viable_of_def)
  then have "(\<not> 1 < entries c (tl_viable (tally_all dg t ta rs))) = (\<not> 1 < entries c (tl_viable (tally_all dg t ta rs')))"
    "(\<not> 1 < entries k (tl_contracts (tally_all dg t ta rs))) = (\<not> 1 < entries k (tl_contracts (tally_all dg t ta rs')))"
    "(\<not> 1 < entries k (tl_owners (tally_all dg t ta rs))) = (\<not> 1 < entries k (tl_owners (tally_all dg t ta rs')))"
    by (simp_all only: tally_counts)
  then show "1 < entries c (tl_viable (tally_all dg t ta rs)) \<longleftrightarrow> 1 < entries c (tl_viable (tally_all dg t ta rs'))"
    and "1 < entries k (tl_contracts (tally_all dg t ta rs)) \<longleftrightarrow> 1 < entries k (tl_contracts (tally_all dg t ta rs'))"
    and "1 < entries k (tl_owners (tally_all dg t ta rs)) \<longleftrightarrow> 1 < entries k (tl_owners (tally_all dg t ta rs'))"
    by blast+
qed

text \<open>The declarations kept: of each group with one declaration key, the first with the least
  digest.\<close>

definition decls_inv :: "(digested \<Rightarrow> string) \<Rightarrow> Response set \<Rightarrow> (string \<times> Response \<times> Execution) list \<Rightarrow> bool" where
  "decls_inv dg C decls \<longleftrightarrow> distinct (map fst decls) \<and>
     (\<forall>(dk, r, ex) \<in> set decls. r \<in> C \<and> re_Execution r = Some ex \<and> dk = declarationKey dg r \<and>
        (\<forall>r' \<in> C. re_Execution r' \<noteq> None \<longrightarrow> declarationKey dg r' = dk \<longrightarrow> dg (DDeclared r) \<le> dg (DDeclared r'))) \<and>
     (\<forall>r \<in> C. re_Execution r \<noteq> None \<longrightarrow> declarationKey dg r \<in> fst ` set decls)"

lemma declare_response_skip:
  "\<not> (addresses t r \<and> triggered ta r \<and> re_Execution r \<noteq> None) \<Longrightarrow> declare_response dg t ta r decls = decls"
  by (auto simp: declare_response_def split: option.splits)

lemma decls_inv_insert_old:
  assumes "decls_inv dg C decls" and "map_of decls (declarationKey dg r) = Some cur"
    and "dg (DDeclared (fst cur)) \<le> dg (DDeclared r)"
  shows "decls_inv dg (insert r C) decls"
proof -
  have cur: "(declarationKey dg r, cur) \<in> set decls" using assms(2) by (rule map_of_SomeD)
  have "dg (DDeclared r') \<le> dg (DDeclared r)" if "(declarationKey dg r, r', ex) \<in> set decls" for r' ex
  proof -
    have "cur = (r', ex)" using cur that assms(1) unfolding decls_inv_def
      by (metis map_of_is_SomeI option.inject assms(2))
    with assms(3) show ?thesis by simp
  qed
  moreover have "declarationKey dg r \<in> fst ` set decls" using cur by (auto simp: rev_image_eqI)
  ultimately have old: "\<forall>(dk, r', ex) \<in> set decls. declarationKey dg r = dk \<longrightarrow> dg (DDeclared r') \<le> dg (DDeclared r)"
    and key: "declarationKey dg r \<in> fst ` set decls" by blast+
  show ?thesis
    unfolding decls_inv_def
  proof (intro conjI)
    show "distinct (map fst decls)" using assms(1) by (simp add: decls_inv_def)
    show "\<forall>r' \<in> insert r C. re_Execution r' \<noteq> None \<longrightarrow> declarationKey dg r' \<in> fst ` set decls"
      using assms(1) key unfolding decls_inv_def by blast
    show "\<forall>(dk, r', ex) \<in> set decls. r' \<in> insert r C \<and> re_Execution r' = Some ex \<and> dk = declarationKey dg r' \<and>
        (\<forall>q \<in> insert r C. re_Execution q \<noteq> None \<longrightarrow> declarationKey dg q = dk \<longrightarrow> dg (DDeclared r') \<le> dg (DDeclared q))"
      using assms(1) old unfolding decls_inv_def by blast
  qed
qed

lemma decls_inv_update:
  assumes inv: "decls_inv dg C decls" and ex: "re_Execution r = Some ex"
    and new: "\<And>cur. map_of decls (declarationKey dg r) = Some cur \<Longrightarrow> dg (DDeclared r) \<le> dg (DDeclared (fst cur))"
  shows "decls_inv dg (insert r C) (AList.update (declarationKey dg r) (r, ex) decls)"
proof -
  let ?k = "declarationKey dg r"
  have least: "dg (DDeclared r) \<le> dg (DDeclared r')" if r': "r' \<in> C" "re_Execution r' \<noteq> None" "declarationKey dg r' = ?k" for r'
  proof -
    from inv r' have "?k \<in> fst ` set decls" unfolding decls_inv_def by metis
    then obtain cur where cur: "map_of decls ?k = Some cur" by (metis map_of_eq_None_iff not_None_eq)
    then have "(?k, fst cur, snd cur) \<in> set decls" by (simp add: map_of_SomeD)
    with inv r' have "dg (DDeclared (fst cur)) \<le> dg (DDeclared r')" unfolding decls_inv_def by fast
    with new [OF cur] show ?thesis by order
  qed
  have mem: "(k', d) \<in> set (AList.update ?k (r, ex) decls) \<Longrightarrow> k' = ?k \<and> d = (r, ex) \<or> k' \<noteq> ?k \<and> (k', d) \<in> set decls" for k' d
  proof -
    assume a: "(k', d) \<in> set (AList.update ?k (r, ex) decls)"
    have "distinct (map fst (AList.update ?k (r, ex) decls))"
      using inv by (simp add: decls_inv_def distinct_update)
    with a have "map_of (AList.update ?k (r, ex) decls) k' = Some d" by simp
    then show ?thesis by (auto simp: update_conv split: if_splits dest: map_of_SomeD)
  qed
  have dom: "fst ` set (AList.update ?k (r, ex) decls) = insert ?k (fst ` set decls)"
    by (simp add: dom_update)
  show ?thesis
    unfolding decls_inv_def
  proof (intro conjI)
    show "distinct (map fst (AList.update ?k (r, ex) decls))"
      using inv by (simp add: decls_inv_def distinct_update)
    show "\<forall>r' \<in> insert r C. re_Execution r' \<noteq> None \<longrightarrow> declarationKey dg r' \<in> fst ` set (AList.update ?k (r, ex) decls)"
      using inv unfolding dom decls_inv_def by blast
    show "\<forall>(dk, q, ex') \<in> set (AList.update ?k (r, ex) decls). q \<in> insert r C \<and> re_Execution q = Some ex' \<and>
        dk = declarationKey dg q \<and>
        (\<forall>r' \<in> insert r C. re_Execution r' \<noteq> None \<longrightarrow> declarationKey dg r' = dk \<longrightarrow> dg (DDeclared q) \<le> dg (DDeclared r'))"
    proof (clarify del: disjCI)
      fix dk q ex' assume "(dk, q, ex') \<in> set (AList.update ?k (r, ex) decls)"
      from mem [OF this] show "q \<in> insert r C \<and> re_Execution q = Some ex' \<and> dk = declarationKey dg q \<and>
        (\<forall>r' \<in> insert r C. re_Execution r' \<noteq> None \<longrightarrow> declarationKey dg r' = dk \<longrightarrow> dg (DDeclared q) \<le> dg (DDeclared r'))"
      proof
        assume "dk = ?k \<and> (q, ex') = (r, ex)"
        then have "dk = ?k" "q = r" "ex' = ex" by simp_all
        moreover have "dg (DDeclared r) \<le> dg (DDeclared r')"
          if "r' \<in> insert r C" "re_Execution r' \<noteq> None" "declarationKey dg r' = ?k" for r'
        proof (cases "r' = r")
          case False
          with that(1) have "r' \<in> C" by simp
          then show ?thesis using that(2,3) by (rule least)
        qed simp
        then have "\<forall>r' \<in> insert r C. re_Execution r' \<noteq> None \<longrightarrow> declarationKey dg r' = ?k \<longrightarrow>
            dg (DDeclared r) \<le> dg (DDeclared r')" by blast
        ultimately show ?thesis using ex by (simp only: insertI1 simp_thms)
      next
        assume "dk \<noteq> ?k \<and> (dk, q, ex') \<in> set decls"
        then have n: "dk \<noteq> ?k" and "(dk, q, ex') \<in> set decls" by simp_all
        with inv have "q \<in> C \<and> re_Execution q = Some ex' \<and> dk = declarationKey dg q \<and>
          (\<forall>r' \<in> C. re_Execution r' \<noteq> None \<longrightarrow> declarationKey dg r' = dk \<longrightarrow> dg (DDeclared q) \<le> dg (DDeclared r'))"
          unfolding decls_inv_def by fast
        with n show ?thesis by simp
      qed
    qed
  qed
qed

lemma declare_response_inv:
  assumes "decls_inv dg (candidates_of t ta rs) decls"
  shows "decls_inv dg (candidates_of t ta (rs @ [r])) (declare_response dg t ta r decls)"
proof (cases "addresses t r \<and> triggered ta r")
  case False
  then have "candidates_of t ta (rs @ [r]) = candidates_of t ta rs" by (auto simp: candidates_of_def)
  with assms False declare_response_skip [of t r ta dg decls] show ?thesis by metis
next
  case True
  then have C: "candidates_of t ta (rs @ [r]) = insert r (candidates_of t ta rs)" by (auto simp: candidates_of_def)
  show ?thesis
  proof (cases "re_Execution r")
    case None
    with assms show ?thesis unfolding C by (auto simp: declare_response_def decls_inv_def)
  next
    case (Some ex)
    show ?thesis
    proof (cases "map_of decls (declarationKey dg r)")
      case None
      then show ?thesis
        using decls_inv_update [OF assms Some] True Some unfolding C by (simp add: declare_response_def)
    next
      case cur: (Some cur)
      show ?thesis
        using decls_inv_update [OF assms Some] decls_inv_insert_old [OF assms cur] True Some cur unfolding C
        by (simp add: declare_response_def not_less Let_def)
    qed
  qed
qed

lemma decls_invariant: "decls_inv dg (candidates_of t ta rs) (fold (declare_response dg t ta) rs [])"
proof (induction rs rule: rev_induct)
  case Nil
  then show ?case by (simp add: decls_inv_def candidates_of_def)
next
  case (snoc r rs)
  then show ?case using declare_response_inv by simp
qed


section \<open>What a proposal is\<close>

definition proposal_of_declaration ::
    "(digested \<Rightarrow> string) \<Rightarrow> Target \<Rightarrow> TargetAssessment \<Rightarrow> Profile \<Rightarrow> (string \<Rightarrow> int) \<Rightarrow> Response \<Rightarrow> Execution \<Rightarrow> CapabilityResult \<Rightarrow> Proposal" where
  "proposal_of_declaration dg t ta p episodes r ex c =
     (let m = tally_all dg t ta (pf_Responses p)
      in proposalOf dg t ta r ex (pf_Revision p) c episodes
           (entries (re_For r) (tl_viable m) > 1 \<or> entries (responseKey dg r) (tl_contracts m) > 1)
           (entries (ownerKey r) (tl_owners m) > 1))"

lemma derive_elim:
  assumes "pr \<in> set (derive dg s a (Some p) episodes)"
  obtains t ta r ex c where "ta \<in> set (a_Targets a)" "ta_Valid ta" "targetOf s (ti_UID (ta_Target ta)) = Some t"
    "r \<in> candidates_of t ta (pf_Responses p)" "re_Execution r = Some ex" "capState ta (re_For r) = Some c"
    "pr = proposal_of_declaration dg t ta p episodes r ex c"
proof -
  from assms obtain ta where ta: "ta \<in> set (a_Targets a)" "pr \<in> set (derive_target dg s p episodes ta)"
    by (auto simp: derive_def)
  then obtain t where t: "ta_Valid ta" "targetOf s (ti_UID (ta_Target ta)) = Some t"
    by (cases "targetOf s (ti_UID (ta_Target ta))"; cases "ta_Valid ta") (simp_all add: derive_target_def)
  with ta(2) obtain dk r ex where d: "(dk, r, ex) \<in> set (fold (declare_response dg t ta) (pf_Responses p) [])"
      "propose dg t ta (pf_Revision p) episodes (tally_all dg t ta (pf_Responses p)) (r, ex) = Some pr"
    by (auto simp: derive_target_def Let_def List.map_filter_def)
  have "r \<in> candidates_of t ta (pf_Responses p)" "re_Execution r = Some ex"
    using decls_invariant [of dg t ta "pf_Responses p"] d(1) unfolding decls_inv_def by fast+
  with that ta(1) t d(2) show thesis
    by (auto simp: propose_def proposal_of_declaration_def Let_def)
qed

lemma capState_SomeD: "capState ta c = Some r \<Longrightarrow> r \<in> set (ta_Capabilities ta) \<and> cr_Type r = c"
  unfolding capState_def by (drule find_SomeD) simp

lemma targetOf_SomeD: "targetOf s uid = Some t \<Longrightarrow> t \<in> set (s_Targets s) \<and> ti_UID (t_Identity t) = uid"
  unfolding targetOf_def by (drule find_SomeD) simp

lemma proposal_of_declaration_fields [simp]:
  "pr_Response (proposal_of_declaration dg t ta p ep r ex c) = r"
  "pr_Binding (proposal_of_declaration dg t ta p ep r ex c) = bindingOf t"
  "pr_For (proposal_of_declaration dg t ta p ep r ex c) = cr_Type c"
  "pr_Expected (proposal_of_declaration dg t ta p ep r ex c) = ex_ExpectedImpact ex"
  "pr_ProfileRevision (proposal_of_declaration dg t ta p ep r ex c) = pf_Revision p"
  "pr_Trigger (proposal_of_declaration dg t ta p ep r ex c) = cr_State c"
  "bi_Target (bindingOf t) = t_Identity t"
  by (simp_all add: proposal_of_declaration_def proposalOf_def Let_def bindingOf_def)

lemma proposal_Human_Nil:
  "pr_Human (proposal_of_declaration dg t ta p ep r ex c) = [] \<longleftrightarrow> HumanDecisionReasons r = [] \<and>
     \<not> 1 < entries (re_For r) (tl_viable (tally_all dg t ta (pf_Responses p))) \<and>
     \<not> 1 < entries (responseKey dg r) (tl_contracts (tally_all dg t ta (pf_Responses p)))"
  by (simp add: proposal_of_declaration_def proposalOf_def Let_def ReasonNoPriorityAuthority_def)

lemma proposal_OwnerConflict:
  "pr_OwnerConflict (proposal_of_declaration dg t ta p ep r ex c) \<longleftrightarrow>
     1 < entries (ownerKey r) (tl_owners (tally_all dg t ta (pf_Responses p)))"
  by (simp add: proposal_of_declaration_def proposalOf_def Let_def)

lemma derive_executable: "pr \<in> set (derive dg s a p ep) \<Longrightarrow> \<exists>ex. re_Execution (pr_Response pr) = Some ex"
proof (cases p)
  case (Some q)
  assume "pr \<in> set (derive dg s a p ep)"
  with Some show ?thesis by (auto elim!: derive_elim)
qed (simp add: derive_def)

section \<open>Order\<close>

definition Proposal_key :: "Proposal \<Rightarrow> string list" where
  "Proposal_key p = [ti_UID (bi_Target (pr_Binding p)), pr_ID p]"

lemma Proposal_less_key: "Proposal_less a b \<longleftrightarrow> Proposal_key a < Proposal_key b"
  by (auto simp: Proposal_less_def Proposal_key_def)

lemma decls_unique:
  assumes "set rs = set rs'" and inj: "inj_on (\<lambda>r. dg (DDeclared r)) (set rs)"
  shows "mset (map snd (fold (declare_response dg t ta) rs [])) = mset (map snd (fold (declare_response dg t ta) rs' []))"
proof -
  let ?C = "candidates_of t ta rs"
  let ?d = "fold (declare_response dg t ta) rs []" and ?d' = "fold (declare_response dg t ta) rs' []"
  have i: "decls_inv dg ?C ?d" by (rule decls_invariant)
  have "candidates_of t ta rs = candidates_of t ta rs'" using assms(1) by (simp add: candidates_of_def)
  then have i': "decls_inv dg ?C ?d'" using decls_invariant [of dg t ta rs'] by simp
  have sub: "set d \<subseteq> set d'" if d: "decls_inv dg ?C d" and d': "decls_inv dg ?C d'" for d d'
  proof
    fix e assume "e \<in> set d"
    then obtain dk r ex where e: "e = (dk, r, ex)" "(dk, r, ex) \<in> set d" by (metis prod_cases3)
    with d have r: "r \<in> ?C" "re_Execution r = Some ex" "dk = declarationKey dg r"
        "\<forall>r' \<in> ?C. re_Execution r' \<noteq> None \<longrightarrow> declarationKey dg r' = dk \<longrightarrow> dg (DDeclared r) \<le> dg (DDeclared r')"
      unfolding decls_inv_def by fast+
    from d' r(1-3) have "dk \<in> fst ` set d'" unfolding decls_inv_def by (metis option.distinct(1))
    then obtain r' ex' where e': "(dk, r', ex') \<in> set d'" by force
    with d' have r': "r' \<in> ?C" "re_Execution r' = Some ex'" "dk = declarationKey dg r'"
        "\<forall>q \<in> ?C. re_Execution q \<noteq> None \<longrightarrow> declarationKey dg q = dk \<longrightarrow> dg (DDeclared r') \<le> dg (DDeclared q)"
      unfolding decls_inv_def by fast+
    have "dg (DDeclared r) = dg (DDeclared r')"
      using r r' by (metis option.distinct(1) order_antisym)
    moreover have "r \<in> set rs" "r' \<in> set rs" using r(1) r'(1) by (simp_all add: candidates_of_def)
    ultimately have "r = r'" using inj by (metis inj_onD)
    with e e' r(2) r'(2) show "e \<in> set d'" by simp
  qed
  have "distinct ?d" "distinct ?d'" using i i' by (simp_all add: decls_inv_def distinct_map)
  then have "mset ?d = mset ?d'" using sub [OF i i'] sub [OF i' i] by (metis subset_antisym set_eq_iff_mset_eq_distinct)
  then show ?thesis by simp
qed

lemma mset_map_filter: "mset (List.map_filter f xs) = image_mset the (filter_mset (\<lambda>y. y \<noteq> None) (image_mset f (mset xs)))"
  by (induction xs) (auto simp: List.map_filter_def)

lemma derive_target_cong:
  assumes "set (pf_Responses p) = set (pf_Responses p')" and "pf_Revision p = pf_Revision p'"
    and "inj_on (\<lambda>r. dg (DDeclared r)) (set (pf_Responses p))"
  shows "mset (derive_target dg s p ep ta) = mset (derive_target dg s p' ep ta)"
proof (cases "targetOf s (ti_UID (ta_Target ta))")
  case (Some t)
  let ?f = "\<lambda>p. propose dg t ta (pf_Revision p) ep (tally_all dg t ta (pf_Responses p))"
  have f: "?f p = ?f p'"
    by (rule ext) (simp add: propose_def assms(2) tally_all_cong [OF assms(1)] del: One_nat_def)
  show ?thesis
    using Some decls_unique [OF assms(1,3)] f by (simp add: derive_target_def mset_map_filter)
qed (simp add: derive_target_def)

lemma mset_concat_cong: "(\<And>x. x \<in> set xs \<Longrightarrow> mset (f x) = mset (g x)) \<Longrightarrow> mset (concat (map f xs)) = mset (concat (map g xs))"
  by (induction xs) simp_all


section \<open>Properties\<close>

text \<open>C14: A proposal comes from an executable declaration for a valid target whose capability is in
  a triggering state, and the policy may approve it alone exactly when the declaration asks for no
  person and it has no rival: all viable responses to the same capability are one response, and that
  response has one execution contract. Its authority is ambiguous exactly when the same action is
  declared for the capability with two owners.\<close>

theorem human_boundary:
  assumes "pr \<in> set (derive dg s a (Some p) ep)"
  shows "\<exists>t ta ex. ta \<in> set (a_Targets a) \<and> ta_Valid ta \<and> targetOf s (ti_UID (ta_Target ta)) = Some t \<and>
    pr_Binding pr = bindingOf t \<and> pr_Response pr \<in> candidates_of t ta (pf_Responses p) \<and>
    re_Execution (pr_Response pr) = Some ex \<and>
    (pr_Human pr = [] \<longleftrightarrow> HumanDecisionReasons (pr_Response pr) = [] \<and>
       (\<forall>r \<in> viable_of t ta (pf_Responses p). \<forall>r' \<in> viable_of t ta (pf_Responses p).
          re_For r = re_For (pr_Response pr) \<longrightarrow> re_For r' = re_For (pr_Response pr) \<longrightarrow>
          responseKey dg r = responseKey dg r') \<and>
       (\<forall>r \<in> {r \<in> viable_of t ta (pf_Responses p). re_Execution r \<noteq> None}.
          \<forall>r' \<in> {r \<in> viable_of t ta (pf_Responses p). re_Execution r \<noteq> None}.
          responseKey dg r = responseKey dg (pr_Response pr) \<longrightarrow> responseKey dg r' = responseKey dg (pr_Response pr) \<longrightarrow>
          declarationKey dg r = declarationKey dg r')) \<and>
    (\<not> pr_OwnerConflict pr \<longleftrightarrow>
       (\<forall>r \<in> candidates_of t ta (pf_Responses p). \<forall>r' \<in> candidates_of t ta (pf_Responses p).
          ownerKey r = ownerKey (pr_Response pr) \<longrightarrow> ownerKey r' = ownerKey (pr_Response pr) \<longrightarrow>
          re_Owner r = re_Owner r'))"
proof -
  obtain t ta r ex c where o: "ta \<in> set (a_Targets a)" "ta_Valid ta" "targetOf s (ti_UID (ta_Target ta)) = Some t"
    "r \<in> candidates_of t ta (pf_Responses p)" "re_Execution r = Some ex"
    "pr = proposal_of_declaration dg t ta p ep r ex c"
    using assms by (rule derive_elim)
  show ?thesis
    by (rule exI [of _ t], rule exI [of _ ta], rule exI [of _ ex], unfold o(6) proposal_Human_Nil proposal_OwnerConflict
        proposal_of_declaration_fields tally_counts, intro conjI) (rule o refl)+
qed

text \<open>C15: The order in which a profile lists its responses, and repeating one, change nothing, as
  long as the digest tells the declared responses apart and no two proposals share target and
  identifier.\<close>

theorem derive_order_independent:
  assumes "set (pf_Responses p) = set (pf_Responses p')" and "pf_Revision p = pf_Revision p'"
    and "inj_on (\<lambda>r. dg (DDeclared r)) (set (pf_Responses p))"
    and "distinct (map Proposal_key (derive dg s a (Some p) ep))"
  shows "derive dg s a (Some p') ep = derive dg s a (Some p) ep"
proof -
  let ?l = "\<lambda>p. concat (map (derive_target dg s p ep) (a_Targets a))"
  have m: "mset (?l p) = mset (?l p')"
    by (rule mset_concat_cong) (rule derive_target_cong [OF assms(1-3)])
  have "mset (map Proposal_key (derive dg s a (Some p) ep)) = mset (map Proposal_key (?l p))"
    by (simp add: derive_def)
  with assms(4) have "distinct (map Proposal_key (?l p))" by (metis mset_eq_imp_distinct_iff)
  from sort_slice_distinct_keys [OF Proposal_less_key this m] show ?thesis by (simp add: derive_def)
qed

section \<open>An example\<close>

text \<open>The store of the demo snapshot has lost its write capability; two owners' responses to it, the
  second without an execution contract.\<close>

fun demo_dg :: "digested \<Rightarrow> string" where
  "demo_dg (DResponse k) = ''r'' @ ar_Name (rk_Action k) @ rk_Owner k"
| "demo_dg (DDeclaration k e) = ''d'' @ k"
| "demo_dg (DSubject k) = ''s'' @ ti_UID (sj_Target k) @ sj_Declaration k"
| "demo_dg (DEpisode k n) = (if n = 1 then ''1'' else ''2'') @ k"
| "demo_dg (DBasis b) = ''b'' @ b_ID b"
| "demo_dg (DDeclared r) = ''x'' @ re_Owner r"

definition demo_failing :: Snapshot where
  "demo_failing = demo_snapshot\<lparr>s_Observations := [demo_obs (demo_targets ! 0) 95 True, demo_obs (demo_targets ! 1) 96 False]\<rparr>"

definition demo_failing_assessment :: Assessment where
  "demo_failing_assessment = (case Evaluate demo_failing of Some (Inr a) \<Rightarrow> a | _ \<Rightarrow> \<lparr>a_Targets = []\<rparr>)"

definition demo_profile :: Profile where
  "demo_profile = \<lparr>pf_Revision = ''1'', pf_Responses =
     [demo_response\<lparr>re_RequiresApproval := False\<rparr>, demo_response\<lparr>re_Owner := ''dba'', re_Execution := None\<rparr>]\<rparr>"

definition demo_proposal :: Proposal where
  "demo_proposal = hd (derive demo_dg demo_failing demo_failing_assessment (Some demo_profile) (\<lambda>_. 1))"

theorem human_boundary_witness:
  "pr_Human demo_proposal = [''no-priority-authority''] \<and>
   (\<exists>t ta ex. ta \<in> set (a_Targets demo_failing_assessment) \<and> targetOf demo_failing (ti_UID (ta_Target ta)) = Some t \<and>
      pr_Binding demo_proposal = bindingOf t \<and> re_Execution (pr_Response demo_proposal) = Some ex \<and>
      (\<not> pr_OwnerConflict demo_proposal \<longleftrightarrow>
       (\<forall>r \<in> candidates_of t ta (pf_Responses demo_profile). \<forall>r' \<in> candidates_of t ta (pf_Responses demo_profile).
          ownerKey r = ownerKey (pr_Response demo_proposal) \<longrightarrow> ownerKey r' = ownerKey (pr_Response demo_proposal) \<longrightarrow>
          re_Owner r = re_Owner r')))"
proof
  show "pr_Human demo_proposal = [''no-priority-authority'']" by code_simp
  have "demo_proposal \<in> set (derive demo_dg demo_failing demo_failing_assessment (Some demo_profile) (\<lambda>_. 1))"
    by code_simp
  from human_boundary [OF this] show "\<exists>t ta ex. ta \<in> set (a_Targets demo_failing_assessment) \<and>
      targetOf demo_failing (ti_UID (ta_Target ta)) = Some t \<and>
      pr_Binding demo_proposal = bindingOf t \<and> re_Execution (pr_Response demo_proposal) = Some ex \<and>
      (\<not> pr_OwnerConflict demo_proposal \<longleftrightarrow>
       (\<forall>r \<in> candidates_of t ta (pf_Responses demo_profile). \<forall>r' \<in> candidates_of t ta (pf_Responses demo_profile).
          ownerKey r = ownerKey (pr_Response demo_proposal) \<longrightarrow> ownerKey r' = ownerKey (pr_Response demo_proposal) \<longrightarrow>
          re_Owner r = re_Owner r'))"
    by (elim exE conjE) (intro exI conjI; assumption)
qed

theorem derive_order_independent_witness:
  "derive demo_dg demo_failing demo_failing_assessment
     (Some (demo_profile\<lparr>pf_Responses := rev (pf_Responses demo_profile)\<rparr>)) (\<lambda>_. 1) = [demo_proposal]"
proof -
  have one: "derive demo_dg demo_failing demo_failing_assessment (Some demo_profile) (\<lambda>_. 1) = [demo_proposal]"
    by code_simp
  have "inj_on (\<lambda>r. demo_dg (DDeclared r)) (set (pf_Responses demo_profile))"
    by (simp add: demo_profile_def demo_response_def)
  then have "derive demo_dg demo_failing demo_failing_assessment
     (Some (demo_profile\<lparr>pf_Responses := rev (pf_Responses demo_profile)\<rparr>)) (\<lambda>_. 1) =
     derive demo_dg demo_failing demo_failing_assessment (Some demo_profile) (\<lambda>_. 1)"
    by (intro derive_order_independent) (simp_all add: one)
  then show ?thesis by (simp only: one)
qed

end
