(* ===== verification/Action_Recovery.thy ===== *)
theory Action_Recovery
  imports Action_Proposal
begin

text \<open>
  The assessment of recovery (\<open>recovery.go\<close>): the evaluator run again on the observations made
  after an execution ended. \<open>None\<close> stands for an evaluation that does not return, which
  \<open>assessRecovery_cases\<close> excludes.
\<close>

section \<open>Operations\<close>

definition post_snapshot :: "Record \<Rightarrow> Snapshot \<Rightarrow> instant \<Rightarrow> Snapshot" where
  "post_snapshot r s now = s\<lparr>s_At := now, s_Observations := filter (\<lambda>o'. rc_EndedAt r < o_ObservedAt o') (s_Observations s)\<rparr>"

definition recovered_state :: "TargetAssessment \<Rightarrow> CapabilityType \<Rightarrow> CapabilityState" where
  "recovered_state ta c = (case capState ta c of Some res \<Rightarrow> cr_State res | None \<Rightarrow> Unknown)"

text \<open>The loop over the expected capabilities: the detail and the two counters.\<close>

definition recovery_step :: "TargetAssessment \<Rightarrow> CapabilityType \<Rightarrow> CapRecovery list \<times> nat \<times> nat \<Rightarrow> CapRecovery list \<times> nat \<times> nat" where
  "recovery_step ta c acc = (case acc of (detail, recovered, proven) \<Rightarrow>
     let st = recovered_state ta c;
         detail = detail @ [\<lparr>crec_Type = c, crec_State = st\<rparr>]
     in case st of
          Available \<Rightarrow> (detail, recovered + 1, proven)
        | Degraded \<Rightarrow> (detail, recovered, proven + 1)
        | Unavailable \<Rightarrow> (detail, recovered, proven + 1)
        | Unknown \<Rightarrow> (detail, recovered, proven))"

definition assessRecovery :: "Record \<Rightarrow> Snapshot \<Rightarrow> instant \<Rightarrow> (EvalError + Recovery \<times> CapRecovery list) option" where
  "assessRecovery r s now =
     (case targetOf s (rc_TargetUID r) of
        None \<Rightarrow> Some (Inr (RecoveryInapplicable, []))
      | Some t \<Rightarrow>
          if \<not> Binding_equal (bindingOf t) (rc_Binding r) then Some (Inr (RecoveryInapplicable, []))
          else case Evaluate (post_snapshot r s now) of
            None \<Rightarrow> None
          | Some (Inl err) \<Rightarrow> Some (Inl err)
          | Some (Inr a) \<Rightarrow>
              (case Assessment_Target a (rc_TargetUID r) of
                 None \<Rightarrow> Some (Inr (RecoveryInapplicable, []))
               | Some ta \<Rightarrow>
                   if \<not> ta_Valid ta then Some (Inr (RecoveryInapplicable, []))
                   else case fold (recovery_step ta) (rc_Expected r) ([], 0, 0) of
                     (detail, recovered, proven) \<Rightarrow>
                       Some (Inr (if recovered = length (rc_Expected r) then (RecoveryRecovered, detail)
                         else if now < rc_EndedAt r + rc_RecoveryWindow r then (RecoveryPending, detail)
                         else if recovered > 0 then (RecoveryPartial, detail)
                         else if proven > 0 then (RecoveryNotRecovered, detail)
                         else (RecoveryUnconfirmed, detail)))))"

section \<open>The counters\<close>

lemma recovery_fold:
  "fold (recovery_step ta) cs (detail, recovered, proven) =
     (detail @ map (\<lambda>c. \<lparr>crec_Type = c, crec_State = recovered_state ta c\<rparr>) cs,
      recovered + length (filter (\<lambda>c. recovered_state ta c = Available) cs),
      proven + length (filter (\<lambda>c. recovered_state ta c \<in> {Degraded, Unavailable}) cs))"
proof (induction cs arbitrary: detail recovered proven)
  case (Cons c cs)
  then show ?case by (cases "recovered_state ta c") (simp_all add: recovery_step_def Let_def)
qed simp

lemma length_filter_full: "length (filter P xs) = length xs \<longleftrightarrow> (\<forall>x \<in> set xs. P x)"
  by (simp add: length_filter_conv_card) (metis filter_id_conv length_filter_conv_card length_filter_less less_irrefl)

lemma Evaluate_returns: "\<not> IsZero (s_At s) \<Longrightarrow> \<exists>a. Evaluate s = Some (Inr a)"
  using Evaluate_Inr_iff by blast

lemma recovered_state_Available:
  "recovered_state ta c = Available \<Longrightarrow> \<exists>res \<in> set (ta_Capabilities ta). cr_Type res = c \<and> cr_State res = Available"
  unfolding recovered_state_def by (cases "capState ta c") (auto dest: capState_SomeD)

lemma assessRecovery_elim:
  assumes "assessRecovery r s now = Some (Inr (RecoveryRecovered, detail))"
  obtains t a ta where "targetOf s (rc_TargetUID r) = Some t" "bindingOf t = rc_Binding r"
    "Evaluate (post_snapshot r s now) = Some (Inr a)" "Assessment_Target a (rc_TargetUID r) = Some ta" "ta_Valid ta"
    "\<forall>c \<in> set (rc_Expected r). recovered_state ta c = Available"
proof -
  from assms obtain t where t: "targetOf s (rc_TargetUID r) = Some t" "bindingOf t = rc_Binding r"
    by (auto simp: assessRecovery_def split: option.splits if_splits)
  with assms obtain a where a: "Evaluate (post_snapshot r s now) = Some (Inr a)"
    by (auto simp: assessRecovery_def split: option.splits sum.splits)
  with assms t obtain ta where ta: "Assessment_Target a (rc_TargetUID r) = Some ta" "ta_Valid ta"
    by (auto simp: assessRecovery_def split: option.splits if_splits)
  have "\<forall>c \<in> set (rc_Expected r). recovered_state ta c = Available"
    using assms t a ta length_filter_full [of "\<lambda>c. recovered_state ta c = Available" "rc_Expected r"]
    by (simp add: assessRecovery_def recovery_fold split: if_splits)
  with that t a ta show thesis by blast
qed

section \<open>Properties\<close>

text \<open>C16: An execution is judged Recovered only when its target still has the binding it was
  executed under and every expected capability is proven AVAILABLE by an evaluation of the
  observations made strictly after the execution ended: each requirement of each of them is proven
  on those observations alone.\<close>

theorem recovered_on_fresh_evidence:
  assumes "assessRecovery r s now = Some (Inr (RecoveryRecovered, detail))" and "c \<in> set (rc_Expected r)"
  shows "\<exists>t a t' k cp. targetOf s (rc_TargetUID r) = Some t \<and> bindingOf t = rc_Binding r \<and>
    Evaluate (s\<lparr>s_At := now, s_Observations := [o' \<leftarrow> s_Observations s. rc_EndedAt r < o_ObservedAt o']\<rparr>) = Some (Inr a) \<and>
    t' \<in> set (s_Targets s) \<and> ti_UID (t_Identity t') = rc_TargetUID r \<and>
    cp \<in> set (c_Capabilities k) \<and> cp_Type cp = c \<and>
    target_wf (post_snapshot r s now) t' k \<and>
    (\<forall>req \<in> set (cp_Requirements cp). requirement_proven (post_snapshot r s now) a t' k req)"
proof -
  let ?p = "post_snapshot r s now"
  obtain t a ta where o: "targetOf s (rc_TargetUID r) = Some t" "bindingOf t = rc_Binding r"
    "Evaluate ?p = Some (Inr a)" "Assessment_Target a (rc_TargetUID r) = Some ta"
    "\<forall>c \<in> set (rc_Expected r). recovered_state ta c = Available"
    using assms(1) by (rule assessRecovery_elim)
  have ta: "ta \<in> set (a_Targets a)" "ti_UID (ta_Target ta) = rc_TargetUID r"
    using o(4) unfolding Assessment_Target_def by (auto dest: find_SomeD)
  obtain res where res: "res \<in> set (ta_Capabilities ta)" "cr_Type res = c" "cr_State res = Available"
    using o(5) assms(2) recovered_state_Available by blast
  have tg: "s_Targets ?p = s_Targets s" by (simp add: post_snapshot_def)
  from available_capability_proven [OF o(3) ta(1) res(1,3)] res(2) ta(2) o(1,2,3)
  show ?thesis unfolding tg by (metis post_snapshot_def)
qed

text \<open>The assessment of recovery always returns. Without the target, or with another binding, or
  with an invalid target it is Inapplicable; with every expected capability AVAILABLE it is
  Recovered at any time; otherwise it is Pending inside the recovery window, and after it Partial,
  NotRecovered or Unconfirmed by what the fresh evidence proves. The detail is the state of each
  expected capability, in order.\<close>

theorem assessRecovery_cases:
  "assessRecovery r s now =
     (case targetOf s (rc_TargetUID r) of
        None \<Rightarrow> Some (Inr (RecoveryInapplicable, []))
      | Some t \<Rightarrow>
          if bindingOf t \<noteq> rc_Binding r then Some (Inr (RecoveryInapplicable, []))
          else if IsZero now then Some (Inl ErrNoEvaluationInstant)
          else case Evaluate (post_snapshot r s now) of
            Some (Inr a) \<Rightarrow>
              (case Assessment_Target a (rc_TargetUID r) of
                 None \<Rightarrow> Some (Inr (RecoveryInapplicable, []))
               | Some ta \<Rightarrow>
                   if \<not> ta_Valid ta then Some (Inr (RecoveryInapplicable, []))
                   else Some (Inr
                     (if recovered_state ta ` set (rc_Expected r) \<subseteq> {Available} then RecoveryRecovered
                      else if now < rc_EndedAt r + rc_RecoveryWindow r then RecoveryPending
                      else if Available \<in> recovered_state ta ` set (rc_Expected r) then RecoveryPartial
                      else if recovered_state ta ` set (rc_Expected r) \<inter> {Degraded, Unavailable} \<noteq> {} then RecoveryNotRecovered
                      else RecoveryUnconfirmed,
                      map (\<lambda>c. \<lparr>crec_Type = c, crec_State = recovered_state ta c\<rparr>) (rc_Expected r)))))"
proof -
  have at: "s_At (post_snapshot r s now) = now" by (simp add: post_snapshot_def)
  show ?thesis
  proof (cases "IsZero now")
    case True
    then show ?thesis by (simp add: assessRecovery_def Evaluate_def at split: option.splits)
  next
    case False
    then obtain a where a: "Evaluate (post_snapshot r s now) = Some (Inr a)" using Evaluate_returns at by metis
    have n: "length (filter (\<lambda>c. recovered_state ta c = Available) (rc_Expected r)) = length (rc_Expected r) \<longleftrightarrow>
        recovered_state ta ` set (rc_Expected r) \<subseteq> {Available}"
      "filter (\<lambda>c. recovered_state ta c = Available) (rc_Expected r) \<noteq> [] \<longleftrightarrow> Available \<in> recovered_state ta ` set (rc_Expected r)"
      "filter (\<lambda>c. recovered_state ta c = Degraded \<or> recovered_state ta c = Unavailable) (rc_Expected r) \<noteq> [] \<longleftrightarrow>
        recovered_state ta ` set (rc_Expected r) \<inter> {Degraded, Unavailable} \<noteq> {}" for ta
      unfolding length_filter_full filter_empty_conv by (fast, metis (no_types, lifting) imageE imageI, force)
    from a False show ?thesis
      by (simp only: assessRecovery_def recovery_fold Binding_equal_iff append_Nil prod.case add_0 option.case sum.case
          length_greater_0_conv n insert_iff empty_iff simp_thms if_False if_True split: option.splits) (simp split: option.splits)
  qed
qed

lemma assessRecovery_returns: "\<exists>x. assessRecovery r s now = Some x"
proof (cases "IsZero now")
  case True
  have "s_At (post_snapshot r s now) = now" by (simp add: post_snapshot_def)
  with True show ?thesis by (auto simp: assessRecovery_def Evaluate_def split: option.splits)
next
  case False
  then obtain a where "Evaluate (post_snapshot r s now) = Some (Inr a)"
    using Evaluate_returns [of "post_snapshot r s now"] by (auto simp: post_snapshot_def)
  then show ?thesis by (auto simp: assessRecovery_def recovery_fold split: option.splits)
qed

section \<open>An example\<close>

definition demo_record :: Record where
  "demo_record = \<lparr>rc_Key = ''k/1'', rc_ProposalID = ''k'', rc_Subject = ''s'', rc_TargetUID = ''t1'', rc_Digest = ''b'',
     rc_Attempt = 1, rc_Phase = PhaseSucceeded, rc_Fence = 1, rc_SentFence = 1, rc_Sends = 1,
     rc_Approval = \<lparr>ap_Kind = KindPolicy, ap_Principal = ''policy:1'', ap_DecisionID = ''''\<rparr>, rc_Decision = Decision_zero,
     rc_Refused = False, rc_Binding = bindingOf (demo_targets ! 1), rc_Action = re_Action demo_response, rc_Provider = ''p'',
     rc_Owner = ''ops'', rc_For = demo_type ''write'', rc_Expected = [demo_type ''write''], rc_Execution = demo_execution,
     rc_CreatedAt = 80, rc_LastSentAt = 80, rc_AckedAt = 85, rc_CompletedAt = 90, rc_EndedAt = 90, rc_ProviderRef = ''ref'',
     rc_AckTimeout = 30, rc_CompletionTimeout = 60, rc_RecoveryWindow = 60, rc_Retryable = False, rc_MaxAttempts = 1,
     rc_MaxSends = 3, rc_Recovery = RecoveryNone, rc_RecoveryDetail = [], rc_Version = 3\<rparr>"

theorem recovered_on_fresh_evidence_witness:
  "\<exists>t a t' k cp. targetOf demo_snapshot ''t1'' = Some t \<and> bindingOf t = rc_Binding demo_record \<and>
    Evaluate (demo_snapshot\<lparr>s_At := 100, s_Observations := [o' \<leftarrow> s_Observations demo_snapshot. rc_EndedAt demo_record < o_ObservedAt o']\<rparr>) = Some (Inr a) \<and>
    t' \<in> set (s_Targets demo_snapshot) \<and> ti_UID (t_Identity t') = ''t1'' \<and>
    cp \<in> set (c_Capabilities k) \<and> cp_Type cp = demo_type ''write'' \<and>
    target_wf (post_snapshot demo_record demo_snapshot 100) t' k \<and>
    (\<forall>req \<in> set (cp_Requirements cp). requirement_proven (post_snapshot demo_record demo_snapshot 100) a t' k req)"
proof -
  have run: "assessRecovery demo_record demo_snapshot 100 =
      Some (Inr (RecoveryRecovered, [\<lparr>crec_Type = demo_type ''write'', crec_State = Available\<rparr>]))" by code_simp
  have c: "demo_type ''write'' \<in> set (rc_Expected demo_record)" and u: "rc_TargetUID demo_record = ''t1''"
    by (simp_all add: demo_record_def)
  show ?thesis using recovered_on_fresh_evidence [OF run c] unfolding u .
qed

end
