(* ===== verification/Action_Engine.thy ===== *)
theory Action_Engine
  imports Action_Journal Action_Recovery
begin

text \<open>
  The engine (\<open>engine.go\<close>): one \<open>Step\<close> reads the journal and the decisions, derives the proposals,
  advances every execution and recovery, and decides every proposal. The journal, the providers, the
  decision source and the verifier are parameters: the fields of \<open>engine_env\<close>. Providers answer on a state
  \<open>'w\<close> of their own; \<open>None\<close> is an error answer. A step that panics, on a division by a zero send
  budget, is \<open>None\<close>.

  \<open>st_sent\<close> is not state of the code: it lists the handoffs submitted in the step, each with the
  journal at that moment, so that properties can speak of the order of writing and sending.
\<close>

section \<open>State\<close>

record 'w connections =
  pv_Submit :: "string \<Rightarrow> Handoff \<Rightarrow> 'w \<Rightarrow> Receipt option \<times> 'w"
  pv_Result :: "string \<Rightarrow> string \<Rightarrow> 'w \<Rightarrow> Result option \<times> 'w"

record ('j, 'w) engine_env =
  eg_Journal :: "'j journal_ops"
  eg_Providers :: "string \<Rightarrow> Registration option"
  eg_Conn :: "'w connections"
  eg_Decisions :: "('w \<Rightarrow> Decision list option \<times> 'w) option"
  eg_Verifier :: "(Decision \<Rightarrow> bool) option"
  eg_digest :: "digested \<Rightarrow> string"

record Stats =
  sx_Submits :: int
  sx_Resends :: int
  sx_Adopted :: int
  sx_IgnoredResponses :: int
  sx_JournalFailures :: int
  sx_SendFailures :: int
  sx_Takeovers :: int
  sx_DecisionFailures :: int

record Input =
  in_Snapshot :: Snapshot
  in_Assessment :: Assessment
  in_Profile :: "Profile option"
  in_Now :: instant

record Output =
  ou_Views :: "(string \<times> View list) list"
  ou_NextWake :: instant

record ('j, 'w) Engine =
  en_epoch :: "64 word"
  en_stats :: Stats
  en_journal :: 'j
  en_world :: 'w

record ('j, 'w) step =
  st_epoch :: "64 word"
  st_stats :: Stats
  st_journal :: 'j
  st_world :: 'w
  st_in :: Input
  st_recs :: "(string \<times> Record) list"
  st_props :: "(string \<times> Proposal) list"
  st_decisions :: "Decision list"
  st_wake :: instant
  st_sent :: "(Handoff \<times> 'j) list"

abbreviation now_of :: "('j, 'w) step \<Rightarrow> instant" where
  "now_of st \<equiv> in_Now (st_in st)"

text \<open>Counters.\<close>

definition count_ignored :: "('j, 'w) step \<Rightarrow> ('j, 'w) step" where
  "count_ignored st = st\<lparr>st_stats := (st_stats st)\<lparr>sx_IgnoredResponses := sx_IgnoredResponses (st_stats st) + 1\<rparr>\<rparr>"

definition count_adopted :: "('j, 'w) step \<Rightarrow> ('j, 'w) step" where
  "count_adopted st = st\<lparr>st_stats := (st_stats st)\<lparr>sx_Adopted := sx_Adopted (st_stats st) + 1\<rparr>\<rparr>"

definition count_resend :: "('j, 'w) step \<Rightarrow> ('j, 'w) step" where
  "count_resend st = st\<lparr>st_stats := (st_stats st)\<lparr>sx_Resends := sx_Resends (st_stats st) + 1\<rparr>\<rparr>"

definition count_submit :: "('j, 'w) step \<Rightarrow> ('j, 'w) step" where
  "count_submit st = st\<lparr>st_stats := (st_stats st)\<lparr>sx_Submits := sx_Submits (st_stats st) + 1\<rparr>\<rparr>"

definition count_send_failure :: "('j, 'w) step \<Rightarrow> ('j, 'w) step" where
  "count_send_failure st = st\<lparr>st_stats := (st_stats st)\<lparr>sx_SendFailures := sx_SendFailures (st_stats st) + 1\<rparr>\<rparr>"

section \<open>Queries\<close>

definition keys :: "('j, 'w) step \<Rightarrow> string list" where
  "keys st = sort_Strings (map fst (st_recs st))"

definition episode :: "(string \<times> Record) list \<Rightarrow> string \<Rightarrow> int" where
  "episode recs subject =
     int (length (remdups (map (\<lambda>(k, r). rc_ProposalID r)
       (filter (\<lambda>(k, r). rc_Subject r = subject \<and> rc_Recovery r = RecoveryRecovered) recs)))) + 1"

definition Attempt_less :: "Record \<Rightarrow> Record \<Rightarrow> bool" where
  "Attempt_less a b \<longleftrightarrow> rc_Attempt a < rc_Attempt b"

definition attempts :: "('j, 'w) step \<Rightarrow> string \<Rightarrow> Record list" where
  "attempts st proposalID = sort_slice Attempt_less
     (List.map_filter (\<lambda>k. case map_of (st_recs st) k of
          Some r \<Rightarrow> if rc_ProposalID r = proposalID then Some r else None
        | None \<Rightarrow> None) (keys st))"

definition latest_step :: "('j, 'w) step \<Rightarrow> string \<Rightarrow> (string \<times> Record) list \<Rightarrow> (string \<times> Record) list" where
  "latest_step st k m = (case map_of (st_recs st) k of
       None \<Rightarrow> m
     | Some r \<Rightarrow>
         (case map_of m (rc_Subject r) of
            None \<Rightarrow> AList.update (rc_Subject r) r m
          | Some cur \<Rightarrow>
              if rc_CreatedAt cur < rc_CreatedAt r \<or> rc_CreatedAt r = rc_CreatedAt cur \<and> rc_Key cur < rc_Key r
              then AList.update (rc_Subject r) r m else m))"

definition latestPerSubject :: "('j, 'w) step \<Rightarrow> Record list" where
  "latestPerSubject st = sort_slice Record_key_less (map snd (fold (latest_step st) (keys st) []))"

definition busy :: "('j, 'w) step \<Rightarrow> string \<Rightarrow> string \<Rightarrow> bool" where
  "busy st targetUID proposalID \<longleftrightarrow>
     list_ex (\<lambda>(k, r). rc_TargetUID r = targetUID \<and> rc_ProposalID r \<noteq> proposalID \<and> occupies (rc_Phase r)) (st_recs st)"

definition wakeAt :: "instant \<Rightarrow> ('j, 'w) step \<Rightarrow> ('j, 'w) step" where
  "wakeAt t st =
     (if \<not> now_of st < t then st
      else if IsZero (st_wake st) \<or> t < st_wake st then st\<lparr>st_wake := t\<rparr>
      else st)"

definition own :: "('j, 'w) step \<Rightarrow> Record \<Rightarrow> bool" where
  "own st r \<longleftrightarrow> rc_Fence r \<le> st_epoch st"

definition matches :: "Record \<Rightarrow> string \<Rightarrow> 64 word \<Rightarrow> string \<Rightarrow> bool" where
  "matches r key fence digest \<longleftrightarrow> key = rc_Key r \<and> fence = rc_SentFence r \<and> digest = rc_Digest r"

definition containsReason :: "ViewReason list \<Rightarrow> ViewCode \<Rightarrow> bool" where
  "containsReason rs code \<longleftrightarrow> list_ex (\<lambda>r. vr_Code r = code) rs"

section \<open>Writing\<close>

text \<open>\<open>put\<close> persists a record under this engine's epoch and returns the stored record; \<open>put_at\<close> is
  \<open>put\<close> on the pointer the step holds under key \<open>k\<close>.\<close>

definition put :: "('j, 'w) engine_env \<Rightarrow> Record \<Rightarrow> ('j, 'w) step \<Rightarrow> Record option \<times> ('j, 'w) step" where
  "put E next st =
     (let st = (if rc_Fence next < st_epoch st \<and> rc_Version next \<noteq> 0
           then st\<lparr>st_stats := (st_stats st)\<lparr>sx_Takeovers := sx_Takeovers (st_stats st) + 1\<rparr>\<rparr> else st);
          next = next\<lparr>rc_Fence := st_epoch st\<rparr>
      in case j_Put (eg_Journal E) next (st_journal st) of
           (Inl err, j) \<Rightarrow>
             (None, st\<lparr>st_journal := j, st_stats := (st_stats st)\<lparr>sx_JournalFailures := sx_JournalFailures (st_stats st) + 1\<rparr>\<rparr>)
         | (Inr stored, j) \<Rightarrow> (Some stored, st\<lparr>st_journal := j\<rparr>))"

definition put_at :: "('j, 'w) engine_env \<Rightarrow> string \<Rightarrow> Record \<Rightarrow> ('j, 'w) step \<Rightarrow> Record option \<times> ('j, 'w) step" where
  "put_at E k next st = (case put E next st of
       (None, st) \<Rightarrow> (None, st)
     | (Some stored, st) \<Rightarrow> (Some stored, st\<lparr>st_recs := AList.update k stored (st_recs st)\<rparr>))"

section \<open>Gates and approval\<close>

text \<open>The execution block of a proposal. Every derived proposal has one (\<open>derive_executable\<close>), so the
  second case is never taken.\<close>

definition Execution_zero :: Execution where
  "Execution_zero = \<lparr>ex_Provider = '''', ex_Approvers = [], ex_ExpectedImpact = [], ex_MayInterrupt = [],
     ex_AckTimeout = 0, ex_CompletionTimeout = 0, ex_RecoveryWindow = 0, ex_ApprovalTTL = 0, ex_MaxSends = 0,
     ex_MaxAttempts = 0, ex_Retryable = False\<rparr>"

definition exec_of :: "Proposal \<Rightarrow> Execution" where
  "exec_of p = (case re_Execution (pr_Response p) of Some ex \<Rightarrow> ex | None \<Rightarrow> Execution_zero)"

definition precondition_gate :: "ViewReason \<Rightarrow> ViewReason list" where
  "precondition_gate pc =
     (if vr_Code pc = VDeclared ''unmet'' then [reason VPreconditionUnmet (vr_Subject pc)]
      else if vr_Code pc = VDeclared ''unproven'' then [reason VPreconditionUnproven (vr_Subject pc)]
      else [])"

definition gates :: "('j, 'w) engine_env \<Rightarrow> Proposal \<Rightarrow> bool \<Rightarrow> ('j, 'w) step \<Rightarrow> ViewReason list" where
  "gates E p resend st =
     (let r = pr_Response p; ex = exec_of p in
      (if re_Owner r = '''' then [reason VOwnerUndeclared ''''] else []) @
      (if pr_OwnerConflict p then [reason VOwnerConflict ''''] else []) @
      (if pr_Human p \<noteq> [] \<and> ex_Approvers ex = [] then [reason VNoApprover ''''] else []) @
      (case eg_Providers E (ex_Provider ex) of
         None \<Rightarrow> [reason VProviderUnregistered (ex_Provider ex)]
       | Some reg \<Rightarrow>
           if \<not> authorises reg (re_Owner r) (ti_Namespace (bi_Target (pr_Binding p))) (re_Action r)
           then [reason VAuthorityInsufficient (ex_Provider ex)] else []) @
      concat (map precondition_gate (pr_Preconditions p)) @
      (if \<not> j_Durable (eg_Journal E) (st_journal st) then [reason VJournalNotDurable ''''] else []) @
      (if \<not> resend \<and> busy st (ti_UID (bi_Target (pr_Binding p))) (pr_ID p) then [reason VTargetBusy ''''] else []))"

definition invalid :: "('j, 'w) engine_env \<Rightarrow> Proposal \<Rightarrow> Decision \<Rightarrow> instant \<Rightarrow> ViewCode option" where
  "invalid E p d now =
     (let ex = exec_of p in
      if (case eg_Verifier E of None \<Rightarrow> True | Some verify \<Rightarrow> \<not> verify d) then Some VApprovalUnverified
      else if de_Principal d \<notin> set (ex_Approvers ex) then Some VApproverNotAllowed
      else if de_Digest d \<noteq> pr_Digest p then Some VApprovalDigestMismatch
      else if now < de_DecidedAt d then Some VApprovalFuture
      else if ApprovalAge ex < time_Sub now (de_DecidedAt d) then Some VApprovalExpired
      else None)"

text \<open>The loop variables of \<open>approval\<close>.\<close>

record ballot =
  bl_approved :: "Approval option"
  bl_by :: Decision
  bl_rejected :: bool
  bl_notes :: "ViewReason list"

definition approval_step :: "('j, 'w) engine_env \<Rightarrow> Proposal \<Rightarrow> Decision \<Rightarrow> ballot \<times> ('j, 'w) step \<Rightarrow> ballot \<times> ('j, 'w) step" where
  "approval_step E p d acc = (case acc of (b, st) \<Rightarrow>
     if de_ProposalID d \<noteq> pr_ID p then (b, st)
     else case invalid E p d (now_of st) of
       Some code \<Rightarrow>
         (if containsReason (bl_notes b) code then b else b\<lparr>bl_notes := bl_notes b @ [reason code '''']\<rparr>, st)
     | None \<Rightarrow>
         if de_Verdict d = Reject then (b\<lparr>bl_rejected := True\<rparr>, st)
         else if de_Verdict d = Approve \<and> bl_approved b = None then
           (b\<lparr>bl_approved := Some \<lparr>ap_Kind = KindHuman, ap_Principal = de_Principal d, ap_DecisionID = de_ID d\<rparr>, bl_by := d\<rparr>,
            wakeAt (de_DecidedAt d + ApprovalAge (exec_of p)) st)
         else (b, st))"

definition policy_principal :: "Proposal \<Rightarrow> string" where
  "policy_principal p = ''policy:'' @ pr_ProfileRevision p"

definition ballot_zero :: ballot where
  "ballot_zero = \<lparr>bl_approved = None, bl_by = Decision_zero, bl_rejected = False, bl_notes = []\<rparr>"

definition approval :: "('j, 'w) engine_env \<Rightarrow> Proposal \<Rightarrow> ('j, 'w) step \<Rightarrow> ballot \<times> ('j, 'w) step" where
  "approval E p st =
     (if pr_Human p = [] then
        (ballot_zero\<lparr>bl_approved := Some \<lparr>ap_Kind = KindPolicy, ap_Principal = policy_principal p, ap_DecisionID = ''''\<rparr>\<rparr>, st)
      else case fold (approval_step E p) (st_decisions st) (ballot_zero, st) of
        (b, st) \<Rightarrow> (if bl_rejected b then b\<lparr>bl_approved := None, bl_by := Decision_zero\<rparr> else b, st))"

definition stillApproved :: "('j, 'w) engine_env \<Rightarrow> Proposal \<Rightarrow> Record \<Rightarrow> ('j, 'w) step \<Rightarrow> bool \<times> ('j, 'w) step" where
  "stillApproved E p r st = (case approval E p st of (b, st) \<Rightarrow>
     if bl_rejected b then (False, st)
     else
       let a = rc_Approval r; d = rc_Decision r in
       if ap_Kind a = KindPolicy then (pr_Human p = [] \<and> ap_Principal a = policy_principal p, st)
       else if ap_Kind a \<noteq> KindHuman \<or> pr_Human p = [] \<or> de_ID d \<noteq> ap_DecisionID a \<or> de_Principal d \<noteq> ap_Principal a \<or>
          de_ProposalID d \<noteq> pr_ID p \<or> de_Verdict d \<noteq> Approve \<or> invalid E p d (now_of st) \<noteq> None then (False, st)
       else (list_ex (\<lambda>s. Decision_same s d) (st_decisions st), st))"

section \<open>Sending and advancing\<close>

definition handoff_of :: "Record \<Rightarrow> Handoff" where
  "handoff_of r =
     \<lparr>h_Key = rc_Key r, h_Fence = rc_SentFence r, h_ProposalID = rc_ProposalID r, h_Digest = rc_Digest r, h_Action = rc_Action r,
      h_Owner = rc_Owner r, h_Target = bi_Target (rc_Binding r), h_ResolvedUID = bi_ResolvedUID (rc_Binding r),
      h_Contract = bi_Contract (rc_Binding r), h_For = rc_For r, h_ExpectedImpact = rc_Expected r, h_Approval = rc_Approval r\<rparr>"

definition accept_receipt :: "instant \<Rightarrow> Record \<Rightarrow> Receipt \<Rightarrow> Record" where
  "accept_receipt now r rc =
     (if rp_Accepted rc then r\<lparr>rc_Phase := PhaseAccepted, rc_AckedAt := now, rc_ProviderRef := rp_Ref rc\<rparr>
      else r\<lparr>rc_Phase := PhaseFailed, rc_Refused := True, rc_AckedAt := now, rc_CompletedAt := now, rc_ProviderRef := rp_Ref rc\<rparr>)"

definition send :: "('j, 'w) engine_env \<Rightarrow> Record \<Rightarrow> ('j, 'w) step \<Rightarrow> ('j, 'w) step option" where
  "send E r st =
     (let st = count_submit st in
      case pv_Submit (eg_Conn E) (rc_Provider r) (handoff_of r) (st_world st) of (answer, w) \<Rightarrow>
        let st = st\<lparr>st_world := w, st_sent := st_sent st @ [(handoff_of r, st_journal st)]\<rparr> in
        case answer of
          None \<Rightarrow>
            let st = count_send_failure st in
            (case go_quot (rc_AckTimeout r) (rc_MaxSends r) of
               None \<Rightarrow> None
             | Some interval \<Rightarrow> Some (wakeAt (rc_LastSentAt r + interval) st))
        | Some rc \<Rightarrow>
            if \<not> matches r (rp_Key rc) (rp_Fence rc) (rp_Digest rc) then Some (count_ignored st)
            else case put_at E (rc_Key r) (accept_receipt (now_of st) r rc) st of
              (None, st) \<Rightarrow> Some st
            | (Some stored, st) \<Rightarrow>
                Some (if rc_Phase stored = PhaseAccepted then wakeAt (now_of st + rc_CompletionTimeout stored) st else st))"

text \<open>What \<open>adopt\<close> writes for a result, or whether it ignores it.\<close>

datatype adoption = Skip | Ignore | Write Record

definition adopt_next :: "instant \<Rightarrow> Record \<Rightarrow> Result \<Rightarrow> adoption" where
  "adopt_next now r res = (case rt_State res of
       ResultPending \<Rightarrow>
         if rc_Phase r \<noteq> PhaseDispatching then Skip
         else Write (r\<lparr>rc_Phase := PhaseAccepted, rc_AckedAt := now, rc_ProviderRef := rt_Ref res\<rparr>)
     | ResultRefused \<Rightarrow>
         if \<not> IsZero (rc_AckedAt r) then Ignore
         else Write (r\<lparr>rc_Phase := PhaseFailed, rc_Refused := True, rc_AckedAt := now, rc_CompletedAt := now,
           rc_ProviderRef := rt_Ref res\<rparr>)
     | ResultSucceeded \<Rightarrow>
         Write (r\<lparr>rc_Phase := PhaseSucceeded, rc_AckedAt := (if IsZero (rc_AckedAt r) then now else rc_AckedAt r),
           rc_CompletedAt := now, rc_EndedAt := now, rc_ProviderRef := rt_Ref res\<rparr>)
     | ResultFailed \<Rightarrow>
         Write (r\<lparr>rc_Phase := PhaseFailed, rc_AckedAt := (if IsZero (rc_AckedAt r) then now else rc_AckedAt r),
           rc_CompletedAt := now, rc_EndedAt := now, rc_ProviderRef := rt_Ref res\<rparr>)
     | ResultUnknown \<Rightarrow> Skip
     | ResultOther x \<Rightarrow> Skip)"

definition adopt :: "('j, 'w) engine_env \<Rightarrow> string \<Rightarrow> Record \<Rightarrow> Result \<Rightarrow> ('j, 'w) step \<Rightarrow> bool \<times> ('j, 'w) step" where
  "adopt E k r res st = (case adopt_next (now_of st) r res of
       Skip \<Rightarrow> (False, st)
     | Ignore \<Rightarrow> (False, count_ignored st)
     | Write next \<Rightarrow>
         (case put_at E k next st of
            (None, st) \<Rightarrow> (False, st)
          | (Some stored, st) \<Rightarrow>
              (True, let st = count_adopted st in
                 if rc_Phase stored = PhaseAccepted then wakeAt (rc_AckedAt stored + rc_CompletionTimeout stored) st else st)))"

text \<open>The first half of \<open>advance\<close> asks the provider, the second applies the clock.\<close>

definition poll :: "('j, 'w) engine_env \<Rightarrow> string \<Rightarrow> Record \<Rightarrow> ('j, 'w) step \<Rightarrow> bool \<times> ('j, 'w) step" where
  "poll E k r st = (case eg_Providers E (rc_Provider r) of
       None \<Rightarrow> (False, st)
     | Some reg \<Rightarrow>
         (case pv_Result (eg_Conn E) (rc_Provider r) (rc_Key r) (st_world st) of (answer, w) \<Rightarrow>
            let st = st\<lparr>st_world := w\<rparr> in
            case answer of
              None \<Rightarrow> (False, st)
            | Some res \<Rightarrow>
                if rt_State res = ResultUnknown then (False, st)
                else if \<not> matches r (rt_Key res) (rt_Fence res) (rt_Digest res) then (False, count_ignored st)
                else adopt E k r res st))"

definition revalidate :: "('j, 'w) engine_env \<Rightarrow> Record \<Rightarrow> ('j, 'w) step \<Rightarrow> bool \<times> ('j, 'w) step" where
  "revalidate E r st = (case map_of (st_props st) (rc_ProposalID r) of
       None \<Rightarrow> (False, st)
     | Some p \<Rightarrow>
         if pr_Digest p \<noteq> rc_Digest r \<or> eg_Providers E (rc_Provider r) = None \<or> gates E p True st \<noteq> [] then (False, st)
         else stillApproved E p r st)"

definition deadline :: "('j, 'w) engine_env \<Rightarrow> string \<Rightarrow> Record \<Rightarrow> ('j, 'w) step \<Rightarrow> ('j, 'w) step option" where
  "deadline E k r st =
     (let now = now_of st in
      case rc_Phase r of
        PhaseDispatching \<Rightarrow>
          if \<not> now < rc_CreatedAt r + rc_AckTimeout r then
            Some (snd (put_at E k (r\<lparr>rc_Phase := PhaseTimedOut, rc_CompletedAt := now\<rparr>) st))
          else
            let st = wakeAt (rc_CreatedAt r + rc_AckTimeout r) st in
            (case go_quot (rc_AckTimeout r) (rc_MaxSends r) of
               None \<Rightarrow> None
             | Some interval \<Rightarrow>
                 if rc_MaxSends r \<le> rc_Sends r \<or> now < rc_LastSentAt r + interval then
                   Some (wakeAt (rc_LastSentAt r + interval) st)
                 else case revalidate E r st of
                   (False, st) \<Rightarrow> Some (snd (put_at E k (r\<lparr>rc_Phase := PhaseWithdrawn, rc_CompletedAt := now\<rparr>) st))
                 | (True, st) \<Rightarrow>
                     (case put_at E k (r\<lparr>rc_Sends := rc_Sends r + 1, rc_LastSentAt := now, rc_SentFence := st_epoch st\<rparr>) st of
                        (None, st) \<Rightarrow> Some st
                      | (Some stored, st) \<Rightarrow> send E stored (count_resend st)))
      | PhaseAccepted \<Rightarrow>
          if \<not> now < rc_AckedAt r + rc_CompletionTimeout r then
            Some (snd (put_at E k (r\<lparr>rc_Phase := PhaseTimedOut, rc_CompletedAt := now\<rparr>) st))
          else Some (wakeAt (rc_AckedAt r + rc_CompletionTimeout r) st)
      | PhaseTimedOut \<Rightarrow> map_option (\<lambda>interval. wakeAt (now + interval) st) (go_quot (rc_AckTimeout r) (rc_MaxSends r))
      | PhaseWithdrawn \<Rightarrow> map_option (\<lambda>interval. wakeAt (now + interval) st) (go_quot (rc_AckTimeout r) (rc_MaxSends r))
      | _ \<Rightarrow> Some st)"

definition advance :: "('j, 'w) engine_env \<Rightarrow> string \<Rightarrow> Record \<Rightarrow> ('j, 'w) step \<Rightarrow> ('j, 'w) step option" where
  "advance E k r st =
     (if \<not> own st r then Some st
      else case poll E k r st of
        (True, st) \<Rightarrow> Some st
      | (False, st) \<Rightarrow> deadline E k r st)"

definition recover :: "('j, 'w) engine_env \<Rightarrow> string \<Rightarrow> Record \<Rightarrow> ('j, 'w) step \<Rightarrow> ('j, 'w) step option" where
  "recover E k r st = (case assessRecovery r (in_Snapshot (st_in st)) (now_of st) of
       None \<Rightarrow> None
     | Some (Inl err) \<Rightarrow> Some st
     | Some (Inr (rec, detail)) \<Rightarrow>
         Some (if \<not> Recovery_final rec then
             wakeAt (rc_EndedAt r + rc_RecoveryWindow r)
               (st\<lparr>st_recs := AList.update k (r\<lparr>rc_Recovery := rec, rc_RecoveryDetail := detail\<rparr>) (st_recs st)\<rparr>)
           else snd (put_at E k (r\<lparr>rc_Recovery := rec, rc_RecoveryDetail := detail\<rparr>) st)))"

section \<open>Deciding\<close>

definition recordView :: "('j, 'w) step \<Rightarrow> Record \<Rightarrow> View" where
  "recordView st r =
     \<lparr>vw_ProposalID = rc_ProposalID r, vw_Digest = rc_Digest r, vw_Action = rc_Action r, vw_For = rc_For r,
      vw_Phase = rc_Phase r, vw_Attempt = rc_Attempt r,
      vw_Reasons =
        (case map_of (st_props st) (rc_ProposalID r) of
           None \<Rightarrow> []
         | Some p \<Rightarrow> if pr_Digest p \<noteq> rc_Digest r \<and> inFlight (rc_Phase r) then [reason VIdentityChanged ''''] else []) @
        (if rc_Recovery r = RecoveryInapplicable then [reason VIdentityChanged '''']
         else if rc_Phase r = PhaseTimedOut \<or> rc_Phase r = PhaseWithdrawn then [reason VOutcomeUnknown '''']
         else if Recovery_final (rc_Recovery r) \<and> rc_Recovery r \<noteq> RecoveryRecovered then [reason VExecutedNotRecovered '''']
         else []) @
        (if rc_Phase r = PhaseFailed \<and> (\<not> rc_Retryable r \<or> rc_MaxAttempts r \<le> rc_Attempt r)
         then [reason VAttemptsExhausted ''''] else []),
      vw_Recovery = rc_Recovery r, vw_Detail = rc_RecoveryDetail r\<rparr>"

definition attempt_key :: "string \<Rightarrow> int \<Rightarrow> string" where
  "attempt_key proposalID attempt = proposalID @ ''/'' @ show_int attempt"

definition new_record :: "('j, 'w) step \<Rightarrow> Proposal \<Rightarrow> int \<Rightarrow> Approval \<Rightarrow> Decision \<Rightarrow> Record" where
  "new_record st p attempt approved by_d =
     (let ex = exec_of p; now = now_of st in
      \<lparr>rc_Key = attempt_key (pr_ID p) attempt, rc_ProposalID = pr_ID p, rc_Subject = pr_Subject p,
       rc_TargetUID = ti_UID (bi_Target (pr_Binding p)), rc_Digest = pr_Digest p, rc_Attempt = attempt,
       rc_Phase = PhaseDispatching, rc_Fence = st_epoch st, rc_SentFence = st_epoch st, rc_Sends = 1,
       rc_Approval = approved, rc_Decision = by_d, rc_Refused = False, rc_Binding = pr_Binding p,
       rc_Action = re_Action (pr_Response p), rc_Provider = ex_Provider ex, rc_Owner = re_Owner (pr_Response p),
       rc_For = pr_For p, rc_Expected = pr_Expected p, rc_Execution = ex, rc_CreatedAt = now, rc_LastSentAt = now,
       rc_AckedAt = 0, rc_CompletedAt = 0, rc_EndedAt = 0, rc_ProviderRef = '''',
       rc_AckTimeout = ex_AckTimeout ex, rc_CompletionTimeout = ex_CompletionTimeout ex,
       rc_RecoveryWindow = ex_RecoveryWindow ex, rc_Retryable = ex_Retryable ex, rc_MaxAttempts = AttemptBudget ex,
       rc_MaxSends = SendBudget ex, rc_Recovery = RecoveryNone, rc_RecoveryDetail = [], rc_Version = 0\<rparr>)"

definition base_view :: "Proposal \<Rightarrow> int \<Rightarrow> View" where
  "base_view p attempt =
     \<lparr>vw_ProposalID = pr_ID p, vw_Digest = pr_Digest p, vw_Action = re_Action (pr_Response p), vw_For = pr_For p,
      vw_Phase = PhaseNone, vw_Attempt = attempt, vw_Reasons = [], vw_Recovery = RecoveryNone, vw_Detail = []\<rparr>"

text \<open>The last statements of \<open>decide\<close>: persist, then send.\<close>

definition dispatch :: "('j, 'w) engine_env \<Rightarrow> Proposal \<Rightarrow> int \<Rightarrow> Approval \<Rightarrow> Decision \<Rightarrow> ('j, 'w) step \<Rightarrow> (View \<times> ('j, 'w) step) option" where
  "dispatch E p attempt approved by_d st =
     (case put E (new_record st p attempt approved by_d) st of
        (None, st) \<Rightarrow>
          Some ((base_view p attempt)\<lparr>vw_Phase := PhaseBlocked, vw_Reasons := [reason VJournalWriteFailed '''']\<rparr>, st)
      | (Some stored, st) \<Rightarrow>
          (case send E stored (st\<lparr>st_recs := AList.update (rc_Key stored) stored (st_recs st)\<rparr>) of
             None \<Rightarrow> None
           | Some st \<Rightarrow>
               let stored = (case map_of (st_recs st) (rc_Key stored) of Some r \<Rightarrow> r | None \<Rightarrow> stored) in
               map_option (\<lambda>interval. let st = wakeAt (rc_CreatedAt stored + interval) st in (recordView st stored, st))
                 (go_quot (rc_AckTimeout stored) (rc_MaxSends stored))))"

definition decide :: "('j, 'w) engine_env \<Rightarrow> Proposal \<Rightarrow> ('j, 'w) step \<Rightarrow> (View \<times> ('j, 'w) step) option" where
  "decide E p st =
     (let rs = attempts st (pr_ID p);
          over = (\<lambda>r. inFlight (rc_Phase r) \<or> rc_Phase r \<noteq> PhaseFailed \<or> \<not> rc_Retryable r \<or> rc_MaxAttempts r \<le> rc_Attempt r)
      in if rs \<noteq> [] \<and> over (last rs) then Some (recordView st (last rs), st)
         else
           let attempt = (if rs = [] then 1 else rc_Attempt (last rs) + 1);
               v = base_view p attempt;
               gs = gates E p False st;
               human = map (\<lambda>h. reason (VDeclared h) '''') (pr_Human p)
           in case approval E p st of (b, st) \<Rightarrow>
             if bl_rejected b then Some (v\<lparr>vw_Phase := PhaseRejected\<rparr>, st)
             else if gs \<noteq> [] then
               Some (v\<lparr>vw_Phase := PhaseBlocked, vw_Reasons := gs @ (if bl_approved b = None then human else [])\<rparr>, st)
             else case bl_approved b of
               None \<Rightarrow> Some (v\<lparr>vw_Phase := PhaseAwaitingApproval, vw_Reasons := human @ bl_notes b\<rparr>, st)
             | Some approved \<Rightarrow> dispatch E p attempt approved (bl_by b) st)"

section \<open>One step\<close>

fun foldo :: "('a \<Rightarrow> 's \<Rightarrow> 's option) \<Rightarrow> 'a list \<Rightarrow> 's \<Rightarrow> 's option" where
  "foldo f [] s = Some s"
| "foldo f (x # xs) s = (case f x s of None \<Rightarrow> None | Some s' \<Rightarrow> foldo f xs s')"

definition advance_key :: "('j, 'w) engine_env \<Rightarrow> string \<Rightarrow> ('j, 'w) step \<Rightarrow> ('j, 'w) step option" where
  "advance_key E k st = (case map_of (st_recs st) k of
       None \<Rightarrow> Some st
     | Some r \<Rightarrow> if occupies (rc_Phase r) then advance E k r st else Some st)"

definition recover_key :: "('j, 'w) engine_env \<Rightarrow> string \<Rightarrow> ('j, 'w) step \<Rightarrow> ('j, 'w) step option" where
  "recover_key E k st = (case map_of (st_recs st) k of
       None \<Rightarrow> Some st
     | Some r \<Rightarrow> if \<not> IsZero (rc_EndedAt r) \<and> \<not> Recovery_final (rc_Recovery r) then recover E k r st else Some st)"

record shown =
  sh_views :: "(string \<times> View list) list"
  sh_shown :: "string list"
  sh_listed :: "string list"

definition add_view :: "string \<Rightarrow> View \<Rightarrow> shown \<Rightarrow> shown" where
  "add_view uid v o' =
     o'\<lparr>sh_views := AList.update uid ((case map_of (sh_views o') uid of None \<Rightarrow> [] | Some vs \<Rightarrow> vs) @ [v]) (sh_views o'),
        sh_listed := vw_ProposalID v # sh_listed o'\<rparr>"

definition decide_one :: "('j, 'w) engine_env \<Rightarrow> Proposal \<Rightarrow> shown \<times> ('j, 'w) step \<Rightarrow> (shown \<times> ('j, 'w) step) option" where
  "decide_one E p acc = (case acc of (o', st) \<Rightarrow>
     map_option (\<lambda>(v, st).
       let o' = add_view (ti_UID (bi_Target (pr_Binding p))) v o' in (o'\<lparr>sh_shown := pr_Subject p # sh_shown o'\<rparr>, st))
     (decide E p st))"

definition show_latest :: "('j, 'w) step \<Rightarrow> Record \<Rightarrow> shown \<Rightarrow> shown" where
  "show_latest st r o' =
     (if rc_Subject r \<in> set (sh_shown o') then o'
      else if targetOf (in_Snapshot (st_in st)) (rc_TargetUID r) = None then o'
      else add_view (rc_TargetUID r) (recordView st r) o')"

definition show_live :: "('j, 'w) step \<Rightarrow> string \<Rightarrow> shown \<Rightarrow> shown" where
  "show_live st k o' = (case map_of (st_recs st) k of
       None \<Rightarrow> o'
     | Some r \<Rightarrow>
         if \<not> occupies (rc_Phase r) \<or> rc_ProposalID r \<in> set (sh_listed o') then o'
         else if targetOf (in_Snapshot (st_in st)) (rc_TargetUID r) = None then o'
         else add_view (rc_TargetUID r) (recordView st r) o')"

definition View_less :: "View \<Rightarrow> View \<Rightarrow> bool" where
  "View_less a b \<longleftrightarrow> vw_ProposalID a < vw_ProposalID b"

definition run_step :: "('j, 'w) engine_env \<Rightarrow> Proposal list \<Rightarrow> ('j, 'w) step \<Rightarrow> (Output \<times> ('j, 'w) step) option" where
  "run_step E props st =
     (case foldo (advance_key E) (keys st) st of
        None \<Rightarrow> None
      | Some st \<Rightarrow>
          (case foldo (recover_key E) (keys st) st of
             None \<Rightarrow> None
           | Some st \<Rightarrow>
               (case foldo (decide_one E) props (\<lparr>sh_views = [], sh_shown = [], sh_listed = []\<rparr>, st) of
                  None \<Rightarrow> None
                | Some (o', st) \<Rightarrow>
                    let o' = fold (show_latest st) (latestPerSubject st) o';
                        o' = fold (show_live st) (keys st) o'
                    in Some (\<lparr>ou_Views = map (\<lambda>(uid, vs). (uid, sort_slice View_less vs)) (sh_views o'),
                              ou_NextWake = st_wake st\<rparr>, st))))"

datatype StepError = ErrEpoch | ErrList

definition Decision_less :: "Decision \<Rightarrow> Decision \<Rightarrow> bool" where
  "Decision_less a b \<longleftrightarrow> de_ID a < de_ID b"

definition claim_epoch :: "('j, 'w) engine_env \<Rightarrow> ('j, 'w) Engine \<Rightarrow> (StepError option) \<times> ('j, 'w) Engine" where
  "claim_epoch E e =
     (if en_epoch e = 0 then
        (case j_Epoch (eg_Journal E) (en_journal e) of
           (None, j) \<Rightarrow> (Some ErrEpoch, e\<lparr>en_journal := j\<rparr>)
         | (Some ep, j) \<Rightarrow> (None, e\<lparr>en_journal := j, en_epoch := ep\<rparr>))
      else (None, e))"

definition read_decisions :: "('j, 'w) engine_env \<Rightarrow> ('j, 'w) Engine \<Rightarrow> Decision list \<times> ('j, 'w) Engine" where
  "read_decisions E e = (case eg_Decisions E of
       None \<Rightarrow> ([], e)
     | Some source \<Rightarrow>
         (case source (en_world e) of
            (None, w) \<Rightarrow>
              ([], e\<lparr>en_world := w, en_stats := (en_stats e)\<lparr>sx_DecisionFailures := sx_DecisionFailures (en_stats e) + 1\<rparr>\<rparr>)
          | (Some ds, w) \<Rightarrow> (sort_slice Decision_less ds, e\<lparr>en_world := w\<rparr>)))"

definition load_records :: "Record list \<Rightarrow> (string \<times> Record) list" where
  "load_records l = fold (\<lambda>r m. AList.update (rc_Key r) r m) l []"

definition begin_step :: "('j, 'w) engine_env \<Rightarrow> Input \<Rightarrow> Record list \<Rightarrow> ('j, 'w) Engine \<Rightarrow> Proposal list \<times> ('j, 'w) step" where
  "begin_step E inp l e =
     (case read_decisions E e of (ds, e) \<Rightarrow>
        let recs = load_records l;
            props = derive (eg_digest E) (in_Snapshot inp) (in_Assessment inp) (in_Profile inp) (episode recs)
        in (props,
            \<lparr>st_epoch = en_epoch e, st_stats = en_stats e, st_journal = en_journal e, st_world = en_world e, st_in = inp,
             st_recs = recs, st_props = fold (\<lambda>p m. AList.update (pr_ID p) p m) props [], st_decisions = ds, st_wake = 0,
             st_sent = []\<rparr>))"

definition end_step :: "('j, 'w) step \<Rightarrow> ('j, 'w) Engine" where
  "end_step st = \<lparr>en_epoch = st_epoch st, en_stats = st_stats st, en_journal = st_journal st, en_world = st_world st\<rparr>"

text \<open>The last component lists what was submitted.\<close>

definition Step :: "('j, 'w) engine_env \<Rightarrow> Input \<Rightarrow> ('j, 'w) Engine \<Rightarrow>
    ((StepError + Output) \<times> ('j, 'w) Engine \<times> (Handoff \<times> 'j) list) option" where
  "Step E inp e = (case claim_epoch E e of
       (Some err, e) \<Rightarrow> Some (Inl err, e, [])
     | (None, e) \<Rightarrow>
         (case j_List (eg_Journal E) (en_journal e) of
            None \<Rightarrow> Some (Inl ErrList, e, [])
          | Some l \<Rightarrow>
              (case begin_step E inp l e of (props, st) \<Rightarrow>
                 map_option (\<lambda>(out, st). (Inr out, end_step st, st_sent st)) (run_step E props st))))"

end
