(* ===== verification/Action_Effects.thy ===== *)
theory Action_Effects
  imports Action_Engine
begin

text \<open>
  The engine as a state machine. \<open>transition\<close> lists the changes one execution record may undergo;
  \<open>effect\<close> lists what an engine may do to its journal and its providers, one action at a time: write a
  transition, persist a new attempt, submit a persisted attempt, or change only counters, its wake time and
  the providers' own state. Every operation of \<open>Action_Engine\<close> is a sequence of effects
  (locale \<open>engine\<close>, over any journal that keeps its contract), so what all effects preserve, the engine
  preserves.
\<close>

section \<open>Records\<close>

definition stored_as :: "64 word \<Rightarrow> Record \<Rightarrow> Record" where
  "stored_as ep r = r\<lparr>rc_Fence := ep, rc_Version := rc_Version r + 1\<rparr>"

inductive transition :: "instant \<Rightarrow> 64 word \<Rightarrow> Record \<Rightarrow> Record \<Rightarrow> bool" for now ep where
  acknowledged: "rc_Phase r = PhaseDispatching \<Longrightarrow>
    transition now ep r (r\<lparr>rc_Phase := PhaseAccepted, rc_AckedAt := now, rc_ProviderRef := ref\<rparr>)"
| refused: "occupies (rc_Phase r) \<Longrightarrow> rc_Phase r = PhaseDispatching \<or> IsZero (rc_AckedAt r) \<Longrightarrow>
    transition now ep r (r\<lparr>rc_Phase := PhaseFailed, rc_Refused := True, rc_AckedAt := now, rc_CompletedAt := now,
      rc_ProviderRef := ref\<rparr>)"
| ended: "occupies (rc_Phase r) \<Longrightarrow> ph = PhaseSucceeded \<or> ph = PhaseFailed \<Longrightarrow>
    transition now ep r (r\<lparr>rc_Phase := ph, rc_AckedAt := at, rc_CompletedAt := now, rc_EndedAt := now, rc_ProviderRef := ref\<rparr>)"
| timed_out: "rc_Phase r = PhaseDispatching \<and> rc_CreatedAt r + rc_AckTimeout r \<le> now \<or>
      rc_Phase r = PhaseAccepted \<and> rc_AckedAt r + rc_CompletionTimeout r \<le> now \<Longrightarrow>
    transition now ep r (r\<lparr>rc_Phase := PhaseTimedOut, rc_CompletedAt := now\<rparr>)"
| withdrawn: "rc_Phase r = PhaseDispatching \<Longrightarrow>
    transition now ep r (r\<lparr>rc_Phase := PhaseWithdrawn, rc_CompletedAt := now\<rparr>)"
| resent: "rc_Phase r = PhaseDispatching \<Longrightarrow> rc_Sends r < rc_MaxSends r \<Longrightarrow>
    transition now ep r (r\<lparr>rc_Sends := rc_Sends r + 1, rc_LastSentAt := now, rc_SentFence := ep\<rparr>)"
| recovery: "\<not> IsZero (rc_EndedAt r) \<Longrightarrow> \<not> Recovery_final (rc_Recovery r) \<Longrightarrow> Recovery_final rec \<Longrightarrow>
    transition now ep r (r\<lparr>rc_Recovery := rec, rc_RecoveryDetail := detail\<rparr>)"

inductive_cases transitionE: "transition now ep r r'"

section \<open>Authority\<close>

text \<open>The gates that do not depend on other attempts.\<close>

definition cleared :: "('j, 'w) engine_env \<Rightarrow> 'j \<Rightarrow> Proposal \<Rightarrow> bool" where
  "cleared E j p \<longleftrightarrow>
     re_Owner (pr_Response p) \<noteq> '''' \<and> \<not> pr_OwnerConflict p \<and>
     (pr_Human p = [] \<or> ex_Approvers (exec_of p) \<noteq> []) \<and>
     (\<exists>reg. eg_Providers E (ex_Provider (exec_of p)) = Some reg \<and>
        authorises reg (re_Owner (pr_Response p)) (ti_Namespace (bi_Target (pr_Binding p))) (re_Action (pr_Response p))) \<and>
     (\<forall>pc \<in> set (pr_Preconditions p). vr_Code pc \<noteq> VDeclared ''unmet'' \<and> vr_Code pc \<noteq> VDeclared ''unproven'') \<and>
     j_Durable (eg_Journal E) j"

lemma precondition_gate_Nil [simp]:
  "precondition_gate pc = [] \<longleftrightarrow> vr_Code pc \<noteq> VDeclared ''unmet'' \<and> vr_Code pc \<noteq> VDeclared ''unproven''"
  by (simp add: precondition_gate_def)

lemma gates_Nil_iff:
  "gates E p resend st = [] \<longleftrightarrow> cleared E (st_journal st) p \<and>
     (resend \<or> \<not> busy st (ti_UID (bi_Target (pr_Binding p))) (pr_ID p))"
proof (cases "eg_Providers E (ex_Provider (exec_of p))")
  case None
  then show ?thesis by (simp add: gates_def cleared_def Let_def)
next
  case (Some reg)
  have "concat (map precondition_gate (pr_Preconditions p)) = [] \<longleftrightarrow>
      (\<forall>pc \<in> set (pr_Preconditions p). vr_Code pc \<noteq> VDeclared ''unmet'' \<and> vr_Code pc \<noteq> VDeclared ''unproven'')" by simp
  with Some show ?thesis by (simp only: gates_def cleared_def Let_def append_is_Nil_conv if_singleton_Nil option.case) blast
qed

text \<open>An approval that stands: the policy's where no person must decide, otherwise a submitted, valid
  decision to approve that no valid rejection opposes.\<close>

definition approved_by :: "('j, 'w) engine_env \<Rightarrow> instant \<Rightarrow> Decision list \<Rightarrow> Proposal \<Rightarrow> Approval \<Rightarrow> Decision \<Rightarrow> bool" where
  "approved_by E now ds p a d \<longleftrightarrow>
     (if pr_Human p = [] then ap_Kind a = KindPolicy \<and> ap_Principal a = policy_principal p
      else ap_Kind a = KindHuman \<and> d \<in> set ds \<and> ap_DecisionID a = de_ID d \<and> ap_Principal a = de_Principal d \<and>
        de_ProposalID d = pr_ID p \<and> de_Verdict d = Approve \<and> invalid E p d now = None \<and>
        (\<forall>d' \<in> set ds. de_ProposalID d' = pr_ID p \<and> de_Verdict d' = Reject \<longrightarrow> invalid E p d' now \<noteq> None))"

section \<open>Frames\<close>

definition frame :: "('j, 'w) step \<Rightarrow> ('j, 'w) step \<Rightarrow> bool" where
  "frame st st' \<longleftrightarrow> st_epoch st' = st_epoch st \<and> st_in st' = st_in st \<and> st_props st' = st_props st \<and>
     st_decisions st' = st_decisions st"

definition quiet :: "('j, 'w) step \<Rightarrow> ('j, 'w) step \<Rightarrow> bool" where
  "quiet st st' \<longleftrightarrow> frame st st' \<and> st_journal st' = st_journal st \<and> st_recs st' = st_recs st \<and> st_sent st' = st_sent st"

lemma quiet_refl [simp]: "quiet st st"
  by (simp add: quiet_def frame_def)

lemma quiet_trans: "quiet st st' \<Longrightarrow> quiet st' st'' \<Longrightarrow> quiet st st''"
  by (simp add: quiet_def frame_def)

lemma quietD:
  assumes "quiet st st'"
  shows "st_epoch st' = st_epoch st" "st_in st' = st_in st" "st_props st' = st_props st"
    "st_decisions st' = st_decisions st" "st_journal st' = st_journal st" "st_recs st' = st_recs st" "st_sent st' = st_sent st"
  using assms by (simp_all add: quiet_def frame_def)

lemma quiet_steps [simp]:
  "quiet st (wakeAt t st)" "quiet st (count_ignored st)" "quiet st (count_adopted st)" "quiet st (count_resend st)"
  "quiet st (count_submit st)" "quiet st (count_send_failure st)" "quiet st (st\<lparr>st_world := w\<rparr>)"
  by (simp_all add: quiet_def frame_def wakeAt_def count_ignored_def count_adopted_def count_resend_def count_submit_def
      count_send_failure_def)

lemma wakeAt_fields [simp]:
  "st_epoch (wakeAt t st) = st_epoch st" "st_in (wakeAt t st) = st_in st" "st_props (wakeAt t st) = st_props st"
  "st_decisions (wakeAt t st) = st_decisions st" "st_journal (wakeAt t st) = st_journal st" "st_recs (wakeAt t st) = st_recs st"
  "st_sent (wakeAt t st) = st_sent st" "st_world (wakeAt t st) = st_world st" "st_stats (wakeAt t st) = st_stats st"
  by (simp_all add: wakeAt_def)

lemma count_fields [simp]:
  "st_epoch (count_ignored st) = st_epoch st" "st_in (count_ignored st) = st_in st" "st_props (count_ignored st) = st_props st"
  "st_decisions (count_ignored st) = st_decisions st" "st_journal (count_ignored st) = st_journal st"
  "st_recs (count_ignored st) = st_recs st" "st_sent (count_ignored st) = st_sent st"
  "st_epoch (count_adopted st) = st_epoch st" "st_in (count_adopted st) = st_in st" "st_props (count_adopted st) = st_props st"
  "st_decisions (count_adopted st) = st_decisions st" "st_journal (count_adopted st) = st_journal st"
  "st_recs (count_adopted st) = st_recs st" "st_sent (count_adopted st) = st_sent st"
  by (simp_all add: count_ignored_def count_adopted_def)

text \<open>Deciding reads the decisions and moves the wake time only.\<close>

lemma approval_step_quiet: "quiet st (snd (approval_step E p d (b, st)))"
  by (auto simp: approval_step_def split: option.splits)

lemma approval_fold_quiet: "quiet st (snd (fold (approval_step E p) ds (b, st)))"
proof (induction ds arbitrary: b st)
  case (Cons d ds)
  obtain b' st' where s: "approval_step E p d (b, st) = (b', st')" by fastforce
  then have "quiet st st'" using approval_step_quiet [of st E p d b] by simp
  with Cons [of st' b'] s show ?case by (auto intro: quiet_trans)
qed simp

lemma approval_quiet: "approval E p st = (b, st') \<Longrightarrow> quiet st st'"
  using approval_fold_quiet [of st E p "st_decisions st" ballot_zero]
  by (auto simp: approval_def split: if_splits prod.splits)

lemma stillApproved_quiet: "stillApproved E p r st = (x, st') \<Longrightarrow> quiet st st'"
  by (auto simp: stillApproved_def Let_def dest!: approval_quiet split: prod.splits if_splits)

lemma revalidate_quiet: "revalidate E r st = (x, st') \<Longrightarrow> quiet st st'"
  by (auto simp: revalidate_def dest: stillApproved_quiet split: option.splits if_splits)


section \<open>What an approval is\<close>

definition rejection :: "('j, 'w) engine_env \<Rightarrow> instant \<Rightarrow> Proposal \<Rightarrow> Decision \<Rightarrow> bool" where
  "rejection E now p d \<longleftrightarrow> de_ProposalID d = pr_ID p \<and> invalid E p d now = None \<and> de_Verdict d = Reject"

definition ballot_ok :: "('j, 'w) engine_env \<Rightarrow> instant \<Rightarrow> Proposal \<Rightarrow> Decision set \<Rightarrow> ballot \<Rightarrow> bool" where
  "ballot_ok E now p D b \<longleftrightarrow>
     (bl_rejected b \<longleftrightarrow> (\<exists>d \<in> D. rejection E now p d)) \<and>
     (\<forall>a. bl_approved b = Some a \<longrightarrow> (let d = bl_by b in
        a = \<lparr>ap_Kind = KindHuman, ap_Principal = de_Principal d, ap_DecisionID = de_ID d\<rparr> \<and> d \<in> D \<and>
        de_ProposalID d = pr_ID p \<and> invalid E p d now = None \<and> de_Verdict d = Approve))"

lemma approval_step_ok:
  assumes "ballot_ok E (now_of st) p D b" and "approval_step E p d (b, st) = (b', st')"
  shows "ballot_ok E (now_of st) p (insert d D) b'"
proof (cases "de_ProposalID d = pr_ID p \<and> invalid E p d (now_of st) = None")
  case True
  then show ?thesis
    using assms by (cases "de_Verdict d = Reject"; cases "de_Verdict d = Approve \<and> bl_approved b = None")
      (auto simp: approval_step_def ballot_ok_def rejection_def Let_def)
next
  case False
  then have "b' = b \<or> (\<exists>n. b' = b\<lparr>bl_notes := n\<rparr>)" and "\<not> rejection E (now_of st) p d"
    using assms(2) by (auto simp: approval_step_def rejection_def split: if_splits option.splits)
  with assms(1) show ?thesis by (auto simp: ballot_ok_def Let_def)
qed

lemma approval_fold_ok:
  "ballot_ok E (now_of st) p D b \<Longrightarrow> ballot_ok E (now_of st) p (D \<union> set ds) (fst (fold (approval_step E p) ds (b, st)))"
proof (induction ds arbitrary: b st D)
  case (Cons d ds)
  obtain b' st' where s: "approval_step E p d (b, st) = (b', st')" by fastforce
  have "st_in st' = st_in st" using quietD(2) [OF approval_step_quiet [of st E p d b]] s by simp
  with Cons.IH [of st' "insert d D" b'] approval_step_ok [OF Cons.prems s] s show ?case by simp
qed simp

lemma approval_ok:
  assumes "approval E p st = (b, st')"
  shows "bl_approved b = Some a \<Longrightarrow> approved_by E (now_of st) (st_decisions st) p a (bl_by b)"
    and "bl_rejected b \<longleftrightarrow> pr_Human p \<noteq> [] \<and> (\<exists>d \<in> set (st_decisions st). rejection E (now_of st) p d)"
proof -
  let ?b = "fst (fold (approval_step E p) (st_decisions st) (ballot_zero, st))"
  have "ballot_ok E (now_of st) p {} ballot_zero" by (simp add: ballot_ok_def ballot_zero_def)
  from approval_fold_ok [OF this, of "st_decisions st"] have ok: "ballot_ok E (now_of st) p (set (st_decisions st)) ?b" by simp
  have b: "b = (if pr_Human p = [] then ballot_zero\<lparr>bl_approved := Some \<lparr>ap_Kind = KindPolicy, ap_Principal = policy_principal p,
      ap_DecisionID = ''''\<rparr>\<rparr> else if bl_rejected ?b then ?b\<lparr>bl_approved := None, bl_by := Decision_zero\<rparr> else ?b)"
    using assms by (auto simp: approval_def split: if_splits prod.splits)
  show "bl_rejected b \<longleftrightarrow> pr_Human p \<noteq> [] \<and> (\<exists>d \<in> set (st_decisions st). rejection E (now_of st) p d)"
    using ok unfolding b by (simp add: ballot_ok_def ballot_zero_def)
  show "bl_approved b = Some a \<Longrightarrow> approved_by E (now_of st) (st_decisions st) p a (bl_by b)"
    using ok unfolding b by (auto simp: ballot_ok_def approved_by_def rejection_def Let_def split: if_splits)
qed

lemma stillApproved_ok:
  assumes "stillApproved E p r st = (True, st')"
  shows "approved_by E (now_of st) (st_decisions st) p (rc_Approval r) (rc_Decision r)"
proof -
  obtain b st1 where a: "approval E p st = (b, st1)" by fastforce
  note q = quietD [OF approval_quiet [OF a]]
  have nr: "\<not> bl_rejected b" using assms a by (auto simp: stillApproved_def)
  show ?thesis
  proof (cases "ap_Kind (rc_Approval r) = KindPolicy")
    case True
    with assms a nr show ?thesis by (simp add: stillApproved_def Let_def approved_by_def)
  next
    case False
    with assms a nr have "ap_Kind (rc_Approval r) = KindHuman" "pr_Human p \<noteq> []"
        "de_ID (rc_Decision r) = ap_DecisionID (rc_Approval r)" "de_Principal (rc_Decision r) = ap_Principal (rc_Approval r)"
        "de_ProposalID (rc_Decision r) = pr_ID p" "de_Verdict (rc_Decision r) = Approve"
        "invalid E p (rc_Decision r) (now_of st) = None" "rc_Decision r \<in> set (st_decisions st)"
      using q by (auto simp: stillApproved_def Let_def list_ex_iff split: if_splits)
    with approval_ok(2) [OF a] nr show ?thesis by (auto simp: approved_by_def rejection_def)
  qed
qed

lemma revalidate_ok:
  assumes "revalidate E r st = (True, st')"
  obtains p where "map_of (st_props st) (rc_ProposalID r) = Some p" "pr_Digest p = rc_Digest r" "cleared E (st_journal st) p"
    "approved_by E (now_of st) (st_decisions st) p (rc_Approval r) (rc_Decision r)"
  using assms unfolding revalidate_def
  by (cases "map_of (st_props st) (rc_ProposalID r)") (auto simp: gates_Nil_iff dest: stillApproved_ok split: if_splits)

end
