(* ===== verification/Action_Machine.thy ===== *)
theory Action_Machine
  imports Action_Effects
begin

text \<open>
  Every operation of the engine is a sequence of effects. \<open>recs\<close> reads the journal by key; \<open>P\<close> are the
  proposals derived in the step.
\<close>

section \<open>Effects\<close>

text \<open>\<open>n\<close> is the number of the attempt after the last one of the proposal: the first, or one more than a
  failed one whose declaration allows a retry.\<close>

definition next_attempt :: "('j, 'w) step \<Rightarrow> Proposal \<Rightarrow> int \<Rightarrow> bool" where
  "next_attempt st p n \<longleftrightarrow>
     (\<forall>k r. map_of (st_recs st) k = Some r \<and> rc_ProposalID r = pr_ID p \<longrightarrow> rc_Attempt r < n) \<and>
     (n = 1 \<and> (\<forall>k r. map_of (st_recs st) k = Some r \<longrightarrow> rc_ProposalID r \<noteq> pr_ID p) \<or>
      (\<exists>k r. map_of (st_recs st) k = Some r \<and> rc_ProposalID r = pr_ID p \<and> n = rc_Attempt r + 1 \<and>
        rc_Phase r = PhaseFailed \<and> rc_Retryable r \<and> rc_Attempt r < rc_MaxAttempts r))"

inductive effect :: "('j, 'w) engine_env \<Rightarrow> ('j \<Rightarrow> string \<Rightarrow> Record option) \<Rightarrow> ('j \<Rightarrow> 64 word) \<Rightarrow> Proposal set \<Rightarrow>
    ('j, 'w) step \<Rightarrow> ('j, 'w) step \<Rightarrow> bool" for E recs newest P where
  bookkeeping: "quiet st st' \<Longrightarrow> effect E recs newest P st st'"
| wrote: "map_of (st_recs st) k = Some r \<Longrightarrow> transition (now_of st) (st_epoch st) r nxt \<Longrightarrow>
    j_Put (eg_Journal E) (nxt\<lparr>rc_Fence := st_epoch st\<rparr>) (st_journal st) = (Inr stored, st_journal st') \<Longrightarrow>
    frame st st' \<Longrightarrow> st_recs st' = AList.update k stored (st_recs st) \<Longrightarrow> st_sent st' = st_sent st \<Longrightarrow> effect E recs newest P st st'"
| fresh: "p \<in> P \<Longrightarrow> next_attempt st p n \<Longrightarrow> cleared E (st_journal st) p \<Longrightarrow>
    \<not> busy st (ti_UID (bi_Target (pr_Binding p))) (pr_ID p) \<Longrightarrow>
    approved_by E (now_of st) (st_decisions st) p a d \<Longrightarrow>
    j_Put (eg_Journal E) (new_record st p n a d) (st_journal st) = (Inr stored, st_journal st') \<Longrightarrow>
    frame st st' \<Longrightarrow> st_recs st' = AList.update (rc_Key stored) stored (st_recs st) \<Longrightarrow> st_sent st' = st_sent st \<Longrightarrow>
    effect E recs newest P st st'"
| submit: "map_of (st_recs st) (rc_Key r) = Some r \<Longrightarrow> recs (st_journal st) (rc_Key r) = Some r \<Longrightarrow>
    rc_Phase r = PhaseDispatching \<Longrightarrow> rc_SentFence r = st_epoch st \<Longrightarrow> rc_Fence r = st_epoch st \<Longrightarrow>
    \<not> st_epoch st < newest (st_journal st) \<Longrightarrow> p \<in> P \<Longrightarrow> pr_ID p = rc_ProposalID r \<Longrightarrow> pr_Digest p = rc_Digest r \<Longrightarrow> cleared E (st_journal st) p \<Longrightarrow>
    approved_by E (now_of st) (st_decisions st) p (rc_Approval r) (rc_Decision r) \<Longrightarrow>
    frame st st' \<Longrightarrow> st_journal st' = st_journal st \<Longrightarrow> st_recs st' = st_recs st \<Longrightarrow>
    st_sent st' = st_sent st @ [(handoff_of r, st_journal st)] \<Longrightarrow> effect E recs newest P st st'"
| display: "map_of (st_recs st) k = Some r \<Longrightarrow> \<not> IsZero (rc_EndedAt r) \<Longrightarrow> \<not> Recovery_final (rc_Recovery r) \<Longrightarrow>
    \<not> Recovery_final rec \<Longrightarrow> frame st st' \<Longrightarrow> st_journal st' = st_journal st \<Longrightarrow>
    st_recs st' = AList.update k (r\<lparr>rc_Recovery := rec, rc_RecoveryDetail := detail\<rparr>) (st_recs st) \<Longrightarrow>
    st_sent st' = st_sent st \<Longrightarrow> effect E recs newest P st st'"

abbreviation effects :: "('j, 'w) engine_env \<Rightarrow> ('j \<Rightarrow> string \<Rightarrow> Record option) \<Rightarrow> ('j \<Rightarrow> 64 word) \<Rightarrow> Proposal set \<Rightarrow>
    ('j, 'w) step \<Rightarrow> ('j, 'w) step \<Rightarrow> bool" where
  "effects E recs newest P \<equiv> (effect E recs newest P)\<^sup>*\<^sup>*"

lemma effects_quiet: "quiet st st' \<Longrightarrow> effects E recs newest P st st'"
  by (rule r_into_rtranclp) (rule effect.bookkeeping)

lemma effect_frame: "effect E recs newest P st st' \<Longrightarrow> frame st st'"
  by (induction rule: effect.induct) (simp_all add: quiet_def)

lemma frame_trans: "frame st st' \<Longrightarrow> frame st' st'' \<Longrightarrow> frame st st''"
  by (simp add: frame_def)

lemma effects_frame: "effects E recs newest P st st' \<Longrightarrow> frame st st'"
  by (induction rule: rtranclp_induct) (auto simp: frame_def dest!: effect_frame)

text \<open>Records sit under their keys, and the proposals looked up are the derived ones.\<close>

definition keyed :: "('j, 'w) step \<Rightarrow> bool" where
  "keyed st \<longleftrightarrow> distinct (map fst (st_recs st)) \<and> (\<forall>k r. map_of (st_recs st) k = Some r \<longrightarrow> rc_Key r = k)"

definition props_ok :: "Proposal set \<Rightarrow> ('j, 'w) step \<Rightarrow> bool" where
  "props_ok P st \<longleftrightarrow> (\<forall>k p. map_of (st_props st) k = Some p \<longrightarrow> p \<in> P \<and> pr_ID p = k)"

lemma props_ok_frame: "props_ok P st \<Longrightarrow> frame st st' \<Longrightarrow> props_ok P st'"
  by (simp add: props_ok_def frame_def)

lemma keyed_quiet: "keyed st \<Longrightarrow> quiet st st' \<Longrightarrow> keyed st'"
  by (simp add: keyed_def quiet_def)

lemma keyed_update:
  assumes "keyed st" and "rc_Key r = k" and "st_recs st' = AList.update k r (st_recs st)"
  shows "keyed st'"
  unfolding keyed_def
proof (intro conjI allI impI)
  show "distinct (map fst (st_recs st'))" using assms(1,3) by (simp add: keyed_def distinct_update)
  fix k' r' assume "map_of (st_recs st') k' = Some r'"
  then have "k' = k \<and> r' = r \<or> map_of (st_recs st) k' = Some r'" by (simp add: assms(3) update_conv split: if_splits)
  then show "rc_Key r' = k'" using assms(1,2) unfolding keyed_def by metis
qed

lemma transition_key: "transition now ep r nxt \<Longrightarrow> rc_Key nxt = rc_Key r"
  by (induction rule: transition.induct) simp_all

lemma sorted_wrt_last: "sorted_wrt R xs \<Longrightarrow> x \<in> set xs \<Longrightarrow> x = last xs \<or> R x (last xs)"
  by (induction xs) auto

section \<open>The engine over a journal that keeps its contract\<close>

locale engine = journal "eg_Journal E" inv recs newest
  for E :: "('j, 'w) engine_env" and inv :: "'j \<Rightarrow> bool"
    and recs :: "'j \<Rightarrow> string \<Rightarrow> Record option" and newest :: "'j \<Rightarrow> 64 word"
begin

lemma put_failed: "put E nxt st = (None, st') \<Longrightarrow> quiet st st'"
  using put_refused [of "nxt\<lparr>rc_Fence := st_epoch st\<rparr>" "st_journal st"]
  by (auto simp: put_def Let_def quiet_def frame_def split: prod.splits sum.splits if_splits)

lemma put_done:
  assumes "put E nxt st = (Some stored, st')"
  shows "j_Put (eg_Journal E) (nxt\<lparr>rc_Fence := st_epoch st\<rparr>) (st_journal st) = (Inr stored, st_journal st')"
    and "frame st st'" and "st_recs st' = st_recs st" and "st_sent st' = st_sent st"
    and "stored = stored_as (st_epoch st) nxt" and "recs (st_journal st') (rc_Key nxt) = Some stored"
    and "\<not> st_epoch st < newest (st_journal st')"
proof -
  show j: "j_Put (eg_Journal E) (nxt\<lparr>rc_Fence := st_epoch st\<rparr>) (st_journal st) = (Inr stored, st_journal st')"
    and "frame st st'" and "st_recs st' = st_recs st" and "st_sent st' = st_sent st"
    using assms by (auto simp: put_def Let_def frame_def split: prod.splits sum.splits if_splits)
  from put_stored [OF j] show "stored = stored_as (st_epoch st) nxt" and "recs (st_journal st') (rc_Key nxt) = Some stored"
    by (simp_all add: stored_as_def)
  show "\<not> st_epoch st < newest (st_journal st')"
    using put_fenced [of "nxt\<lparr>rc_Fence := st_epoch st\<rparr>" "st_journal st"] put_stored [OF j] j by auto
qed

lemma put_at_failed: "put_at E k nxt st = (None, st') \<Longrightarrow> quiet st st'"
  using put_failed by (auto simp: put_at_def split: prod.splits option.splits)

lemma put_at_done:
  assumes "put_at E k nxt st = (Some stored, st')"
  shows "j_Put (eg_Journal E) (nxt\<lparr>rc_Fence := st_epoch st\<rparr>) (st_journal st) = (Inr stored, st_journal st')"
    and "frame st st'" and "st_recs st' = AList.update k stored (st_recs st)" and "st_sent st' = st_sent st"
    and "stored = stored_as (st_epoch st) nxt" and "recs (st_journal st') (rc_Key nxt) = Some stored"
    and "\<not> st_epoch st < newest (st_journal st')"
proof -
  obtain st1 where p: "put E nxt st = (Some stored, st1)" and st': "st' = st1\<lparr>st_recs := AList.update k stored (st_recs st1)\<rparr>"
    using assms by (auto simp: put_at_def split: prod.splits option.splits)
  from put_done [OF p] show "j_Put (eg_Journal E) (nxt\<lparr>rc_Fence := st_epoch st\<rparr>) (st_journal st) = (Inr stored, st_journal st')"
    and "frame st st'" and "st_recs st' = AList.update k stored (st_recs st)" and "st_sent st' = st_sent st"
    and "stored = stored_as (st_epoch st) nxt" and "recs (st_journal st') (rc_Key nxt) = Some stored"
    and "\<not> st_epoch st < newest (st_journal st')"
    by (simp_all add: st' frame_def)
qed

lemma put_at_effects:
  assumes "put_at E k nxt st = (x, st')" and "map_of (st_recs st) k = Some r" and "transition (now_of st) (st_epoch st) r nxt"
  shows "effects E recs newest P st st'"
proof (cases x)
  case None
  with assms put_at_failed show ?thesis by (auto intro: effects_quiet)
next
  case (Some stored)
  note d = put_at_done [OF assms(1) [unfolded Some]]
  show ?thesis by (rule r_into_rtranclp, rule effect.wrote [OF assms(2,3) d(1-4)])
qed

lemma send_effects:
  assumes run: "send E r st = Some st'"
    and r: "map_of (st_recs st) (rc_Key r) = Some r" "recs (st_journal st) (rc_Key r) = Some r"
      "rc_Phase r = PhaseDispatching" "rc_SentFence r = st_epoch st" "rc_Fence r = st_epoch st" "\<not> st_epoch st < newest (st_journal st)"
    and p: "p \<in> P" "pr_ID p = rc_ProposalID r" "pr_Digest p = rc_Digest r" "cleared E (st_journal st) p"
      "approved_by E (now_of st) (st_decisions st) p (rc_Approval r) (rc_Decision r)"
  shows "effects E recs newest P st st'"
proof -
  obtain answer w where sub: "pv_Submit (eg_Conn E) (rc_Provider r) (handoff_of r) (st_world (count_submit st)) = (answer, w)"
    by fastforce
  define st1 where "st1 = (count_submit st)\<lparr>st_world := w, st_sent := st_sent st @ [(handoff_of r, st_journal st)]\<rparr>"
  have f1: "frame st st1" "st_journal st1 = st_journal st" "st_recs st1 = st_recs st"
      "st_sent st1 = st_sent st @ [(handoff_of r, st_journal st)]" "st_in st1 = st_in st" "st_epoch st1 = st_epoch st"
    by (simp_all add: st1_def count_submit_def frame_def)
  have e1: "effects E recs newest P st st1" by (rule r_into_rtranclp, rule effect.submit [where st = st and r = r and recs = recs and newest = newest and p = p and P = P and E = E and st' = st1, OF r p f1(1-4)])
  have "effects E recs newest P st1 st'"
  proof (cases answer)
    case None
    with run sub have "\<exists>t. st' = wakeAt t (count_send_failure st1)"
      by (auto simp: send_def st1_def Let_def count_submit_def split: option.splits)
    then have "quiet st1 st'" by (auto intro: quiet_trans [OF quiet_steps(6) quiet_steps(1)])
    then show ?thesis by (rule effects_quiet)
  next
    case (Some rc)
    show ?thesis
    proof (cases "matches r (rp_Key rc) (rp_Fence rc) (rp_Digest rc)")
      case False
      with run sub Some have "st' = count_ignored st1" by (simp add: send_def st1_def Let_def count_submit_def)
      then show ?thesis by (simp add: effects_quiet)
    next
      case True
      obtain x st2 where pa: "put_at E (rc_Key r) (accept_receipt (now_of st1) r rc) st1 = (x, st2)" by fastforce
      have "transition (now_of st1) (st_epoch st1) r (accept_receipt (now_of st1) r rc)"
        using r(3) by (simp add: accept_receipt_def transition.acknowledged transition.refused occupies_def)
      then have e2: "effects E recs newest P st1 st2" using put_at_effects [OF pa] r(1) f1(3) by simp
      have "\<exists>t. st' = st2 \<or> st' = wakeAt t st2"
        using run sub Some True pa by (auto simp: send_def st1_def Let_def count_submit_def split: option.splits prod.splits if_splits)
      then have "quiet st2 st'" by auto
      with e2 show ?thesis by (metis effects_quiet rtranclp_trans)
    qed
  qed
  with e1 show ?thesis by simp
qed

lemma adopt_next_transition:
  assumes "adopt_next now r res = Write nxt" and "occupies (rc_Phase r)"
  shows "transition now ep r nxt"
proof (cases "rt_State res = ResultSucceeded \<or> rt_State res = ResultFailed")
  case True
  define ph where "ph = (if rt_State res = ResultFailed then PhaseFailed else PhaseSucceeded)"
  have "nxt = r\<lparr>rc_Phase := ph, rc_AckedAt := (if IsZero (rc_AckedAt r) then now else rc_AckedAt r),
      rc_CompletedAt := now, rc_EndedAt := now, rc_ProviderRef := rt_Ref res\<rparr>"
    using assms(1) True unfolding adopt_next_def ph_def by (elim disjE) simp_all
  with assms(2) show ?thesis by (simp only: ph_def) (rule transition.ended, simp_all)
next
  case False
  then show ?thesis
    using assms by (auto simp: adopt_next_def split: ResultState.splits if_splits intro!: transition.acknowledged transition.refused)
qed

lemma adopt_effects:
  assumes "adopt E k r res st = (x, st')" and "map_of (st_recs st) k = Some r" and "occupies (rc_Phase r)"
  shows "effects E recs newest P st st' \<and> (\<not> x \<longrightarrow> quiet st st')"
proof (cases "adopt_next (now_of st) r res")
  case (Write nxt)
  obtain y st1 where pa: "put_at E k nxt st = (y, st1)" by fastforce
  have e: "effects E recs newest P st st1"
    by (rule put_at_effects [OF pa assms(2) adopt_next_transition [OF Write assms(3)]])
  show ?thesis
  proof (cases y)
    case None
    with assms(1) Write pa have "st' = st1" "\<not> x" by (simp_all add: adopt_def)
    with e put_at_failed [OF pa [unfolded None]] show ?thesis by simp
  next
    case (Some stored)
    with assms(1) Write pa have x: "x" and "st' = count_adopted st1 \<or> (\<exists>t. st' = wakeAt t (count_adopted st1))"
      by (auto simp: adopt_def Let_def split: if_splits)
    then have "quiet st1 st'" by (auto intro: quiet_trans [OF quiet_steps(3) quiet_steps(1)])
    with e x show ?thesis by (metis effects_quiet rtranclp_trans)
  qed
qed (use assms(1) in \<open>auto simp: adopt_def intro: effects_quiet\<close>)

lemma poll_effects:
  assumes "poll E k r st = (x, st')" and "map_of (st_recs st) k = Some r" and "occupies (rc_Phase r)"
  shows "effects E recs newest P st st' \<and> (\<not> x \<longrightarrow> quiet st st')"
proof (cases "eg_Providers E (rc_Provider r)")
  case None
  with assms(1) show ?thesis by (simp add: poll_def)
next
  case (Some reg)
  obtain answer w where res: "pv_Result (eg_Conn E) (rc_Provider r) (rc_Key r) (st_world st) = (answer, w)" by fastforce
  let ?st = "st\<lparr>st_world := w\<rparr>"
  have q: "quiet st ?st" by simp
  show ?thesis
  proof (cases "\<exists>rs. answer = Some rs \<and> rt_State rs \<noteq> ResultUnknown \<and> matches r (rt_Key rs) (rt_Fence rs) (rt_Digest rs)")
    case True
    then obtain rs where "answer = Some rs" "rt_State rs \<noteq> ResultUnknown" "matches r (rt_Key rs) (rt_Fence rs) (rt_Digest rs)"
      by blast
    with assms(1) Some res have "adopt E k r rs ?st = (x, st')" by (simp add: poll_def)
    from adopt_effects [OF this, of P] assms(2,3) have "effects E recs newest P ?st st'" "\<not> x \<longrightarrow> quiet ?st st'" by simp_all
    with q show ?thesis by (metis effects_quiet rtranclp_trans quiet_trans)
  next
    case False
    with assms(1) Some res have "\<not> x" "st' = ?st \<or> st' = count_ignored ?st"
      by (auto simp: poll_def Let_def split: option.splits if_splits)
    with q have "quiet st st'" by (auto intro: quiet_trans [OF _ quiet_steps(2)])
    with \<open>\<not> x\<close> show ?thesis by (simp add: effects_quiet)
  qed
qed

lemma cleared_put:
  assumes "cleared E j p" and "j_Put (eg_Journal E) r j = (Inr stored, j')"
  shows "cleared E j' p"
  using assms put_stored [OF assms(2)] by (simp add: cleared_def)

lemma resend_effects:
  assumes put: "put_at E k (r\<lparr>rc_Sends := rc_Sends r + 1, rc_LastSentAt := now_of st, rc_SentFence := st_epoch st\<rparr>) st = (Some stored, st1)"
    and run: "send E stored (count_resend st1) = Some st'"
    and r: "map_of (st_recs st) k = Some r" "rc_Key r = k" "rc_Phase r = PhaseDispatching" "rc_Sends r < rc_MaxSends r"
    and p: "p \<in> P" "pr_ID p = rc_ProposalID r" "pr_Digest p = rc_Digest r" "cleared E (st_journal st) p"
      "approved_by E (now_of st) (st_decisions st) p (rc_Approval r) (rc_Decision r)"
  shows "effects E recs newest P st st'"
proof -
  note d = put_at_done [OF put]
  have e: "effects E recs newest P st st1"
    by (rule put_at_effects [OF put r(1)]) (rule transition.resent [OF r(3,4)])
  have f: "st_epoch st1 = st_epoch st" "st_in st1 = st_in st" "st_decisions st1 = st_decisions st"
    using d(2) by (simp_all add: frame_def)
  have q: "quiet st1 (count_resend st1)" by simp
  have "effects E recs newest P (count_resend st1) st'"
  proof (rule send_effects [OF run])
    show "map_of (st_recs (count_resend st1)) (rc_Key stored) = Some stored"
      using d(3,5) r(2) by (simp add: count_resend_def stored_as_def update_conv)
    show "recs (st_journal (count_resend st1)) (rc_Key stored) = Some stored"
      using d(5,6) by (simp add: count_resend_def stored_as_def)
    show "cleared E (st_journal (count_resend st1)) p"
      using cleared_put [OF p(4) d(1)] by (simp add: count_resend_def)
    show "approved_by E (now_of (count_resend st1)) (st_decisions (count_resend st1)) p (rc_Approval stored) (rc_Decision stored)"
      using p(5) d(5) f by (simp add: count_resend_def stored_as_def)
  qed (use r(3) p(1-3) d(5,7) f in \<open>simp_all add: count_resend_def stored_as_def\<close>)
  with e q show ?thesis by (metis effects_quiet rtranclp_trans)
qed

lemma deadline_effects:
  assumes run: "deadline E k r st = Some st'"
    and r: "map_of (st_recs st) k = Some r" "rc_Key r = k" and P: "props_ok P st"
  shows "effects E recs newest P st st'"
proof (cases "rc_Phase r = PhaseDispatching \<and> now_of st < rc_CreatedAt r + rc_AckTimeout r")
  case True
  define st0 where "st0 = wakeAt (rc_CreatedAt r + rc_AckTimeout r) st"
  have q0: "quiet st st0" by (simp add: st0_def)
  note f0 = quietD [OF q0]
  from run True obtain interval where iv: "go_quot (rc_AckTimeout r) (rc_MaxSends r) = Some interval"
    by (auto simp: deadline_def Let_def split: option.splits)
  show ?thesis
  proof (cases "rc_MaxSends r \<le> rc_Sends r \<or> now_of st < rc_LastSentAt r + interval")
    case wait: True
    with run True iv have "st' = wakeAt (rc_LastSentAt r + interval) st0" by (simp add: deadline_def st0_def Let_def)
    with q0 show ?thesis by (auto intro: effects_quiet quiet_trans [OF _ quiet_steps(1)])
  next
    case go: False
    obtain ok st1 where rv: "revalidate E r st0 = (ok, st1)" by fastforce
    have q1: "quiet st st1" by (rule quiet_trans [OF q0 revalidate_quiet [OF rv]])
    note f1 = quietD [OF q1]
    have "effects E recs newest P st1 st'"
    proof (cases ok)
      case False
      obtain x st2 where pa: "put_at E k (r\<lparr>rc_Phase := PhaseWithdrawn, rc_CompletedAt := now_of st\<rparr>) st1 = (x, st2)" by fastforce
      with run True iv go rv False have "st' = st2" by (simp add: deadline_def st0_def Let_def)
      with put_at_effects [OF pa] r(1) True f1 show ?thesis by (auto intro: transition.withdrawn)
    next
      case ok: True
      obtain p where p: "map_of (st_props st0) (rc_ProposalID r) = Some p" "pr_Digest p = rc_Digest r"
          "cleared E (st_journal st0) p" "approved_by E (now_of st0) (st_decisions st0) p (rc_Approval r) (rc_Decision r)"
        using revalidate_ok [OF rv [unfolded eqTrueI [OF ok]]] by blast
      have pP: "p \<in> P" "pr_ID p = rc_ProposalID r" using p(1) P f0 by (auto simp: props_ok_def)
      obtain x st2 where pa: "put_at E k (r\<lparr>rc_Sends := rc_Sends r + 1, rc_LastSentAt := now_of st1, rc_SentFence := st_epoch st1\<rparr>) st1 = (x, st2)"
        by fastforce
      show ?thesis
      proof (cases x)
        case None
        with run True iv go rv ok pa f1 have "st' = st2" by (simp add: deadline_def st0_def Let_def)
        with put_at_failed [OF pa [unfolded None]] show ?thesis by (simp add: effects_quiet)
      next
        case (Some stored)
        with run True iv go rv ok pa f1 have s: "send E stored (count_resend st2) = Some st'"
          by (simp add: deadline_def st0_def Let_def)
        show ?thesis
          by (rule resend_effects [OF pa [unfolded Some] s, where p = p]) (use r True go p pP f0 f1 in simp_all)
      qed
    qed
    with q1 show ?thesis by (metis effects_quiet rtranclp_trans)
  qed
next
  case False
  have timeout: "effects E recs newest P st (snd (put_at E k (r\<lparr>rc_Phase := PhaseTimedOut, rc_CompletedAt := now_of st\<rparr>) st))"
    if "rc_Phase r = PhaseDispatching \<and> rc_CreatedAt r + rc_AckTimeout r \<le> now_of st \<or>
      rc_Phase r = PhaseAccepted \<and> rc_AckedAt r + rc_CompletionTimeout r \<le> now_of st"
    using put_at_effects [OF surjective_pairing r(1) transition.timed_out [OF that]] .
  show ?thesis
  proof (cases "rc_Phase r = PhaseDispatching \<or> rc_Phase r = PhaseAccepted \<and> rc_AckedAt r + rc_CompletionTimeout r \<le> now_of st")
    case True
    with run False have "st' = snd (put_at E k (r\<lparr>rc_Phase := PhaseTimedOut, rc_CompletedAt := now_of st\<rparr>) st)"
      by (auto simp: deadline_def Let_def not_less)
    with timeout True False show ?thesis by auto
  next
    case False
    with run have "quiet st st'"
      by (auto simp: deadline_def Let_def not_less split: Phase.splits)
    then show ?thesis by (rule effects_quiet)
  qed
qed

lemma advance_key_effects:
  assumes run: "advance_key E k st = Some st'" and "keyed st" and P: "props_ok P st"
  shows "effects E recs newest P st st'"
proof (cases "map_of (st_recs st) k")
  case None
  with run show ?thesis by (simp add: advance_key_def)
next
  case (Some r)
  then have key: "rc_Key r = k" using assms(2) by (simp add: keyed_def)
  show ?thesis
  proof (cases "occupies (rc_Phase r) \<and> own st r")
    case True
    obtain x st1 where po: "poll E k r st = (x, st1)" by fastforce
    note e = poll_effects [OF po Some conjunct1 [OF True], of P]
    show ?thesis
    proof (cases x)
      case x: True
      with run Some True po have "st' = st1" by (simp add: advance_key_def advance_def)
      with e show ?thesis by simp
    next
      case x: False
      with e have q: "quiet st st1" by simp
      note f = quietD [OF q]
      from x run Some True po have "deadline E k r st1 = Some st'" by (simp add: advance_key_def advance_def)
      from deadline_effects [OF this _ key] Some f P have "effects E recs newest P st1 st'" by (simp add: props_ok_def)
      with e show ?thesis by (metis rtranclp_trans)
    qed
  next
    case False
    with run Some have "st' = st" by (auto simp: advance_key_def advance_def split: if_splits)
    then show ?thesis by simp
  qed
qed

lemma recover_key_effects:
  assumes run: "recover_key E k st = Some st'"
  shows "effects E recs newest P st st'"
proof (cases "\<exists>r. map_of (st_recs st) k = Some r \<and> \<not> IsZero (rc_EndedAt r) \<and> \<not> Recovery_final (rc_Recovery r)")
  case False
  with run have "st' = st" by (auto simp: recover_key_def split: option.splits if_splits)
  then show ?thesis by simp
next
  case True
  then obtain r where r: "map_of (st_recs st) k = Some r" "\<not> IsZero (rc_EndedAt r)" "\<not> Recovery_final (rc_Recovery r)" by blast
  with run have rec: "recover E k r st = Some st'" by (simp add: recover_key_def)
  then obtain a where a: "assessRecovery r (in_Snapshot (st_in st)) (now_of st) = Some a"
    by (auto simp: recover_def split: option.splits)
  show ?thesis
  proof (cases a)
    case (Inl err)
    with rec a show ?thesis by (simp add: recover_def)
  next
    case (Inr b)
    obtain rc detail where b: "b = (rc, detail)" by fastforce
    show ?thesis
    proof (cases "Recovery_final rc")
      case True
      then have "transition (now_of st) (st_epoch st) r (r\<lparr>rc_Recovery := rc, rc_RecoveryDetail := detail\<rparr>)"
        by (rule transition.recovery [OF r(2,3)])
      moreover have "st' = snd (put_at E k (r\<lparr>rc_Recovery := rc, rc_RecoveryDetail := detail\<rparr>) st)"
        using rec a Inr b True by (simp add: recover_def)
      ultimately show ?thesis using put_at_effects [OF surjective_pairing r(1)] by simp
    next
      case False
      then have st': "st' = wakeAt (rc_EndedAt r + rc_RecoveryWindow r)
          (st\<lparr>st_recs := AList.update k (r\<lparr>rc_Recovery := rc, rc_RecoveryDetail := detail\<rparr>) (st_recs st)\<rparr>)"
        using rec a Inr b by (simp add: recover_def)
      show ?thesis
        by (rule r_into_rtranclp, rule effect.display [OF r False, where detail = detail]) (simp_all add: st' frame_def)
    qed
  qed
qed

lemma dispatch_effects:
  assumes run: "dispatch E p n a d st = Some (v, st')"
    and p: "p \<in> P" "next_attempt st p n" "cleared E (st_journal st) p"
      "\<not> busy st (ti_UID (bi_Target (pr_Binding p))) (pr_ID p)" "approved_by E (now_of st) (st_decisions st) p a d"
  shows "effects E recs newest P st st'"
proof -
  let ?r = "new_record st p n a d"
  obtain x st1 where pu: "put E ?r st = (x, st1)" by fastforce
  show ?thesis
  proof (cases x)
    case None
    with run pu have "st' = st1" by (simp add: dispatch_def)
    with put_failed [OF pu [unfolded None]] show ?thesis by (simp add: effects_quiet)
  next
    case (Some stored)
    note dn = put_done [OF pu [unfolded Some]]
    define st2 where "st2 = st1\<lparr>st_recs := AList.update (rc_Key stored) stored (st_recs st1)\<rparr>"
    have st: "stored = ?r\<lparr>rc_Version := 1\<rparr>" using dn(5) by (simp add: stored_as_def new_record_def Let_def)
    have f: "frame st st2" "st_recs st2 = AList.update (rc_Key stored) stored (st_recs st)" "st_sent st2 = st_sent st"
        "st_journal st2 = st_journal st1"
      using dn(2-4) by (simp_all add: st2_def frame_def)
    then have ff: "st_epoch st2 = st_epoch st" "st_in st2 = st_in st" "st_decisions st2 = st_decisions st"
      by (simp_all add: frame_def)
    have "?r\<lparr>rc_Fence := st_epoch st\<rparr> = ?r" by (simp add: new_record_def Let_def)
    then have put: "j_Put (eg_Journal E) ?r (st_journal st) = (Inr stored, st_journal st2)" using dn(1) f(4) by simp
    have e: "effects E recs newest P st st2"
      by (rule r_into_rtranclp, rule effect.fresh [OF p put f(1-3)])
    from run pu Some obtain st3 where sn: "send E stored st2 = Some st3"
      by (auto simp: dispatch_def st2_def split: option.splits)
    have e3: "effects E recs newest P st2 st3"
    proof (rule send_effects [OF sn])
      show "map_of (st_recs st2) (rc_Key stored) = Some stored" by (simp add: f(2) update_conv)
      show "recs (st_journal st2) (rc_Key stored) = Some stored" using dn(6) f(4) st by simp
      show "cleared E (st_journal st2) p" by (rule cleared_put [OF p(3) put])
      show "approved_by E (now_of st2) (st_decisions st2) p (rc_Approval stored) (rc_Decision stored)"
        using p(5) ff by (simp add: st new_record_def Let_def)
    qed (use p(1) ff f(4) dn(7) in \<open>simp_all add: st new_record_def Let_def\<close>)
    have "quiet st3 st'" using run pu Some sn by (auto simp: dispatch_def st2_def Let_def split: option.splits)
    with e e3 show ?thesis by (metis effects_quiet rtranclp_trans)
  qed
qed

lemma set_attempts:
  "r \<in> set (attempts st pid) \<longleftrightarrow> (\<exists>k. map_of (st_recs st) k = Some r) \<and> rc_ProposalID r = pid"
proof -
  have "k \<in> fst ` set (st_recs st)" if "map_of (st_recs st) k = Some r" for k
    using that by (force dest: map_of_SomeD)
  then show ?thesis
    by (auto simp: attempts_def keys_def List.map_filter_def split: option.splits if_splits) (auto simp: image_iff)
qed

lemma last_attempt:
  assumes "attempts st pid \<noteq> []" and "r \<in> set (attempts st pid)"
  shows "rc_Attempt r \<le> rc_Attempt (last (attempts st pid))"
proof -
  have "weak_less Attempt_less" by (rule weak_less_by_key [where key = rc_Attempt]) (simp add: Attempt_less_def)
  then have "sorted_wrt (\<lambda>a b. \<not> Attempt_less b a) (attempts st pid)"
    unfolding attempts_def by (rule weak_less.sorted_sort_slice)
  then have s: "sorted_wrt (\<lambda>a b. rc_Attempt a \<le> rc_Attempt b) (attempts st pid)"
    by (simp add: Attempt_less_def not_less)
  from sorted_wrt_last [OF s assms(2)] show ?thesis by auto
qed

lemma decide_next_attempt:
  assumes "attempts st (pr_ID p) = [] \<and> n = 1 \<or> attempts st (pr_ID p) \<noteq> [] \<and> n = rc_Attempt (last (attempts st (pr_ID p))) + 1 \<and>
      rc_Phase (last (attempts st (pr_ID p))) = PhaseFailed \<and> rc_Retryable (last (attempts st (pr_ID p))) \<and>
      rc_Attempt (last (attempts st (pr_ID p))) < rc_MaxAttempts (last (attempts st (pr_ID p)))"
  shows "next_attempt st p n"
proof (cases "attempts st (pr_ID p) = []")
  case True
  then have "rc_ProposalID r \<noteq> pr_ID p" if "map_of (st_recs st) k = Some r" for k r
    using that set_attempts [of r st "pr_ID p"] by auto
  with assms True show ?thesis unfolding next_attempt_def by auto
next
  case False
  let ?l = "last (attempts st (pr_ID p))"
  have "?l \<in> set (attempts st (pr_ID p))" using False by simp
  then obtain k where k: "map_of (st_recs st) k = Some ?l" "rc_ProposalID ?l = pr_ID p" unfolding set_attempts by blast
  have "rc_Attempt r < n" if "map_of (st_recs st) k' = Some r" "rc_ProposalID r = pr_ID p" for k' r
    using last_attempt [OF False, of r] that assms False unfolding set_attempts by auto
  with k assms False show ?thesis unfolding next_attempt_def by auto
qed

lemma decide_effects:
  assumes run: "decide E p st = Some (v, st')" and "p \<in> P"
  shows "effects E recs newest P st st'"
proof -
  let ?rs = "attempts st (pr_ID p)"
  let ?over = "\<lambda>r. inFlight (rc_Phase r) \<or> rc_Phase r \<noteq> PhaseFailed \<or> \<not> rc_Retryable r \<or> rc_MaxAttempts r \<le> rc_Attempt r"
  show ?thesis
  proof (cases "?rs \<noteq> [] \<and> ?over (last ?rs)")
    case True
    with run have "st' = st" by (simp add: decide_def Let_def split: if_splits)
    then show ?thesis by simp
  next
    case False
    define n where "n = (if ?rs = [] then 1 else rc_Attempt (last ?rs) + 1)"
    have na: "next_attempt st p n" using False by (intro decide_next_attempt) (auto simp: n_def)
    obtain b st1 where ap: "approval E p st = (b, st1)" by fastforce
    have q: "quiet st st1" by (rule approval_quiet [OF ap])
    note f = quietD [OF q]
    have "effects E recs newest P st1 st'"
    proof (cases "\<exists>a. \<not> bl_rejected b \<and> gates E p False st = [] \<and> bl_approved b = Some a")
      case True
      then obtain a where a: "\<not> bl_rejected b" "gates E p False st = []" "bl_approved b = Some a" by blast
      have "dispatch E p n a (bl_by b) st1 = Some (v, st')"
        using run False ap a by (auto simp: decide_def n_def Let_def split: if_splits)
      then show ?thesis
      proof (rule dispatch_effects [OF _ assms(2)])
        show "next_attempt st1 p n" using na unfolding next_attempt_def f(6) .
        show "cleared E (st_journal st1) p" "\<not> busy st1 (ti_UID (bi_Target (pr_Binding p))) (pr_ID p)"
          using a(2) f by (simp_all add: gates_Nil_iff busy_def)
        show "approved_by E (now_of st1) (st_decisions st1) p a (bl_by b)"
          using approval_ok(1) [OF ap a(3)] f by simp
      qed
    next
      case no: False
      have "st' = st1" using run False ap no by (auto simp: decide_def Let_def split: if_splits option.splits)
      then show ?thesis by simp
    qed
    with q show ?thesis by (metis effects_quiet rtranclp_trans)
  qed
qed

lemma effect_keyed: "effect E recs newest P st st' \<Longrightarrow> keyed st \<Longrightarrow> keyed st'"
proof (induction rule: effect.induct)
  case (bookkeeping st st')
  then show ?case by (metis keyed_quiet)
next
  case (wrote st k r nxt stored st')
  from put_stored [OF wrote(3)] have "rc_Key stored = rc_Key nxt" by simp
  then have "rc_Key stored = k" using wrote(1,7) transition_key [OF wrote(2)] unfolding keyed_def by metis
  with wrote(5,7) show ?case by (metis keyed_update)
next
  case (fresh p st n a d stored st')
  then show ?case by (metis keyed_update)
next
  case (submit st r p st')
  then show ?case unfolding keyed_def by metis
next
  case (display st k r rec st' detail)
  then have "rc_Key (r\<lparr>rc_Recovery := rec, rc_RecoveryDetail := detail\<rparr>) = k" unfolding keyed_def by simp
  with display(7,9) show ?case by (metis keyed_update)
qed

lemma effects_keyed: "effects E recs newest P st st' \<Longrightarrow> keyed st \<Longrightarrow> keyed st'"
  by (induction rule: rtranclp_induct) (simp_all add: effect_keyed)

lemma foldo_effects:
  assumes "foldo f xs s = Some s'" and "keyed (pick s)" and "props_ok P (pick s)"
    and "\<And>x s s'. x \<in> set xs \<Longrightarrow> f x s = Some s' \<Longrightarrow> keyed (pick s) \<Longrightarrow> props_ok P (pick s) \<Longrightarrow> effects E recs newest P (pick s) (pick s')"
  shows "effects E recs newest P (pick s) (pick s')"
  using assms
proof (induction xs arbitrary: s)
  case (Cons x xs)
  from Cons.prems(1) obtain s1 where s1: "f x s = Some s1" "foldo f xs s1 = Some s'" by (auto split: option.splits)
  have e: "effects E recs newest P (pick s) (pick s1)" by (rule Cons.prems(4) [OF _ s1(1) Cons.prems(2,3)]) simp
  have k: "keyed (pick s1)" by (rule effects_keyed [OF e Cons.prems(2)])
  have p: "props_ok P (pick s1)" by (rule props_ok_frame [OF Cons.prems(3) effects_frame [OF e]])
  have "effects E recs newest P (pick s1) (pick s')"
    by (rule Cons.IH [OF s1(2) k p]) (rule Cons.prems(4), simp_all)
  with e show ?case by (rule rtranclp_trans)
qed simp

lemma run_step_effects:
  assumes run: "run_step E props st = Some (out, st')" and k: "keyed st" and p: "props_ok (set props) st"
  shows "effects E recs newest (set props) st st'"
proof -
  let ?P = "set props"
  from run obtain st1 where s1: "foldo (advance_key E) (keys st) st = Some st1" by (auto simp: run_step_def split: option.splits)
  with run obtain st2 where s2: "foldo (recover_key E) (keys st1) st1 = Some st2" by (auto simp: run_step_def split: option.splits)
  with run s1 obtain o' where s3: "foldo (decide_one E) props (\<lparr>sh_views = [], sh_shown = [], sh_listed = []\<rparr>, st2) = Some (o', st')"
    by (auto simp: run_step_def Let_def split: option.splits)
  have e1: "effects E recs newest ?P st st1"
    by (rule foldo_effects [where pick = "\<lambda>s. s", OF s1 k p]) (rule advance_key_effects)
  note k1 = effects_keyed [OF e1 k] and p1 = props_ok_frame [OF p effects_frame [OF e1]]
  have e2: "effects E recs newest ?P st1 st2"
    by (rule foldo_effects [where pick = "\<lambda>s. s", OF s2 k1 p1]) (rule recover_key_effects)
  note k2 = effects_keyed [OF e2 k1] and p2 = props_ok_frame [OF p1 effects_frame [OF e2]]
  have "effects E recs newest ?P (snd (\<lparr>sh_views = [], sh_shown = [], sh_listed = []\<rparr> :: shown, st2)) (snd (o', st'))"
  proof (rule foldo_effects [where pick = snd, OF s3])
    fix q and s s' :: "shown \<times> ('j, 'w) step" assume "q \<in> set props" "decide_one E q s = Some s'"
    then show "effects E recs newest ?P (snd s) (snd s')"
      by (auto simp: decide_one_def Let_def intro: decide_effects split: prod.splits)
  qed (use k2 p2 in simp_all)
  with e1 e2 show ?thesis by simp
qed

end

end
