(* ===== verification/Action_Invariants.thy ===== *)
theory Action_Invariants
  imports Action_Machine
begin

text \<open>
  What every effect preserves: the well-formedness of records, the exclusive occupancy of targets and the
  order of attempts (\<open>ledger_ok\<close>), the agreement of the step with the journal (\<open>synced\<close>), and that whatever
  was submitted had been persisted and was authorised (\<open>submitted_ok\<close>).
\<close>

section \<open>The ledger\<close>

definition record_wf :: "Record \<Rightarrow> bool" where
  "record_wf r \<longleftrightarrow>
     rc_Key r = attempt_key (rc_ProposalID r) (rc_Attempt r) \<and>
     rc_Phase r \<in> {PhaseDispatching, PhaseAccepted, PhaseSucceeded, PhaseFailed, PhaseTimedOut, PhaseWithdrawn} \<and>
     (IsZero (rc_EndedAt r) \<or> (rc_Phase r = PhaseSucceeded \<or> rc_Phase r = PhaseFailed) \<and> \<not> rc_Refused r) \<and>
     (rc_Refused r \<longrightarrow> rc_Phase r = PhaseFailed) \<and>
     (Recovery_final (rc_Recovery r) \<longrightarrow> \<not> IsZero (rc_EndedAt r)) \<and>
     1 \<le> rc_Sends r \<and> rc_Sends r \<le> max 1 (rc_MaxSends r)"

type_synonym ledger = "string \<Rightarrow> Record option"

definition exclusive :: "ledger \<Rightarrow> bool" where
  "exclusive m \<longleftrightarrow> (\<forall>k k' r r'. m k = Some r \<and> m k' = Some r' \<and> occupies (rc_Phase r) \<and> occupies (rc_Phase r') \<and>
     rc_TargetUID r = rc_TargetUID r' \<longrightarrow> k = k')"

definition ordered :: "ledger \<Rightarrow> bool" where
  "ordered m \<longleftrightarrow> (\<forall>k k' r r'. m k = Some r \<and> m k' = Some r' \<and> rc_ProposalID r = rc_ProposalID r' \<and>
     rc_Attempt r < rc_Attempt r' \<longrightarrow> rc_Phase r = PhaseFailed)"

definition ledger_ok :: "ledger \<Rightarrow> bool" where
  "ledger_ok m \<longleftrightarrow> (\<forall>k r. m k = Some r \<longrightarrow> rc_Key r = k \<and> record_wf r) \<and> exclusive m \<and> ordered m"

lemma ledger_okD:
  assumes "ledger_ok m"
  shows "m k = Some r \<Longrightarrow> rc_Key r = k" "m k = Some r \<Longrightarrow> record_wf r"
    and "m k = Some r \<Longrightarrow> m k' = Some r' \<Longrightarrow> occupies (rc_Phase r) \<Longrightarrow> occupies (rc_Phase r') \<Longrightarrow>
      rc_TargetUID r = rc_TargetUID r' \<Longrightarrow> k = k'"
    and "m k = Some r \<Longrightarrow> m k' = Some r' \<Longrightarrow> rc_ProposalID r = rc_ProposalID r' \<Longrightarrow> rc_Attempt r < rc_Attempt r' \<Longrightarrow>
      rc_Phase r = PhaseFailed"
  using assms unfolding ledger_ok_def exclusive_def ordered_def by metis+

lemma ledger_okI:
  assumes "\<And>k r. m k = Some r \<Longrightarrow> rc_Key r = k \<and> record_wf r"
    and "\<And>k k' r r'. m k = Some r \<Longrightarrow> m k' = Some r' \<Longrightarrow> occupies (rc_Phase r) \<Longrightarrow> occupies (rc_Phase r') \<Longrightarrow>
      rc_TargetUID r = rc_TargetUID r' \<Longrightarrow> k = k'"
    and "\<And>k k' r r'. m k = Some r \<Longrightarrow> m k' = Some r' \<Longrightarrow> rc_ProposalID r = rc_ProposalID r' \<Longrightarrow> rc_Attempt r < rc_Attempt r' \<Longrightarrow>
      rc_Phase r = PhaseFailed"
  shows "ledger_ok m"
  unfolding ledger_ok_def exclusive_def ordered_def
  by (intro conjI allI impI; (elim conjE)?) (rule assms(1) [THEN conjunct1] assms(1) [THEN conjunct2] assms(2) assms(3); assumption)+

text \<open>Replacing a record by one that occupies no more and keeps its identity.\<close>

lemma ledger_ok_replace:
  assumes m: "ledger_ok m" "m k = Some r" and q: "rc_Key q = rc_Key r" "record_wf q"
    and same: "rc_TargetUID q = rc_TargetUID r" "rc_ProposalID q = rc_ProposalID r" "rc_Attempt q = rc_Attempt r"
    and occ: "occupies (rc_Phase q) \<Longrightarrow> occupies (rc_Phase r)" and fl: "rc_Phase r = PhaseFailed \<Longrightarrow> rc_Phase q = PhaseFailed"
  shows "ledger_ok (m(k \<mapsto> q))"
proof -
  note D = ledger_okD [OF m(1)]
  have old: "\<exists>r'. m k' = Some r' \<and> rc_TargetUID q' = rc_TargetUID r' \<and> rc_ProposalID q' = rc_ProposalID r' \<and>
      rc_Attempt q' = rc_Attempt r' \<and> (occupies (rc_Phase q') \<longrightarrow> occupies (rc_Phase r')) \<and>
      (rc_Phase r' = PhaseFailed \<longrightarrow> rc_Phase q' = PhaseFailed)" if "(m(k \<mapsto> q)) k' = Some q'" for k' q'
  proof (cases "k' = k")
    case True
    with that have "q' = q" by simp
    with True m(2) same occ fl show ?thesis by auto
  next
    case False
    with that show ?thesis by simp
  qed
  show ?thesis
  proof (rule ledger_okI)
    fix k' q' assume "(m(k \<mapsto> q)) k' = Some q'"
    then show "rc_Key q' = k' \<and> record_wf q'"
      using D(1) [OF m(2)] D(1,2) [of k' q'] q by (cases "k' = k") simp_all
  next
    fix k1 k2 q1 q2
    assume a: "(m(k \<mapsto> q)) k1 = Some q1" "(m(k \<mapsto> q)) k2 = Some q2" "occupies (rc_Phase q1)" "occupies (rc_Phase q2)"
      "rc_TargetUID q1 = rc_TargetUID q2"
    then show "k1 = k2" using D(3) old [OF a(1)] old [OF a(2)] by metis
  next
    fix k1 k2 q1 q2
    assume a: "(m(k \<mapsto> q)) k1 = Some q1" "(m(k \<mapsto> q)) k2 = Some q2" "rc_ProposalID q1 = rc_ProposalID q2"
      "rc_Attempt q1 < rc_Attempt q2"
    then show "rc_Phase q1 = PhaseFailed" using D(4) old [OF a(1)] old [OF a(2)] by metis
  qed
qed

text \<open>Adding an attempt to a free target, after the failed attempts of its proposal.\<close>

lemma ledger_ok_add:
  assumes m: "ledger_ok m" and q: "rc_Key q = k" "record_wf q"
    and free: "\<And>k' r. m k' = Some r \<Longrightarrow> occupies (rc_Phase r) \<Longrightarrow> rc_TargetUID r \<noteq> rc_TargetUID q"
    and prior: "\<And>k' r. m k' = Some r \<Longrightarrow> rc_ProposalID r = rc_ProposalID q \<Longrightarrow> rc_Attempt r < rc_Attempt q \<and> rc_Phase r = PhaseFailed"
  shows "ledger_ok (m(k \<mapsto> q))"
proof -
  note D = ledger_okD [OF m]
  have old: "k' = k \<and> r = q \<or> m k' = Some r" if "(m(k \<mapsto> q)) k' = Some r" for k' r
    using that by (simp split: if_splits)
  show ?thesis
  proof (rule ledger_okI)
    fix k' r assume "(m(k \<mapsto> q)) k' = Some r"
    then show "rc_Key r = k' \<and> record_wf r" using old D(1,2) q by metis
  next
    fix k1 k2 r1 r2
    assume a: "(m(k \<mapsto> q)) k1 = Some r1" "(m(k \<mapsto> q)) k2 = Some r2" "occupies (rc_Phase r1)" "occupies (rc_Phase r2)"
      "rc_TargetUID r1 = rc_TargetUID r2"
    then show "k1 = k2" using D(3) free old [OF a(1)] old [OF a(2)] by metis
  next
    fix k1 k2 r1 r2
    assume a: "(m(k \<mapsto> q)) k1 = Some r1" "(m(k \<mapsto> q)) k2 = Some r2" "rc_ProposalID r1 = rc_ProposalID r2"
      "rc_Attempt r1 < rc_Attempt r2"
    then show "rc_Phase r1 = PhaseFailed" using D(4) prior old [OF a(1)] old [OF a(2)] by (metis less_irrefl less_asym)
  qed
qed

section \<open>Transitions\<close>

lemma transition_identity:
  assumes "transition now ep r nxt"
  shows "rc_TargetUID nxt = rc_TargetUID r" "rc_ProposalID nxt = rc_ProposalID r" "rc_Attempt nxt = rc_Attempt r"
    "rc_Digest nxt = rc_Digest r" "rc_Approval nxt = rc_Approval r" "rc_Decision nxt = rc_Decision r"
    "rc_Binding nxt = rc_Binding r" "rc_Action nxt = rc_Action r" "rc_Provider nxt = rc_Provider r" "rc_MaxSends nxt = rc_MaxSends r"
  using assms by (induction rule: transition.induct) simp_all

lemma transition_occupies: "transition now ep r nxt \<Longrightarrow> occupies (rc_Phase nxt) \<Longrightarrow> occupies (rc_Phase r)"
  by (induction rule: transition.induct) (auto simp: occupies_def)

lemma transition_failed: "transition now ep r nxt \<Longrightarrow> rc_Phase r = PhaseFailed \<Longrightarrow> rc_Phase nxt = PhaseFailed"
  by (induction rule: transition.induct) (auto simp: occupies_def)

lemma record_wf_occupies: "record_wf r \<Longrightarrow> occupies (rc_Phase r) \<Longrightarrow> IsZero (rc_EndedAt r) \<and> \<not> rc_Refused r \<and> \<not> Recovery_final (rc_Recovery r)"
  unfolding record_wf_def occupies_def by (metis Phase.distinct)

lemma record_wf_ended:
  assumes wf: "record_wf r" and occ: "occupies (rc_Phase r)"
    and same: "rc_Key q = rc_Key r" "rc_ProposalID q = rc_ProposalID r" "rc_Attempt q = rc_Attempt r" "rc_Sends q = rc_Sends r"
      "rc_MaxSends q = rc_MaxSends r" "rc_Recovery q = rc_Recovery r"
    and ph: "rc_Phase q \<in> {PhaseAccepted, PhaseTimedOut, PhaseWithdrawn} \<and> \<not> rc_Refused q \<and> IsZero (rc_EndedAt q) \<or>
       (rc_Phase q = PhaseSucceeded \<or> rc_Phase q = PhaseFailed) \<and> \<not> rc_Refused q \<or>
       rc_Phase q = PhaseFailed \<and> rc_Refused q \<and> IsZero (rc_EndedAt q)"
  shows "record_wf q"
  using ph record_wf_occupies [OF wf occ] wf unfolding record_wf_def same by (elim disjE) (simp_all, blast+)

lemma transition_wf:
  assumes "transition now ep r nxt" and wf: "record_wf r"
  shows "record_wf nxt"
  using assms(1)
proof cases
  case (acknowledged ref)
  then have occ: "occupies (rc_Phase r)" by (simp add: occupies_def)
  show ?thesis by (rule record_wf_ended [OF wf occ]) (use acknowledged(1) record_wf_occupies [OF wf occ] in simp_all)
next
  case (refused ref)
  show ?thesis by (rule record_wf_ended [OF wf refused(2)]) (use refused(1) record_wf_occupies [OF wf refused(2)] in simp_all)
next
  case (ended ph at ref)
  show ?thesis by (rule record_wf_ended [OF wf ended(2)]) (use ended record_wf_occupies [OF wf ended(2)] in simp_all)
next
  case timed_out
  then have occ: "occupies (rc_Phase r)" by (auto simp: occupies_def)
  show ?thesis by (rule record_wf_ended [OF wf occ]) (use timed_out(1) record_wf_occupies [OF wf occ] in simp_all)
next
  case withdrawn
  then have occ: "occupies (rc_Phase r)" by (simp add: occupies_def)
  show ?thesis by (rule record_wf_ended [OF wf occ]) (use withdrawn(1) record_wf_occupies [OF wf occ] in simp_all)
next
  case resent
  then have "\<not> Recovery_final (rc_Recovery r)" using record_wf_occupies [OF wf] by (simp add: occupies_def)
  with resent wf show ?thesis by (simp add: record_wf_def)
next
  case (recovery rec detail)
  with wf show ?thesis by (simp add: record_wf_def)
qed

lemma stored_as_fields [simp]:
  "rc_Key (stored_as ep r) = rc_Key r" "rc_Phase (stored_as ep r) = rc_Phase r" "rc_TargetUID (stored_as ep r) = rc_TargetUID r"
  "rc_ProposalID (stored_as ep r) = rc_ProposalID r" "rc_Attempt (stored_as ep r) = rc_Attempt r"
  "rc_MaxSends (stored_as ep r) = rc_MaxSends r" "rc_Recovery (stored_as ep r) = rc_Recovery r"
  "record_wf (stored_as ep r) \<longleftrightarrow> record_wf r"
  by (simp_all add: stored_as_def record_wf_def)

lemma new_record_wf: "record_wf (new_record st p n a d)"
  by (simp add: record_wf_def new_record_def Let_def IsZero_def Recovery_final_def)

lemma new_record_fields [simp]:
  "rc_TargetUID (new_record st p n a d) = ti_UID (bi_Target (pr_Binding p))"
  "rc_ProposalID (new_record st p n a d) = pr_ID p" "rc_Attempt (new_record st p n a d) = n"
  "rc_MaxSends (new_record st p n a d) = SendBudget (exec_of p)"
  "(new_record st p n a d)\<lparr>rc_Fence := st_epoch st\<rparr> = new_record st p n a d"
  by (simp_all add: new_record_def Let_def)

lemma next_attempt_prior:
  assumes m: "ledger_ok (map_of (st_recs st))" and n: "next_attempt st p n"
    and r: "map_of (st_recs st) k = Some r" "rc_ProposalID r = pr_ID p"
  shows "rc_Attempt r < n \<and> rc_Phase r = PhaseFailed"
proof
  show less: "rc_Attempt r < n" using n r unfolding next_attempt_def by blast
  note D = ledger_okD [OF m]
  obtain k' l where l: "map_of (st_recs st) k' = Some l" "rc_ProposalID l = pr_ID p" "n = rc_Attempt l + 1" "rc_Phase l = PhaseFailed"
    using n r unfolding next_attempt_def by blast
  show "rc_Phase r = PhaseFailed"
  proof (cases "rc_Attempt r = rc_Attempt l")
    case True
    have "rc_Key r = rc_Key l" using D(2) [OF r(1)] D(2) [OF l(1)] True r(2) l(2) by (simp add: record_wf_def)
    then have "k = k'" using D(1) [OF r(1)] D(1) [OF l(1)] by metis
    with r(1) l(1,4) show ?thesis by simp
  next
    case False
    with less l(3) have "rc_Attempt r < rc_Attempt l" by simp
    with D(4) [OF r(1) l(1)] r(2) l(2) show ?thesis by simp
  qed
qed

section \<open>Effects\<close>

definition same_record :: "Record \<Rightarrow> Record \<Rightarrow> bool" where
  "same_record r q \<longleftrightarrow> r\<lparr>rc_Recovery := RecoveryNone, rc_RecoveryDetail := []\<rparr> = q\<lparr>rc_Recovery := RecoveryNone, rc_RecoveryDetail := []\<rparr> \<and>
     Recovery_final (rc_Recovery r) = Recovery_final (rc_Recovery q)"

definition synced :: "('j \<Rightarrow> string \<Rightarrow> Record option) \<Rightarrow> ('j, 'w) step \<Rightarrow> bool" where
  "synced recs st \<longleftrightarrow> (\<forall>k. rel_option same_record (recs (st_journal st) k) (map_of (st_recs st) k))"

lemma same_record_refl [simp]: "same_record r r"
  by (simp add: same_record_def)

lemma same_record_fields:
  assumes "same_record r q"
  shows "rc_Key r = rc_Key q" "rc_Phase r = rc_Phase q" "rc_TargetUID r = rc_TargetUID q" "rc_ProposalID r = rc_ProposalID q"
    "rc_Attempt r = rc_Attempt q" "record_wf r = record_wf q"
proof -
  have eq: "r\<lparr>rc_Recovery := RecoveryNone, rc_RecoveryDetail := []\<rparr> = q\<lparr>rc_Recovery := RecoveryNone, rc_RecoveryDetail := []\<rparr>"
    and fin: "Recovery_final (rc_Recovery r) = Recovery_final (rc_Recovery q)" using assms by (simp_all add: same_record_def)
  note f = arg_cong [OF eq]
  show k: "rc_Key r = rc_Key q" "rc_Phase r = rc_Phase q" "rc_TargetUID r = rc_TargetUID q" "rc_ProposalID r = rc_ProposalID q"
    "rc_Attempt r = rc_Attempt q"
    using f [of rc_Key] f [of rc_Phase] f [of rc_TargetUID] f [of rc_ProposalID] f [of rc_Attempt] by simp_all
  have "rc_EndedAt r = rc_EndedAt q" "rc_Refused r = rc_Refused q" "rc_Sends r = rc_Sends q" "rc_MaxSends r = rc_MaxSends q"
    using f [of rc_EndedAt] f [of rc_Refused] f [of rc_Sends] f [of rc_MaxSends] by simp_all
  with k fin show "record_wf r = record_wf q" by (simp only: record_wf_def)
qed

lemma ledger_ok_cong:
  assumes "ledger_ok m" and "\<And>k. rel_option same_record (m' k) (m k)"
  shows "ledger_ok m'"
proof -
  note D = ledger_okD [OF assms(1)]
  have old: "\<exists>q. m k = Some q \<and> same_record r q" if "m' k = Some r" for k r
    using assms(2) [of k] that by (cases "m k") auto
  show ?thesis
  proof (rule ledger_okI)
    fix k r assume "m' k = Some r"
    from old [OF this] obtain q where "m k = Some q" "same_record r q" by blast
    then show "rc_Key r = k \<and> record_wf r" using D(1,2) [of k q] same_record_fields(1,6) [of r q] by simp
  next
    fix k k' r r' assume a: "m' k = Some r" "m' k' = Some r'" "occupies (rc_Phase r)" "occupies (rc_Phase r')"
      "rc_TargetUID r = rc_TargetUID r'"
    from old [OF a(1)] old [OF a(2)] obtain q q' where q: "m k = Some q" "same_record r q" "m k' = Some q'" "same_record r' q'" by blast
    show "k = k'"
      by (rule D(3) [OF q(1,3)]) (use a(3-5) same_record_fields(2,3) [OF q(2)] same_record_fields(2,3) [OF q(4)] in simp_all)
  next
    fix k k' r r' assume a: "m' k = Some r" "m' k' = Some r'" "rc_ProposalID r = rc_ProposalID r'" "rc_Attempt r < rc_Attempt r'"
    from old [OF a(1)] old [OF a(2)] obtain q q' where q: "m k = Some q" "same_record r q" "m k' = Some q'" "same_record r' q'" by blast
    have "rc_Phase q = PhaseFailed"
      by (rule D(4) [OF q(1,3)]) (use a(3,4) same_record_fields(4,5) [OF q(2)] same_record_fields(4,5) [OF q(4)] in simp_all)
    then show "rc_Phase r = PhaseFailed" using same_record_fields(2) [OF q(2)] by simp
  qed
qed

text \<open>What was submitted: a record the journal held at that moment, dispatched under this engine's epoch, for
  a proposal of this step that every gate let pass and that was approved.\<close>

definition submitted_ok :: "('j, 'w) engine_env \<Rightarrow> ('j \<Rightarrow> string \<Rightarrow> Record option) \<Rightarrow> Proposal set \<Rightarrow> 64 word \<Rightarrow> instant \<Rightarrow>
    Decision list \<Rightarrow> Handoff \<times> 'j \<Rightarrow> bool" where
  "submitted_ok E recs P ep now ds e \<longleftrightarrow> (case e of (h, j) \<Rightarrow>
     \<exists>r p. recs j (h_Key h) = Some r \<and> h = handoff_of r \<and> rc_Phase r = PhaseDispatching \<and> rc_SentFence r = ep \<and> rc_Fence r = ep \<and>
       p \<in> P \<and> pr_ID p = rc_ProposalID r \<and> pr_Digest p = rc_Digest r \<and> cleared E j p \<and>
       approved_by E now ds p (rc_Approval r) (rc_Decision r))"

lemma handoff_key [simp]: "h_Key (handoff_of r) = rc_Key r"
  by (simp add: handoff_of_def)

context engine
begin

lemma put_as: "j_Put (eg_Journal E) (nxt\<lparr>rc_Fence := ep\<rparr>) j = (Inr stored, j') \<Longrightarrow>
    stored = stored_as ep nxt \<and> recs j' = (recs j)(rc_Key nxt \<mapsto> stored)"
  by (drule put_stored) (simp add: stored_as_def)

lemma effect_ledger: "effect E recs newest P st st' \<Longrightarrow> ledger_ok (map_of (st_recs st)) \<Longrightarrow> ledger_ok (map_of (st_recs st'))"
proof (induction rule: effect.induct)
  case (bookkeeping st st')
  then show ?case by (simp add: quietD)
next
  case (wrote st k r nxt stored st')
  note id = transition_identity [OF wrote(2)] transition_key [OF wrote(2)] and st = conjunct1 [OF put_as [OF wrote(3)]]
  have "ledger_ok ((map_of (st_recs st))(k \<mapsto> stored))"
  proof (rule ledger_ok_replace [OF wrote(7,1)])
    show "record_wf stored" using transition_wf [OF wrote(2) ledger_okD(2) [OF wrote(7,1)]] st by simp
    show "occupies (rc_Phase stored) \<Longrightarrow> occupies (rc_Phase r)" using transition_occupies [OF wrote(2)] st by simp
    show "rc_Phase r = PhaseFailed \<Longrightarrow> rc_Phase stored = PhaseFailed" using transition_failed [OF wrote(2)] st by simp
  qed (use id st in simp_all)
  with wrote(5) show ?case by (simp only: update_conv')
next
  case (fresh p st n a d stored st')
  let ?r = "new_record st p n a d"
  have st: "stored = stored_as (st_epoch st) ?r" using put_as [where nxt = ?r and ep = "st_epoch st"] fresh(6) by simp
  have prior: "rc_Attempt r < n \<and> rc_Phase r = PhaseFailed" if "map_of (st_recs st) k = Some r" "rc_ProposalID r = pr_ID p" for k r
    by (rule next_attempt_prior [OF fresh(10,2) that])
  have "ledger_ok ((map_of (st_recs st))(rc_Key stored \<mapsto> stored))"
  proof (rule ledger_ok_add [OF fresh(10) refl])
    show "record_wf stored" by (simp add: st new_record_wf)
    fix k' r assume r: "map_of (st_recs st) k' = Some r"
    show "rc_TargetUID r \<noteq> rc_TargetUID stored" if occ: "occupies (rc_Phase r)"
    proof
      assume t: "rc_TargetUID r = rc_TargetUID stored"
      have "(k', r) \<in> set (st_recs st)" using r by (rule map_of_SomeD)
      with fresh(4) occ t have "rc_ProposalID r = pr_ID p" by (auto simp: busy_def list_ex_iff st)
      with prior [OF r] occ show False by (simp add: occupies_def)
    qed
    show "rc_Attempt r < rc_Attempt stored \<and> rc_Phase r = PhaseFailed" if "rc_ProposalID r = rc_ProposalID stored"
      using prior [OF r] that by (simp add: st)
  qed
  with fresh(8) show ?case by (simp only: update_conv')
next
  case (submit st r p st')
  then show ?case by simp
next
  case (display st k r rec st' detail)
  have "ledger_ok ((map_of (st_recs st))(k \<mapsto> r\<lparr>rc_Recovery := rec, rc_RecoveryDetail := detail\<rparr>))"
    by (rule ledger_ok_replace [OF display(9,1)])
       (use ledger_okD(2) [OF display(9,1)] display(4) in \<open>simp_all add: record_wf_def\<close>)
  with display(7) show ?case by (simp only: update_conv')
qed

lemma rel_option_upd:
  "(\<And>k. rel_option same_record (m k) (m' k)) \<Longrightarrow> same_record x y \<Longrightarrow> rel_option same_record ((m(k \<mapsto> x)) k') ((m'(k \<mapsto> y)) k')"
  by simp

lemma effect_synced:
  "effect E recs newest P st st' \<Longrightarrow> keyed st \<Longrightarrow> synced recs st \<Longrightarrow> inv (st_journal st) \<Longrightarrow> synced recs st' \<and> inv (st_journal st')"
proof (induction rule: effect.induct)
  case (bookkeeping st st')
  then show ?case by (simp add: synced_def quietD)
next
  case (wrote st k r nxt stored st')
  have "rc_Key r = k" using wrote(1,7) unfolding keyed_def by blast
  then have "recs (st_journal st') = (recs (st_journal st))(k \<mapsto> stored)"
    using put_as [OF wrote(3)] transition_key [OF wrote(2)] by simp
  moreover have "map_of (st_recs st') = (map_of (st_recs st))(k \<mapsto> stored)" using wrote(5) by (simp only: update_conv')
  ultimately show ?case using wrote(8) put_inv [OF wrote(9,3)] by (simp only: synced_def fun_upd_def) simp
next
  case (fresh p st n a d stored st')
  have "recs (st_journal st') = (recs (st_journal st))(rc_Key stored \<mapsto> stored)"
    using put_stored [OF fresh(6)] by simp
  moreover have "map_of (st_recs st') = (map_of (st_recs st))(rc_Key stored \<mapsto> stored)" using fresh(8) by (simp only: update_conv')
  ultimately show ?case using fresh(11) put_inv [OF fresh(12,6)] by (simp only: synced_def fun_upd_def) simp
next
  case (submit st r p st')
  then show ?case by (simp add: synced_def)
next
  case (display st k r rec st' detail)
  let ?q = "r\<lparr>rc_Recovery := rec, rc_RecoveryDetail := detail\<rparr>"
  have m: "map_of (st_recs st') = (map_of (st_recs st))(k \<mapsto> ?q)" using display(7) by (simp only: update_conv')
  have "rel_option same_record (recs (st_journal st) k) (Some r)" using display(1,10) unfolding synced_def by metis
  then have "rel_option same_record (recs (st_journal st) k) (Some ?q)"
    using display(3,4) by (cases "recs (st_journal st) k") (auto simp: same_record_def)
  with display(10) have "rel_option same_record (recs (st_journal st) k') (map_of (st_recs st') k')" for k'
    unfolding m synced_def by (cases "k' = k") auto
  with display(6,11) show ?case unfolding synced_def by metis
qed

lemma effect_submitted:
  assumes "effect E recs newest P st st'" and "\<forall>e \<in> set (st_sent st). submitted_ok E recs P (st_epoch st) (now_of st) (st_decisions st) e"
  shows "\<forall>e \<in> set (st_sent st'). submitted_ok E recs P (st_epoch st') (now_of st') (st_decisions st') e"
  using assms
proof (induction rule: effect.induct)
  case (bookkeeping st st')
  then show ?case by (simp only: quietD)
next
  case (submit st r p st')
  have "submitted_ok E recs P (st_epoch st) (now_of st) (st_decisions st) (handoff_of r, st_journal st)"
    unfolding submitted_ok_def prod.case handoff_key
    by (rule exI [of _ r], rule exI [of _ p], intro conjI) (rule submit refl)+
  with submit(12,15,16) show ?case unfolding frame_def by simp
qed (simp_all only: frame_def)

lemma effects_invariants:
  assumes "effects E recs newest P st st'" and "keyed st"
  shows "ledger_ok (map_of (st_recs st)) \<Longrightarrow> ledger_ok (map_of (st_recs st'))"
    and "synced recs st \<Longrightarrow> inv (st_journal st) \<Longrightarrow> synced recs st' \<and> inv (st_journal st')"
    and "\<forall>e \<in> set (st_sent st). submitted_ok E recs P (st_epoch st) (now_of st) (st_decisions st) e \<Longrightarrow>
      \<forall>e \<in> set (st_sent st'). submitted_ok E recs P (st_epoch st') (now_of st') (st_decisions st') e"
  using assms
proof (induction rule: rtranclp_induct)
  case (step y z)
  { case 1 then show ?case using effect_ledger [OF step(2)] step(3) by blast
  next
    case 2 then show ?case using effect_synced [OF step(2) effects_keyed [OF step(1)]] step(4) by blast
  next
    case 3
    show ?case by (rule effect_submitted [OF step(2) step(5) [OF 3]]) }
qed simp_all

end

end
