(* ===== verification/Action_Steps.thy ===== *)
theory Action_Steps
  imports Action_Invariants
begin

text \<open>
  The properties of one \<open>Step\<close> of the engine: what it keeps of the journal, what it submits, what it
  refuses, and that it returns. The journal is any store that keeps the contract of \<open>Journal\<close>
  (the predicate \<open>journal\<close>, whose laws are those of its documentation).
\<close>

section \<open>Loading the journal\<close>

lemma map_of_load:
  assumes "distinct (map rc_Key l)"
  shows "map_of (fold (\<lambda>r m. AList.update (rc_Key r) r m) l m) k =
    (case List.find (\<lambda>r. rc_Key r = k) l of Some r \<Rightarrow> Some r | None \<Rightarrow> map_of m k)"
  using assms
proof (induction l arbitrary: m)
  case (Cons r l)
  have "List.find (\<lambda>q. rc_Key q = k) l = None" if "rc_Key r = k"
    using Cons.prems that unfolding find_None_iff by (auto simp: rev_image_eqI)
  with Cons show ?case by (auto simp: update_conv split: option.splits)
qed simp

lemma load_records_lookup:
  assumes "distinct (map rc_Key l)"
  shows "map_of (load_records l) k = Some r \<longleftrightarrow> r \<in> set l \<and> rc_Key r = k"
proof -
  have "List.find (\<lambda>q. rc_Key q = k) l = Some r \<longleftrightarrow> r \<in> set l \<and> rc_Key r = k"
  proof
    assume "r \<in> set l \<and> rc_Key r = k"
    then show "List.find (\<lambda>q. rc_Key q = k) l = Some r" using find_unique [OF assms, of r] by auto
  qed (auto dest: find_SomeD)
  then show ?thesis unfolding load_records_def map_of_load [OF assms] by (auto split: option.splits)
qed

lemma distinct_load: "distinct (map fst m) \<Longrightarrow> distinct (map fst (fold (\<lambda>r m. AList.update (rc_Key r) r m) l m))"
  by (induction l arbitrary: m) (simp_all add: distinct_update)

lemma props_lookup:
  "map_of (fold (\<lambda>p m. AList.update (pr_ID p) p m) ps m) k = Some p \<Longrightarrow> p \<in> set ps \<and> pr_ID p = k \<or> map_of m k = Some p"
proof (induction ps arbitrary: m)
  case (Cons q ps)
  then have "p \<in> set ps \<and> pr_ID p = k \<or> map_of (AList.update (pr_ID q) q m) k = Some p" by simp
  then show ?case by (auto simp: update_conv split: if_splits)
qed simp

lemma begin_step_facts:
  assumes "begin_step E inp l e = (props, st)" and "distinct (map rc_Key l)"
  shows "keyed st" "props_ok (set props) st" "st_sent st = []" "st_journal st = en_journal e" "st_epoch st = en_epoch e"
    "st_in st = inp" "st_decisions st = fst (read_decisions E e)" "st_recs st = load_records l"
    "props = derive (eg_digest E) (in_Snapshot inp) (in_Assessment inp) (in_Profile inp) (episode (load_records l))"
    "st_wake st = 0"
proof -
  obtain ds e1 where rd: "read_decisions E e = (ds, e1)" by fastforce
  then have e1: "en_journal e1 = en_journal e" "en_epoch e1 = en_epoch e"
    by (auto simp: read_decisions_def split: option.splits prod.splits)
  from assms(1) rd e1 show f: "st_sent st = []" "st_journal st = en_journal e" "st_epoch st = en_epoch e"
      "st_in st = inp" "st_decisions st = fst (read_decisions E e)" "st_recs st = load_records l"
      "props = derive (eg_digest E) (in_Snapshot inp) (in_Assessment inp) (in_Profile inp) (episode (load_records l))"
      "st_wake st = 0"
    by (auto simp: begin_step_def Let_def)
  have "distinct (map fst (load_records l))" unfolding load_records_def by (rule distinct_load) simp
  then show "keyed st" unfolding keyed_def f load_records_lookup [OF assms(2)] by blast
  have p: "st_props st = fold (\<lambda>p m. AList.update (pr_ID p) p m) props []"
    using assms(1) rd by (auto simp: begin_step_def Let_def)
  show "props_ok (set props) st"
    unfolding props_ok_def p
  proof (intro allI impI)
    fix k q assume "map_of (fold (\<lambda>p m. AList.update (pr_ID p) p m) props []) k = Some q"
    from props_lookup [OF this] show "q \<in> set props \<and> pr_ID q = k" by simp
  qed
qed

section \<open>Steps as effects\<close>

context engine
begin

text \<open>A step either stops before it has read the journal, or is a run from what it read.\<close>

lemma Step_cases:
  assumes "Step E inp e = Some (x, e', sent)" and "inv (en_journal e)"
  obtains (early) err where "x = Inl err" "sent = []" "recs (en_journal e') = recs (en_journal e)" "inv (en_journal e')"
    | (run) e1 l props st out st' where "claim_epoch E e = (None, e1)" "j_List (eg_Journal E) (en_journal e1) = Some l"
      "begin_step E inp l e1 = (props, st)" "distinct (map rc_Key l)" "run_step E props st = Some (out, st')"
      "x = Inr out" "e' = end_step st'" "sent = st_sent st'" "effects E recs newest (set props) st st'"
      "inv (en_journal e1)" "recs (en_journal e1) = recs (en_journal e)" "synced recs st"
proof -
  obtain err e1 where c: "claim_epoch E e = (err, e1)" by fastforce
  have e1: "inv (en_journal e1)" "recs (en_journal e1) = recs (en_journal e)"
    using c assms(2) epoch_inv [of "en_journal e"] epoch_recs [of "en_journal e"]
    by (auto simp: claim_epoch_def split: if_splits prod.splits option.splits)
  show thesis
  proof (cases "err = None \<and> j_List (eg_Journal E) (en_journal e1) \<noteq> None")
    case False
    then have "\<exists>er. x = Inl er" "sent = []" "e' = e1" using assms(1) c by (auto simp: Step_def split: option.splits)
    with e1 early show thesis by metis
  next
    case True
    then obtain l where l: "j_List (eg_Journal E) (en_journal e1) = Some l" by blast
    obtain props st where b: "begin_step E inp l e1 = (props, st)" by fastforce
    have d: "distinct (map rc_Key l)" by (rule list_distinct [OF e1(1) l])
    note f = begin_step_facts [OF b d]
    from assms(1) c True l b obtain out st' where r: "run_step E props st = Some (out, st')"
        "x = Inr out" "e' = end_step st'" "sent = st_sent st'" by (auto simp: Step_def)
    have "effects E recs newest (set props) st st'" by (rule run_step_effects [OF r(1) f(1,2)])
    moreover have "recs (st_journal st) k = map_of (st_recs st) k" for k
      using list_recs [OF e1(1) l] load_records_lookup [OF d] unfolding f(4,8) by (metis not_Some_eq)
    then have "synced recs st" by (simp add: synced_def option.rel_refl)
    ultimately show thesis using run c True l b d r e1 by blast
  qed
qed

lemma synced_ledger: "synced recs st \<Longrightarrow> ledger_ok (recs (st_journal st)) \<longleftrightarrow> ledger_ok (map_of (st_recs st))"
proof
  assume s: "synced recs st"
  show "ledger_ok (map_of (st_recs st)) \<Longrightarrow> ledger_ok (recs (st_journal st))"
    using s unfolding synced_def by (metis ledger_ok_cong)
  have sym: "rel_option same_record (map_of (st_recs st) k) (recs (st_journal st) k)" for k
    using spec [OF s [unfolded synced_def], of k] by (cases "recs (st_journal st) k"; cases "map_of (st_recs st) k") (simp_all add: same_record_def)
  show "ledger_ok (recs (st_journal st)) \<Longrightarrow> ledger_ok (map_of (st_recs st))"
    by (rule ledger_ok_cong [OF _ sym])
qed

lemma Step_ledger_ok:
  assumes "Step E inp e = Some (x, e', sent)" and "inv (en_journal e)" and "ledger_ok (recs (en_journal e))"
  shows "inv (en_journal e') \<and> ledger_ok (recs (en_journal e'))"
  using assms(1,2)
proof (cases rule: Step_cases)
  case (early err)
  with assms(3) show ?thesis by simp
next
  case (run e1 l props st out st')
  note f = begin_step_facts [OF run(3,4)] and i = effects_invariants [OF run(9) begin_step_facts(1) [OF run(3,4)]]
  have "ledger_ok (map_of (st_recs st))" using assms(3) run(11) synced_ledger [OF run(12)] f(4) by simp
  then have "ledger_ok (map_of (st_recs st'))" by (rule i(1))
  moreover have "synced recs st' \<and> inv (st_journal st')" by (rule i(2) [OF run(12)]) (simp add: f(4) run(10))
  ultimately show ?thesis using synced_ledger [of st'] run(7) by (simp add: end_step_def)
qed

lemma Step_submitted:
  assumes "Step E inp e = Some (x, e', sent)" and "inv (en_journal e)" and "h \<in> set sent"
  shows "\<exists>ep. submitted_ok E recs
    (set (derive (eg_digest E) (in_Snapshot inp) (in_Assessment inp) (in_Profile inp) ep))
    (en_epoch e') (in_Now inp) (fst (read_decisions E (snd (claim_epoch E e)))) h"
  using assms(1,2)
proof (cases rule: Step_cases)
  case (early err)
  with assms(3) show ?thesis by simp
next
  case (run e1 l props st out st')
  note f = begin_step_facts [OF run(3,4)]
  have fr: "frame st st'" by (rule effects_frame [OF run(9)])
  have "\<forall>h \<in> set (st_sent st'). submitted_ok E recs (set props) (st_epoch st') (now_of st') (st_decisions st') h"
    by (rule effects_invariants(3) [OF run(9) f(1)]) (simp add: f(3))
  with assms(3) run(8) have "submitted_ok E recs (set props) (st_epoch st') (now_of st') (st_decisions st') h" by blast
  with fr f run(1,7) show ?thesis by (auto simp: frame_def end_step_def)
qed

text \<open>An engine whose epoch is no longer the newest.\<close>

lemma effects_fenced:
  assumes "effects E recs newest P st st'" and "st_epoch st < newest (st_journal st)"
  shows "st_journal st' = st_journal st \<and> st_sent st' = st_sent st"
  using assms
proof (induction rule: rtranclp_induct)
  case (step y z)
  have y: "st_epoch y < newest (st_journal y)"
    using step.IH [OF step.prems] effects_frame [OF step.hyps(1)] step.prems by (simp add: frame_def)
  from step.hyps(2) have "st_journal z = st_journal y \<and> st_sent z = st_sent y"
  proof cases
    case (wrote k r nxt stored)
    with y put_fenced [of "nxt\<lparr>rc_Fence := st_epoch y\<rparr>" "st_journal y"] show ?thesis by simp
  next
    case (fresh p n a d stored)
    with y put_fenced [of "new_record y p n a d" "st_journal y"] show ?thesis by (simp add: new_record_def Let_def)
  qed (use y in \<open>simp_all add: quiet_def\<close>)
  with step.IH [OF step.prems] show ?case by simp
qed simp

lemma effects_durable:
  assumes "effects E recs newest P st st'"
  shows "j_Durable (eg_Journal E) (st_journal st') = j_Durable (eg_Journal E) (st_journal st) \<and>
    newest (st_journal st') = newest (st_journal st)"
  using assms
proof (induction rule: rtranclp_induct)
  case (step y z)
  from step.hyps(2) have "j_Durable (eg_Journal E) (st_journal z) = j_Durable (eg_Journal E) (st_journal y) \<and>
      newest (st_journal z) = newest (st_journal y)"
    by cases (use put_stored in \<open>auto simp: quiet_def\<close>)
  with step.IH show ?case by simp
qed simp

text \<open>With non-zero send budgets nothing divides by zero.\<close>

definition budgeted :: "Proposal set \<Rightarrow> ('j, 'w) step \<Rightarrow> bool" where
  "budgeted P st \<longleftrightarrow> keyed st \<and> props_ok P st \<and> (\<forall>k r. map_of (st_recs st) k = Some r \<longrightarrow> rc_MaxSends r \<noteq> 0)"

lemma effects_budgeted:
  assumes "effects E recs newest P st st'" and "budgeted P st" and "\<forall>p \<in> P. SendBudget (exec_of p) \<noteq> 0"
  shows "budgeted P st'"
  using assms(1,2)
proof (induction rule: rtranclp_induct)
  case (step y z)
  have y: "budgeted P y" by (rule step.IH [OF step.prems])
  then have kp: "keyed z" "props_ok P z"
    using effect_keyed [OF step.hyps(2)] props_ok_frame [OF _ effect_frame [OF step.hyps(2)]] by (simp_all add: budgeted_def)
  have upd: "\<forall>k r. map_of (st_recs z) k = Some r \<longrightarrow> rc_MaxSends r \<noteq> 0"
    if "st_recs z = AList.update k q (st_recs y)" "rc_MaxSends q \<noteq> 0" for k q
    using y that by (auto simp: budgeted_def update_conv split: if_splits)
  from step.hyps(2) have "\<forall>k r. map_of (st_recs z) k = Some r \<longrightarrow> rc_MaxSends r \<noteq> 0"
  proof cases
    case (wrote k r nxt stored)
    have "rc_MaxSends r \<noteq> 0" using y wrote(1) unfolding budgeted_def by blast
    then show ?thesis using put_as [OF wrote(3)] transition_identity(10) [OF wrote(2)] by (intro upd [OF wrote(5)]) simp
  next
    case (fresh p n a d stored)
    have "rc_MaxSends stored = SendBudget (exec_of p)" using put_stored [OF fresh(6)] by simp
    with assms(3) fresh(1) show ?thesis by (intro upd [OF fresh(8)]) simp
  next
    case (display k r rec detail)
    have "rc_MaxSends r \<noteq> 0" using y display(1) unfolding budgeted_def by blast
    then show ?thesis by (intro upd [OF display(7)]) simp
  next
    case bookkeeping
    show ?thesis using y unfolding budgeted_def quietD(6) [OF bookkeeping] by blast
  next
    case (submit r p)
    show ?thesis using y unfolding budgeted_def submit(14) by blast
  qed
  with kp show ?case by (simp add: budgeted_def)
qed simp

lemma quot_returns: "n \<noteq> 0 \<Longrightarrow> \<exists>q. go_quot a n = Some q"
  by (simp add: go_quot_def)

lemma send_returns:
  assumes "rc_MaxSends r \<noteq> 0"
  shows "\<exists>st'. send E r st = Some st'"
proof -
  obtain q where "go_quot (rc_AckTimeout r) (rc_MaxSends r) = Some q" using quot_returns [OF assms] by blast
  then show ?thesis by (auto simp: send_def Let_def split: prod.splits option.splits)
qed

lemma deadline_returns:
  assumes "rc_MaxSends r \<noteq> 0"
  shows "\<exists>st'. deadline E k r st = Some st'"
proof -
  obtain q where q: "go_quot (rc_AckTimeout r) (rc_MaxSends r) = Some q" using quot_returns [OF assms] by blast
  have "\<exists>st'. send E stored st2 = Some st'"
    if "put_at E k (r\<lparr>rc_Sends := s, rc_LastSentAt := t, rc_SentFence := f\<rparr>) st1 = (Some stored, st3)" for s t f st1 st2 st3 stored
    using put_at_done(5) [OF that] assms by (intro send_returns) simp
  with q show ?thesis
    by (cases "rc_Phase r") (auto simp: deadline_def Let_def split: prod.splits option.splits bool.splits)
qed

lemma advance_key_returns: "budgeted P st \<Longrightarrow> \<exists>st'. advance_key E k st = Some st'"
  using deadline_returns
  by (auto simp: advance_key_def advance_def budgeted_def split: option.splits prod.splits bool.splits)

lemma recover_key_returns: "\<exists>st'. recover_key E k st = Some st'"
proof -
  have "\<exists>st'. recover E k r st = Some st'" for r
  proof -
    obtain a where "assessRecovery r (in_Snapshot (st_in st)) (now_of st) = Some a" using assessRecovery_returns by blast
    then show ?thesis by (cases a) (auto simp: recover_def split: prod.splits)
  qed
  then show ?thesis by (auto simp: recover_key_def split: option.splits)
qed

lemma dispatch_returns:
  assumes b: "budgeted P st" and P: "\<forall>p \<in> P. SendBudget (exec_of p) \<noteq> 0"
    and p: "p \<in> P" "next_attempt st p n" "cleared E (st_journal st) p"
      "\<not> busy st (ti_UID (bi_Target (pr_Binding p))) (pr_ID p)" "approved_by E (now_of st) (st_decisions st) p a d"
  shows "\<exists>y. dispatch E p n a d st = Some y"
proof -
  let ?r = "new_record st p n a d"
  obtain x st1 where pu: "put E ?r st = (x, st1)" by fastforce
  show ?thesis
  proof (cases x)
    case None
    with pu show ?thesis by (simp add: dispatch_def)
  next
    case (Some stored)
    note dn = put_done [OF pu [unfolded Some]]
    let ?st2 = "st1\<lparr>st_recs := AList.update (rc_Key stored) stored (st_recs st1)\<rparr>"
    have nz: "rc_MaxSends stored \<noteq> 0" using dn(5) P p(1) by simp
    then obtain st3 where sn: "send E stored ?st2 = Some st3" using send_returns by blast
    have st2: "st_recs ?st2 = AList.update (rc_Key stored) stored (st_recs st)" "frame st ?st2" using dn(2,3) by (simp_all add: frame_def)
    have "effects E recs newest P st ?st2"
    proof (rule r_into_rtranclp, rule effect.fresh [OF p _ st2(2,1)])
      show "j_Put (eg_Journal E) ?r (st_journal st) = (Inr stored, st_journal ?st2)" using dn(1) by simp
    qed (simp add: dn(4))
    then have "budgeted P ?st2" by (rule effects_budgeted [OF _ b P])
    moreover have "effects E recs newest P ?st2 st3"
    proof (rule send_effects [OF sn])
      show "map_of (st_recs ?st2) (rc_Key stored) = Some stored" by (simp add: update_conv)
      show "recs (st_journal ?st2) (rc_Key stored) = Some stored" using dn(5,6) by simp
      show "cleared E (st_journal ?st2) p" using cleared_put [OF p(3) dn(1)] by simp
      show "approved_by E (now_of ?st2) (st_decisions ?st2) p (rc_Approval stored) (rc_Decision stored)"
        using p(5) dn(2,5) by (simp add: frame_def stored_as_def new_record_def Let_def)
    qed (use p(1) dn(2,5,7) in \<open>simp_all add: frame_def stored_as_def new_record_def Let_def\<close>)
    ultimately have "budgeted P st3" by (metis effects_budgeted P)
    then have "rc_MaxSends (case map_of (st_recs st3) (rc_Key stored) of Some r \<Rightarrow> r | None \<Rightarrow> stored) \<noteq> 0"
      using nz by (auto simp: budgeted_def split: option.splits)
    from quot_returns [OF this] pu Some sn show ?thesis by (auto simp: dispatch_def Let_def)
  qed
qed

lemma decide_returns:
  assumes b: "budgeted P st" and P: "\<forall>p \<in> P. SendBudget (exec_of p) \<noteq> 0" and "p \<in> P"
  shows "\<exists>y. decide E p st = Some y"
proof -
  let ?rs = "attempts st (pr_ID p)"
  let ?over = "\<lambda>r. inFlight (rc_Phase r) \<or> rc_Phase r \<noteq> PhaseFailed \<or> \<not> rc_Retryable r \<or> rc_MaxAttempts r \<le> rc_Attempt r"
  show ?thesis
  proof (cases "?rs \<noteq> [] \<and> ?over (last ?rs)")
    case True
    then show ?thesis by (simp add: decide_def Let_def)
  next
    case False
    define n where "n = (if ?rs = [] then 1 else rc_Attempt (last ?rs) + 1)"
    have na: "next_attempt st p n" using False by (intro decide_next_attempt) (auto simp: n_def)
    obtain bl st1 where ap: "approval E p st = (bl, st1)" by fastforce
    note f = quietD [OF approval_quiet [OF ap]]
    have run: "decide E p st = Some y \<longleftrightarrow>
        (if bl_rejected bl then Some ((base_view p n)\<lparr>vw_Phase := PhaseRejected\<rparr>, st1) = Some y
         else if gates E p False st \<noteq> [] then decide E p st = Some y
         else case bl_approved bl of None \<Rightarrow> decide E p st = Some y | Some a \<Rightarrow> dispatch E p n a (bl_by bl) st1 = Some y)" for y
      using False ap by (auto simp: decide_def n_def Let_def split: option.splits)
    show ?thesis
    proof (cases "\<exists>a. \<not> bl_rejected bl \<and> gates E p False st = [] \<and> bl_approved bl = Some a")
      case True
      then obtain a where a: "\<not> bl_rejected bl" "gates E p False st = []" "bl_approved bl = Some a" by blast
      have "\<exists>y. dispatch E p n a (bl_by bl) st1 = Some y"
      proof (rule dispatch_returns [OF _ P assms(3)])
        show "budgeted P st1" using b unfolding budgeted_def keyed_def props_ok_def f(3,6) .
        show "next_attempt st1 p n" using na unfolding next_attempt_def f(6) .
        show "cleared E (st_journal st1) p" "\<not> busy st1 (ti_UID (bi_Target (pr_Binding p))) (pr_ID p)"
          using a(2) f by (simp_all add: gates_Nil_iff busy_def)
        show "approved_by E (now_of st1) (st_decisions st1) p a (bl_by bl)" using approval_ok(1) [OF ap a(3)] f by simp
      qed
      with run a show ?thesis by simp
    next
      case no: False
      then show ?thesis using False ap by (auto simp: decide_def Let_def split: option.splits)
    qed
  qed
qed

lemma foldo_returns:
  assumes "budgeted P (pick s)" and P: "\<forall>p \<in> P. SendBudget (exec_of p) \<noteq> 0"
    and f: "\<And>x s. x \<in> set xs \<Longrightarrow> budgeted P (pick s) \<Longrightarrow> \<exists>s'. f x s = Some s' \<and> effects E recs newest P (pick s) (pick s')"
  shows "\<exists>s'. foldo f xs s = Some s' \<and> budgeted P (pick s')"
  using assms(1) f
proof (induction xs arbitrary: s)
  case (Cons x xs)
  obtain s1 where s1: "f x s = Some s1" "effects E recs newest P (pick s) (pick s1)"
    using Cons.prems(2) [of x s] Cons.prems(1) by auto
  have "budgeted P (pick s1)" by (rule effects_budgeted [OF s1(2) Cons.prems(1) P])
  from Cons.IH [OF this] Cons.prems(2) s1(1) show ?case by simp
qed simp

lemma run_step_returns:
  assumes b: "budgeted (set props) st" and P: "\<forall>p \<in> set props. SendBudget (exec_of p) \<noteq> 0"
  shows "\<exists>y. run_step E props st = Some y"
proof -
  let ?P = "set props"
  have 1: "\<exists>s'. advance_key E k s = Some s' \<and> effects E recs newest ?P s s'" if "budgeted ?P s" for k s
    using advance_key_returns [OF that] advance_key_effects that unfolding budgeted_def by blast
  obtain st1 where s1: "foldo (advance_key E) (keys st) st = Some st1" "budgeted ?P st1"
    using foldo_returns [where pick = "\<lambda>s. s" and f = "advance_key E", OF b P 1] by blast
  have 2: "\<exists>s'. recover_key E k s = Some s' \<and> effects E recs newest ?P s s'" for k s
    using recover_key_returns recover_key_effects by blast
  obtain st2 where s2: "foldo (recover_key E) (keys st1) st1 = Some st2" "budgeted ?P st2"
    using foldo_returns [where pick = "\<lambda>s. s" and f = "recover_key E", OF s1(2) P 2] by blast
  have 3: "\<exists>s'. decide_one E p s = Some s' \<and> effects E recs newest ?P (snd s) (snd s')" if ps: "p \<in> ?P" "budgeted ?P (snd s)" for p and s :: "shown \<times> ('j, 'w) step"
  proof -
    obtain v st3 where d: "decide E p (snd s) = Some (v, st3)" using decide_returns [OF ps(2) P ps(1)] by fastforce
    then have "effects E recs newest ?P (snd s) st3" using ps(1) by (rule decide_effects)
    with d show ?thesis by (cases s) (simp add: decide_one_def Let_def)
  qed
  obtain s3 where "foldo (decide_one E) props (\<lparr>sh_views = [], sh_shown = [], sh_listed = []\<rparr>, st2) = Some s3"
    using foldo_returns [where xs = props and pick = snd and f = "decide_one E" and s = "(\<lparr>sh_views = [], sh_shown = [], sh_listed = []\<rparr>, st2)", OF _ P 3]
      s2(2) by auto
  with s1 s2 show ?thesis by (cases s3) (simp add: run_step_def Let_def)
qed

end

lemma attempt_key_inj: "attempt_key p n = attempt_key q m \<Longrightarrow> p = q \<and> n = m"
  using split_last_unique [of p "CHR ''/''" "show_int n" q "show_int m"] slash_show_int show_int_inj
  by (simp add: attempt_key_def)

section \<open>Records are kept\<close>

text \<open>How far a phase may move.\<close>

definition phase_le :: "Phase \<Rightarrow> Phase \<Rightarrow> bool" where
  "phase_le p q \<longleftrightarrow> p = q \<or>
     p = PhaseDispatching \<and> q \<in> {PhaseAccepted, PhaseSucceeded, PhaseFailed, PhaseTimedOut, PhaseWithdrawn} \<or>
     p = PhaseAccepted \<and> q \<in> {PhaseSucceeded, PhaseFailed, PhaseTimedOut} \<or>
     p \<in> {PhaseTimedOut, PhaseWithdrawn} \<and> q \<in> {PhaseSucceeded, PhaseFailed}"

lemma phase_le_trans: "phase_le p q \<Longrightarrow> phase_le q r \<Longrightarrow> phase_le p r"
  by (auto simp: phase_le_def)

definition kept :: "Record \<Rightarrow> Record \<Rightarrow> bool" where
  "kept r q \<longleftrightarrow> rc_ProposalID q = rc_ProposalID r \<and> rc_TargetUID q = rc_TargetUID r \<and> rc_Attempt q = rc_Attempt r \<and>
     rc_Digest q = rc_Digest r \<and> rc_Approval q = rc_Approval r \<and> rc_Decision q = rc_Decision r \<and>
     rc_Binding q = rc_Binding r \<and> rc_Action q = rc_Action r \<and> rc_Provider q = rc_Provider r \<and>
     phase_le (rc_Phase r) (rc_Phase q) \<and> rc_Sends r \<le> rc_Sends q \<and>
     (IsZero (rc_EndedAt r) \<or> rc_EndedAt q = rc_EndedAt r)"

lemma kept_refl [simp]: "kept r r"
  by (simp add: kept_def phase_le_def)

lemma kept_trans: "kept r q \<Longrightarrow> kept q s \<Longrightarrow> kept r s"
  unfolding kept_def using phase_le_trans by (metis order_trans)

lemma transition_kept:
  assumes "transition now ep r nxt" and "record_wf r"
  shows "kept r nxt"
proof -
  have "phase_le (rc_Phase r) (rc_Phase nxt)"
    using assms(1) by cases (auto simp: phase_le_def occupies_def)
  moreover have "rc_Sends r \<le> rc_Sends nxt" using assms(1) by cases simp_all
  moreover have "IsZero (rc_EndedAt r) \<or> rc_EndedAt nxt = rc_EndedAt r"
    using assms(1) record_wf_occupies [OF assms(2)] by cases simp_all
  ultimately show ?thesis using transition_identity [OF assms(1)] by (simp add: kept_def)
qed

lemma kept_stored [simp]: "kept r (stored_as ep q) \<longleftrightarrow> kept r q"
  by (simp add: kept_def stored_as_def)

lemma kept_display [simp]: "kept r (q\<lparr>rc_Recovery := x, rc_RecoveryDetail := y\<rparr>) \<longleftrightarrow> kept r q"
  "kept (r\<lparr>rc_Recovery := x, rc_RecoveryDetail := y\<rparr>) q \<longleftrightarrow> kept r q"
  by (simp_all add: kept_def)

lemma kept_same: "same_record r r' \<Longrightarrow> same_record q q' \<Longrightarrow> kept r' q' \<Longrightarrow> kept r q"
  unfolding same_record_def using kept_display by metis

context engine
begin

lemma effect_kept:
  assumes "effect E recs newest P st st'" and l: "ledger_ok (map_of (st_recs st))" and r: "map_of (st_recs st) k = Some r"
  shows "\<exists>q. map_of (st_recs st') k = Some q \<and> kept r q"
  using assms(1)
proof cases
  case (wrote k' r' nxt stored)
  have "kept r' stored" using transition_kept [OF wrote(2) ledger_okD(2) [OF l wrote(1)]] put_as [OF wrote(3)] by simp
  with r wrote(1,5) show ?thesis by (cases "k = k'") (simp_all add: update_conv)
next
  case (fresh p n a d stored)
  have s: "rc_Key stored = attempt_key (pr_ID p) n" using put_stored [OF fresh(6)] by (simp add: new_record_def Let_def)
  have "k \<noteq> rc_Key stored"
  proof
    assume "k = rc_Key stored"
    with s ledger_okD(1,2) [OF l r] have "attempt_key (rc_ProposalID r) (rc_Attempt r) = attempt_key (pr_ID p) n"
      by (simp add: record_wf_def)
    then have "rc_ProposalID r = pr_ID p" "rc_Attempt r = n" by (auto dest: attempt_key_inj)
    with next_attempt_prior [OF l fresh(2) r] show False by simp
  qed
  with r fresh(8) show ?thesis by (simp add: update_conv)
next
  case (display k' r' rec detail)
  with r show ?thesis by (cases "k = k'") (simp_all add: update_conv)
qed (use r in \<open>simp_all add: quietD\<close>)

lemma effects_kept:
  assumes "effects E recs newest P st st'" and "keyed st" and "ledger_ok (map_of (st_recs st))" and "map_of (st_recs st) k = Some r"
  shows "\<exists>q. map_of (st_recs st') k = Some q \<and> kept r q"
  using assms
proof (induction rule: rtranclp_induct)
  case base
  then show ?case by simp
next
  case (step y z)
  obtain q where q: "map_of (st_recs y) k = Some q" "kept r q" using step.IH [OF step.prems] by blast
  have "ledger_ok (map_of (st_recs y))" by (rule effects_invariants(1) [OF step.hyps(1) step.prems(1,2)])
  from effect_kept [OF step.hyps(2) this q(1)] q(2) kept_trans show ?case by blast
qed

lemma Step_kept:
  assumes "Step E inp e = Some (x, e', sent)" and "inv (en_journal e)" and l: "ledger_ok (recs (en_journal e))"
    and r: "recs (en_journal e) k = Some r"
  shows "\<exists>q. recs (en_journal e') k = Some q \<and> kept r q"
  using assms(1,2)
proof (cases rule: Step_cases)
  case (early err)
  with r show ?thesis by simp
next
  case (run e1 l' props st out st')
  note f = begin_step_facts [OF run(3,4)]
  have j: "recs (st_journal st) k = Some r" using r run(11) f(4) by simp
  have ok: "ledger_ok (map_of (st_recs st))" using l run(11) synced_ledger [OF run(12)] f(4) by simp
  have rel: "rel_option same_record (recs (st_journal st) k) (map_of (st_recs st) k)" using run(12) unfolding synced_def by blast
  then obtain r' where r': "map_of (st_recs st) k = Some r'" "same_record r r'" using j by (cases "map_of (st_recs st) k") auto
  obtain q' where q': "map_of (st_recs st') k = Some q'" "kept r' q'" using effects_kept [OF run(9) f(1) ok r'(1)] by blast
  have "synced recs st'" using effects_invariants(2) [OF run(9) f(1) run(12)] f(4) run(10) by simp
  then have "rel_option same_record (recs (st_journal st') k) (Some q')" using q'(1) unfolding synced_def by metis
  then obtain q where "recs (st_journal st') k = Some q" "same_record q q'" by (cases "recs (st_journal st') k") auto
  with kept_same [OF r'(2) _ q'(2)] run(7) show ?thesis by (auto simp: end_step_def)
qed

end

section \<open>Live attempts stay visible\<close>

definition listed_ok :: "shown \<Rightarrow> bool" where
  "listed_ok o' \<longleftrightarrow> (\<forall>p \<in> set (sh_listed o'). \<exists>uid vs v. map_of (sh_views o') uid = Some vs \<and> v \<in> set vs \<and> vw_ProposalID v = p)"

lemma add_view_listed: "listed_ok o' \<Longrightarrow> listed_ok (add_view uid v o')"
proof -
  assume ok: "listed_ok o'"
  let ?vs = "(case map_of (sh_views o') uid of None \<Rightarrow> [] | Some vs \<Rightarrow> vs) @ [v]"
  have new: "map_of (sh_views (add_view uid v o')) uid = Some ?vs" by (simp add: add_view_def update_conv)
  have "\<exists>uid' vs w. map_of (sh_views (add_view uid v o')) uid' = Some vs \<and> w \<in> set vs \<and> vw_ProposalID w = p"
    if p: "p \<in> set (sh_listed (add_view uid v o'))" for p
  proof (cases "p = vw_ProposalID v")
    case True
    then show ?thesis by (intro exI [of _ uid] exI [of _ ?vs] exI [of _ v]) (simp add: new)
  next
    case False
    with p have "p \<in> set (sh_listed o')" by (simp add: add_view_def)
    with ok obtain uid' vs w where w: "map_of (sh_views o') uid' = Some vs" "w \<in> set vs" "vw_ProposalID w = p"
      unfolding listed_ok_def by blast
    show ?thesis
    proof (cases "uid' = uid")
      case True
      with w show ?thesis by (intro exI [of _ uid] exI [of _ ?vs] exI [of _ w]) (simp add: new)
    next
      case False
      with w show ?thesis by (auto simp: add_view_def update_conv)
    qed
  qed
  then show ?thesis unfolding listed_ok_def by blast
qed

lemma show_live_listed: "listed_ok o' \<Longrightarrow> listed_ok (show_live st k o')" "set (sh_listed o') \<subseteq> set (sh_listed (show_live st k o'))"
  by (simp add: show_live_def add_view_listed split: option.split)
     (auto simp: show_live_def add_view_def split: option.split)

lemma show_latest_listed: "listed_ok o' \<Longrightarrow> listed_ok (show_latest st r o')"
  by (simp add: show_latest_def add_view_listed)

lemma fold_listed: "(\<And>x o'. listed_ok o' \<Longrightarrow> listed_ok (f x o')) \<Longrightarrow> listed_ok o' \<Longrightarrow> listed_ok (fold f xs o')"
  by (induction xs arbitrary: o') simp_all

lemma fold_show_live_grows: "set (sh_listed o') \<subseteq> set (sh_listed (fold (show_live st) ks o'))"
proof (induction ks arbitrary: o')
  case (Cons k ks)
  show ?case using show_live_listed(2) [of o' st k] Cons [of "show_live st k o'"] by simp
qed simp

lemma fold_show_live_lists:
  assumes "k \<in> set ks" and "map_of (st_recs st) k = Some r" and "occupies (rc_Phase r)"
    and "targetOf (in_Snapshot (st_in st)) (rc_TargetUID r) \<noteq> None"
  shows "rc_ProposalID r \<in> set (sh_listed (fold (show_live st) ks o'))"
  using assms(1)
proof (induction ks arbitrary: o')
  case (Cons k' ks)
  show ?case
  proof (cases "k' = k")
    case True
    have "rc_ProposalID r \<in> set (sh_listed (show_live st k o'))"
      using assms(2-4) by (auto simp: show_live_def add_view_def recordView_def)
    with True fold_show_live_grows [of "show_live st k o'" st ks] show ?thesis by auto
  next
    case False
    with Cons show ?thesis by simp
  qed
qed simp

lemma foldo_listed:
  assumes "foldo (decide_one E) ps (o', st) = Some (o'', st')" and "listed_ok o'"
  shows "listed_ok o''"
  using assms
proof (induction ps arbitrary: o' st)
  case (Cons p ps)
  from Cons.prems(1) obtain s1 where "decide_one E p (o', st) = Some s1" "foldo (decide_one E) ps s1 = Some (o'', st')"
    by (auto split: option.splits)
  then obtain v st1 where d: "decide E p st = Some (v, st1)"
      "foldo (decide_one E) ps ((add_view (ti_UID (bi_Target (pr_Binding p))) v o')\<lparr>sh_shown :=
         pr_Subject p # sh_shown (add_view (ti_UID (bi_Target (pr_Binding p))) v o')\<rparr>, st1) = Some (o'', st')"
    by (auto simp: decide_one_def Let_def split: option.splits)
  have "listed_ok ((add_view (ti_UID (bi_Target (pr_Binding p))) v o')\<lparr>sh_shown := x\<rparr>)" for x
    using add_view_listed [OF Cons.prems(2)] by (simp add: listed_ok_def)
  with Cons.IH d(2) show ?case by blast
qed simp

lemma map_of_sorted_views: "map_of (map (\<lambda>(uid, vs). (uid, f vs)) al) uid = map_option f (map_of al uid)"
  by (induction al) auto

lemma run_step_visible:
  assumes run: "run_step E props st = Some (out, st')" and r: "map_of (st_recs st') k = Some r" "occupies (rc_Phase r)"
    "targetOf (in_Snapshot (st_in st')) (rc_TargetUID r) \<noteq> None"
  shows "\<exists>uid vs v. map_of (ou_Views out) uid = Some vs \<and> v \<in> set vs \<and> vw_ProposalID v = rc_ProposalID r"
proof -
  from run obtain st2 o1 where s: "foldo (decide_one E) props (\<lparr>sh_views = [], sh_shown = [], sh_listed = []\<rparr>, st2) = Some (o1, st')"
      "ou_Views out = map (\<lambda>(uid, vs). (uid, sort_slice View_less vs))
         (sh_views (fold (show_live st') (keys st') (fold (show_latest st') (latestPerSubject st') o1)))"
    by (auto simp: run_step_def Let_def split: option.splits)
  define o2 where "o2 = fold (show_latest st') (latestPerSubject st') o1"
  define o3 where "o3 = fold (show_live st') (keys st') o2"
  have "listed_ok o1" by (rule foldo_listed [OF s(1)]) (simp add: listed_ok_def)
  then have "listed_ok o2" unfolding o2_def by (rule fold_listed [rotated]) (rule show_latest_listed)
  then have ok: "listed_ok o3" unfolding o3_def by (rule fold_listed [rotated]) (rule show_live_listed(1))
  have "k \<in> set (keys st')" using r(1) by (force simp: keys_def dest: map_of_SomeD)
  then have "rc_ProposalID r \<in> set (sh_listed o3)" unfolding o3_def by (rule fold_show_live_lists [OF _ r])
  with ok obtain uid vs v where "map_of (sh_views o3) uid = Some vs" "v \<in> set vs" "vw_ProposalID v = rc_ProposalID r"
    unfolding listed_ok_def by blast
  moreover have "map_of (ou_Views out) uid = map_option (sort_slice View_less) (map_of (sh_views o3) uid)"
    unfolding s(2) o2_def [symmetric] o3_def [symmetric] by (rule map_of_sorted_views)
  ultimately show ?thesis by (intro exI [of _ uid] exI [of _ "sort_slice View_less vs"] exI [of _ v]) simp
qed

end
