(* ===== verification/Action_Properties.thy ===== *)
theory Action_Properties
  imports Action_Steps
begin

text \<open>
  The engine on the in-memory journal, an example, the interleaving of several engines on one journal, and
  the properties of package \<open>action\<close>.
\<close>

section \<open>The engine on the in-memory journal\<close>

definition mem_env :: "(string \<Rightarrow> Registration option) \<Rightarrow> 'w connections \<Rightarrow> ('w \<Rightarrow> Decision list option \<times> 'w) option \<Rightarrow>
    (Decision \<Rightarrow> bool) option \<Rightarrow> (digested \<Rightarrow> string) \<Rightarrow> (MemJournal, 'w) engine_env" where
  "mem_env providers conn decisions verifier dg = \<lparr>eg_Journal = mem_ops, eg_Providers = providers, eg_Conn = conn,
     eg_Decisions = decisions, eg_Verifier = verifier, eg_digest = dg\<rparr>"

lemma mem_env_journal [simp]: "eg_Journal (mem_env p c d v dg) = mem_ops"
  by (simp add: mem_env_def)

interpretation mem_engine: engine "mem_env p c d v dg" mem_inv mem_lookup mj_epoch for p c d v dg
  by (simp add: engine_def mem.journal_axioms)

section \<open>Overlapping engines\<close>

text \<open>Several engines on one journal, their effects interleaved in any order. Engine \<open>i\<close> claims its epoch
  once, starts a step by listing the journal, and then acts on the journal as the others have left it. The
  state is the shared journal, the epochs (zero before the claim) and the running steps.\<close>

inductive interleaved :: "(nat \<Rightarrow> ('j, 'w) engine_env) \<Rightarrow> 'j journal_ops \<Rightarrow> ('j \<Rightarrow> string \<Rightarrow> Record option) \<Rightarrow> ('j \<Rightarrow> 64 word) \<Rightarrow>
    'j \<times> (nat \<Rightarrow> 64 word) \<times> (nat \<Rightarrow> ('j, 'w) step option) \<Rightarrow> 'j \<times> (nat \<Rightarrow> 64 word) \<times> (nat \<Rightarrow> ('j, 'w) step option) \<Rightarrow> bool"
  for Es J recs newest where
  claim: "eps i = 0 \<Longrightarrow> newest j \<noteq> - 1 \<Longrightarrow> j_Epoch J j = (Some ep, j') \<Longrightarrow>
    interleaved Es J recs newest (j, eps, ls) (j', eps(i := ep), ls)"
| start: "eps i \<noteq> 0 \<Longrightarrow> j_List J j = Some l \<Longrightarrow> st_epoch st = eps i \<Longrightarrow> st_recs st = load_records l \<Longrightarrow>
    interleaved Es J recs newest (j, eps, ls) (j, eps, ls(i \<mapsto> st))"
| act: "ls i = Some st \<Longrightarrow> effect (Es i) recs newest P (st\<lparr>st_journal := j\<rparr>) st' \<Longrightarrow>
    interleaved Es J recs newest (j, eps, ls) (st_journal st', eps, ls(i \<mapsto> st'))"

definition overlap_inv :: "('j \<Rightarrow> bool) \<Rightarrow> ('j \<Rightarrow> string \<Rightarrow> Record option) \<Rightarrow> ('j \<Rightarrow> 64 word) \<Rightarrow>
    'j \<times> (nat \<Rightarrow> 64 word) \<times> (nat \<Rightarrow> ('j, 'w) step option) \<Rightarrow> bool" where
  "overlap_inv jinv recs newest s \<longleftrightarrow> (case s of (j, eps, ls) \<Rightarrow>
     jinv j \<and> ledger_ok (recs j) \<and> (\<forall>i. eps i \<le> newest j) \<and> (\<forall>i k. eps i \<noteq> 0 \<and> eps i = eps k \<longrightarrow> i = k) \<and>
     (\<forall>i st. ls i = Some st \<longrightarrow> st_epoch st = eps i \<and> eps i \<noteq> 0 \<and> keyed st \<and>
        (eps i = newest j \<longrightarrow> synced recs (st\<lparr>st_journal := j\<rparr>))))"

lemma overlap_invD:
  assumes "overlap_inv jinv recs newest (j, eps, ls)"
  shows "jinv j" "ledger_ok (recs j)" "eps i \<le> newest j" "eps i \<noteq> 0 \<Longrightarrow> eps i = eps k \<Longrightarrow> i = k"
    "ls i = Some st \<Longrightarrow> st_epoch st = eps i \<and> eps i \<noteq> 0 \<and> keyed st"
    "ls i = Some st \<Longrightarrow> eps i = newest j \<Longrightarrow> synced recs (st\<lparr>st_journal := j\<rparr>)"
  using assms unfolding overlap_inv_def prod.case by blast+

lemma overlap_invI:
  assumes "jinv j" "ledger_ok (recs j)" "\<And>i. eps i \<le> newest j" "\<And>i k. eps i \<noteq> 0 \<Longrightarrow> eps i = eps k \<Longrightarrow> i = k"
    "\<And>i st. ls i = Some st \<Longrightarrow> st_epoch st = eps i \<and> eps i \<noteq> 0 \<and> keyed st"
    "\<And>i st. ls i = Some st \<Longrightarrow> eps i = newest j \<Longrightarrow> synced recs (st\<lparr>st_journal := j\<rparr>)"
  shows "overlap_inv jinv recs newest (j, eps, ls)"
  using assms unfolding overlap_inv_def prod.case by blast

context journal
begin

lemma overlap_claim:
  assumes I: "overlap_inv inv recs newest (j, eps, ls)" and z: "eps i = 0" "newest j \<noteq> - 1" and ep: "j_Epoch J j = (Some ep, j')"
  shows "overlap_inv inv recs newest (j', eps(i := ep), ls)"
proof -
  note D = overlap_invD [OF I]
  have n: "newest j' = ep" "newest j < ep" "recs j' = recs j"
    using epoch_newest [OF ep] epoch_greater [OF ep z(2)] epoch_recs [OF ep] by simp_all
  have lt: "eps k < ep" for k using D(3) [of k] n(2) by (rule order_le_less_trans)
  have idle: "ls i = None" using D(5) [of i] z(1) by (cases "ls i") auto
  show ?thesis
  proof (rule overlap_invI)
    show "inv j'" by (rule epoch_inv [OF D(1) ep])
    show "ledger_ok (recs j')" using D(2) n(3) by simp
    show "(eps(i := ep)) k \<le> newest j'" for k using order_less_imp_le [OF lt [of k]] n(1) by simp
    show "k = m" if "(eps(i := ep)) k \<noteq> 0" "(eps(i := ep)) k = (eps(i := ep)) m" for k m
      using that D(4) [of k m] lt [of k] lt [of m] by (auto split: if_splits)
    fix k st assume st: "ls k = Some st"
    then have k: "k \<noteq> i" using idle by auto
    with D(5) [OF st] show "st_epoch st = (eps(i := ep)) k \<and> (eps(i := ep)) k \<noteq> 0 \<and> keyed st" by simp
    assume "(eps(i := ep)) k = newest j'"
    with k n(1) lt [of k] show "synced recs (st\<lparr>st_journal := j'\<rparr>)" by simp
  qed
qed

lemma overlap_start:
  assumes I: "overlap_inv inv recs newest (j, eps, ls)" and i: "eps i \<noteq> 0" and l: "j_List J j = Some l"
    and st: "st_epoch st = eps i" "st_recs st = load_records l"
  shows "overlap_inv inv recs newest (j, eps, ls(i \<mapsto> st))"
proof -
  note D = overlap_invD [OF I]
  have d: "distinct (map rc_Key l)" by (rule list_distinct [OF D(1) l])
  have keyed: "keyed st" unfolding keyed_def st(2) load_records_lookup [OF d]
    using distinct_load [of "[]" l] by (simp add: load_records_def)
  have "recs j k = map_of (st_recs st) k" for k
    using list_recs [OF D(1) l] load_records_lookup [OF d] unfolding st(2) by (metis not_Some_eq)
  then have syn: "synced recs (st\<lparr>st_journal := j\<rparr>)" by (simp add: synced_def option.rel_refl)
  show ?thesis
  proof (rule overlap_invI)
    show "inv j" "ledger_ok (recs j)" by (rule D)+
    show "eps k \<le> newest j" for k by (rule D(3))
    show "eps k \<noteq> 0 \<Longrightarrow> eps k = eps m \<Longrightarrow> k = m" for k m by (rule D(4))
    fix k st' assume st': "(ls(i \<mapsto> st)) k = Some st'"
    show "st_epoch st' = eps k \<and> eps k \<noteq> 0 \<and> keyed st'"
      using st' D(5) [of k st'] st(1) i keyed by (cases "k = i") auto
    show "eps k = newest j \<Longrightarrow> synced recs (st'\<lparr>st_journal := j\<rparr>)"
      using st' D(6) [of k st'] syn by (cases "k = i") auto
  qed
qed

end

lemma overlap_act:
  assumes J: "engine E jinv recs newest"
    and I: "overlap_inv jinv recs newest (j, eps, ls)" and i: "ls i = Some st"
    and eff: "effect E recs newest P (st\<lparr>st_journal := j\<rparr>) st'"
  shows "overlap_inv jinv recs newest (st_journal st', eps, ls(i \<mapsto> st'))"
proof -
  note D = overlap_invD [OF I]
  let ?st = "st\<lparr>st_journal := j\<rparr>"
  have st: "st_epoch st = eps i" "eps i \<noteq> 0" "keyed ?st" using D(5) [OF i] by (simp_all add: keyed_def)
  have effs: "effects E recs newest P ?st st'" using eff by (rule r_into_rtranclp)
  have ep: "st_epoch st' = eps i" using effect_frame [OF eff] st(1) by (simp add: frame_def)
  have k': "keyed st'" by (rule engine.effect_keyed [OF J eff st(3)])
  have nw: "newest (st_journal st') = newest j" using engine.effects_durable [OF J effs] by simp
  have main: "jinv (st_journal st') \<and> ledger_ok (recs (st_journal st')) \<and>
      (if eps i = newest j then synced recs st' else st_journal st' = j)"
  proof (cases "eps i = newest j")
    case True
    have syn: "synced recs ?st" by (rule D(6) [OF i True])
    have "ledger_ok (map_of (st_recs ?st))" using engine.synced_ledger [OF J syn] D(2) by simp
    then have "ledger_ok (map_of (st_recs st'))" by (rule engine.effect_ledger [OF J eff])
    moreover have "synced recs st' \<and> jinv (st_journal st')"
      by (rule engine.effect_synced [OF J eff st(3) syn]) (simp add: D(1))
    ultimately show ?thesis using True engine.synced_ledger [OF J, of st'] by simp
  next
    case False
    then have "st_epoch ?st < newest (st_journal ?st)" using D(3) [of i] st(1) by simp
    from engine.effects_fenced [OF J effs this] have "st_journal st' = j" by simp
    with False D(1,2) show ?thesis by simp
  qed
  show ?thesis
  proof (rule overlap_invI)
    show "jinv (st_journal st')" "ledger_ok (recs (st_journal st'))" using main by simp_all
    show "eps k \<le> newest (st_journal st')" for k using D(3) nw by simp
    show "eps k \<noteq> 0 \<Longrightarrow> eps k = eps m \<Longrightarrow> k = m" for k m by (rule D(4))
    fix k s assume s: "(ls(i \<mapsto> st')) k = Some s"
    show "st_epoch s = eps k \<and> eps k \<noteq> 0 \<and> keyed s" using s D(5) [of k s] ep st(2) k' by (cases "k = i") auto
    assume n: "eps k = newest (st_journal st')"
    show "synced recs (s\<lparr>st_journal := st_journal st'\<rparr>)"
    proof (cases "k = i")
      case True
      with s n nw main show ?thesis by auto
    next
      case False
      with n nw D(4) [OF st(2), of k] have "eps i \<noteq> newest j" by auto
      with main have "st_journal st' = j" by simp
      with s False D(6) [of k s] n nw show ?thesis by simp
    qed
  qed
qed

lemma interleaved_inv:
  assumes J: "journal J jinv recs newest" and E: "\<And>i. eg_Journal (Es i) = J"
    and "(interleaved Es J recs newest)\<^sup>*\<^sup>* s s'" and "overlap_inv jinv recs newest s"
  shows "overlap_inv jinv recs newest s'"
  using assms(3,4)
proof (induction rule: rtranclp_induct)
  case (step y z)
  have y: "overlap_inv jinv recs newest y" by (rule step.IH [OF step.prems])
  from step.hyps(2) show ?case
  proof cases
    case (claim eps i j ep j' ls)
    show ?thesis using journal.overlap_claim [OF J y [unfolded claim(1)] claim(3-5)] claim(2) by simp
  next
    case (start eps i j l st ls)
    show ?thesis using journal.overlap_start [OF J y [unfolded start(1)] start(3-6)] start(2) by simp
  next
    case (act ls i st P j st' eps)
    have "engine (Es i) jinv recs newest" using J E by (simp add: engine_def)
    from overlap_act [OF this y [unfolded act(1)] act(3,4)] act(2) show ?thesis by simp
  qed
qed simp

text \<open>A run of one engine alone is an interleaving.\<close>

lemma effects_interleaved:
  assumes "effects (Es i) recs newest P st st'"
  shows "(interleaved Es J recs newest)\<^sup>*\<^sup>* (st_journal st, eps, ls(i \<mapsto> st)) (st_journal st', eps, ls(i \<mapsto> st'))"
  using assms
proof (induction rule: rtranclp_induct)
  case (step y z)
  have "interleaved Es J recs newest (st_journal y, eps, ls(i \<mapsto> y)) (st_journal z, eps, (ls(i \<mapsto> y))(i \<mapsto> z))"
    by (rule interleaved.act [where st = y and P = P]) (use step.hyps(2) in simp_all)
  then have "interleaved Es J recs newest (st_journal y, eps, ls(i \<mapsto> y)) (st_journal z, eps, ls(i \<mapsto> z))"
    by (simp only: fun_upd_upd)
  with step.IH show ?case by (rule rtranclp.rtrancl_into_rtrancl)
qed simp

section \<open>An example\<close>

text \<open>One provider that accepts what it is handed and reports it pending, one policy-approved response for the
  failing store, one engine on a fresh journal.\<close>

definition demo_conn :: "Handoff list connections" where
  "demo_conn = \<lparr>pv_Submit = (\<lambda>name h w. (Some \<lparr>rp_Key = h_Key h, rp_Fence = h_Fence h, rp_Digest = h_Digest h,
       rp_Accepted = True, rp_Ref = ''ref''\<rparr>, w @ [h])),
     pv_Result = (\<lambda>name k w. (Some (case List.find (\<lambda>h. h_Key h = k) w of
         None \<Rightarrow> \<lparr>rt_Key = k, rt_Fence = 0, rt_Digest = [], rt_State = ResultUnknown, rt_Ref = []\<rparr>
       | Some h \<Rightarrow> \<lparr>rt_Key = k, rt_Fence = h_Fence h, rt_Digest = h_Digest h, rt_State = ResultPending, rt_Ref = ''ref''\<rparr>), w))\<rparr>"

definition demo_registry :: "string \<Rightarrow> Registration option" where
  "demo_registry = map_of [(''p'', \<lparr>rg_Owner = ''ops'', rg_Namespaces = [''n''], rg_Actions = [''restart@1'']\<rparr>)]"

definition demo_env :: "(MemJournal, Handoff list) engine_env" where
  "demo_env = mem_env demo_registry demo_conn None None demo_dg"

definition demo_policy :: Profile where
  "demo_policy = \<lparr>pf_Revision = ''1'', pf_Responses = [demo_response\<lparr>re_RequiresApproval := False\<rparr>]\<rparr>"

definition demo_small :: Snapshot where
  "demo_small = \<lparr>s_At = 100, s_Contracts = [], s_Targets = [demo_targets ! 1], s_Observations = []\<rparr>"

definition demo_small_assessment :: Assessment where
  "demo_small_assessment = \<lparr>a_Targets = [\<lparr>ta_Target = t_Identity (demo_targets ! 1), ta_Contract = demo_store_id, ta_Valid = True,
     ta_InvalidReasons = [], ta_Sync = SyncNotApplicable, ta_EnvelopeSelection = [], ta_Evidence = [],
     ta_Capabilities = [\<lparr>cr_Type = demo_type ''write'', cr_State = Degraded, cr_Reasons = []\<rparr>], ta_Envelopes = []\<rparr>]\<rparr>"

definition demo_input :: "instant \<Rightarrow> Input" where
  "demo_input now = \<lparr>in_Snapshot = demo_small, in_Assessment = demo_small_assessment, in_Profile = Some demo_policy, in_Now = now\<rparr>"

definition Stats_zero :: Stats where
  "Stats_zero = \<lparr>sx_Submits = 0, sx_Resends = 0, sx_Adopted = 0, sx_IgnoredResponses = 0, sx_JournalFailures = 0,
     sx_SendFailures = 0, sx_Takeovers = 0, sx_DecisionFailures = 0\<rparr>"

definition demo_engine :: "MemJournal \<Rightarrow> (MemJournal, Handoff list) Engine" where
  "demo_engine j = \<lparr>en_epoch = 0, en_stats = Stats_zero, en_journal = j, en_world = []\<rparr>"

definition demo_run :: "(StepError + Output) \<times> (MemJournal, Handoff list) Engine \<times> (Handoff \<times> MemJournal) list" where
  "demo_run = (case Step demo_env (demo_input 100) (demo_engine NewSimulatedDurableJournal) of
     Some y \<Rightarrow> y | None \<Rightarrow> (Inl ErrList, demo_engine NewMemJournal, []))"

text \<open>The step hands off one attempt, which its provider accepts.\<close>

lemma demo_run_sent:
  "case Step demo_env (demo_input 100) (demo_engine NewSimulatedDurableJournal) of
     Some (Inr out, e, sent) \<Rightarrow> map (h_Key \<circ> fst) sent = [''1st1drrestartops/1''] \<and> en_epoch e = 1 \<and>
       (case mem_lookup (en_journal e) ''1st1drrestartops/1'' of
          Some r \<Rightarrow> rc_Phase r = PhaseAccepted \<and> rc_TargetUID r = ''t1'' \<and> rc_ProposalID r = ''1st1drrestartops'' \<and> rc_MaxSends r = 3
        | None \<Rightarrow> False) \<and>
       list_all (\<lambda>(k, r). rc_MaxSends r \<noteq> 0) (mj_recs (en_journal e)) \<and> mj_durable (en_journal e)
   | _ \<Rightarrow> False"
  by code_simp

definition demo_output :: Output where
  "demo_output = (case fst demo_run of Inr out \<Rightarrow> out | Inl err \<Rightarrow> \<lparr>ou_Views = [], ou_NextWake = 0\<rparr>)"

abbreviation demo_after :: "(MemJournal, Handoff list) Engine" where
  "demo_after \<equiv> fst (snd demo_run)"

abbreviation demo_sent :: "(Handoff \<times> MemJournal) list" where
  "demo_sent \<equiv> snd (snd demo_run)"

lemma demo_step:
  "Step demo_env (demo_input 100) (demo_engine NewSimulatedDurableJournal) = Some (Inr demo_output, demo_after, demo_sent)"
  "map (h_Key \<circ> fst) demo_sent = [''1st1drrestartops/1'']" "en_epoch demo_after = 1"
  "\<exists>r. mem_lookup (en_journal demo_after) ''1st1drrestartops/1'' = Some r \<and> rc_Phase r = PhaseAccepted \<and> rc_TargetUID r = ''t1'' \<and>
     rc_ProposalID r = ''1st1drrestartops'' \<and> rc_MaxSends r = 3"
  "list_all (\<lambda>(k, r). rc_MaxSends r \<noteq> 0) (mj_recs (en_journal demo_after))" "mj_durable (en_journal demo_after)"
proof -
  obtain x e sent where s: "Step demo_env (demo_input 100) (demo_engine NewSimulatedDurableJournal) = Some (x, e, sent)"
    using demo_run_sent by (cases "Step demo_env (demo_input 100) (demo_engine NewSimulatedDurableJournal)") auto
  obtain out where x: "x = Inr out" using demo_run_sent unfolding s by (cases x) auto
  note d = demo_run_sent [unfolded s x option.case prod.case sum.case]
  show "Step demo_env (demo_input 100) (demo_engine NewSimulatedDurableJournal) = Some (Inr demo_output, demo_after, demo_sent)"
    by (simp add: s x demo_run_def demo_output_def)
  show "map (h_Key \<circ> fst) demo_sent = [''1st1drrestartops/1'']" "en_epoch demo_after = 1" using d by (simp_all add: s demo_run_def)
  show "\<exists>r. mem_lookup (en_journal demo_after) ''1st1drrestartops/1'' = Some r \<and> rc_Phase r = PhaseAccepted \<and> rc_TargetUID r = ''t1'' \<and>
     rc_ProposalID r = ''1st1drrestartops'' \<and> rc_MaxSends r = 3"
    using d by (cases "mem_lookup (en_journal e) ''1st1drrestartops/1''") (simp_all add: s demo_run_def)
  show "list_all (\<lambda>(k, r). rc_MaxSends r \<noteq> 0) (mj_recs (en_journal demo_after))" "mj_durable (en_journal demo_after)"
    using d by (simp_all add: s demo_run_def)
qed

lemma demo_after_budgets: "mem_lookup (en_journal demo_after) k = Some r \<Longrightarrow> rc_MaxSends r \<noteq> 0"
  using demo_step(5) unfolding mem_lookup_def list_all_iff by (auto dest: map_of_SomeD)

lemma demo_start: "mem_inv (en_journal (demo_engine NewSimulatedDurableJournal))"
  "ledger_ok (mem_lookup (en_journal (demo_engine NewSimulatedDurableJournal)))"
  by (simp_all add: demo_engine_def NewSimulatedDurableJournal_def mem_inv_def mem_lookup_def ledger_ok_def exclusive_def ordered_def)

lemma demo_journal: "journal (eg_Journal demo_env) mem_inv mem_lookup mj_epoch"
  by (simp add: demo_env_def mem.journal_axioms)

lemma engine_step_returns:
  assumes J: "journal (eg_Journal E) jinv recs newest" and inv: "jinv (en_journal e)"
    and budgets: "\<And>k r. recs (en_journal e) k = Some r \<Longrightarrow> rc_MaxSends r \<noteq> 0"
    and profile: "\<And>p. in_Profile inp = Some p \<Longrightarrow> Profile_Validate p = None"
  shows "\<exists>y. Step E inp e = Some y"
proof -
  have E: "engine E jinv recs newest" by (rule engine.intro [OF J])
  obtain err e1 where c: "claim_epoch E e = (err, e1)" by fastforce
  have e1: "jinv (en_journal e1)" "recs (en_journal e1) = recs (en_journal e)"
    using c inv journal.epoch_inv [OF J, of "en_journal e"] journal.epoch_recs [OF J, of "en_journal e"]
    by (auto simp: claim_epoch_def split: if_splits prod.splits option.splits)
  show ?thesis
  proof (cases "err = None \<and> j_List (eg_Journal E) (en_journal e1) \<noteq> None")
    case False
    with c show ?thesis by (auto simp: Step_def split: option.splits)
  next
    case True
    then obtain l where l: "j_List (eg_Journal E) (en_journal e1) = Some l" by blast
    obtain props st where b: "begin_step E inp l e1 = (props, st)" by fastforce
    have d: "distinct (map rc_Key l)" by (rule journal.list_distinct [OF J e1(1) l])
    note f = begin_step_facts [OF b d]
    have "rc_MaxSends r \<noteq> 0" if r: "map_of (st_recs st) k = Some r" for k r
    proof -
      have "recs (en_journal e1) k = Some r"
        using r journal.list_recs [OF J e1(1) l] load_records_lookup [OF d] unfolding f(8) by simp
      then show ?thesis using budgets e1(2) by simp
    qed
    then have "engine.budgeted (set props) st" unfolding engine.budgeted_def [OF E] using f(1,2) by blast
    moreover have "SendBudget (exec_of q) \<noteq> 0" if q: "q \<in> set props" for q
    proof (cases "in_Profile inp")
      case None
      with q f(9) show ?thesis by (simp add: derive_def)
    next
      case (Some p)
      from q f(9) Some obtain t ta r ex c where o: "r \<in> candidates_of t ta (pf_Responses p)" "re_Execution r = Some ex"
          "q = proposal_of_declaration (eg_digest E) t ta p (episode (load_records l)) r ex c"
        by (auto elim!: derive_elim)
      have "execution_wf ex r"
        by (rule Profile_Validate_execution [OF profile [OF Some] _ o(2)]) (use o(1) in \<open>simp add: candidates_of_def\<close>)
      moreover have "exec_of q = ex" using o by (simp add: exec_of_def)
      ultimately show ?thesis by (simp add: execution_wf_def)
    qed
    ultimately obtain out st' where "run_step E props st = Some (out, st')"
      using engine.run_step_returns [OF E, of props st] by auto
    with c True l b show ?thesis by (auto simp: Step_def)
  qed
qed

lemma demo_profile_valid: "in_Profile (demo_input t) = Some p \<Longrightarrow> Profile_Validate p = None"
proof -
  have "Profile_Validate demo_policy = None" by code_simp
  then show "in_Profile (demo_input t) = Some p \<Longrightarrow> Profile_Validate p = None" by (simp add: demo_input_def)
qed

lemma demo_after_ok: "mem_inv (en_journal demo_after)" "ledger_ok (mem_lookup (en_journal demo_after))"
  using mem_engine.Step_ledger_ok demo_step(1) demo_start unfolding demo_env_def by blast+

lemma demo_again: "\<exists>x e' sent. Step demo_env (demo_input 200) demo_after = Some (x, e', sent)"
proof -
  have "\<exists>y. Step demo_env (demo_input 200) demo_after = Some y"
    by (rule engine_step_returns [OF demo_journal demo_after_ok(1)]) (rule demo_after_budgets demo_profile_valid, assumption)+
  then show ?thesis by (metis prod_cases3)
qed

text \<open>The same engine after another one has claimed the journal, and on a journal that is not durable.\<close>

definition demo_superseded :: "(MemJournal, Handoff list) Engine" where
  "demo_superseded = demo_after\<lparr>en_journal := (en_journal demo_after)\<lparr>mj_epoch := 2\<rparr>\<rparr>"

lemma demo_superseded_facts:
  "mem_inv (en_journal demo_superseded)" "en_epoch demo_superseded = 1" "mj_epoch (en_journal demo_superseded) = 2"
  "\<exists>x e' sent. Step demo_env (demo_input 200) demo_superseded = Some (x, e', sent)"
proof -
  have l: "mem_lookup (en_journal demo_superseded) = mem_lookup (en_journal demo_after)"
    by (simp add: demo_superseded_def mem_lookup_def)
  show i: "mem_inv (en_journal demo_superseded)" using demo_after_ok(1) by (simp add: demo_superseded_def mem_inv_def)
  show "en_epoch demo_superseded = 1" "mj_epoch (en_journal demo_superseded) = 2"
    using demo_step(3) by (simp_all add: demo_superseded_def)
  have "\<exists>y. Step demo_env (demo_input 200) demo_superseded = Some y"
    by (rule engine_step_returns [OF demo_journal i, unfolded l]) (rule demo_after_budgets demo_profile_valid, assumption)+
  then show "\<exists>x e' sent. Step demo_env (demo_input 200) demo_superseded = Some (x, e', sent)" by (metis prod_cases3)
qed

lemma demo_volatile:
  "mem_inv NewMemJournal" "\<exists>x e' sent. Step demo_env (demo_input 100) (demo_engine NewMemJournal) = Some (x, e', sent)"
proof -
  show i: "mem_inv NewMemJournal" by (simp add: mem_inv_def NewMemJournal_def)
  have "\<exists>y. Step demo_env (demo_input 100) (demo_engine NewMemJournal) = Some y"
    by (rule engine_step_returns [OF demo_journal])
       (use i demo_profile_valid in \<open>simp_all add: demo_engine_def mem_lookup_def NewMemJournal_def\<close>)
  then show "\<exists>x e' sent. Step demo_env (demo_input 100) (demo_engine NewMemJournal) = Some (x, e', sent)" by (metis prod_cases3)
qed

section \<open>Properties\<close>

text \<open>C17: The ledger invariant. On any journal that keeps its contract, a step keeps it: every record
  is well formed (its key is proposal and attempt, an end of execution only on a definitive result that is no refusal, a final
  recovery only after an end, between one send and the send budget), at most one attempt may occupy a target, and of the
  attempts of one proposal all but the last have failed.\<close>

theorem Step_ledger:
  assumes "journal (eg_Journal E) jinv recs newest" and "jinv (en_journal e)" and "ledger_ok (recs (en_journal e))"
    and "Step E inp e = Some (x, e', sent)"
  shows "jinv (en_journal e') \<and> ledger_ok (recs (en_journal e'))"
  using engine.Step_ledger_ok [OF engine.intro [OF assms(1)] assms(4,2,3)] .

theorem Step_ledger_witness: "mem_inv (en_journal demo_after) \<and> ledger_ok (mem_lookup (en_journal demo_after))"
  by (rule Step_ledger [OF demo_journal demo_start demo_step(1)])

text \<open>C18: Nothing is sent that is not persisted, current and authorised. Whatever a step submits is the
  content of a dispatching record that the journal held at that moment, written under this engine's epoch; and that
  record belongs to a proposal derived from this step's input whose owner is declared and unambiguous, whose registered
  provider is authorised, whose preconditions are all proven, and which the policy alone may approve or a named approver has
  approved by a verified, unexpired decision on exactly this digest that no valid rejection opposes.\<close>

theorem handoff_authorised:
  assumes "journal (eg_Journal E) jinv recs newest" and "jinv (en_journal e)"
    and "Step E inp e = Some (x, e', sent)" and "(h, j) \<in> set sent"
  shows "\<exists>r p ep. recs j (h_Key h) = Some r \<and> h = handoff_of r \<and> rc_Phase r = PhaseDispatching \<and>
    rc_Fence r = en_epoch e' \<and> h_Fence h = en_epoch e' \<and>
    p \<in> set (derive (eg_digest E) (in_Snapshot inp) (in_Assessment inp) (in_Profile inp) ep) \<and>
    pr_ID p = h_ProposalID h \<and> pr_Digest p = h_Digest h \<and> cleared E j p \<and>
    approved_by E (in_Now inp) (fst (read_decisions E (snd (claim_epoch E e)))) p (rc_Approval r) (rc_Decision r)"
proof -
  obtain ep where "submitted_ok E recs
      (set (derive (eg_digest E) (in_Snapshot inp) (in_Assessment inp) (in_Profile inp) ep))
      (en_epoch e') (in_Now inp) (fst (read_decisions E (snd (claim_epoch E e)))) (h, j)"
    using engine.Step_submitted [OF engine.intro [OF assms(1)] assms(3,2,4)] by blast
  then obtain r p where o: "recs j (h_Key h) = Some r" "h = handoff_of r" "rc_Phase r = PhaseDispatching"
      "rc_SentFence r = en_epoch e'" "rc_Fence r = en_epoch e'"
      "p \<in> set (derive (eg_digest E) (in_Snapshot inp) (in_Assessment inp) (in_Profile inp) ep)"
      "pr_ID p = rc_ProposalID r" "pr_Digest p = rc_Digest r" "cleared E j p"
      "approved_by E (in_Now inp) (fst (read_decisions E (snd (claim_epoch E e)))) p (rc_Approval r) (rc_Decision r)"
    unfolding submitted_ok_def prod.case by blast
  have "h_Fence h = en_epoch e'" "pr_ID p = h_ProposalID h" "pr_Digest p = h_Digest h"
    using o(4,7,8) by (simp_all add: o(2) handoff_of_def)
  with o(1-3,5,6,9,10) show ?thesis by blast
qed

theorem handoff_authorised_witness:
  "\<exists>h j r p ep. (h, j) \<in> set demo_sent \<and> h_Key h = ''1st1drrestartops/1'' \<and> mem_lookup j (h_Key h) = Some r \<and>
    h = handoff_of r \<and> rc_Phase r = PhaseDispatching \<and> rc_Fence r = 1 \<and>
    p \<in> set (derive demo_dg demo_small demo_small_assessment (Some demo_policy) ep) \<and> pr_ID p = h_ProposalID h \<and>
    cleared demo_env j p"
proof -
  obtain h j where hj: "(h, j) \<in> set demo_sent" "h_Key h = ''1st1drrestartops/1''"
    using demo_step(2) by (cases demo_sent) auto
  have i: "in_Snapshot (demo_input 100) = demo_small" "in_Assessment (demo_input 100) = demo_small_assessment"
      "in_Profile (demo_input 100) = Some demo_policy" "eg_digest demo_env = demo_dg"
    by (simp_all add: demo_input_def demo_env_def mem_env_def)
  from handoff_authorised [OF demo_journal demo_start(1) demo_step(1) hj(1)] hj show ?thesis
    unfolding i demo_step(3) by blast
qed

text \<open>C19: A superseded engine is silent. Once the journal has issued a newer epoch, a step of an engine with an older
  one leaves the journal as it is and sends nothing.\<close>

theorem fenced_engine_silent:
  assumes "journal (eg_Journal E) jinv recs newest" and "jinv (en_journal e)"
    and "en_epoch e \<noteq> 0" and "en_epoch e < newest (en_journal e)" and "Step E inp e = Some (x, e', sent)"
  shows "en_journal e' = en_journal e \<and> sent = []"
proof -
  have E: "engine E jinv recs newest" by (rule engine.intro [OF assms(1)])
  have c: "claim_epoch E e = (None, e)" using assms(3) by (simp add: claim_epoch_def)
  show ?thesis
  proof (cases rule: engine.Step_cases [OF E assms(5,2), case_names early run])
    case (early err)
    with assms(5) c show ?thesis by (auto simp: Step_def split: option.splits prod.splits)
  next
    case (run e1 l props st out st')
    note f = begin_step_facts [OF run(3,4)]
    have "e1 = e" using c run(1) by simp
    then have "st_epoch st < newest (st_journal st)" using f(4,5) assms(4) by simp
    from engine.effects_fenced [OF E run(9) this] f(3,4) run(7,8) \<open>e1 = e\<close> show ?thesis by (simp add: end_step_def)
  qed
qed

theorem fenced_engine_silent_witness:
  "\<exists>x e' sent. Step demo_env (demo_input 200) demo_superseded = Some (x, e', sent) \<and>
     en_journal e' = en_journal demo_superseded \<and> sent = []"
proof -
  obtain x e' sent where s: "Step demo_env (demo_input 200) demo_superseded = Some (x, e', sent)"
    using demo_superseded_facts(4) by blast
  have "en_epoch demo_superseded \<noteq> 0" "en_epoch demo_superseded < mj_epoch (en_journal demo_superseded)"
    by (simp_all add: demo_superseded_facts)
  from fenced_engine_silent [OF demo_journal demo_superseded_facts(1) this s] s show ?thesis by blast
qed

text \<open>C20: On a journal that does not survive a restart nothing is handed off.\<close>

theorem nondurable_journal_silent:
  assumes "journal (eg_Journal E) jinv recs newest" and "jinv (en_journal e)"
    and "\<not> j_Durable (eg_Journal E) (en_journal e)" and "Step E inp e = Some (x, e', sent)"
  shows "sent = []"
proof -
  have E: "engine E jinv recs newest" by (rule engine.intro [OF assms(1)])
  show ?thesis
  proof (cases rule: engine.Step_cases [OF E assms(4,2), case_names early run])
    case (run e1 l props st out st')
    note f = begin_step_facts [OF run(3,4)]
    have d1: "\<not> j_Durable (eg_Journal E) (en_journal e1)"
      using run(1) assms(3) journal.epoch_recs [OF assms(1), of "en_journal e"]
      by (auto simp: claim_epoch_def split: if_splits prod.splits option.splits)
    have "st_sent st' = []" using run(9)
    proof (induction rule: rtranclp_induct)
      case (step y z)
      have "\<not> j_Durable (eg_Journal E) (st_journal y)" using engine.effects_durable [OF E step.hyps(1)] d1 f(4) by simp
      with step.hyps(2) step.IH show ?case by cases (auto simp: quiet_def cleared_def)
    qed (simp add: f(3))
    with run(8) show ?thesis by simp
  qed simp
qed

theorem nondurable_journal_silent_witness:
  "\<exists>x e' sent. Step demo_env (demo_input 100) (demo_engine NewMemJournal) = Some (x, e', sent) \<and> sent = []"
proof -
  obtain x e' sent where s: "Step demo_env (demo_input 100) (demo_engine NewMemJournal) = Some (x, e', sent)"
    using demo_volatile(2) by blast
  have "\<not> j_Durable (eg_Journal demo_env) (en_journal (demo_engine NewMemJournal))" "mem_inv (en_journal (demo_engine NewMemJournal))"
    using demo_volatile(1) by (simp_all add: demo_env_def mem_ops_def demo_engine_def NewMemJournal_def)
  from nondurable_journal_silent [OF demo_journal this(2,1) s] s show ?thesis by blast
qed

text \<open>C21: A step always returns. With a validated profile, on a journal whose records have non-zero send
  budgets, nothing panics and every loop ends.\<close>

theorem Step_returns:
  assumes "journal (eg_Journal E) jinv recs newest" and "jinv (en_journal e)"
    and "\<And>k r. recs (en_journal e) k = Some r \<Longrightarrow> rc_MaxSends r \<noteq> 0"
    and "\<And>p. in_Profile inp = Some p \<Longrightarrow> Profile_Validate p = None"
  shows "\<exists>x e' sent. Step E inp e = Some (x, e', sent)"
proof -
  have "\<exists>y. Step E inp e = Some y"
    by (rule engine_step_returns [OF assms(1,2)]) (rule assms(3,4), assumption)+
  then show ?thesis by (metis prod_cases3)
qed

theorem Step_returns_witness: "\<exists>x e' sent. Step demo_env (demo_input 200) demo_after = Some (x, e', sent)"
  by (rule Step_returns [OF demo_journal demo_after_ok(1)]) (rule demo_after_budgets demo_profile_valid, assumption)+

text \<open>C22: No record is lost and none changes what it is. After a step every record of the journal is still there
  with its proposal, target, digest, approval, binding, action and provider; its phase has only moved forward (a dispatch may be
  accepted, succeed, fail, time out or be withdrawn; a timed-out or withdrawn attempt may still end; an ended one stays), its
  count of sends has not fallen and a recorded end of execution stands.\<close>

theorem Step_keeps_records:
  assumes "journal (eg_Journal E) jinv recs newest" and "jinv (en_journal e)" and "ledger_ok (recs (en_journal e))"
    and "Step E inp e = Some (x, e', sent)" and "recs (en_journal e) k = Some r"
  shows "\<exists>q. recs (en_journal e') k = Some q \<and> kept r q"
  using engine.Step_kept [OF engine.intro [OF assms(1)] assms(4,2,3,5)] .

theorem Step_keeps_records_witness:
  "\<exists>x e' sent q. Step demo_env (demo_input 200) demo_after = Some (x, e', sent) \<and>
     mem_lookup (en_journal e') ''1st1drrestartops/1'' = Some q \<and> rc_TargetUID q = ''t1'' \<and> phase_le PhaseAccepted (rc_Phase q)"
proof -
  obtain r where r: "mem_lookup (en_journal demo_after) ''1st1drrestartops/1'' = Some r" "rc_Phase r = PhaseAccepted" "rc_TargetUID r = ''t1''"
    using demo_step(4) by blast
  obtain x e' sent where s: "Step demo_env (demo_input 200) demo_after = Some (x, e', sent)" using demo_again by blast
  from Step_keeps_records [OF demo_journal demo_after_ok s r(1)] r(2,3) s show ?thesis by (auto simp: kept_def)
qed

text \<open>C23: An attempt that may still hold live responsibility stays visible: after a step that returns views,
  every occupying record of the journal whose target is in the snapshot has a view of its proposal.\<close>

theorem live_attempt_visible:
  assumes "journal (eg_Journal E) jinv recs newest" and "jinv (en_journal e)"
    and "Step E inp e = Some (Inr out, e', sent)" and "recs (en_journal e') k = Some r" and "occupies (rc_Phase r)"
    and "targetOf (in_Snapshot inp) (rc_TargetUID r) = Some t"
  shows "\<exists>uid vs v. map_of (ou_Views out) uid = Some vs \<and> v \<in> set vs \<and> vw_ProposalID v = rc_ProposalID r"
proof -
  have E: "engine E jinv recs newest" by (rule engine.intro [OF assms(1)])
  show ?thesis
  proof (cases rule: engine.Step_cases [OF E assms(3,2), case_names early run])
    case (run e1 l props st out' st')
    note f = begin_step_facts [OF run(3,4)]
    have "synced recs st'" using engine.effects_invariants(2) [OF E run(9) f(1) run(12)] f(4) run(10) by simp
    then have "rel_option same_record (recs (en_journal e') k) (map_of (st_recs st') k)" using run(7) by (simp add: synced_def end_step_def)
    then obtain q where q: "map_of (st_recs st') k = Some q" "same_record r q" using assms(4) by (cases "map_of (st_recs st') k") auto
    note s = same_record_fields [OF q(2)]
    have "st_in st' = inp" using effects_frame [OF run(9)] f(6) by (simp add: frame_def)
    with run_step_visible [OF run(5) q(1)] assms(5,6) s run(6) show ?thesis by simp
  qed simp
qed

theorem live_attempt_visible_witness:
  "\<exists>uid vs v. map_of (ou_Views demo_output) uid = Some vs \<and> v \<in> set vs \<and> vw_ProposalID v = ''1st1drrestartops''"
proof -
  obtain r where r: "mem_lookup (en_journal demo_after) ''1st1drrestartops/1'' = Some r" "rc_Phase r = PhaseAccepted"
      "rc_TargetUID r = ''t1''" "rc_ProposalID r = ''1st1drrestartops''"
    using demo_step(4) by blast
  have "occupies (rc_Phase r)" by (simp add: r(2) occupies_def)
  moreover have "targetOf (in_Snapshot (demo_input 100)) (rc_TargetUID r) = Some (demo_targets ! 1)"
    unfolding r(3) by code_simp
  ultimately show ?thesis
    using live_attempt_visible [OF demo_journal demo_start(1) demo_step(1) r(1)] r(4) by simp
qed


text \<open>The run of the example, alone among the engines.\<close>

lemma demo_interleaving:
  "\<exists>eps ls. (interleaved (\<lambda>_. demo_env) mem_ops mem_lookup mj_epoch)\<^sup>*\<^sup>*
     (NewSimulatedDurableJournal, (\<lambda>_. 0), (\<lambda>_. None)) (en_journal demo_after, eps, ls)"
proof -
  have E: "engine demo_env mem_inv mem_lookup mj_epoch" by (rule engine.intro [OF demo_journal])
  let ?r = "interleaved (\<lambda>_. demo_env) mem_ops mem_lookup mj_epoch" and ?j = NewSimulatedDurableJournal
  let ?e1 = "(\<lambda>_. 0 :: 64 word)(0 := 1)"
  show ?thesis
  proof (cases rule: engine.Step_cases [OF E demo_step(1) demo_start(1), case_names early run])
    case (run e1 l props st out st')
    note f = begin_step_facts [OF run(3,4)]
    have e1: "en_epoch e1 = 1" "en_journal e1 = ?j\<lparr>mj_epoch := 1\<rparr>" and J: "eg_Journal demo_env = mem_ops"
      using run(1) by (auto simp: claim_epoch_def demo_engine_def demo_env_def mem_ops_def MemJournal_Epoch_def
          NewSimulatedDurableJournal_def Let_def)
    have "?r (?j, (\<lambda>_. 0), (\<lambda>_. None)) (en_journal e1, ?e1, (\<lambda>_. None))"
      unfolding e1(2) by (rule interleaved.claim)
        (simp_all add: mem_ops_def MemJournal_Epoch_def NewSimulatedDurableJournal_def Let_def)
    moreover have "?r (en_journal e1, ?e1, (\<lambda>_. None)) (en_journal e1, ?e1, (\<lambda>_. None)(0 \<mapsto> st))"
      by (rule interleaved.start [where l = l]) (use run(2) J e1(1) f(5,8) in simp_all)
    moreover have "?r\<^sup>*\<^sup>* (en_journal e1, ?e1, (\<lambda>_. None)(0 \<mapsto> st)) (en_journal demo_after, ?e1, (\<lambda>_. None)(0 \<mapsto> st'))"
      using effects_interleaved [where Es = "\<lambda>_. demo_env" and J = mem_ops and i = 0, OF run(9), of ?e1 "\<lambda>_. None"] f(4) run(7)
      by (simp add: end_step_def)
    ultimately show ?thesis by (meson converse_rtranclp_into_rtranclp)
  qed simp
qed


text \<open>C25: No update of the journal is lost. After a write, a second write of the same key that read the record before it
  is refused and changes nothing; what was written is what is found.\<close>

theorem journal_no_lost_update:
  assumes "MemJournal_Put r j = (Inr r', j')" and "rc_Key s = rc_Key r" and "rc_Version s = rc_Version r"
  shows "(\<exists>err. MemJournal_Put s j' = (Inl err, j')) \<and> mem_lookup j' (rc_Key r) = Some r'"
  using mem.put_stale_refused [of r j r' j' s] mem.put_stored [of r j r' j'] assms by (simp add: mem_ops_def)

theorem journal_no_lost_update_witness:
  "\<exists>r' j'. MemJournal_Put (demo_record\<lparr>rc_Version := 0\<rparr>) NewMemJournal = (Inr r', j') \<and>
     (\<exists>err. MemJournal_Put (demo_record\<lparr>rc_Version := 0, rc_Sends := 2\<rparr>) j' = (Inl err, j'))"
proof -
  obtain r' j' where p: "MemJournal_Put (demo_record\<lparr>rc_Version := 0\<rparr>) NewMemJournal = (Inr r', j')"
    by (auto simp: MemJournal_Put_def NewMemJournal_def demo_record_def Let_def)
  from journal_no_lost_update [OF p, of "demo_record\<lparr>rc_Version := 0, rc_Sends := 2\<rparr>"] p show ?thesis by simp
qed

end
