(* ===== verification/Interaction_Status.thy ===== *)
theory Interaction_Status
  imports Interaction_Profile
begin

text \<open>
  The status of one target as the projection reads it and the interaction summary it writes
  (apis/ops/v1alpha1: \<open>target_types.go\<close>, \<open>interaction_types.go\<close>), with the bounded lists and texts of
  \<open>interaction/project.go\<close>. The API's capability type is the evaluator's record. The controller's protocol
  conditions, which the projection does not read, are left out of the status.
\<close>

section \<open>The status of a target\<close>

record StatusReason =
  sr_Code :: string
  sr_Subject :: string
  sr_Detail :: string

definition status_reason :: "string \<Rightarrow> string \<Rightarrow> StatusReason" where
  "status_reason code subject = \<lparr>sr_Code = code, sr_Subject = subject, sr_Detail = []\<rparr>"

record ObservedIdentity =
  oi_TargetUID :: string
  oi_ResolvedUID :: string
  oi_ContractName :: string
  oi_ContractUID :: string
  oi_ContractSpecDigest :: string

record DeniedReference =
  dn_Type :: string
  dn_Slot :: string
  dn_Namespace :: string

record EvidenceStatus =
  ev_Slot :: string
  ev_State :: string
  ev_Provider :: string
  ev_ConfigRevision :: string
  ev_EvidenceRef :: string

record CapabilityStatus =
  cps_Type :: CapabilityType
  cps_State :: string
  cps_Reasons :: "StatusReason list"

record EnvelopeStatus =
  en_Name :: string
  en_Class :: string
  en_State :: string
  en_Reasons :: "StatusReason list"

record OperationalTargetStatus =
  ot_ObservedGeneration :: int
  ot_AssessedAt :: "instant option"
  ot_Identity :: ObservedIdentity
  ot_Valid :: bool
  ot_Sync :: string
  ot_EnvelopeSelection :: string
  ot_InvalidReasons :: "StatusReason list"
  ot_DeniedReferences :: "DeniedReference list"
  ot_Evidence :: "EvidenceStatus list"
  ot_Capabilities :: "CapabilityStatus list"
  ot_Envelopes :: "EnvelopeStatus list"

section \<open>The summary\<close>

datatype InteractionLevel = LevelNoAction | LevelAwareness | LevelDecisionRequired | LevelImmediateIntervention

record InteractionCapability =
  ic_Type :: CapabilityType
  ic_State :: string
  ic_Reasons :: "StatusReason list"

record InteractionCandidate =
  ik_ID :: string
  ik_Kind :: string
  ik_Ref :: string
  ik_Status :: string

record InteractionInvestigation =
  iv_Outcome :: string
  iv_Refuted :: int
  iv_Maintained :: int
  iv_Open :: int

record InteractionResponse =
  ir_Name :: string
  ir_Target :: string
  ir_For :: CapabilityType
  ir_Owner :: string
  ir_RequiresApproval :: bool
  ir_Risks :: "string list"
  ir_Preconditions :: "StatusReason list"
  ir_Status :: string

record InteractionAction =
  ia_Proposal :: string
  ia_Digest :: string
  ia_Name :: string
  ia_For :: CapabilityType
  ia_Phase :: string
  ia_Attempt :: int
  ia_Reasons :: "StatusReason list"
  ia_Recovery :: string
  ia_RecoveryDetail :: "StatusReason list"

record InteractionStatus =
  is_Level :: InteractionLevel
  is_Summary :: string
  is_LevelReasons :: "StatusReason list"
  is_Affected :: "InteractionCapability list"
  is_Unaffected :: "InteractionCapability list"
  is_Unknown :: "InteractionCapability list"
  is_ConfirmedFacts :: "EvidenceStatus list"
  is_MissingEvidence :: "EvidenceStatus list"
  is_CauseCandidates :: "InteractionCandidate list"
  is_Investigation :: "InteractionInvestigation option"
  is_Responses :: "InteractionResponse list"
  is_HumanReasons :: "StatusReason list"
  is_PendingPostConditions :: "StatusReason list"
  is_Actions :: "InteractionAction list"
  is_IdentityDigest :: string
  is_Fingerprint :: string
  is_RecentFingerprints :: "string list"
  is_Recurring :: bool
  is_Recurrences :: int

section \<open>Bounds\<close>

definition maxCaps :: nat where "maxCaps = 64"
definition maxFacts :: nat where "maxFacts = 64"
definition maxCandidates :: nat where "maxCandidates = 16"
definition maxResponses :: nat where "maxResponses = 8"
definition maxActions :: nat where "maxActions = 8"
definition maxReasons :: nat where "maxReasons = 8"
definition maxCapReasons :: nat where "maxCapReasons = 4"
definition maxPost :: nat where "maxPost = 16"
definition maxHistory :: nat where "maxHistory = 4"
definition maxSummary :: nat where "maxSummary = 256"
definition statusReasonBound :: nat where "statusReasonBound = 40"

lemmas bound_defs = maxCaps_def maxFacts_def maxCandidates_def maxResponses_def maxActions_def maxReasons_def
  maxCapReasons_def maxPost_def maxHistory_def maxSummary_def statusReasonBound_def

text \<open>\<open>limit\<close>, \<open>limitCaps\<close> and the slices \<open>xs[:n]\<close> of longer lists.\<close>

definition limit :: "'a list \<Rightarrow> nat \<Rightarrow> 'a list" where
  "limit xs n = (if length xs > n then take n xs else xs)"

lemma limit_take [simp]: "limit xs n = take n xs"
  by (simp add: limit_def)

section \<open>Texts\<close>

definition typeKey :: "CapabilityType \<Rightarrow> string" where
  "typeKey c = ct_Domain c @ ''/'' @ ct_Name c @ ''@'' @ ct_Revision c"

text \<open>The loops that name the first \<open>n\<close> elements and count the rest.\<close>

definition first_named :: "nat \<Rightarrow> ('a \<Rightarrow> string) \<Rightarrow> 'a list \<Rightarrow> string list" where
  "first_named n f xs =
     (if length xs > n then map f (take n xs) @ [''+'' @ show_int (int (length xs) - int n) @ '' more''] else map f xs)"

definition joinCodes :: "StatusReason list \<Rightarrow> nat \<Rightarrow> string" where
  "joinCodes rs n =
     (let s = first_named n sr_Code rs in if s = [] then ''no reason reported'' else go_Join s '', '')"

definition capList :: "InteractionCapability list \<Rightarrow> string" where
  "capList cs = go_Join (first_named 3 (\<lambda>c. ct_Name (ic_Type c) @ '' '' @ ic_State c) cs) '', ''"

text \<open>\<open>utf8.ValidString\<close>: every step of the decoder takes an ASCII byte or a complete sequence.\<close>

function valid_runes :: "nat list \<Rightarrow> bool" where
  "valid_runes [] = True"
| "valid_runes (b # bs) =
     (if b < 0x80 then valid_runes bs
      else 1 < rune_size (b # bs) \<and> valid_runes (drop (rune_size (b # bs)) (b # bs)))"
  by pat_completeness auto
termination valid_runes
proof (relation "measure length", goal_cases)
  case (3 b bs)
  then show ?case using rune_size_pos [of "b # bs"] by (simp only: in_measure length_drop) simp
qed simp_all

definition ValidString :: "string \<Rightarrow> bool" where
  "ValidString s = valid_runes (map of_char s)"

lemma ValidString_Nil [simp]: "ValidString []"
  by (simp add: ValidString_def)

function trim_invalid :: "string \<Rightarrow> string" where
  "trim_invalid s = (if ValidString s then s else trim_invalid (butlast s))"
  by pat_completeness auto
termination trim_invalid
proof (relation "measure length", goal_cases)
  case (2 s)
  then have "s \<noteq> []" by auto
  then show ?case by simp
qed simp

definition clip :: "string \<Rightarrow> string" where
  "clip s = (if length s \<le> maxSummary then s else trim_invalid (take (maxSummary - 3) s) @ ''...'')"

declare trim_invalid.simps [simp del]

lemma trim_invalid_facts: "ValidString (trim_invalid s) \<and> (\<exists>t. s = trim_invalid s @ t)"
proof (induction s rule: trim_invalid.induct)
  case (1 s)
  show ?case
  proof (cases "ValidString s")
    case True
    then show ?thesis by (simp add: trim_invalid.simps)
  next
    case False
    then obtain t where "butlast s = trim_invalid (butlast s) @ t" "ValidString (trim_invalid (butlast s))" using 1 by blast
    moreover have "s \<noteq> []" using False by auto
    then have "s = butlast s @ [last s]" by simp
    moreover have "trim_invalid s = trim_invalid (butlast s)" using False by (simp add: trim_invalid.simps)
    ultimately show ?thesis by (metis append.assoc)
  qed
qed

lemma clip_bounded: "length (clip s) \<le> maxSummary"
proof -
  obtain t where "take (maxSummary - 3) s = trim_invalid (take (maxSummary - 3) s) @ t"
    using trim_invalid_facts by blast
  from arg_cong [OF this, of length] have "length (trim_invalid (take (maxSummary - 3) s)) \<le> maxSummary - 3" by simp
  then show ?thesis by (simp add: clip_def maxSummary_def)
qed

section \<open>Deterministic order\<close>

definition caps_less :: "InteractionCapability \<Rightarrow> InteractionCapability \<Rightarrow> bool" where
  "caps_less a b \<longleftrightarrow> typeKey (ic_Type a) < typeKey (ic_Type b)"

definition sortCaps :: "InteractionCapability list \<Rightarrow> InteractionCapability list" where
  "sortCaps cs = sort_slice caps_less cs"

definition reason_less :: "StatusReason \<Rightarrow> StatusReason \<Rightarrow> bool" where
  "reason_less a b =
     (if sr_Code a \<noteq> sr_Code b then sr_Code a < sr_Code b else sr_Subject a < sr_Subject b)"

text \<open>The first of equal reasons is kept, as the map of seen reasons does.\<close>

definition dedup :: "'a list \<Rightarrow> 'a list" where
  "dedup xs = rev (remdups (rev xs))"

definition dedupReasons :: "StatusReason list \<Rightarrow> StatusReason list" where
  "dedupReasons rs = sort_slice reason_less (dedup rs)"

lemma set_dedup [simp]: "set (dedup xs) = set xs"
  by (simp add: dedup_def)

lemma set_dedupReasons [simp]: "set (dedupReasons rs) = set rs"
  by (simp add: dedupReasons_def)

definition sortedCopy :: "string list \<Rightarrow> string list" where
  "sortedCopy s = sort_Strings s"

end
