(* ===== verification/Interaction_Project.thy ===== *)
theory Interaction_Project
  imports Interaction_Status
begin

text \<open>
  The projection of a target's status into the summary an operator reads (\<open>interaction/project.go\<close>): the
  level by the decision table, its reasons, the declared responses with their status, what is confirmed
  and missing, and the bounded history of meanings.

  The parameters are \<open>sha\<close>, SHA-256 in hexadecimal, for the identity, and \<open>dg\<close>, the digest of the JSON form
  of a meaning, for the fingerprint. Two declared responses are the same when their JSON is, which is
  equality of the records.
\<close>

section \<open>Inputs\<close>

record Candidate =
  ca_ID :: string
  ca_Kind :: string
  ca_Ref :: string
  ca_Status :: string

record Investigation =
  nv_Kind :: string
  nv_Outcome :: string
  nv_Candidates :: "Candidate list"

record Input =
  in_Namespace :: string
  in_Name :: string
  in_UID :: string
  in_Status :: OperationalTargetStatus
  in_Investigation :: "Investigation option"
  in_Profile :: "Profile option"
  in_Actions :: "InteractionAction list"

section \<open>The decision\<close>

definition level_rank :: "InteractionLevel \<Rightarrow> nat" where
  "level_rank l = (case l of LevelNoAction \<Rightarrow> 0 | LevelAwareness \<Rightarrow> 1 | LevelDecisionRequired \<Rightarrow> 2
               | LevelImmediateIntervention \<Rightarrow> 3)"

record decision =
  dc_level :: InteractionLevel
  dc_reasons :: "StatusReason list"
  dc_human :: "StatusReason list"

definition raise_level :: "InteractionLevel \<Rightarrow> string \<Rightarrow> string \<Rightarrow> decision \<Rightarrow> decision" where
  "raise_level l code subject d =
     d\<lparr>dc_level := (if level_rank l > level_rank (dc_level d) then l else dc_level d),
       dc_reasons := dc_reasons d @ [status_reason code subject]\<rparr>"

definition needHuman :: "string \<Rightarrow> string \<Rightarrow> decision \<Rightarrow> decision" where
  "needHuman code subject d = d\<lparr>dc_human := dc_human d @ [status_reason code subject]\<rparr>"

definition fromDependencyOnly :: "StatusReason list \<Rightarrow> bool" where
  "fromDependencyOnly reasons =
     (if reasons = [] \<or> length reasons \<ge> statusReasonBound then False
      else list_all (\<lambda>r. take 11 (sr_Code r) = ''dependency-'') reasons)"

definition response_code :: "string \<Rightarrow> string" where
  "response_code status =
     (if status = ''ApprovalRequired'' then ''approval-required''
      else if status = ''SafetyUnproven'' then ''safety-condition-unproven''
      else if status = ''OwnerUndeclared'' then ''owner-undeclared''
      else if status = ''OwnerConflict'' then ''owner-conflict'' else [])"

definition decideResponse :: "nat \<Rightarrow> string \<Rightarrow> InteractionResponse \<Rightarrow> decision \<Rightarrow> decision" where
  "decideResponse viable subject r d =
     (if ir_Status r = ''Ready''
      then (if viable = 1 then raise_level LevelAwareness ''declared-response-ready'' subject d else d)
      else needHuman (response_code (ir_Status r)) (ir_Name r)
             (raise_level LevelDecisionRequired (response_code (ir_Status r)) subject d))"

definition viable_responses :: "InteractionResponse list \<Rightarrow> InteractionResponse list" where
  "viable_responses rs = filter (\<lambda>r. ir_Status r \<noteq> ''Inapplicable'') rs"

definition decideCapability :: "InteractionCapability \<Rightarrow> StatusReason list \<Rightarrow> InteractionResponse list \<Rightarrow>
    decision \<Rightarrow> decision" where
  "decideCapability c reasons rs d =
     (let subject = typeKey (ic_Type c); viable = viable_responses rs in
      if rs = [] then
        (if ic_State c \<noteq> ''DEGRADED'' \<and> ic_State c \<noteq> ''UNAVAILABLE'' then d
         else if fromDependencyOnly reasons then raise_level LevelAwareness ''impact-from-dependency'' subject d
         else raise_level LevelAwareness ''no-declared-response'' subject d)
      else if viable = [] \<and> ic_State c = ''UNAVAILABLE'' then
        needHuman ''no-safe-path'' subject (raise_level LevelImmediateIntervention ''no-safe-path'' subject d)
      else if viable = [] then
        needHuman ''no-viable-response'' subject (raise_level LevelDecisionRequired ''no-viable-response'' subject d)
      else
        fold (decideResponse (length viable) subject) viable
          (if length viable > 1
           then needHuman ''no-priority-authority'' subject
                  (raise_level LevelDecisionRequired ''no-priority-authority'' subject d)
           else d))"

section \<open>Declared responses\<close>

type_synonym cap_map = "string \<Rightarrow> CapabilityStatus option"

definition pre_code :: "cap_map \<Rightarrow> CapabilityType \<Rightarrow> string" where
  "pre_code caps p =
     (case caps (typeKey p) of
        None \<Rightarrow> ''unproven''
      | Some pc \<Rightarrow>
          if cps_State pc = ''AVAILABLE'' then ''proven''
          else if cps_State pc = ''DEGRADED'' \<or> cps_State pc = ''UNAVAILABLE'' then ''unmet''
          else ''unproven'')"

definition response_status :: "cap_map \<Rightarrow> Response \<Rightarrow> string" where
  "response_status caps r =
     (let codes = map (pre_code caps) (re_Preconditions r) in
      if ''unmet'' \<in> set codes then ''Inapplicable''
      else if re_Owner r = [] then ''OwnerUndeclared''
      else if ''unproven'' \<in> set codes then ''SafetyUnproven''
      else if re_RequiresApproval r \<or> re_Risks r \<noteq> [] then ''ApprovalRequired''
      else ''Ready'')"

definition response_applies :: "Input \<Rightarrow> cap_map \<Rightarrow> Response \<Rightarrow> bool" where
  "response_applies inp caps r \<longleftrightarrow>
     tr_Namespace (re_Target r) = in_Namespace inp \<and> tr_Name (re_Target r) = in_Name inp \<and>
     (tr_UID (re_Target r) = [] \<or> tr_UID (re_Target r) = in_UID inp) \<and>
     (case caps (typeKey (re_For r)) of None \<Rightarrow> False | Some c \<Rightarrow> Response_triggers r (cps_State c))"

definition interaction_response :: "Input \<Rightarrow> cap_map \<Rightarrow> Response \<Rightarrow> InteractionResponse" where
  "interaction_response inp caps r =
     \<lparr>ir_Name = ActionRef_String (re_Action r),
      ir_Target = in_Namespace inp @ ''/'' @ in_Name inp @ ''#'' @ in_UID inp,
      ir_For = re_For r, ir_Owner = re_Owner r, ir_RequiresApproval = re_RequiresApproval r,
      ir_Risks = sortedCopy (re_Risks r),
      ir_Preconditions = sort_slice (\<lambda>a b. sr_Subject a < sr_Subject b)
        (map (\<lambda>p. status_reason (pre_code caps p) (typeKey p)) (re_Preconditions r)),
      ir_Status = response_status caps r\<rparr>"

text \<open>The responses for this target with the capability key they are filed under, in the order of the
  profile.\<close>

definition declared_raw :: "Input \<Rightarrow> cap_map \<Rightarrow> (string \<times> InteractionResponse) list" where
  "declared_raw inp caps =
     (case in_Profile inp of
        None \<Rightarrow> []
      | Some p \<Rightarrow>
          map (\<lambda>r. (typeKey (re_For r), interaction_response inp caps r))
            (filter (response_applies inp caps) (pf_Responses p)))"

definition owners_of :: "(string \<times> InteractionResponse) list \<Rightarrow> string \<Rightarrow> string set" where
  "owners_of raw key = (\<lambda>x. ir_Owner (snd x)) ` set (filter (\<lambda>x. fst x @ ''|'' @ ir_Name (snd x) = key) raw)"

definition mark_conflict :: "(string \<times> InteractionResponse) list \<Rightarrow> string \<Rightarrow> InteractionResponse \<Rightarrow> InteractionResponse" where
  "mark_conflict raw k r =
     (if card (owners_of raw (k @ ''|'' @ ir_Name r)) > 1 \<and> ir_Status r \<noteq> ''Inapplicable''
      then r\<lparr>ir_Status := ''OwnerConflict''\<rparr> else r)"

definition response_less :: "InteractionResponse \<Rightarrow> InteractionResponse \<Rightarrow> bool" where
  "response_less a b = (if ir_Name a \<noteq> ir_Name b then ir_Name a < ir_Name b else ir_Owner a < ir_Owner b)"

definition dedupResponses :: "InteractionResponse list \<Rightarrow> InteractionResponse list" where
  "dedupResponses rs = dedup rs"

text \<open>The responses of one capability; there are none for a key that is not in the map.\<close>

definition declared :: "Input \<Rightarrow> cap_map \<Rightarrow> string \<Rightarrow> InteractionResponse list" where
  "declared inp caps k =
     (let raw = declared_raw inp caps in
      dedupResponses (sort_slice response_less
        (map (\<lambda>x. mark_conflict raw k (snd x)) (filter (\<lambda>x. fst x = k) raw))))"

definition declared_keys :: "Input \<Rightarrow> cap_map \<Rightarrow> string list" where
  "declared_keys inp caps = sort_Strings (dedup (map fst (declared_raw inp caps)))"

section \<open>Evidence and hypotheses\<close>

definition confirmed :: "OperationalTargetStatus \<Rightarrow> EvidenceStatus list" where
  "confirmed st =
     limit (sort_slice (\<lambda>a b. ev_Slot a < ev_Slot b) (filter (\<lambda>e. ev_State e = ''Current'') (ot_Evidence st))) maxFacts"

definition missing_less :: "EvidenceStatus \<Rightarrow> EvidenceStatus \<Rightarrow> bool" where
  "missing_less a b = (if ev_Slot a \<noteq> ev_Slot b then ev_Slot a < ev_Slot b else ev_State a < ev_State b)"

definition missing :: "OperationalTargetStatus \<Rightarrow> EvidenceStatus list" where
  "missing st =
     limit (sort_slice missing_less
       (map (\<lambda>e. e\<lparr>ev_EvidenceRef := []\<rparr>) (filter (\<lambda>e. ev_State e \<noteq> ''Current'') (ot_Evidence st)) @
        map (\<lambda>dr. \<lparr>ev_Slot = dn_Slot dr, ev_State = ''BindingDenied:'' @ dn_Type dr, ev_Provider = [],
                  ev_ConfigRevision = [], ev_EvidenceRef = []\<rparr>) (ot_DeniedReferences st))) maxFacts"

definition relevant :: "Candidate list \<Rightarrow> string list \<Rightarrow> Candidate list" where
  "relevant cs opn = filter (\<lambda>c. list_ex (\<lambda>k. take (length k + 1) (ca_ID c) = k @ ''/'') opn) cs"

definition candidateOrder :: "string \<Rightarrow> int" where
  "candidateOrder s = (if s = ''Maintained'' then 0 else if s = ''Open'' then 1 else if s = ''Refuted'' then 2 else 0)"

definition candidate_less :: "InteractionCandidate \<Rightarrow> InteractionCandidate \<Rightarrow> bool" where
  "candidate_less a b =
     (if candidateOrder (ik_Status a) \<noteq> candidateOrder (ik_Status b)
      then candidateOrder (ik_Status a) < candidateOrder (ik_Status b) else ik_ID a < ik_ID b)"

definition candidates :: "Investigation option \<Rightarrow> string list \<Rightarrow> InteractionCandidate list" where
  "candidates ivg opn =
     (case ivg of
        None \<Rightarrow> []
      | Some i \<Rightarrow>
          limit (sort_slice candidate_less
            (map (\<lambda>c. \<lparr>ik_ID = ca_ID c, ik_Kind = ca_Kind c, ik_Ref = ca_Ref c, ik_Status = ca_Status c\<rparr>)
              (relevant (nv_Candidates i) opn))) maxCandidates)"

definition outcomeClass :: "string \<Rightarrow> string" where
  "outcomeClass s =
     (if s = ''Active'' then ''InProgress'' else if s \<in> {''Resolved'', ''Refreshed''} then ''Concluded''
      else if s = ''NoAllowedQuery'' then ''NoAllowedQuery''
      else if s \<in> {''ExhaustedCalls'', ''ExhaustedSteps'', ''Deadline''} then ''BudgetExhausted''
      else if s = ''Cancelled'' then ''Cancelled'' else if s = ''Capacity'' then ''CapacityLimited''
      else if s \<in> {''Superseded'', ''TargetInvalid''} then ''Superseded'' else [])"

definition investigationOf :: "Investigation option \<Rightarrow> string list \<Rightarrow> InteractionInvestigation" where
  "investigationOf ivg opn =
     (case ivg of
        None \<Rightarrow> \<lparr>iv_Outcome = ''NotRun'', iv_Refuted = 0, iv_Maintained = 0, iv_Open = 0\<rparr>
      | Some i \<Rightarrow>
          (let n = (\<lambda>s. int (length (filter (\<lambda>c. ca_Status c = s) (relevant (nv_Candidates i) opn))))
           in \<lparr>iv_Outcome = (if outcomeClass (nv_Outcome i) = [] then ''Superseded'' else outcomeClass (nv_Outcome i)),
               iv_Refuted = n ''Refuted'', iv_Maintained = n ''Maintained'', iv_Open = n ''Open''\<rparr>))"

section \<open>Actions\<close>

definition action_code :: "InteractionAction \<Rightarrow> string" where
  "action_code a =
     (if ia_Recovery a = ''Recovered'' \<or> ia_Recovery a = ''Inapplicable'' then []
      else if ia_Phase a = ''TimedOut'' \<or> ia_Phase a = ''Withdrawn'' then ''action-outcome-unknown''
      else if ia_Recovery a \<in> {''NotRecovered'', ''Partial'', ''Unconfirmed''} then ''action-not-recovered''
      else [])"

definition action_open :: "cap_map \<Rightarrow> InteractionAction \<Rightarrow> bool" where
  "action_open caps a =
     (case caps (typeKey (ia_For a)) of None \<Rightarrow> True | Some c \<Rightarrow> cps_State c \<noteq> ''AVAILABLE'')"

definition first_name :: "cap_map \<Rightarrow> string \<Rightarrow> InteractionAction list \<Rightarrow> string option" where
  "first_name caps code as =
     fold (\<lambda>a n. if action_open caps a \<and> action_code a = code
                 then (case n of None \<Rightarrow> Some (ia_Name a)
                       | Some m \<Rightarrow> if ia_Name a < m then Some (ia_Name a) else n)
                 else n) as None"

definition escalate_action :: "cap_map \<Rightarrow> InteractionAction list \<Rightarrow> string \<Rightarrow> decision \<Rightarrow> decision" where
  "escalate_action caps as code d =
     (case first_name caps code as of
        None \<Rightarrow> d
      | Some n \<Rightarrow> needHuman code n (raise_level LevelDecisionRequired code n d))"

definition sorted_actions :: "Input \<Rightarrow> InteractionAction list" where
  "sorted_actions inp = sort_slice (\<lambda>a b. ia_Proposal a < ia_Proposal b) (in_Actions inp)"

text \<open>\<open>actionsOf\<close>: the actions shown, and the escalation on all of them for an assessed target.\<close>

definition shown_actions :: "Input \<Rightarrow> InteractionAction list" where
  "shown_actions inp = limit (sorted_actions inp) maxActions"

definition escalate_actions :: "Input \<Rightarrow> cap_map \<Rightarrow> decision \<Rightarrow> decision" where
  "escalate_actions inp caps d =
     fold (escalate_action caps (sorted_actions inp)) [''action-not-recovered'', ''action-outcome-unknown''] d"


section \<open>Identity and meaning\<close>

definition identityDigest :: "(string \<Rightarrow> string) \<Rightarrow> Input \<Rightarrow> string" where
  "identityDigest sha inp =
     (let st = in_Status inp; ident = ot_Identity st;
          parts = [in_UID inp, oi_TargetUID ident, oi_ResolvedUID ident, oi_ContractUID ident, oi_ContractSpecDigest ident];
          b = sort_Strings
                (map (\<lambda>e. ''e|'' @ ev_Slot e @ ''|'' @ ev_Provider e @ ''|'' @ ev_ConfigRevision e) (ot_Evidence st) @
                 map (\<lambda>dr. ''d|'' @ dn_Type dr @ ''|'' @ dn_Slot dr @ ''|'' @ dn_Namespace dr) (ot_DeniedReferences st));
          p = (case in_Profile inp of None \<Rightarrow> [] | Some pf \<Rightarrow> [''p|'' @ pf_Revision pf])
      in take 32 (sha (go_Join (parts @ b @ p) [char_of (0::nat)])))"

record meaning =
  mn_ID :: string
  mn_Level :: InteractionLevel
  mn_Reasons :: "StatusReason list"
  mn_Caps :: "(string \<times> string) list"
  mn_Missing :: "EvidenceStatus list"
  mn_Response :: "string list"
  mn_Human :: "StatusReason list"
  mn_Actions :: "string list"

definition meaning_of :: "InteractionStatus \<Rightarrow> meaning" where
  "meaning_of out =
     \<lparr>mn_ID = is_IdentityDigest out, mn_Level = is_Level out, mn_Reasons = is_LevelReasons out,
      mn_Caps = map (\<lambda>c. (typeKey (ic_Type c), ic_State c)) (is_Affected out @ is_Unknown out @ is_Unaffected out),
      mn_Missing = is_MissingEvidence out,
      mn_Response = map (\<lambda>r. typeKey (ir_For r) @ ''|'' @ ir_Name r @ ''|'' @ ir_Owner r @ ''|'' @ ir_Status r) (is_Responses out),
      mn_Human = is_HumanReasons out,
      mn_Actions = map (\<lambda>a. ia_Proposal a @ ''|'' @ ia_Digest a @ ''|'' @ ia_Phase a @ ''|'' @ ia_Recovery a) (is_Actions out)\<rparr>"

definition fingerprint :: "(meaning \<Rightarrow> string) \<Rightarrow> InteractionStatus \<Rightarrow> string" where
  "fingerprint dg out = take 32 (dg (meaning_of out))"

text \<open>The loop over the earlier meanings: a return to one of them counts, the others are kept up to the
  bound.\<close>

definition recur_step :: "string \<Rightarrow> InteractionStatus \<Rightarrow> InteractionStatus" where
  "recur_step f out =
     (if f = is_Fingerprint out
      then out\<lparr>is_Recurring := True,
               is_Recurrences := (if is_Recurrences out < 2 ^ 30 then is_Recurrences out + 1 else is_Recurrences out)\<rparr>
      else if length (is_RecentFingerprints out) < maxHistory
      then out\<lparr>is_RecentFingerprints := is_RecentFingerprints out @ [f]\<rparr>
      else out)"

definition finish :: "(meaning \<Rightarrow> string) \<Rightarrow> InteractionStatus \<Rightarrow> decision \<Rightarrow> InteractionStatus option \<Rightarrow> InteractionStatus" where
  "finish dg out d prev =
     (let out1 = out\<lparr>is_Level := dc_level d, is_LevelReasons := limit (dedupReasons (dc_reasons d)) maxReasons,
                     is_HumanReasons := limit (dedupReasons (dc_human d)) maxReasons\<rparr>;
          fp = fingerprint dg out1;
          out2 = out1\<lparr>is_Fingerprint := fp, is_RecentFingerprints := [fp]\<rparr>
      in case prev of
           None \<Rightarrow> out2
         | Some p \<Rightarrow>
             if is_IdentityDigest p \<noteq> is_IdentityDigest out2 then out2
             else
               (let out3 = out2\<lparr>is_Recurrences := is_Recurrences p\<rparr> in
                if is_Fingerprint p = fp
                then out3\<lparr>is_RecentFingerprints := is_RecentFingerprints p, is_Recurring := is_Recurring p\<rparr>
                else fold recur_step (is_RecentFingerprints p) out3))"

section \<open>The projection\<close>

definition summaryLine :: "InteractionStatus \<Rightarrow> nat \<Rightarrow> string" where
  "summaryLine out tot =
     (if tot = 0 then ''no capability is assessed for this target''
      else
        let parts =
          (if is_Affected out \<noteq> []
           then [show_int (int (length (is_Affected out))) @ '' affected ('' @ capList (is_Affected out) @ '')''] else []) @
          (if is_Unknown out \<noteq> []
           then [show_int (int (length (is_Unknown out))) @ '' unknown ('' @ capList (is_Unknown out) @ '')''] else [])
        in if parts = [] then ''all '' @ show_int (int tot) @ '' capabilities AVAILABLE on current evidence''
           else go_Join (parts @ [show_int (int (length (is_Unaffected out))) @ '' AVAILABLE on current evidence'']) ''; '')"

definition empty_summary :: "string \<Rightarrow> InteractionStatus" where
  "empty_summary ident =
     \<lparr>is_Level = LevelNoAction, is_Summary = [], is_LevelReasons = [], is_Affected = [], is_Unaffected = [],
      is_Unknown = [], is_ConfirmedFacts = [], is_MissingEvidence = [], is_CauseCandidates = [],
      is_Investigation = None, is_Responses = [], is_HumanReasons = [], is_PendingPostConditions = [],
      is_Actions = [], is_IdentityDigest = ident, is_Fingerprint = [], is_RecentFingerprints = [],
      is_Recurring = False, is_Recurrences = 0\<rparr>"

definition cap_map_of :: "CapabilityStatus list \<Rightarrow> cap_map" where
  "cap_map_of cs = fold (\<lambda>c m. m(typeKey (cps_Type c) \<mapsto> c)) cs (\<lambda>_. None)"

definition interaction_cap :: "CapabilityStatus \<Rightarrow> InteractionCapability" where
  "interaction_cap c = \<lparr>ic_Type = cps_Type c, ic_State = cps_State c, ic_Reasons = limit (cps_Reasons c) maxCapReasons\<rparr>"

definition is_affected :: "string \<Rightarrow> bool" where
  "is_affected s \<longleftrightarrow> s = ''DEGRADED'' \<or> s = ''UNAVAILABLE''"

definition affected_caps :: "OperationalTargetStatus \<Rightarrow> InteractionCapability list" where
  "affected_caps st = sortCaps (map interaction_cap (filter (\<lambda>c. is_affected (cps_State c)) (ot_Capabilities st)))"

definition unaffected_caps :: "OperationalTargetStatus \<Rightarrow> InteractionCapability list" where
  "unaffected_caps st =
     sortCaps (map (\<lambda>c. (interaction_cap c)\<lparr>ic_Reasons := []\<rparr>)
       (filter (\<lambda>c. cps_State c = ''AVAILABLE'') (ot_Capabilities st)))"

definition unknown_caps :: "OperationalTargetStatus \<Rightarrow> InteractionCapability list" where
  "unknown_caps st =
     sortCaps (map interaction_cap
       (filter (\<lambda>c. cps_State c \<noteq> ''AVAILABLE'' \<and> \<not> is_affected (cps_State c)) (ot_Capabilities st)))"

definition envelope_counts :: "OperationalTargetStatus \<Rightarrow> EnvelopeStatus \<Rightarrow> bool" where
  "envelope_counts st e \<longleftrightarrow> en_Name e = ot_EnvelopeSelection st \<or> en_Class e = ''Minimum''"

definition decide_envelope :: "OperationalTargetStatus \<Rightarrow> EnvelopeStatus \<Rightarrow> decision \<Rightarrow> decision" where
  "decide_envelope st e d =
     (if \<not> envelope_counts st e \<or> en_State e = ''SATISFIED'' then d
      else raise_level LevelAwareness
             (if en_State e = ''UNSATISFIED'' then ''envelope-unsatisfied'' else ''envelope-unknown'')
             (''envelope:'' @ en_Name e) d)"

definition envelope_posts :: "OperationalTargetStatus \<Rightarrow> StatusReason list" where
  "envelope_posts st =
     map (\<lambda>e. \<lparr>sr_Code = ''envelope-satisfied-on-current-evidence'', sr_Subject = ''envelope:'' @ en_Name e,
               sr_Detail = ''unconfirmed''\<rparr>)
       (filter (\<lambda>e. envelope_counts st e \<and> en_State e \<noteq> ''SATISFIED'') (ot_Envelopes st))"

definition capability_posts :: "InteractionCapability list \<Rightarrow> StatusReason list" where
  "capability_posts cs =
     map (\<lambda>c. \<lparr>sr_Code = ''capability-available-on-current-evidence'', sr_Subject = typeKey (ic_Type c),
               sr_Detail = ''unconfirmed''\<rparr>) cs"

definition full_reasons :: "cap_map \<Rightarrow> string \<Rightarrow> StatusReason list" where
  "full_reasons caps k = (case caps k of None \<Rightarrow> [] | Some c \<Rightarrow> cps_Reasons c)"

text \<open>The decision for an assessed target, in the order of the code.\<close>

definition decide_level :: "Input \<Rightarrow> decision" where
  "decide_level inp =
     (let st = in_Status inp; caps = cap_map_of (ot_Capabilities st);
          d0 = \<lparr>dc_level = LevelNoAction, dc_reasons = [], dc_human = []\<rparr>;
          d1 = (if ot_Capabilities st = [] then raise_level LevelAwareness ''no-capabilities-assessed'' [] d0 else d0);
          d2 = fold (\<lambda>c. raise_level LevelAwareness ''capability-unknown'' (typeKey (ic_Type c))) (unknown_caps st) d1;
          d3 = fold (decide_envelope st) (ot_Envelopes st) d2;
          d4 = (case in_Investigation inp of
                  Some i \<Rightarrow> if nv_Outcome i = ''Active'' then raise_level LevelAwareness ''investigation-in-progress'' [] d3 else d3
                | None \<Rightarrow> d3);
          d5 = fold (\<lambda>c. decideCapability c (full_reasons caps (typeKey (ic_Type c))) (declared inp caps (typeKey (ic_Type c))))
                 (affected_caps st @ unknown_caps st) d4;
          d6 = escalate_actions inp caps d5
      in if dc_level d6 = LevelNoAction
         then d6\<lparr>dc_reasons := dc_reasons d6 @ [status_reason ''all-capabilities-available'' []]\<rparr> else d6)"

text \<open>The decision for a target that could not be assessed.\<close>

definition decide_invalid :: "OperationalTargetStatus \<Rightarrow> decision" where
  "decide_invalid st =
     (let subject = (case ot_InvalidReasons st of [] \<Rightarrow> [] | r # _ \<Rightarrow> sr_Code r)
      in needHuman ''spec-correction-required'' subject
           (raise_level LevelDecisionRequired ''target-not-assessed'' subject
             \<lparr>dc_level = LevelNoAction, dc_reasons = [], dc_human = []\<rparr>))"

definition project_invalid :: "Input \<Rightarrow> InteractionStatus \<Rightarrow> InteractionStatus" where
  "project_invalid inp out =
     out\<lparr>is_MissingEvidence := missing (in_Status inp),
         is_Investigation := Some (investigationOf None []),
         is_Summary := clip (''not assessed ('' @ joinCodes (ot_InvalidReasons (in_Status inp)) 3 @
           ''); no capability result is reported''),
         is_Actions := shown_actions inp\<rparr>"

definition project_valid :: "Input \<Rightarrow> InteractionStatus \<Rightarrow> InteractionStatus" where
  "project_valid inp out =
     (let st = in_Status inp; caps = cap_map_of (ot_Capabilities st);
          opencaps = affected_caps st @ unknown_caps st; opn = map (\<lambda>c. typeKey (ic_Type c)) opencaps;
          out1 = out\<lparr>is_Affected := limit (affected_caps st) maxCaps,
                     is_Unaffected := limit (unaffected_caps st) maxCaps,
                     is_Unknown := limit (unknown_caps st) maxCaps,
                     is_Responses := limit (concat (map (declared inp caps) (declared_keys inp caps))) maxResponses,
                     is_Actions := shown_actions inp,
                     is_ConfirmedFacts := confirmed st, is_MissingEvidence := missing st,
                     is_CauseCandidates := candidates (in_Investigation inp) opn,
                     is_Investigation := Some (investigationOf (in_Investigation inp) opn),
                     is_PendingPostConditions := limit (envelope_posts st @ capability_posts opencaps) maxPost\<rparr>
      in out1\<lparr>is_Summary := clip (summaryLine out1 (length (ot_Capabilities st)))\<rparr>)"

definition Project :: "(string \<Rightarrow> string) \<Rightarrow> (meaning \<Rightarrow> string) \<Rightarrow> Input \<Rightarrow> InteractionStatus option \<Rightarrow> InteractionStatus" where
  "Project sha dg inp prev =
     (let out = empty_summary (identityDigest sha inp) in
      if \<not> ot_Valid (in_Status inp)
      then finish dg (project_invalid inp out) (decide_invalid (in_Status inp)) prev
      else finish dg (project_valid inp out) (decide_level inp) prev)"

end
