(* ===== verification/Interaction_Decision.thy ===== *)
theory Interaction_Decision
  imports Interaction_Project
begin

text \<open>
  What the projection decides: the level against the decision table, what a response shown as ready rests
  on, and the bounds and the history of the summary.
\<close>

section \<open>The level of a decision as the greatest weight\<close>

definition weight :: "decision \<Rightarrow> nat" where
  "weight d = level_rank (dc_level d)"

lemma level_rank_inject [simp]: "level_rank a = level_rank b \<longleftrightarrow> a = b"
  by (cases a; cases b) (simp_all add: level_rank_def)

lemma level_rank_simps [simp]:
  "level_rank LevelNoAction = 0" "level_rank LevelAwareness = 1" "level_rank LevelDecisionRequired = 2" "level_rank LevelImmediateIntervention = 3"
  by (simp_all add: level_rank_def)

lemma weight_raise [simp]: "weight (raise_level l c s d) = max (weight d) (level_rank l)"
  by (simp add: weight_def raise_level_def)

lemma weight_needHuman [simp]: "weight (needHuman c s d) = weight d"
  by (simp add: weight_def needHuman_def)

text \<open>A fold whose steps each raise the weight to a value that depends on the element alone reaches a
  weight exactly when the start or one element does.\<close>

lemma weight_fold:
  assumes "\<And>x d. x \<in> set xs \<Longrightarrow> weight (f x d) = max (weight d) (w x)"
  shows "n \<le> weight (fold f xs d) \<longleftrightarrow> n \<le> weight d \<or> (\<exists>x \<in> set xs. n \<le> w x)"
  using assms by (induction xs arbitrary: d) (auto simp: le_max_iff_disj)

definition response_weight :: "nat \<Rightarrow> InteractionResponse \<Rightarrow> nat" where
  "response_weight viable r = (if ir_Status r = ''Ready'' then (if viable = 1 then 1 else 0) else 2)"

lemma weight_decideResponse: "weight (decideResponse v s r d) = max (weight d) (response_weight v r)"
  by (simp add: decideResponse_def response_weight_def)

text \<open>The row of the decision table for one affected or unknown capability.\<close>

definition capability_weight :: "string \<Rightarrow> InteractionResponse list \<Rightarrow> nat" where
  "capability_weight state rs =
     (let viable = viable_responses rs in
      if rs = [] then (if is_affected state then 1 else 0)
      else if viable = [] then (if state = ''UNAVAILABLE'' then 3 else 2)
      else if map ir_Status viable = [''Ready''] then 1 else 2)"

lemma max_by_thresholds: "(\<And>n. n \<le> a \<longleftrightarrow> n \<le> b) \<Longrightarrow> a = (b::nat)"
  by (meson order_antisym order_refl)

lemma weight_decideCapability:
  "weight (decideCapability c reasons rs d) = max (weight d) (capability_weight (ic_State c) rs)"
proof (cases "viable_responses rs")
  case Nil
  then show ?thesis by (auto simp: decideCapability_def capability_weight_def Let_def is_affected_def)
next
  case (Cons r vs)
  then have ne: "rs \<noteq> []" by (auto simp: viable_responses_def)
  show ?thesis
  proof (cases vs)
    case Nil
    then show ?thesis using Cons ne
      by (simp add: decideCapability_def capability_weight_def Let_def weight_decideResponse response_weight_def)
  next
    case (Cons r' vs')
    have w: "response_weight (length (r # vs)) x \<le> 2" for x by (simp add: response_weight_def Cons)
    have "weight (decideCapability c reasons rs d) = max (weight d) 2"
    proof (rule max_by_thresholds)
      fix n
      have "n \<le> weight (decideCapability c reasons rs d) \<longleftrightarrow>
        n \<le> max (weight d) 2 \<or> (\<exists>x \<in> set (r # vs). n \<le> response_weight (length (r # vs)) x)"
        using \<open>viable_responses rs = r # vs\<close> ne
        by (simp add: decideCapability_def Let_def Cons weight_fold [OF weight_decideResponse] weight_decideResponse
              le_max_iff_disj)
      then show "n \<le> weight (decideCapability c reasons rs d) \<longleftrightarrow> n \<le> max (weight d) 2"
        using w by (meson le_max_iff_disj order_trans)
    qed
    then show ?thesis using \<open>viable_responses rs = r # vs\<close> Cons ne by (simp add: capability_weight_def Let_def)
  qed
qed

section \<open>Actions\<close>

lemma first_name_None:
  "first_name caps code as = None \<longleftrightarrow> \<not> (\<exists>a \<in> set as. action_open caps a \<and> action_code a = code)"
proof -
  let ?f = "\<lambda>a n. if action_open caps a \<and> action_code a = code
                 then (case n of None \<Rightarrow> Some (ia_Name a)
                       | Some m \<Rightarrow> if ia_Name a < m then Some (ia_Name a) else n)
                 else n"
  have "fold ?f as n = None \<longleftrightarrow> n = None \<and> \<not> (\<exists>a \<in> set as. action_open caps a \<and> action_code a = code)" for n
    by (induction as arbitrary: n) (auto split: option.splits)
  then show ?thesis by (simp add: first_name_def)
qed

definition action_weight :: "cap_map \<Rightarrow> InteractionAction list \<Rightarrow> string \<Rightarrow> nat" where
  "action_weight caps as code = (if \<exists>a \<in> set as. action_open caps a \<and> action_code a = code then 2 else 0)"

lemma weight_escalate_action:
  "weight (escalate_action caps as code d) = max (weight d) (action_weight caps as code)"
  using first_name_None [of caps code as]
  by (auto simp: escalate_action_def action_weight_def split: option.splits)

definition escalates :: "cap_map \<Rightarrow> InteractionAction \<Rightarrow> bool" where
  "escalates caps a \<longleftrightarrow> action_open caps a \<and> action_code a \<noteq> []"

lemma action_code_cases: "action_code a \<in> {[], ''action-not-recovered'', ''action-outcome-unknown''}"
  by (simp add: action_code_def)

lemma weight_escalate_actions:
  "n \<le> weight (escalate_actions inp caps d) \<longleftrightarrow>
     n \<le> weight d \<or> n \<le> 2 \<and> (\<exists>a \<in> set (in_Actions inp). escalates caps a)"
proof -
  have "escalates caps a \<longleftrightarrow> action_open caps a \<and>
     (action_code a = ''action-not-recovered'' \<or> action_code a = ''action-outcome-unknown'')" for a
    using action_code_cases [of a] by (auto simp: escalates_def)
  then show ?thesis
    by (auto simp: escalate_actions_def weight_escalate_action action_weight_def sorted_actions_def le_max_iff_disj)
qed

section \<open>The decision table\<close>

definition responses_to :: "Input \<Rightarrow> CapabilityStatus \<Rightarrow> InteractionResponse list" where
  "responses_to inp c = declared inp (cap_map_of (ot_Capabilities (in_Status inp))) (typeKey (cps_Type c))"

definition needs_intervention :: "Input \<Rightarrow> bool" where
  "needs_intervention inp \<longleftrightarrow>
     list_ex (\<lambda>c. cps_State c = ''UNAVAILABLE'' \<and> responses_to inp c \<noteq> [] \<and>
       list_all (\<lambda>r. ir_Status r = ''Inapplicable'') (responses_to inp c)) (ot_Capabilities (in_Status inp))"

definition needs_decision :: "Input \<Rightarrow> bool" where
  "needs_decision inp \<longleftrightarrow>
     list_ex (\<lambda>c. cps_State c \<noteq> ''AVAILABLE'' \<and> responses_to inp c \<noteq> [] \<and>
       map ir_Status (viable_responses (responses_to inp c)) \<noteq> [''Ready'']) (ot_Capabilities (in_Status inp)) \<or>
     list_ex (escalates (cap_map_of (ot_Capabilities (in_Status inp)))) (in_Actions inp)"

definition needs_awareness :: "Input \<Rightarrow> bool" where
  "needs_awareness inp \<longleftrightarrow>
     ot_Capabilities (in_Status inp) = [] \<or>
     list_ex (\<lambda>c. cps_State c \<noteq> ''AVAILABLE'') (ot_Capabilities (in_Status inp)) \<or>
     list_ex (\<lambda>e. envelope_counts (in_Status inp) e \<and> en_State e \<noteq> ''SATISFIED'') (ot_Envelopes (in_Status inp)) \<or>
     (case in_Investigation inp of None \<Rightarrow> False | Some i \<Rightarrow> nv_Outcome i = ''Active'')"

definition level_table :: "Input \<Rightarrow> InteractionLevel" where
  "level_table inp =
     (if \<not> ot_Valid (in_Status inp) then LevelDecisionRequired
      else if needs_intervention inp then LevelImmediateIntervention
      else if needs_decision inp then LevelDecisionRequired
      else if needs_awareness inp then LevelAwareness
      else LevelNoAction)"

definition open_caps :: "OperationalTargetStatus \<Rightarrow> CapabilityStatus list" where
  "open_caps st = filter (\<lambda>c. cps_State c \<noteq> ''AVAILABLE'') (ot_Capabilities st)"

lemma set_opencaps: "set (affected_caps st @ unknown_caps st) = interaction_cap ` set (open_caps st)"
  by (auto simp: affected_caps_def unknown_caps_def open_caps_def sortCaps_def is_affected_def)

lemma interaction_cap_simps [simp]:
  "ic_Type (interaction_cap c) = cps_Type c" "ic_State (interaction_cap c) = cps_State c"
  by (simp_all add: interaction_cap_def)

lemma unknown_caps_ex:
  "unknown_caps st \<noteq> [] \<longleftrightarrow> (\<exists>c \<in> set (ot_Capabilities st). cps_State c \<noteq> ''AVAILABLE'' \<and> \<not> is_affected (cps_State c))"
  by (auto simp: unknown_caps_def sortCaps_def filter_empty_conv)

lemma weight_envelopes:
  "n \<le> weight (fold (decide_envelope st) es d) \<longleftrightarrow>
     n \<le> weight d \<or> n \<le> 1 \<and> (\<exists>e \<in> set es. envelope_counts st e \<and> en_State e \<noteq> ''SATISFIED'')"
proof -
  have "weight (decide_envelope st e d) = max (weight d) (if envelope_counts st e \<and> en_State e \<noteq> ''SATISFIED'' then 1 else 0)"
    for e d by (simp add: decide_envelope_def)
  then show ?thesis by (subst weight_fold) (assumption, auto split: if_splits)
qed

lemma weight_unknowns:
  "n \<le> weight (fold (\<lambda>c. raise_level LevelAwareness code (g c)) cs d) \<longleftrightarrow> n \<le> weight d \<or> n \<le> 1 \<and> cs \<noteq> []"
  using weight_fold [where f = "\<lambda>c. raise_level LevelAwareness code (g c)" and w = "\<lambda>_. 1" and xs = cs]
  by (cases cs) auto

lemma weight_capabilities:
  "n \<le> weight (fold (\<lambda>c. decideCapability c (g c) (declared inp caps (typeKey (ic_Type c)))) (affected_caps st @ unknown_caps st) d) \<longleftrightarrow>
     n \<le> weight d \<or> (\<exists>c \<in> set (open_caps st). n \<le> capability_weight (cps_State c) (declared inp caps (typeKey (cps_Type c))))"
  by (subst weight_fold [where w = "\<lambda>c. capability_weight (ic_State c) (declared inp caps (typeKey (ic_Type c)))"])
    (simp_all only: weight_decideCapability set_opencaps bex_simps interaction_cap_simps)

lemma weight_decide:
  "n \<le> weight (decide_level inp) \<longleftrightarrow> n = 0
     \<or> n \<le> 1 \<and> (ot_Capabilities (in_Status inp) = [] \<or> unknown_caps (in_Status inp) \<noteq> []
        \<or> (\<exists>e \<in> set (ot_Envelopes (in_Status inp)). envelope_counts (in_Status inp) e \<and> en_State e \<noteq> ''SATISFIED'')
        \<or> (\<exists>i. in_Investigation inp = Some i \<and> nv_Outcome i = ''Active''))
     \<or> (\<exists>c \<in> set (open_caps (in_Status inp)). n \<le> capability_weight (cps_State c) (responses_to inp c))
     \<or> n \<le> 2 \<and> (\<exists>a \<in> set (in_Actions inp). escalates (cap_map_of (ot_Capabilities (in_Status inp))) a)"
proof -
  have [simp]: "weight (d\<lparr>dc_reasons := r\<rparr>) = weight d" for d r by (simp add: weight_def)
  have [simp]: "weight \<lparr>dc_level = LevelNoAction, dc_reasons = r, dc_human = h\<rparr> = 0" for r h by (simp add: weight_def)
  show ?thesis
    by (simp add: decide_level_def Let_def weight_escalate_actions weight_capabilities weight_envelopes weight_unknowns
        responses_to_def le_max_iff_disj del: fold_append split: option.splits) auto
qed

lemma finish_level [simp]: "is_Level (finish dg out d prev) = dc_level d"
proof -
  have "is_Level (fold recur_step fs o') = is_Level o'" for fs o'
    by (induction fs arbitrary: o') (simp_all add: recur_step_def)
  then show ?thesis by (simp add: finish_def Let_def split: option.split)
qed

lemma capability_weight_thresholds:
  "3 \<le> capability_weight s rs \<longleftrightarrow> s = ''UNAVAILABLE'' \<and> rs \<noteq> [] \<and> list_all (\<lambda>r. ir_Status r = ''Inapplicable'') rs"
  "2 \<le> capability_weight s rs \<longleftrightarrow> rs \<noteq> [] \<and> map ir_Status (viable_responses rs) \<noteq> [''Ready'']"
  "Suc 0 \<le> capability_weight s rs \<longleftrightarrow> rs \<noteq> [] \<or> is_affected s"
  by (auto simp: capability_weight_def Let_def viable_responses_def filter_empty_conv list_all_iff)

lemma weight_decide_thresholds:
  "3 \<le> weight (decide_level inp) \<longleftrightarrow> needs_intervention inp"
  "2 \<le> weight (decide_level inp) \<longleftrightarrow> needs_intervention inp \<or> needs_decision inp"
  "1 \<le> weight (decide_level inp) \<longleftrightarrow> needs_intervention inp \<or> needs_decision inp \<or> needs_awareness inp"
proof -
  let ?st = "in_Status inp"
  show t3: "3 \<le> weight (decide_level inp) \<longleftrightarrow> needs_intervention inp"
    by (auto simp: weight_decide capability_weight_thresholds needs_intervention_def list_ex_iff open_caps_def)
  have "2 \<le> weight (decide_level inp) \<longleftrightarrow> needs_decision inp"
    by (auto simp: weight_decide capability_weight_thresholds needs_decision_def list_ex_iff open_caps_def)
  then show "2 \<le> weight (decide_level inp) \<longleftrightarrow> needs_intervention inp \<or> needs_decision inp" using t3 by linarith
  have one: "1 \<le> weight (decide_level inp) \<longleftrightarrow> needs_awareness inp \<or> needs_decision inp"
    by (auto simp: weight_decide capability_weight_thresholds needs_awareness_def needs_decision_def list_ex_iff
        open_caps_def unknown_caps_ex split: option.splits)
  then show "1 \<le> weight (decide_level inp) \<longleftrightarrow> needs_intervention inp \<or> needs_decision inp \<or> needs_awareness inp"
    using t3 \<open>2 \<le> weight (decide_level inp) \<longleftrightarrow> needs_decision inp\<close> by linarith
qed

lemma weight_level:
  "dc_level d = (if 3 \<le> weight d then LevelImmediateIntervention else if 2 \<le> weight d then LevelDecisionRequired
     else if 1 \<le> weight d then LevelAwareness else LevelNoAction)"
  by (cases "dc_level d") (simp_all add: weight_def)

lemma decide_invalid_level: "dc_level (decide_invalid st) = LevelDecisionRequired"
  by (simp add: decide_invalid_def Let_def needHuman_def raise_level_def)

lemma Project_level: "is_Level (Project sha dg inp prev) = level_table inp"
proof (cases "ot_Valid (in_Status inp)")
  case True
  then have "is_Level (Project sha dg inp prev) = dc_level (decide_level inp)" by (simp add: Project_def)
  then show ?thesis using True weight_level [of "decide_level inp"]
    by (simp add: weight_decide_thresholds level_table_def del: One_nat_def)
next
  case False
  then show ?thesis by (simp add: Project_def level_table_def decide_invalid_level)
qed

text \<open>C10: The level of the summary is the level of the decision table, whatever the previous summary and the
  digests: a target that could not be assessed is a decision; intervention is asked for exactly when an
  UNAVAILABLE capability has declared responses and none is applicable; a decision exactly when a capability
  that is not AVAILABLE has declared responses other than a single ready one, or an action on a capability not
  proven AVAILABLE ended unknown or unrecovered; awareness when anything is not proven; no action only when
  capabilities are assessed, all are AVAILABLE, every envelope that counts is SATISFIED and no investigation runs.\<close>

theorem Project_level_table: "is_Level (Project sha dg inp prev) = level_table inp"
  by (rule Project_level)

end
