(* ===== verification/Interaction_Reasons.thy ===== *)
theory Interaction_Reasons
  imports Interaction_Decision
begin

text \<open>
  What the shown reasons and responses rest on: the reasons of the level after they are sorted and cut, and
  what is proven of a response shown as ready.
\<close>

section \<open>The shown reasons\<close>

context weak_less
begin

lemma sorted_take_card:
  assumes "x \<in> set (take n (sort_slice lt xs))"
  shows "card {y \<in> set xs. lt y x} < n"
proof -
  let ?ys = "sort_slice lt xs"
  obtain i where i: "i < n" "i < length ?ys" "x = ?ys ! i"
    using assms by (auto simp: in_set_conv_nth)
  have "{y \<in> set xs. lt y x} \<subseteq> (\<lambda>j. ?ys ! j) ` {..<i}"
  proof
    fix y
    assume "y \<in> {y \<in> set xs. lt y x}"
    then have "y \<in> set ?ys" and lt: "lt y x" by simp_all
    from this(1) obtain j where j: "j < length ?ys" "y = ?ys ! j" by (metis in_set_conv_nth)
    have "j < i"
    proof (rule ccontr)
      assume "\<not> j < i"
      then consider "j = i" | "i < j" by linarith
      then show False
      proof cases
        case 1
        then show False using lt i(3) j(2) irrefl by simp
      next
        case 2
        from sorted_wrt_nth_less [OF sorted_sort_slice 2 j(1)] show False using lt i(3) j(2) by simp
      qed
    qed
    then show "y \<in> (\<lambda>j. ?ys ! j) ` {..<i}" using j(2) by simp
  qed
  then have "card {y \<in> set xs. lt y x} \<le> i" using card_mono [of "(\<lambda>j. ?ys ! j) ` {..<i}"] card_image_le [of "{..<i}"]
    by (metis card_lessThan finite_imageI finite_lessThan order_trans)
  then show ?thesis using i(1) by simp
qed

end

interpretation reason_order: weak_less reason_less
  by unfold_locales (auto simp: reason_less_def split: if_splits)

definition reasons_kept :: "decision \<Rightarrow> decision \<Rightarrow> bool" where
  "reasons_kept d d' \<longleftrightarrow> set (dc_reasons d) \<subseteq> set (dc_reasons d')"

lemma rkept_refl: "reasons_kept d d"
  by (simp add: reasons_kept_def)

lemma rkept_trans: "reasons_kept a b \<Longrightarrow> reasons_kept b c \<Longrightarrow> reasons_kept a c"
  by (auto simp: reasons_kept_def)

lemma rkept_raise: "reasons_kept d (raise_level l c s d')" if "reasons_kept d d'"
  using that by (auto simp: reasons_kept_def raise_level_def)

lemma rkept_needHuman: "reasons_kept d (needHuman c s d')" if "reasons_kept d d'"
  using that by (simp add: reasons_kept_def needHuman_def)

lemma rkept_fold:
  assumes "\<And>x d. reasons_kept d (f x d)" and "reasons_kept d0 d"
  shows "reasons_kept d0 (fold f xs d)"
  using assms(2)
proof (induction xs arbitrary: d)
  case (Cons x xs)
  then show ?case using Cons.IH [OF rkept_trans [OF Cons.prems assms(1)]] by simp
qed simp

lemma rkept_if: "reasons_kept a (if P then b else c)" if "reasons_kept a b" "reasons_kept a c"
  using that by simp

lemma rkept_option: "reasons_kept a (case z of None \<Rightarrow> b | Some x \<Rightarrow> f x)" if "reasons_kept a b" "\<And>x. reasons_kept a (f x)"
  using that by (simp split: option.split)

lemmas rkept_intros = rkept_refl rkept_raise rkept_needHuman rkept_fold rkept_if rkept_option

lemma rkept_decideResponse: "reasons_kept d (decideResponse v s r d)"
  by (simp add: decideResponse_def rkept_intros)

lemma rkept_decideCapability: "reasons_kept d (decideCapability c reasons rs d)"
  by (simp add: decideCapability_def Let_def rkept_intros rkept_decideResponse)

lemma rkept_decide_envelope: "reasons_kept d (decide_envelope st e d)"
  by (simp add: decide_envelope_def rkept_intros)

lemma rkept_escalate_action: "reasons_kept d (escalate_action caps as code d)"
  by (simp add: escalate_action_def rkept_intros split: option.split)

lemma rkept_escalate_actions: "reasons_kept d0 (escalate_actions inp caps d)" if "reasons_kept d0 d"
  unfolding escalate_actions_def by (rule rkept_fold [OF rkept_escalate_action that])

lemma unknown_raised:
  assumes "c \<in> set cs"
  shows "status_reason code (g c) \<in> set (dc_reasons (fold (\<lambda>c. raise_level l code (g c)) cs d))"
  using assms
proof (induction cs arbitrary: d)
  case (Cons c' cs)
  have "reasons_kept (raise_level l code (g c') d) (fold (\<lambda>c. raise_level l code (g c)) cs (raise_level l code (g c') d))"
    by (intro rkept_intros)
  moreover have "status_reason code (g c') \<in> set (dc_reasons (raise_level l code (g c') d))" by (simp add: raise_level_def)
  ultimately show ?case using Cons by (auto simp: reasons_kept_def)
qed simp

lemma decide_reports_unknown:
  assumes "c \<in> set (unknown_caps (in_Status inp))"
  shows "status_reason ''capability-unknown'' (typeKey (ic_Type c)) \<in> set (dc_reasons (decide_level inp))"
proof -
  let ?st = "in_Status inp"
  define d1 where "d1 = (if ot_Capabilities ?st = [] then raise_level LevelAwareness ''no-capabilities-assessed'' []
     \<lparr>dc_level = LevelNoAction, dc_reasons = [], dc_human = []\<rparr> else \<lparr>dc_level = LevelNoAction, dc_reasons = [], dc_human = []\<rparr>)"
  define d2 where "d2 = fold (\<lambda>c. raise_level LevelAwareness ''capability-unknown'' (typeKey (ic_Type c))) (unknown_caps ?st) d1"
  have e: "reasons_kept d2 (d\<lparr>dc_reasons := dc_reasons d @ r\<rparr>)" if "reasons_kept d2 d" for d r using that by (auto simp: reasons_kept_def)
  have "reasons_kept d2 (decide_level inp)"
    unfolding decide_level_def Let_def d1_def [symmetric] d2_def [symmetric]
    by (intro e rkept_intros rkept_escalate_actions rkept_decideCapability rkept_decide_envelope)
  moreover have "status_reason ''capability-unknown'' (typeKey (ic_Type c)) \<in> set (dc_reasons d2)"
    unfolding d2_def using assms by (rule unknown_raised)
  ultimately show ?thesis by (auto simp: reasons_kept_def)
qed

text \<open>What the projection passes through the last step.\<close>

lemma finish_passes:
  "is_LevelReasons (finish dg out d prev) = take maxReasons (dedupReasons (dc_reasons d))"
  "is_Responses (finish dg out d prev) = is_Responses out"
proof -
  have "is_LevelReasons (fold recur_step fs o') = is_LevelReasons o'" "is_Responses (fold recur_step fs o') = is_Responses o'"
    for fs o' by (induction fs arbitrary: o') (simp_all add: recur_step_def)
  then show "is_LevelReasons (finish dg out d prev) = take maxReasons (dedupReasons (dc_reasons d))"
    "is_Responses (finish dg out d prev) = is_Responses out"
    by (simp_all add: finish_def Let_def split: option.split)
qed

definition unknown_keys :: "OperationalTargetStatus \<Rightarrow> string list" where
  "unknown_keys st = map (\<lambda>c. typeKey (ic_Type c)) (unknown_caps st)"

lemma many_unknown_reasons:
  assumes "maxReasons \<le> card (set (unknown_keys (in_Status inp)))"
    and "r \<in> set (take maxReasons (dedupReasons (dc_reasons (decide_level inp))))"
  shows "sr_Code r \<le> ''capability-unknown''"
proof (rule ccontr)
  assume "\<not> sr_Code r \<le> ''capability-unknown''"
  then have less: "reason_less (status_reason ''capability-unknown'' k) r" for k
    by (auto simp: reason_less_def status_reason_def)
  let ?K = "status_reason ''capability-unknown'' ` set (unknown_keys (in_Status inp))"
  have "inj (status_reason ''capability-unknown'')" by (rule injI) (simp add: status_reason_def)
  then have "card ?K = card (set (unknown_keys (in_Status inp)))" by (meson card_image inj_on_subset subset_UNIV)
  moreover have "?K \<subseteq> {y \<in> set (dc_reasons (decide_level inp)). reason_less y r}"
    using decide_reports_unknown less by (auto simp: unknown_keys_def)
  then have "card ?K \<le> card {y \<in> set (dc_reasons (decide_level inp)). reason_less y r}" by (intro card_mono) simp_all
  moreover have "card {y \<in> set (dc_reasons (decide_level inp)). reason_less y r} < maxReasons"
    using reason_order.sorted_take_card [of r maxReasons "dedup (dc_reasons (decide_level inp))"] assms(2)
    by (simp add: dedupReasons_def)
  ultimately show False using assms(1) by linarith
qed

text \<open>The reasons of the level are sorted by their text, not by strength, and cut to eight. Eight unknown
  capabilities push every reason whose code sorts after capability-unknown out of the summary: the summary then
  asks for immediate intervention and does not say that there is no safe path.\<close>

theorem level_reason_cut:
  assumes "ot_Valid (in_Status inp)" and "needs_intervention inp"
    and "maxReasons \<le> card (set (unknown_keys (in_Status inp)))"
  shows "is_Level (Project sha dg inp prev) = LevelImmediateIntervention \<and>
    ''no-safe-path'' \<notin> sr_Code ` set (is_LevelReasons (Project sha dg inp prev))"
proof
  show "is_Level (Project sha dg inp prev) = LevelImmediateIntervention"
    using assms by (simp add: Project_level level_table_def)
  have shown: "is_LevelReasons (Project sha dg inp prev) = take maxReasons (dedupReasons (dc_reasons (decide_level inp)))"
    using assms(1) by (simp add: Project_def finish_passes)
  have order: "\<not> ''no-safe-path'' \<le> ''capability-unknown''" by code_simp
  show "''no-safe-path'' \<notin> sr_Code ` set (is_LevelReasons (Project sha dg inp prev))"
  proof
    assume "''no-safe-path'' \<in> sr_Code ` set (is_LevelReasons (Project sha dg inp prev))"
    then obtain r where r: "''no-safe-path'' = sr_Code r" "r \<in> set (is_LevelReasons (Project sha dg inp prev))" by (rule imageE)
    from many_unknown_reasons [OF assms(3) r(2) [unfolded shown]] show False using order unfolding r(1) [symmetric] by (rule notE [rotated])
  qed
qed

section \<open>Declared responses\<close>

text \<open>What a profile entry satisfies when its response may be shown as ready.\<close>

definition ready_declaration :: "Input \<Rightarrow> cap_map \<Rightarrow> InteractionResponse \<Rightarrow> Response \<Rightarrow> bool" where
  "ready_declaration inp caps r x \<longleftrightarrow>
     re_For x = ir_For r \<and> ActionRef_String (re_Action x) = ir_Name r \<and> re_Owner x = ir_Owner r \<and> re_Owner x \<noteq> [] \<and>
     tr_Namespace (re_Target x) = in_Namespace inp \<and> tr_Name (re_Target x) = in_Name inp \<and>
     (tr_UID (re_Target x) = [] \<or> tr_UID (re_Target x) = in_UID inp) \<and>
     (case caps (typeKey (re_For x)) of None \<Rightarrow> False | Some c \<Rightarrow> Response_triggers x (cps_State c)) \<and>
     list_all (\<lambda>q. case caps (typeKey q) of None \<Rightarrow> False | Some pc \<Rightarrow> cps_State pc = ''AVAILABLE'') (re_Preconditions x) \<and>
     \<not> re_RequiresApproval x \<and> re_Risks x = []"

lemma declared_origin:
  assumes "r \<in> set (declared inp caps k)"
  obtains p x where "in_Profile inp = Some p" and "x \<in> set (pf_Responses p)" and "response_applies inp caps x"
    and "typeKey (re_For x) = k" and "r = mark_conflict (declared_raw inp caps) k (interaction_response inp caps x)"
  using assms by (auto simp: declared_def dedupResponses_def Let_def declared_raw_def split: option.splits)

lemma response_status_ready:
  assumes "response_status caps x = ''Ready''"
  shows "re_Owner x \<noteq> [] \<and> \<not> re_RequiresApproval x \<and> re_Risks x = [] \<and>
    list_all (\<lambda>q. case caps (typeKey q) of None \<Rightarrow> False | Some pc \<Rightarrow> cps_State pc = ''AVAILABLE'') (re_Preconditions x)"
proof -
  let ?codes = "pre_code caps ` set (re_Preconditions x)"
  have no: "''unmet'' \<notin> ?codes" "''unproven'' \<notin> ?codes" "re_Owner x \<noteq> []" "\<not> re_RequiresApproval x" "re_Risks x = []"
    using assms by (auto simp: response_status_def Let_def split: if_splits)
  have "case caps (typeKey q) of None \<Rightarrow> False | Some pc \<Rightarrow> cps_State pc = ''AVAILABLE''" if q: "q \<in> set (re_Preconditions x)" for q
  proof -
    have "c \<notin> pre_code caps ` set (re_Preconditions x) \<Longrightarrow> pre_code caps q \<noteq> c" for c using q by blast
    from this [OF no(1)] this [OF no(2)]
    have "pre_code caps q \<noteq> ''unmet''" "pre_code caps q \<noteq> ''unproven''" .
    then show ?thesis by (simp add: pre_code_def split: option.splits if_splits)
  qed
  then show ?thesis using no(3,4,5) by (simp add: list_all_iff)
qed

lemma mark_conflict_ready:
  assumes "ir_Status (mark_conflict raw k q) = ''Ready''"
  shows "mark_conflict raw k q = q" and "card (owners_of raw (k @ ''|'' @ ir_Name q)) \<le> 1"
  using assms by (auto simp: mark_conflict_def split: if_splits)

lemma single_owner:
  assumes "card (owners_of raw key) \<le> 1" and "a \<in> owners_of raw key" and "b \<in> owners_of raw key"
  shows "a = b"
proof -
  have "finite (owners_of raw key)" by (simp add: owners_of_def)
  then show ?thesis using assms by (metis One_nat_def card_le_Suc0_iff_eq)
qed

lemma owner_declared:
  assumes "in_Profile inp = Some p" and "y \<in> set (pf_Responses p)" and "response_applies inp caps y"
  shows "re_Owner y \<in> owners_of (declared_raw inp caps) (typeKey (re_For y) @ ''|'' @ ActionRef_String (re_Action y))"
proof -
  have "(typeKey (re_For y), interaction_response inp caps y) \<in> set (declared_raw inp caps)"
    using assms by (simp add: declared_raw_def)
  then show ?thesis unfolding owners_of_def
    by (intro image_eqI [where x = "(typeKey (re_For y), interaction_response inp caps y)"]) (simp_all add: interaction_response_def)
qed

lemma declared_ready:
  assumes r: "r \<in> set (declared inp caps k)" and ready: "ir_Status r = ''Ready''"
  shows "\<exists>p x. in_Profile inp = Some p \<and> x \<in> set (pf_Responses p) \<and> ready_declaration inp caps r x \<and>
    (\<forall>y \<in> set (pf_Responses p). response_applies inp caps y \<and> typeKey (re_For y) = typeKey (ir_For r) \<and>
       ActionRef_String (re_Action y) = ir_Name r \<longrightarrow> re_Owner y = ir_Owner r)"
proof -
  obtain p x where p: "in_Profile inp = Some p" and x: "x \<in> set (pf_Responses p)" and ap: "response_applies inp caps x"
    and k: "typeKey (re_For x) = k" and rx: "r = mark_conflict (declared_raw inp caps) k (interaction_response inp caps x)"
    using declared_origin [OF r] .
  let ?q = "interaction_response inp caps x" and ?raw = "declared_raw inp caps"
  note mc = mark_conflict_ready [OF ready [unfolded rx]]
  have rq: "r = ?q" using rx mc(1) by simp
  have st: "response_status caps x = ''Ready''" using ready unfolding rq by (simp add: interaction_response_def)
  have "ready_declaration inp caps r x"
    using response_status_ready [OF st] ap unfolding ready_declaration_def rq
    by (simp add: interaction_response_def response_applies_def)
  moreover have "re_Owner y = ir_Owner r"
    if y: "y \<in> set (pf_Responses p)" "response_applies inp caps y" "typeKey (re_For y) = typeKey (ir_For r)"
      "ActionRef_String (re_Action y) = ir_Name r" for y
  proof (rule single_owner [OF mc(2)])
    have "ir_Name ?q = ActionRef_String (re_Action x)" "ir_For ?q = re_For x" "ir_Owner ?q = re_Owner x"
      by (simp_all add: interaction_response_def)
    then show "re_Owner y \<in> owners_of ?raw (k @ ''|'' @ ir_Name ?q)" "ir_Owner r \<in> owners_of ?raw (k @ ''|'' @ ir_Name ?q)"
      using owner_declared [OF p y(1,2)] owner_declared [OF p x ap] y(3,4) k by (simp_all add: rq)
  qed
  ultimately show ?thesis using p x by (intro exI [of _ p] exI [of _ x]) simp
qed

text \<open>C11: A response the summary shows as ready was declared for this target, capability and current state by a
  named owner, with no risk and no approval required; every capability it requires is AVAILABLE in the status;
  and no other owner declares the same action for the capability.\<close>

theorem shown_ready:
  assumes "r \<in> set (is_Responses (Project sha dg inp prev))" and "ir_Status r = ''Ready''"
  shows "\<exists>p x. in_Profile inp = Some p \<and> x \<in> set (pf_Responses p) \<and>
    ready_declaration inp (cap_map_of (ot_Capabilities (in_Status inp))) r x \<and>
    (\<forall>y \<in> set (pf_Responses p). response_applies inp (cap_map_of (ot_Capabilities (in_Status inp))) y \<and>
       typeKey (re_For y) = typeKey (ir_For r) \<and> ActionRef_String (re_Action y) = ir_Name r \<longrightarrow> re_Owner y = ir_Owner r)"
proof -
  have "is_Responses (project_invalid inp (empty_summary i)) = []" for i
    by (simp add: project_invalid_def empty_summary_def)
  then have "r \<in> set (is_Responses (project_valid inp (empty_summary (identityDigest sha inp))))"
    using assms(1) by (simp add: Project_def Let_def finish_passes split: if_splits)
  then obtain k where "r \<in> set (declared inp (cap_map_of (ot_Capabilities (in_Status inp))) k)"
    by (auto simp: project_valid_def Let_def dest!: in_set_takeD)
  then show ?thesis using assms(2) by (rule declared_ready)
qed

section \<open>Concrete targets\<close>

definition demo_captype :: "string \<Rightarrow> CapabilityType" where
  "demo_captype n = \<lparr>ct_Domain = ''d'', ct_Name = n, ct_Revision = ''1''\<rparr>"

definition demo_cap :: "string \<Rightarrow> string \<Rightarrow> CapabilityStatus" where
  "demo_cap n s = \<lparr>cps_Type = demo_captype n, cps_State = s, cps_Reasons = []\<rparr>"

definition demo_declared :: "string \<Rightarrow> Response" where
  "demo_declared pre = demo_response\<lparr>re_RequiresApproval := False, re_Preconditions := [demo_captype pre]\<rparr>"

definition demo_target :: "CapabilityStatus list \<Rightarrow> Response \<Rightarrow> Input" where
  "demo_target cs r =
     \<lparr>in_Namespace = ''n'', in_Name = ''t1'', in_UID = ''u'',
      in_Status = \<lparr>ot_ObservedGeneration = 1, ot_AssessedAt = None,
        ot_Identity = \<lparr>oi_TargetUID = ''u'', oi_ResolvedUID = ''w'', oi_ContractName = ''c'', oi_ContractUID = ''cu'',
          oi_ContractSpecDigest = ''cd''\<rparr>,
        ot_Valid = True, ot_Sync = [], ot_EnvelopeSelection = [], ot_InvalidReasons = [], ot_DeniedReferences = [],
        ot_Evidence = [], ot_Capabilities = cs, ot_Envelopes = []\<rparr>,
      in_Investigation = None, in_Profile = Some \<lparr>pf_Revision = ''1'', pf_Responses = [r]\<rparr>, in_Actions = []\<rparr>"

definition nine_caps :: "CapabilityStatus list" where
  "nine_caps = demo_cap ''write'' ''UNAVAILABLE'' # demo_cap ''read'' ''UNAVAILABLE'' #
     map (\<lambda>n. demo_cap n ''UNKNOWN'') [''a'', ''b'', ''c'', ''d'', ''e'', ''f'', ''g'', ''h'']"

theorem level_reason_cut_witness:
  "is_Level (Project id (\<lambda>_. []) (demo_target nine_caps (demo_declared ''read'')) None) = LevelImmediateIntervention \<and>
    ''no-safe-path'' \<notin> sr_Code ` set (is_LevelReasons (Project id (\<lambda>_. []) (demo_target nine_caps (demo_declared ''read'')) None))"
proof (rule level_reason_cut)
  show "ot_Valid (in_Status (demo_target nine_caps (demo_declared ''read'')))" by code_simp
  show "needs_intervention (demo_target nine_caps (demo_declared ''read''))" by code_simp
  show "maxReasons \<le> card (set (unknown_keys (in_Status (demo_target nine_caps (demo_declared ''read'')))))" by code_simp
qed

definition demo_ready :: Input where
  "demo_ready = demo_target [demo_cap ''write'' ''DEGRADED'', demo_cap ''read'' ''AVAILABLE''] (demo_declared ''read'')"

theorem shown_ready_witness:
  "\<exists>p x. in_Profile demo_ready = Some p \<and> x \<in> set (pf_Responses p) \<and>
    ready_declaration demo_ready (cap_map_of (ot_Capabilities (in_Status demo_ready)))
      (hd (is_Responses (Project id (\<lambda>_. []) demo_ready None))) x"
proof -
  let ?s = "is_Responses (Project id (\<lambda>_. []) demo_ready None)"
  have "?s \<noteq> [] \<and> ir_Status (hd ?s) = ''Ready''" by code_simp
  then have "hd ?s \<in> set ?s" "ir_Status (hd ?s) = ''Ready''" by simp_all
  from shown_ready [OF this] show ?thesis by (elim exE conjE) (intro exI conjI)
qed

end
