(* ===== verification/Interaction_History.thy ===== *)
theory Interaction_History
  imports Interaction_Decision
begin

text \<open>
  The bounds of the summary and the history of meanings kept with it, for one projection and for a run of
  projections in which each reads the summary before it.
\<close>

section \<open>The history\<close>

definition recur_inc :: "int \<Rightarrow> int" where
  "recur_inc n = (if n < 2 ^ 30 then n + 1 else n)"

lemma recur_fold:
  assumes "distinct fs" and "length (is_RecentFingerprints out) \<le> maxHistory"
  shows "fold recur_step fs out = out\<lparr>
     is_RecentFingerprints := take maxHistory (is_RecentFingerprints out @ filter (\<lambda>f. f \<noteq> is_Fingerprint out) fs),
     is_Recurring := (is_Recurring out \<or> is_Fingerprint out \<in> set fs),
     is_Recurrences := (if is_Fingerprint out \<in> set fs then recur_inc (is_Recurrences out) else is_Recurrences out)\<rparr>"
  using assms
proof (induction fs arbitrary: out)
  case Nil
  then show ?case by simp
next
  case (Cons f fs)
  have len: "length (is_RecentFingerprints (recur_step f out)) \<le> maxHistory" using Cons.prems(2) by (simp add: recur_step_def)
  consider (again) "f = is_Fingerprint out" | (kept) "f \<noteq> is_Fingerprint out" "length (is_RecentFingerprints out) < maxHistory"
    | (full) "f \<noteq> is_Fingerprint out" "length (is_RecentFingerprints out) = maxHistory"
    using Cons.prems(2) by linarith
  then show ?case
  proof cases
    case again
    then show ?thesis using Cons.IH [OF _ len] Cons.prems(1) by (simp add: recur_step_def recur_inc_def)
  next
    case kept
    then show ?thesis using Cons.IH [OF _ len] Cons.prems(1) by (simp add: recur_step_def)
  next
    case full
    then show ?thesis using Cons.IH [OF _ len] Cons.prems(1) by (simp add: recur_step_def)
  qed
qed

definition history_ok :: "InteractionStatus \<Rightarrow> bool" where
  "history_ok s \<longleftrightarrow>
     (case is_RecentFingerprints s of [] \<Rightarrow> False | f # fs \<Rightarrow> f = is_Fingerprint s \<and> f \<notin> set fs \<and> distinct fs) \<and>
     length (is_RecentFingerprints s) \<le> maxHistory \<and> 0 \<le> is_Recurrences s \<and> is_Recurrences s \<le> 2 ^ 30"

lemma history_okD:
  assumes "history_ok s"
  shows "distinct (is_RecentFingerprints s)" and "length (is_RecentFingerprints s) \<le> maxHistory"
  using assms by (auto simp: history_ok_def split: list.splits)

definition reported :: "InteractionStatus \<Rightarrow> decision \<Rightarrow> InteractionStatus" where
  "reported out d = out\<lparr>is_Level := dc_level d, is_LevelReasons := limit (dedupReasons (dc_reasons d)) maxReasons,
     is_HumanReasons := limit (dedupReasons (dc_human d)) maxReasons\<rparr>"

text \<open>The history of the next summary: fresh for a new identity, unchanged while the meaning is, and
  otherwise the new meaning followed by the earlier others.\<close>

definition next_history :: "string \<Rightarrow> string \<Rightarrow> InteractionStatus option \<Rightarrow> string list \<times> bool \<times> int" where
  "next_history ident fp prev =
     (case prev of
        None \<Rightarrow> ([fp], False, 0)
      | Some p \<Rightarrow>
          if is_IdentityDigest p \<noteq> ident then ([fp], False, 0)
          else if is_Fingerprint p = fp then (is_RecentFingerprints p, is_Recurring p, is_Recurrences p)
          else (take maxHistory (fp # filter (\<lambda>f. f \<noteq> fp) (is_RecentFingerprints p)),
                fp \<in> set (is_RecentFingerprints p),
                if fp \<in> set (is_RecentFingerprints p) then recur_inc (is_Recurrences p) else is_Recurrences p))"

lemma finish_history:
  assumes "\<And>p. prev = Some p \<Longrightarrow> history_ok p"
    and "\<not> is_Recurring out" and "is_Recurrences out = 0"
  shows "finish dg out d prev =
     (let fp = fingerprint dg (reported out d); (fs, again, n) = next_history (is_IdentityDigest out) fp prev
      in (reported out d)\<lparr>is_Fingerprint := fp, is_RecentFingerprints := fs, is_Recurring := again, is_Recurrences := n\<rparr>)"
proof (cases prev)
  case None
  then show ?thesis using assms(2,3) by (simp add: finish_def Let_def next_history_def reported_def)
next
  case (Some p)
  note h = history_okD [OF assms(1) [OF Some]]
  have m: "length [x] \<le> maxHistory" for x :: string by (simp add: maxHistory_def)
  show ?thesis using assms(2,3) h(1) m
    by (simp add: Some finish_def Let_def next_history_def reported_def recur_fold)
qed

lemma recur_inc_bounds: "0 \<le> n \<and> n \<le> 2 ^ 30 \<Longrightarrow> 0 \<le> recur_inc n \<and> recur_inc n \<le> 2 ^ 30"
  by (simp add: recur_inc_def)

lemma next_history_ok:
  assumes "\<And>p. prev = Some p \<Longrightarrow> history_ok p"
    and "next_history ident (is_Fingerprint s) prev = (is_RecentFingerprints s, is_Recurring s, is_Recurrences s)"
  shows "history_ok s"
proof (cases "\<exists>p. prev = Some p \<and> is_IdentityDigest p = ident")
  case True
  then obtain p where p: "prev = Some p" "is_IdentityDigest p = ident" by blast
  note ok = assms(1) [OF p(1)]
  show ?thesis
  proof (cases "is_Fingerprint p = is_Fingerprint s")
    case True
    then show ?thesis using ok assms(2) p by (auto simp: next_history_def history_ok_def split: list.splits)
  next
    case False
    let ?fp = "is_Fingerprint s"
    have fs: "is_RecentFingerprints s = ?fp # take 3 (filter (\<lambda>f. f \<noteq> ?fp) (is_RecentFingerprints p))"
      using assms(2) p False by (simp add: next_history_def maxHistory_def numeral_eq_Suc)
    have "?fp \<notin> set (take n (filter (\<lambda>f. f \<noteq> ?fp) xs))" for n xs using set_take_subset by fastforce
    moreover have "distinct (take 3 (filter (\<lambda>f. f \<noteq> ?fp) (is_RecentFingerprints p)))"
      using history_okD(1) [OF ok] by (simp add: distinct_take)
    moreover have "0 \<le> is_Recurrences s \<and> is_Recurrences s \<le> 2 ^ 30"
      using assms(2) p False ok recur_inc_bounds [of "is_Recurrences p"]
      by (auto simp: next_history_def history_ok_def split: if_splits)
    ultimately show ?thesis by (simp add: history_ok_def fs maxHistory_def)
  qed
next
  case False
  then have "next_history ident (is_Fingerprint s) prev = ([is_Fingerprint s], False, 0)"
    by (auto simp: next_history_def split: option.splits)
  then have "is_RecentFingerprints s = [is_Fingerprint s]" "is_Recurrences s = 0" using assms(2) by simp_all
  then show ?thesis by (simp add: history_ok_def maxHistory_def)
qed

section \<open>Bounds of the summary\<close>

definition within_bounds :: "InteractionStatus \<Rightarrow> bool" where
  "within_bounds s \<longleftrightarrow>
     length (is_Summary s) \<le> maxSummary \<and>
     length (is_Affected s) \<le> maxCaps \<and> length (is_Unaffected s) \<le> maxCaps \<and> length (is_Unknown s) \<le> maxCaps \<and>
     list_all (\<lambda>c. length (ic_Reasons c) \<le> maxCapReasons) (is_Affected s @ is_Unaffected s @ is_Unknown s) \<and>
     length (is_ConfirmedFacts s) \<le> maxFacts \<and> length (is_MissingEvidence s) \<le> maxFacts \<and>
     length (is_CauseCandidates s) \<le> maxCandidates \<and> length (is_Responses s) \<le> maxResponses \<and>
     length (is_PendingPostConditions s) \<le> maxPost \<and> length (is_Actions s) \<le> maxActions"

lemma candidates_bounded: "length (candidates ivg opn) \<le> maxCandidates"
  by (simp add: candidates_def split: option.split)

lemma facts_bounded: "length (confirmed st) \<le> maxFacts" "length (missing st) \<le> maxFacts"
  by (simp_all add: confirmed_def missing_def)

lemma actions_bounded: "length (shown_actions inp) \<le> maxActions"
  by (simp add: shown_actions_def)

lemma cap_reasons_bounded:
  "c \<in> set (affected_caps st) \<union> set (unaffected_caps st) \<union> set (unknown_caps st) \<Longrightarrow> length (ic_Reasons c) \<le> maxCapReasons"
  by (auto simp: affected_caps_def unaffected_caps_def unknown_caps_def sortCaps_def interaction_cap_def)

lemma list_all_take: "(\<And>x. x \<in> set xs \<Longrightarrow> P x) \<Longrightarrow> list_all P (take n xs)"
  by (auto simp: list_all_iff dest: in_set_takeD)

lemma project_valid_bounded: "within_bounds (project_valid inp out)"
proof -
  let ?ok = "\<lambda>cs. list_all (\<lambda>c. length (ic_Reasons c) \<le> maxCapReasons) (take maxCaps cs)" and ?st = "in_Status inp"
  have "?ok (affected_caps ?st) \<and> ?ok (unaffected_caps ?st) \<and> ?ok (unknown_caps ?st)"
    by (intro conjI list_all_take cap_reasons_bounded [of _ ?st]) simp_all
  then show ?thesis
    by (simp add: project_valid_def Let_def within_bounds_def clip_bounded candidates_bounded facts_bounded
        actions_bounded del: take_append)
qed

lemma project_invalid_bounded: "within_bounds (project_invalid inp (empty_summary ident))"
  by (simp add: project_invalid_def empty_summary_def within_bounds_def clip_bounded facts_bounded actions_bounded)

definition projected :: "Input \<Rightarrow> string \<Rightarrow> InteractionStatus" where
  "projected inp ident =
     reported (if ot_Valid (in_Status inp) then project_valid inp (empty_summary ident) else project_invalid inp (empty_summary ident))
       (if ot_Valid (in_Status inp) then decide_level inp else decide_invalid (in_Status inp))"

lemma projected_facts:
  "within_bounds (projected inp ident)" "is_IdentityDigest (projected inp ident) = ident"
  "length (is_LevelReasons (projected inp ident)) \<le> maxReasons" "length (is_HumanReasons (projected inp ident)) \<le> maxReasons"
  using project_valid_bounded [of inp "empty_summary ident"] project_invalid_bounded [of inp ident]
  by (simp_all add: projected_def reported_def within_bounds_def project_valid_def project_invalid_def Let_def empty_summary_def)

lemma Project_history_form:
  assumes "\<And>p. prev = Some p \<Longrightarrow> history_ok p"
  shows "Project sha dg inp prev =
     (let out = projected inp (identityDigest sha inp); fp = fingerprint dg out;
          (fs, again, n) = next_history (identityDigest sha inp) fp prev
      in out\<lparr>is_Fingerprint := fp, is_RecentFingerprints := fs, is_Recurring := again, is_Recurrences := n\<rparr>)"
proof -
  have "\<not> is_Recurring (project_valid inp (empty_summary i)) \<and> is_Recurrences (project_valid inp (empty_summary i)) = 0
    \<and> is_IdentityDigest (project_valid inp (empty_summary i)) = i" for i
    by (simp add: project_valid_def Let_def empty_summary_def)
  moreover have "\<not> is_Recurring (project_invalid inp (empty_summary i)) \<and> is_Recurrences (project_invalid inp (empty_summary i)) = 0
    \<and> is_IdentityDigest (project_invalid inp (empty_summary i)) = i" for i
    by (simp add: project_invalid_def empty_summary_def)
  ultimately show ?thesis
    by (simp add: Project_def finish_history [OF assms] projected_def Let_def)
qed

definition summary_ok :: "InteractionStatus \<Rightarrow> bool" where
  "summary_ok s \<longleftrightarrow> within_bounds s \<and> length (is_LevelReasons s) \<le> maxReasons \<and>
     length (is_HumanReasons s) \<le> maxReasons \<and> history_ok s"

lemma Project_keeps_ok:
  assumes "\<And>p. prev = Some p \<Longrightarrow> history_ok p"
  shows "summary_ok (Project sha dg inp prev)"
proof -
  let ?s = "Project sha dg inp prev" and ?o = "projected inp (identityDigest sha inp)"
  obtain fs again n where nh: "next_history (identityDigest sha inp) (fingerprint dg ?o) prev = (fs, again, n)"
    by (metis prod_cases3)
  have form: "?s = ?o\<lparr>is_Fingerprint := fingerprint dg ?o, is_RecentFingerprints := fs, is_Recurring := again, is_Recurrences := n\<rparr>"
    by (simp add: Project_history_form [OF assms] nh Let_def)
  have "next_history (identityDigest sha inp) (is_Fingerprint ?s) prev = (is_RecentFingerprints ?s, is_Recurring ?s, is_Recurrences ?s)"
    using nh by (simp add: form)
  from next_history_ok [OF assms this] have "history_ok ?s" .
  moreover have "within_bounds ?s" using projected_facts(1) [of inp "identityDigest sha inp"] by (simp add: form within_bounds_def)
  moreover have "length (is_LevelReasons ?s) \<le> maxReasons" "length (is_HumanReasons ?s) \<le> maxReasons"
    using projected_facts(3,4) [of inp "identityDigest sha inp"] by (simp_all add: form)
  ultimately show ?thesis by (simp add: summary_ok_def)
qed

section \<open>A run of projections\<close>

text \<open>The summaries a target's status holds when each projection reads the one before it.\<close>

definition projections :: "(string \<Rightarrow> string) \<Rightarrow> (meaning \<Rightarrow> string) \<Rightarrow> Input list \<Rightarrow> InteractionStatus option" where
  "projections sha dg inps = fold (\<lambda>inp prev. Some (Project sha dg inp prev)) inps None"

lemma projections_snoc:
  "projections sha dg (inps @ [inp]) = Some (Project sha dg inp (projections sha dg inps))"
  by (simp add: projections_def)

lemma projections_ok: "projections sha dg inps = Some s \<Longrightarrow> summary_ok s"
proof (induction inps arbitrary: s rule: rev_induct)
  case Nil
  then show ?case by (simp add: projections_def)
next
  case (snoc inp inps)
  then have "history_ok p" if "projections sha dg inps = Some p" for p using that by (simp add: summary_ok_def)
  then show ?case using snoc.prems Project_keeps_ok by (auto simp: projections_snoc)
qed

text \<open>C12: Along every run of projections the summary stays within the bounds of the CRD schema, whatever the
  status, the profile, the investigation and the actions: each list, the text of at most 256 bytes, the history
  of at most four distinct meanings led by the current one, and the counter of returns.\<close>

theorem projections_bounded:
  "case projections sha dg inps of None \<Rightarrow> inps = [] | Some s \<Rightarrow> summary_ok s"
  using projections_ok [of sha dg inps]
  by (cases inps rule: rev_cases) (auto simp: projections_snoc projections_def split: option.splits)

text \<open>C13: The history of a summary reached by a run: it starts afresh when the identity changes, is kept while
  the meaning stays the same, and otherwise moves the new meaning to the front of the earlier others, counting a
  return exactly when the new meaning is one of them.\<close>

theorem projections_history:
  "let prev = projections sha dg inps; s = Project sha dg inp prev
   in is_Fingerprint s = fingerprint dg s \<and>
      (is_RecentFingerprints s, is_Recurring s, is_Recurrences s) =
        next_history (identityDigest sha inp) (is_Fingerprint s) prev"
proof -
  let ?o = "projected inp (identityDigest sha inp)" and ?prev = "projections sha dg inps"
  let ?s = "Project sha dg inp ?prev"
  obtain fs again n where nh: "next_history (identityDigest sha inp) (fingerprint dg ?o) ?prev = (fs, again, n)"
    by (metis prod_cases3)
  have "history_ok p" if "?prev = Some p" for p using projections_ok [OF that] by (simp add: summary_ok_def)
  then have form: "?s = ?o\<lparr>is_Fingerprint := fingerprint dg ?o, is_RecentFingerprints := fs, is_Recurring := again, is_Recurrences := n\<rparr>"
    by (simp add: Project_history_form nh Let_def)
  then show ?thesis using nh by (simp add: fingerprint_def meaning_of_def)
qed

end
