(* ===== verification/Interaction_Render.thy ===== *)
theory Interaction_Render
  imports Interaction_Project
begin

text \<open>
  The text rendering of the summaries of many targets (\<open>interaction/render.go\<close>). Of a target the renderer
  reads its namespace, its name and the interaction part of its status.
\<close>

section \<open>Overview\<close>

record OperationalTarget =
  og_Namespace :: string
  og_Name :: string
  og_Interaction :: "InteractionStatus option"

record Overview =
  ov_Targets :: int
  ov_NothingAssessed :: bool
  ov_ByLevel :: "InteractionLevel \<Rightarrow> int"
  ov_WithoutSummary :: int

definition overview_step :: "OperationalTarget \<Rightarrow> Overview \<Rightarrow> Overview" where
  "overview_step t ov =
     (case og_Interaction t of
        None \<Rightarrow> ov\<lparr>ov_WithoutSummary := ov_WithoutSummary ov + 1\<rparr>
      | Some s \<Rightarrow> ov\<lparr>ov_ByLevel := (ov_ByLevel ov)(is_Level s := ov_ByLevel ov (is_Level s) + 1)\<rparr>)"

definition OverviewOf :: "OperationalTarget list \<Rightarrow> Overview" where
  "OverviewOf ts =
     fold overview_step ts
       \<lparr>ov_Targets = int (length ts), ov_NothingAssessed = (ts = []), ov_ByLevel = (\<lambda>_. 0), ov_WithoutSummary = 0\<rparr>"

section \<open>Lines\<close>

definition newline :: string where
  "newline = [char_of (10::nat)]"

definition pad_right :: "nat \<Rightarrow> string \<Rightarrow> string" where
  "pad_right n s = s @ replicate (n - length s) (CHR '' '')"

definition render_line :: "string \<Rightarrow> string list \<Rightarrow> string" where
  "render_line label items =
     (case items of
        [] \<Rightarrow> []
      | it # its \<Rightarrow>
          ''  '' @ pad_right 11 (label @ '':'') @ '' '' @ it @ newline @
          concat (map (\<lambda>i. ''  '' @ pad_right 11 [] @ '' '' @ i @ newline) its))"

definition reasonList :: "StatusReason list \<Rightarrow> string list" where
  "reasonList rs =
     map (\<lambda>r. sr_Code r @ (if sr_Subject r \<noteq> [] then '' '' @ sr_Subject r else []) @
            (if sr_Detail r \<noteq> [] then '' ('' @ sr_Detail r @ '')'' else [])) rs"

definition capLines :: "InteractionCapability list \<Rightarrow> string list" where
  "capLines cs =
     map (\<lambda>c. typeKey (ic_Type c) @ '' '' @ ic_State c @
            (if ic_Reasons c \<noteq> [] then '': '' @ go_Join (map sr_Code (ic_Reasons c)) '', '' else [])) cs"

definition factLines :: "EvidenceStatus list \<Rightarrow> bool \<Rightarrow> string list" where
  "factLines es withRef =
     map (\<lambda>e. ev_Slot e @ '' '' @ ev_State e @
            (if ev_Provider e \<noteq> [] then '' via '' @ ev_Provider e @ ''@'' @ ev_ConfigRevision e else []) @
            (if withRef \<and> ev_EvidenceRef e \<noteq> [] then '' ref '' @ ev_EvidenceRef e else [])) es"

definition preconds :: "InteractionResponse \<Rightarrow> string" where
  "preconds r =
     (if ir_Preconditions r = [] then []
      else ''; preconditions '' @ go_Join (map (\<lambda>c. sr_Subject c @ ''='' @ sr_Code c) (ir_Preconditions r)) '', '')"

definition actionLines :: "InteractionAction list \<Rightarrow> string list" where
  "actionLines as =
     map (\<lambda>a. ia_Name a @ '' for '' @ ct_Name (ia_For a) @ '': '' @ ia_Phase a @ '' (attempt '' @ show_int (ia_Attempt a) @ '')'' @
            (if ia_Reasons a \<noteq> [] then '' ['' @ go_Join (map sr_Code (ia_Reasons a)) '', '' @ '']'' else []) @
            ''; recovery '' @ (if ia_Recovery a = [] then ''not assessed'' else ia_Recovery a) @
            (if ia_RecoveryDetail a \<noteq> []
             then '' ('' @ go_Join (map (\<lambda>d. sr_Subject d @ ''='' @ sr_Code d) (ia_RecoveryDetail a)) '', '' @ '')'' else []) @
            ''; proposal '' @ ia_Proposal a @ '' digest '' @ ia_Digest a) as"

definition responseLines :: "InteractionResponse list \<Rightarrow> string list" where
  "responseLines rs =
     map (\<lambda>r. ir_Name r @ '' for '' @ ct_Name (ir_For r) @ '' on '' @ ir_Target r @ '', owner '' @
            (if ir_Owner r = [] then ''<undeclared>'' else ir_Owner r) @ '': '' @ ir_Status r @ preconds r @ '' (display only)'') rs"

definition level_string :: "InteractionLevel \<Rightarrow> string" where
  "level_string l =
     (case l of LevelNoAction \<Rightarrow> ''NO_ACTION'' | LevelAwareness \<Rightarrow> ''AWARENESS''
      | LevelDecisionRequired \<Rightarrow> ''DECISION_REQUIRED'' | LevelImmediateIntervention \<Rightarrow> ''IMMEDIATE_INTERVENTION'')"

section \<open>Targets\<close>

definition renderTarget :: "OperationalTarget \<Rightarrow> string" where
  "renderTarget t =
     og_Namespace t @ ''/'' @ og_Name t @ newline @
     (case og_Interaction t of
        None \<Rightarrow> ''  no interaction summary (projection disabled or not yet reconciled)'' @ newline
      | Some s \<Rightarrow>
          ''  level:      '' @ level_string (is_Level s) @
            (if is_Recurring s then '' (recurring, '' @ show_int (is_Recurrences s) @ '' re-entries)'' else []) @ newline @
          ''  problem:    '' @ is_Summary s @ newline @
          render_line ''why'' (reasonList (is_LevelReasons s)) @
          render_line ''affected'' (capLines (is_Affected s)) @
          render_line ''unknown'' (capLines (is_Unknown s)) @
          render_line ''available'' (capLines (is_Unaffected s)) @
          render_line ''confirmed'' (factLines (is_ConfirmedFacts s) True) @
          render_line ''missing'' (factLines (is_MissingEvidence s) False) @
          render_line ''candidates'' (map (\<lambda>c. ik_Status c @ '' (hypothesis): '' @ ik_ID c) (is_CauseCandidates s)) @
          (case is_Investigation s of
             None \<Rightarrow> []
           | Some i \<Rightarrow> ''  checked:    '' @ iv_Outcome i @ ''; hypotheses refuted='' @ show_int (iv_Refuted i) @
               '' maintained='' @ show_int (iv_Maintained i) @ '' open='' @ show_int (iv_Open i) @ newline) @
          render_line ''responses'' (responseLines (is_Responses s)) @
          render_line ''actions'' (actionLines (is_Actions s)) @
          render_line ''human'' (reasonList (is_HumanReasons s)) @
          render_line ''pending'' (reasonList (is_PendingPostConditions s)))"

definition target_less :: "OperationalTarget \<Rightarrow> OperationalTarget \<Rightarrow> bool" where
  "target_less a b = (if og_Namespace a \<noteq> og_Namespace b then og_Namespace a < og_Namespace b else og_Name a < og_Name b)"

definition level_counts :: "Overview \<Rightarrow> string list" where
  "level_counts ov =
     map (\<lambda>l. level_string l @ ''='' @ show_int (ov_ByLevel ov l))
       [LevelImmediateIntervention, LevelDecisionRequired, LevelAwareness, LevelNoAction]"

definition RenderText :: "OperationalTarget list \<Rightarrow> string" where
  "RenderText ts =
     (let ov = OverviewOf ts in
      if ov_NothingAssessed ov
      then ''No OperationalTarget found: nothing is assessed (this is not NO_ACTION).'' @ newline
      else show_int (ov_Targets ov) @ '' targets: '' @ go_Join (level_counts ov) '' '' @ '', without summary='' @
        show_int (ov_WithoutSummary ov) @ '' (counts only; no overall health)'' @ newline @
        concat (map (\<lambda>t. newline @ renderTarget t) (sort_slice target_less ts)))"

section \<open>The counts and the order\<close>

definition counted :: "OperationalTarget list \<Rightarrow> InteractionLevel \<Rightarrow> OperationalTarget list" where
  "counted ts l = filter (\<lambda>t. map_option is_Level (og_Interaction t) = Some l) ts"

lemma overview_fold:
  "fold overview_step ts ov = ov\<lparr>
     ov_ByLevel := (\<lambda>l. ov_ByLevel ov l + int (length (counted ts l))),
     ov_WithoutSummary := ov_WithoutSummary ov + int (length (filter (\<lambda>t. og_Interaction t = None) ts))\<rparr>"
  by (induction ts arbitrary: ov) (auto simp: overview_step_def counted_def fun_eq_iff split: option.splits)

lemma OverviewOf_counts:
  "ov_ByLevel (OverviewOf ts) l = int (length (counted ts l))"
  "ov_WithoutSummary (OverviewOf ts) = int (length (filter (\<lambda>t. og_Interaction t = None) ts))"
  "ov_Targets (OverviewOf ts) = int (length ts)" "ov_NothingAssessed (OverviewOf ts) \<longleftrightarrow> ts = []"
  by (simp_all add: OverviewOf_def overview_fold)

lemma level_partition:
  "length ts = length (filter (\<lambda>t. og_Interaction t = None) ts) + length (counted ts LevelNoAction) +
     length (counted ts LevelAwareness) + length (counted ts LevelDecisionRequired) + length (counted ts LevelImmediateIntervention)"
proof (induction ts)
  case (Cons t ts)
  show ?case
  proof (cases "og_Interaction t")
    case None
    then show ?thesis using Cons by (simp add: counted_def)
  next
    case (Some s)
    then show ?thesis using Cons by (cases "is_Level s") (simp_all add: counted_def)
  qed
qed (simp add: counted_def)

definition target_key :: "OperationalTarget \<Rightarrow> string list" where
  "target_key t = [og_Namespace t, og_Name t]"

lemma target_less_key: "target_less a b \<longleftrightarrow> target_key a < target_key b"
  by (auto simp: target_less_def target_key_def)

lemma OverviewOf_perm: "mset ts = mset us \<Longrightarrow> OverviewOf ts = OverviewOf us"
proof -
  assume m: "mset ts = mset us"
  then have "length (filter P ts) = length (filter P us)" for P by (metis mset_filter size_mset)
  moreover have "length ts = length us" using m by (rule mset_eq_length)
  moreover have "ts = [] \<longleftrightarrow> us = []" using m by (metis mset_zero_iff)
  ultimately show ?thesis by (simp add: OverviewOf_def overview_fold counted_def)
qed

text \<open>The overview puts every target under exactly one heading, its level or no summary, and never counts a
  target without a summary as needing no action; it says that nothing is assessed only of an empty list.\<close>

theorem Overview_partition:
  "ov_Targets (OverviewOf ts) = ov_WithoutSummary (OverviewOf ts) +
     (\<Sum>l \<leftarrow> [LevelNoAction, LevelAwareness, LevelDecisionRequired, LevelImmediateIntervention]. ov_ByLevel (OverviewOf ts) l) \<and>
   ov_ByLevel (OverviewOf ts) l = int (length (counted ts l)) \<and>
   (ov_NothingAssessed (OverviewOf ts) \<longleftrightarrow> ts = [])"
  using level_partition [of ts] by (simp add: OverviewOf_counts)

text \<open>The text does not depend on the order in which the targets are listed, since namespace and name
  identify a target.\<close>

theorem RenderText_order_independent:
  assumes "distinct (map target_key ts)" and "mset ts = mset us"
  shows "RenderText ts = RenderText us"
  unfolding RenderText_def
  by (simp only: sort_slice_distinct_keys [OF target_less_key assms] OverviewOf_perm [OF assms(2)])

theorem RenderText_order_independent_witness:
  "RenderText [\<lparr>og_Namespace = ''b'', og_Name = ''x'', og_Interaction = None\<rparr>, \<lparr>og_Namespace = ''a'', og_Name = ''y'', og_Interaction = None\<rparr>]
   = RenderText [\<lparr>og_Namespace = ''a'', og_Name = ''y'', og_Interaction = None\<rparr>, \<lparr>og_Namespace = ''b'', og_Name = ''x'', og_Interaction = None\<rparr>]"
  by (rule RenderText_order_independent) (simp_all add: target_key_def add_mset_commute)

end
