(* ===== verification/Release_Model.thy ===== *)
theory Release_Model
  imports Go_Prelude
begin

text \<open>
  The data of a release (pkg/model): managed components with their deploy configuration, the
  environment with its namespace policy, the release and its pinned component references. The
  struct fields carry a prefix per struct. Reading and decoding the YAML files is not part of the
  model: the planner takes the loaders as a parameter.

  Pointers that may be nil are options; \<open>BootstrapAdapter\<close> and \<open>UpdateAdapter\<close> choose the default
  adapters where the configuration is silent.
\<close>

section \<open>Components\<close>

record BootstrapDeploy =
  bd_Adapter :: string
  bd_Path :: string

record UpdateDeploy =
  ud_Adapter :: string

record DeployConfig =
  dc_Namespace :: string
  dc_Bootstrap :: "BootstrapDeploy option"
  dc_Update :: "UpdateDeploy option"

definition BootstrapAdapter :: "DeployConfig \<Rightarrow> string" where
  "BootstrapAdapter d =
     (case dc_Bootstrap d of
        Some b \<Rightarrow> if bd_Adapter b \<noteq> [] then bd_Adapter b else ''kustomize''
      | None \<Rightarrow> ''kustomize'')"

definition UpdateAdapter :: "DeployConfig \<Rightarrow> string" where
  "UpdateAdapter d =
     (case dc_Update d of
        Some u \<Rightarrow> if ud_Adapter u \<noteq> [] then ud_Adapter u else ''imageswap''
      | None \<Rightarrow> ''imageswap'')"

record ImageRef =
  ir_Ref :: string

record Ports =
  po_Metrics :: int
  po_Health :: int

record Endpoint =
  ep_Path :: string

record BoriComponent =
  bc_Name :: string
  bc_Kind :: string
  bc_Version :: string
  bc_Image :: ImageRef
  bc_Ports :: Ports
  bc_Health :: Endpoint
  bc_Metrics :: Endpoint
  bc_Dependencies :: "string list"
  bc_Contracts :: "string list"
  bc_VerificationPolicies :: "string list"
  bc_Deploy :: DeployConfig

section \<open>Environments\<close>

record NetworkIntegrationProfile =
  ni_Type :: string
  ni_Checks :: "string list"

record ClusterConfig =
  cl_Kubeconfig :: string
  cl_Context :: string

record NamespacePolicy =
  np_Allowed :: "string list"
  np_AllowClusterScopedResources :: bool

record RegistryConfig =
  rg_Default :: string

record SecretsConfig =
  sx_Mode :: string
  sx_Redaction :: string

record BoriEnvironment =
  be_Name :: string
  be_Cluster :: ClusterConfig
  be_NamespacePolicy :: NamespacePolicy
  be_Registry :: RegistryConfig
  be_Secrets :: SecretsConfig
  be_NetworkIntegration :: NetworkIntegrationProfile

section \<open>Releases\<close>

record ComponentRef =
  cf_Name :: string
  cf_Version :: string
  cf_ImageDigest :: string
  cf_GitSha :: string

record CompatibilityRef =
  cx_Matrix :: string

record ReleaseVerification =
  rv_Policies :: "string list"

record BaselinePolicy =
  bp_UpdateFrom :: string
  bp_ReviewRequired :: bool

record PromotionPolicy =
  pp_RequiredGateResult :: string
  pp_BaselinePolicy :: BaselinePolicy

record BoriRelease =
  br_Name :: string
  br_Components :: "ComponentRef list"
  br_Compatibility :: CompatibilityRef
  br_Verification :: ReleaseVerification
  br_Promotion :: PromotionPolicy

text \<open>The components of a release by name, as the planner loads them.\<close>

type_synonym components = "string \<Rightarrow> BoriComponent option"

section \<open>Strings\<close>

text \<open>The functions of Go's \<open>strings\<close> and \<open>strconv\<close> that the release packages use.\<close>

definition HasPrefix :: "string \<Rightarrow> string \<Rightarrow> bool" where
  "HasPrefix s p \<longleftrightarrow> take (length p) s = p"

definition TrimPrefix :: "string \<Rightarrow> string \<Rightarrow> string" where
  "TrimPrefix s p = (if HasPrefix s p then drop (length p) s else s)"

text \<open>\<open>strings.SplitN(s, sep, n)\<close> for a separator of one byte and a positive \<open>n\<close>: at most \<open>n\<close> pieces,
  the last one being the unsplit rest.\<close>

fun SplitN :: "string \<Rightarrow> char \<Rightarrow> nat \<Rightarrow> string list" where
  "SplitN s sep (Suc (Suc n)) =
     (case dropWhile (\<lambda>c. c \<noteq> sep) s of
        [] \<Rightarrow> [s]
      | _ # rest \<Rightarrow> takeWhile (\<lambda>c. c \<noteq> sep) s # SplitN rest sep (Suc n))"
| "SplitN s sep n = [s]"

definition max_int :: int where "max_int = 2 ^ 63 - 1"
definition min_int :: int where "min_int = - (2 ^ 63)"

definition is_digit :: "char \<Rightarrow> bool" where
  "is_digit c \<longleftrightarrow> 48 \<le> (of_char c :: nat) \<and> (of_char c :: nat) \<le> 57"

text \<open>
  The number \<open>strconv.Atoi\<close> returns beside its error, on a platform with 64-bit \<open>int\<close>: 0 for a
  text that is not an optionally signed decimal, and the nearest bound for one out of range.
\<close>

definition unsigned_value :: "string \<Rightarrow> int option" where
  "unsigned_value s = (if s \<noteq> [] \<and> list_all is_digit s then Some (int (decimal_value s)) else None)"

definition Atoi :: "string \<Rightarrow> int" where
  "Atoi s =
     (case s of
        CHR ''-'' # ds \<Rightarrow> (case unsigned_value ds of None \<Rightarrow> 0 | Some n \<Rightarrow> max min_int (- n))
      | CHR ''+'' # ds \<Rightarrow> (case unsigned_value ds of None \<Rightarrow> 0 | Some n \<Rightarrow> min max_int n)
      | _ \<Rightarrow> (case unsigned_value s of None \<Rightarrow> 0 | Some n \<Rightarrow> min max_int n))"

lemma show_nat_not_Nil [simp]: "show_nat n \<noteq> []"
  by (subst show_nat.simps) simp

lemma unsigned_value_show_nat [simp]: "unsigned_value (show_nat n) = Some (int n)"
  by (auto simp: unsigned_value_def decimal_value_show_nat list_all_iff is_digit_def dest: show_nat_digits)

lemma Atoi_show_nat [simp]: "Atoi (show_nat n) = min max_int (int n)"
proof -
  obtain c cs where s: "show_nat n = c # cs" by (cases "show_nat n") auto
  have c: "48 \<le> (of_char c :: nat)" using show_nat_digits [of c n] s by simp
  have "(of_char (CHR ''-'') :: nat) = 45" "(of_char (CHR ''+'') :: nat) = 43" by simp_all
  then have "c \<noteq> CHR ''-''" "c \<noteq> CHR ''+''" using c by auto
  then have "Atoi (c # cs) = (case unsigned_value (c # cs) of None \<Rightarrow> 0 | Some n \<Rightarrow> min max_int n)"
    by (auto simp: Atoi_def split: char.splits bool.splits)
  then show ?thesis unfolding s [symmetric] by simp
qed

lemma TrimPrefix_append [simp]: "TrimPrefix (p @ s) p = s"
  by (simp add: TrimPrefix_def HasPrefix_def)

lemma while_not_sep:
  "sep \<notin> set s \<Longrightarrow> takeWhile (\<lambda>c. c \<noteq> sep) (s @ sep # t) = s"
  "sep \<notin> set s \<Longrightarrow> dropWhile (\<lambda>c. c \<noteq> sep) (s @ sep # t) = sep # t"
  by (induction s) auto

lemma SplitN_at_sep:
  "sep \<notin> set s \<Longrightarrow> SplitN (s @ sep # t) sep (Suc (Suc n)) = s # SplitN t sep (Suc n)"
  by (simp add: while_not_sep)

lemma dot_show_nat: "CHR ''.'' \<notin> set (show_nat n)"
  using show_nat_digits [of "CHR ''.''" n] by auto

end
