(* ===== verification/Release_Compat.thy ===== *)
theory Release_Compat
  imports Release_Model
begin

text \<open>
  The compatibility check of a release (pkg/release/release.go): versions compared as \<open>X.Y.Z\<close>,
  and the violations of a matrix of constraints.

  \<open>CheckCompatibility\<close> is characterised by the requirements that fail (\<open>compatible\<close>);
  \<open>versionAtLeast\<close> is a total preorder, and on printed triples it is the lexicographic order.
\<close>

section \<open>Versions\<close>

definition version_part :: "string list \<Rightarrow> nat \<Rightarrow> int" where
  "version_part p i = (if i < length p then Atoi (p ! i) else 0)"

fun compare_parts :: "string list \<Rightarrow> string list \<Rightarrow> nat list \<Rightarrow> int" where
  "compare_parts pa pb [] = 0"
| "compare_parts pa pb (i # is) =
     (let na = version_part pa i; nb = version_part pb i in
      if na \<noteq> nb then (if na > nb then 1 else - 1) else compare_parts pa pb is)"

definition semverCompare :: "string \<Rightarrow> string \<Rightarrow> int" where
  "semverCompare a b = compare_parts (SplitN a CHR ''.'' 3) (SplitN b CHR ''.'' 3) [0, 1, 2]"

definition versionAtLeast :: "string \<Rightarrow> string \<Rightarrow> bool" where
  "versionAtLeast version minVersion \<longleftrightarrow>
     semverCompare (TrimPrefix version ''v'') (TrimPrefix minVersion ''v'') \<ge> 0"

section \<open>The matrix\<close>

record VersionRequirement =
  vr_Component :: string
  vr_MinVersion :: string

record Constraint =
  ct_Component :: string
  ct_Version :: string
  ct_Requires :: "VersionRequirement list"

record CompatibilityMatrix =
  cm_Constraints :: "Constraint list"

record Violation =
  vi_Component :: string
  vi_Message :: string

definition Violation_String :: "Violation \<Rightarrow> string" where
  "Violation_String v = vi_Component v @ '': '' @ vi_Message v"

text \<open>A later entry for a component name replaces an earlier one, as the assignments to the map do.\<close>

definition release_versions :: "BoriRelease \<Rightarrow> string \<Rightarrow> string option" where
  "release_versions rel =
     fold (\<lambda>ref m. m(cf_Name ref \<mapsto> cf_Version ref)) (br_Components rel) (\<lambda>_. None)"

definition check_requirement :: "(string \<Rightarrow> string option) \<Rightarrow> string \<Rightarrow> VersionRequirement \<Rightarrow> Violation list" where
  "check_requirement versions component req =
     (case versions (vr_Component req) of
        None \<Rightarrow> [\<lparr>vi_Component = component,
                 vi_Message = ''requires '' @ vr_Component req @ '' '' @ vr_MinVersion req @ '' but '' @
                   vr_Component req @ '' is not in the release''\<rparr>]
      | Some actualVersion \<Rightarrow>
          if \<not> versionAtLeast actualVersion (vr_MinVersion req)
          then [\<lparr>vi_Component = component,
                 vi_Message = ''requires '' @ vr_Component req @ '' >= '' @ vr_MinVersion req @
                   '' but release has '' @ actualVersion\<rparr>]
          else [])"

definition check_constraint :: "(string \<Rightarrow> string option) \<Rightarrow> Constraint \<Rightarrow> Violation list" where
  "check_constraint versions c =
     (if versions (ct_Component c) \<noteq> Some (ct_Version c) then []
      else concat (map (check_requirement versions (ct_Component c)) (ct_Requires c)))"

definition CheckCompatibility :: "BoriRelease \<Rightarrow> CompatibilityMatrix \<Rightarrow> Violation list" where
  "CheckCompatibility rel matrix =
     concat (map (check_constraint (release_versions rel)) (cm_Constraints matrix))"

section \<open>The order of versions\<close>

definition version_triple :: "string \<Rightarrow> int \<times> int \<times> int" where
  "version_triple s =
     (let p = SplitN (TrimPrefix s ''v'') CHR ''.'' 3
      in (version_part p 0, version_part p 1, version_part p 2))"

fun triple_le :: "int \<times> int \<times> int \<Rightarrow> int \<times> int \<times> int \<Rightarrow> bool" where
  "triple_le (a, b, c) (x, y, z) \<longleftrightarrow> a < x \<or> a = x \<and> (b < y \<or> b = y \<and> c \<le> z)"

lemma versionAtLeast_triple: "versionAtLeast a b \<longleftrightarrow> triple_le (version_triple b) (version_triple a)"
  by (auto simp: versionAtLeast_def semverCompare_def version_triple_def Let_def)

lemma triple_le_order:
  "triple_le t t" "triple_le s t \<Longrightarrow> triple_le t u \<Longrightarrow> triple_le s u" "triple_le s t \<or> triple_le t s"
  by (cases s, cases t, cases u, auto)+

text \<open>The canonical text of a version.\<close>

definition show_version :: "nat \<times> nat \<times> nat \<Rightarrow> string" where
  "show_version v = (case v of (x, y, z) \<Rightarrow>
     ''v'' @ show_nat x @ ''.'' @ show_nat y @ ''.'' @ show_nat z)"

lemma version_triple_show:
  "version_triple (show_version (x, y, z)) = (min max_int (int x), min max_int (int y), min max_int (int z))"
proof -
  have "SplitN (show_nat x @ CHR ''.'' # show_nat y @ CHR ''.'' # show_nat z) CHR ''.'' (Suc (Suc (Suc 0))) =
      [show_nat x, show_nat y, show_nat z]"
    by (simp only: SplitN_at_sep [OF dot_show_nat]) simp
  moreover have "TrimPrefix (show_version (x, y, z)) ''v'' =
      show_nat x @ CHR ''.'' # show_nat y @ CHR ''.'' # show_nat z"
    unfolding show_version_def prod.case TrimPrefix_append by simp
  ultimately show ?thesis
    by (simp add: version_triple_def version_part_def Let_def numeral_3_eq_3)
qed


text \<open>On versions written as \<open>vX.Y.Z\<close> with numbers that fit a 64-bit integer, \<open>versionAtLeast\<close>
  is the lexicographic comparison of the triples, so that parsing what is printed loses nothing.
\<close>

theorem versionAtLeast_semver:
  assumes "int x \<le> max_int" "int y \<le> max_int" "int z \<le> max_int"
    and "int x' \<le> max_int" "int y' \<le> max_int" "int z' \<le> max_int"
  shows "versionAtLeast (show_version (x, y, z)) (show_version (x', y', z')) \<longleftrightarrow>
    x' < x \<or> x' = x \<and> (y' < y \<or> y' = y \<and> z' \<le> z)"
  using assms by (simp add: versionAtLeast_triple version_triple_show)

theorem versionAtLeast_semver_witness:
  "versionAtLeast (show_version (0, 10, 0)) (show_version (0, 9, 7))"
  by (subst versionAtLeast_semver) (simp_all add: max_int_def)

section \<open>What the check reports\<close>

lemma release_versions_Some:
  assumes "distinct (map cf_Name (br_Components rel))"
  shows "release_versions rel n = Some v \<longleftrightarrow>
    (\<exists>ref \<in> set (br_Components rel). cf_Name ref = n \<and> cf_Version ref = v)"
proof -
  have "fold (\<lambda>ref m. m(cf_Name ref \<mapsto> cf_Version ref)) rs m n = Some v \<longleftrightarrow>
      (\<exists>ref \<in> set rs. cf_Name ref = n \<and> cf_Version ref = v) \<or> n \<notin> cf_Name ` set rs \<and> m n = Some v"
    if "distinct (map cf_Name rs)" for rs m
    using that by (induction rs arbitrary: m) (auto simp: image_iff)
  from this [OF assms, of "\<lambda>_. None"] show ?thesis by (simp add: release_versions_def)
qed

lemma check_requirement_Nil:
  "check_requirement vs c req = [] \<longleftrightarrow>
     (\<exists>v. vs (vr_Component req) = Some v \<and> versionAtLeast v (vr_MinVersion req))"
  by (auto simp: check_requirement_def split: option.splits)

text \<open>A release is free of violations exactly when every constraint on a component it pins at the
  constrained version finds each required component in the release at the required version or a
  later one.
\<close>

theorem CheckCompatibility_exact:
  assumes "distinct (map cf_Name (br_Components rel))"
  shows "CheckCompatibility rel matrix = [] \<longleftrightarrow>
    (\<forall>c \<in> set (cm_Constraints matrix).
       (\<exists>ref \<in> set (br_Components rel). cf_Name ref = ct_Component c \<and> cf_Version ref = ct_Version c) \<longrightarrow>
       (\<forall>req \<in> set (ct_Requires c). \<exists>ref \<in> set (br_Components rel).
          cf_Name ref = vr_Component req \<and> versionAtLeast (cf_Version ref) (vr_MinVersion req)))"
proof -
  have one: "check_constraint (release_versions rel) c = [] \<longleftrightarrow>
      ((\<exists>ref \<in> set (br_Components rel). cf_Name ref = ct_Component c \<and> cf_Version ref = ct_Version c) \<longrightarrow>
       (\<forall>req \<in> set (ct_Requires c). \<exists>ref \<in> set (br_Components rel).
          cf_Name ref = vr_Component req \<and> versionAtLeast (cf_Version ref) (vr_MinVersion req)))" for c
    by (auto simp: check_constraint_def check_requirement_Nil release_versions_Some [OF assms]) fast+
  show ?thesis unfolding CheckCompatibility_def concat_eq_Nil_conv using one by auto
qed

definition demo_ref :: "string \<Rightarrow> string \<Rightarrow> ComponentRef" where
  "demo_ref n v = \<lparr>cf_Name = n, cf_Version = v, cf_ImageDigest = [], cf_GitSha = []\<rparr>"

definition demo_release :: "ComponentRef list \<Rightarrow> BoriRelease" where
  "demo_release refs = \<lparr>br_Name = ''demo'', br_Components = refs, br_Compatibility = \<lparr>cx_Matrix = []\<rparr>,
     br_Verification = \<lparr>rv_Policies = []\<rparr>,
     br_Promotion = \<lparr>pp_RequiredGateResult = ''PASS'',
       pp_BaselinePolicy = \<lparr>bp_UpdateFrom = [], bp_ReviewRequired = False\<rparr>\<rparr>\<rparr>"

definition demo_matrix :: CompatibilityMatrix where
  "demo_matrix = \<lparr>cm_Constraints = [\<lparr>ct_Component = ''jumi'', ct_Version = ''v0.3.0'',
     ct_Requires = [\<lparr>vr_Component = ''handoff'', vr_MinVersion = ''v0.2.0''\<rparr>]\<rparr>]\<rparr>"

theorem CheckCompatibility_exact_witness:
  "CheckCompatibility (demo_release [demo_ref ''jumi'' ''v0.3.0'', demo_ref ''handoff'' ''v0.1.5'']) demo_matrix \<noteq> []"
proof -
  let ?rel = "demo_release [demo_ref ''jumi'' ''v0.3.0'', demo_ref ''handoff'' ''v0.1.5'']"
  have d: "distinct (map cf_Name (br_Components ?rel))"
    by (simp add: demo_release_def demo_ref_def)
  have "\<not> versionAtLeast ''v0.1.5'' ''v0.2.0''" by code_simp
  then show ?thesis
    unfolding CheckCompatibility_exact [OF d] by (simp add: demo_release_def demo_ref_def demo_matrix_def)
qed

end
