(* ===== verification/Release_Order.thy ===== *)
theory Release_Order
  imports Release_Compat
begin

text \<open>
  The deployment order of a release (pkg/release/order.go), Kahn's algorithm: in-degrees and the
  list of dependents per dependency, a queue of names without open dependencies, and the comparison
  of lengths that reports a cycle.

  \<open>inDegree\<close> is a total function because reading a missing key of the Go map gives 0, and
  \<open>dependents\<close> an association list, the finite map the loop walks. The loop is a terminating
  recursion for every input. For releases without repeated names the result lists every component
  once, dependencies first, and the error is returned exactly for cyclic dependencies; a repeated name
  can defeat both.
\<close>

section \<open>The algorithm\<close>

type_synonym adjacency = "(string \<times> string list) list"

definition adjacent :: "adjacency \<Rightarrow> string \<Rightarrow> string list" where
  "adjacent g n = (case map_of g n of None \<Rightarrow> [] | Some ns \<Rightarrow> ns)"

fun append_at :: "string \<Rightarrow> string \<Rightarrow> adjacency \<Rightarrow> adjacency" where
  "append_at k v [] = [(k, [v])]"
| "append_at k v ((k', vs) # g) = (if k = k' then (k', vs @ [v]) # g else (k', vs) # append_at k v g)"

definition zero_ref :: ComponentRef where
  "zero_ref = \<lparr>cf_Name = [], cf_Version = [], cf_ImageDigest = [], cf_GitSha = []\<rparr>"

definition ref_by_name :: "ComponentRef list \<Rightarrow> string \<Rightarrow> ComponentRef option" where
  "ref_by_name refs = fold (\<lambda>ref m. m(cf_Name ref \<mapsto> ref)) refs (\<lambda>_. None)"

text \<open>The loop over the components: one edge per declared dependency that the release has.\<close>

definition order_ref :: "(string \<Rightarrow> ComponentRef option) \<Rightarrow> components \<Rightarrow> ComponentRef \<Rightarrow>
    (string \<Rightarrow> int) \<times> adjacency \<Rightarrow> (string \<Rightarrow> int) \<times> adjacency" where
  "order_ref refByName comps ref acc =
     (case comps (cf_Name ref) of
        None \<Rightarrow> acc
      | Some c \<Rightarrow>
          fold (\<lambda>dep (inDegree, dependents).
                  if refByName dep = None then (inDegree, dependents)
                  else (inDegree(cf_Name ref := inDegree (cf_Name ref) + 1),
                        append_at dep (cf_Name ref) dependents))
               (bc_Dependencies c) acc)"

definition order_graph :: "ComponentRef list \<Rightarrow> components \<Rightarrow> (string \<Rightarrow> int) \<times> adjacency" where
  "order_graph refs comps = fold (order_ref (ref_by_name refs) comps) refs (\<lambda>_. 0, [])"

text \<open>The inner loop over the dependents of a removed name.\<close>

fun release_dependents :: "string list \<Rightarrow> (string \<Rightarrow> int) \<Rightarrow> string list \<Rightarrow> (string \<Rightarrow> int) \<times> string list" where
  "release_dependents [] inDegree queue = (inDegree, queue)"
| "release_dependents (d # ds) inDegree queue =
     (let inDegree' = inDegree(d := inDegree d - 1) in
      release_dependents ds inDegree' (if inDegree' d = 0 then queue @ [d] else queue))"

definition targets_of :: "adjacency \<Rightarrow> string set" where
  "targets_of g = (\<Union>(k, vs) \<in> set g. set vs)"

lemma finite_targets_of [simp]: "finite (targets_of g)"
  by (auto simp: targets_of_def)

lemma adjacent_targets: "set (adjacent g n) \<subseteq> targets_of g"
  by (cases "map_of g n") (auto simp: adjacent_def targets_of_def dest!: map_of_SomeD)

definition open_targets :: "adjacency \<Rightarrow> (string \<Rightarrow> int) \<Rightarrow> string set" where
  "open_targets g inDegree = {n \<in> targets_of g. inDegree n > 0}"

lemma release_dependents_measure:
  assumes "set ds \<subseteq> targets_of g"
  shows "(case release_dependents ds deg q of (deg', q') \<Rightarrow> length q' + card (open_targets g deg'))
    \<le> length q + card (open_targets g deg)"
  using assms
proof (induction ds arbitrary: deg q)
  case (Cons d ds)
  let ?deg = "deg(d := deg d - 1)"
  have fin: "finite (open_targets g x)" for x by (simp add: open_targets_def)
  have "length (if ?deg d = 0 then q @ [d] else q) + card (open_targets g ?deg)
      \<le> length q + card (open_targets g deg)"
  proof (cases "?deg d = 0")
    case True
    then have "open_targets g deg = insert d (open_targets g ?deg)" "d \<notin> open_targets g ?deg"
      using Cons.prems by (auto simp: open_targets_def split: if_splits)
    with True fin [of ?deg] show ?thesis by simp
  next
    case False
    have "open_targets g ?deg \<subseteq> open_targets g deg" by (auto simp: open_targets_def split: if_splits)
    with False fin [of deg] show ?thesis by (simp add: card_mono)
  qed
  moreover have "(case release_dependents ds ?deg (if ?deg d = 0 then q @ [d] else q) of
      (deg', q') \<Rightarrow> length q' + card (open_targets g deg'))
      \<le> length (if ?deg d = 0 then q @ [d] else q) + card (open_targets g ?deg)"
    using Cons.prems by (intro Cons.IH) auto
  ultimately show ?case by (simp add: Let_def)
qed simp

function kahn :: "adjacency \<Rightarrow> (string \<Rightarrow> int) \<Rightarrow> string list \<Rightarrow> string list \<Rightarrow> string list" where
  "kahn dependents inDegree [] ordered = ordered"
| "kahn dependents inDegree (name # queue) ordered =
     (let (inDegree', queue') = release_dependents (adjacent dependents name) inDegree queue
      in kahn dependents inDegree' queue' (ordered @ [name]))"
  by pat_completeness auto
termination
proof (relation "measure (\<lambda>(g, deg, q, _). length q + card (open_targets g deg))", goal_cases)
  case (2 g deg n q ordered x deg' q')
  then show ?case
    using release_dependents_measure [OF adjacent_targets, of g n deg q] by (auto split: prod.splits)
qed simp

definition Order :: "BoriRelease \<Rightarrow> components \<Rightarrow> string + ComponentRef list" where
  "Order rel comps =
     (let refs = br_Components rel;
          refByName = ref_by_name refs;
          (inDegree, dependents) = order_graph refs comps;
          queue = filter (\<lambda>n. inDegree n = 0) (map cf_Name refs);
          ordered = map (\<lambda>n. case refByName n of None \<Rightarrow> zero_ref | Some ref \<Rightarrow> ref)
            (kahn dependents inDegree queue [])
      in if length ordered \<noteq> length refs
         then Inl (''dependency cycle detected in release '' @ go_quote (br_Name rel))
         else Inr ordered)"


section \<open>The graph\<close>

text \<open>
  The edges the code stores, dependency first, in the order of the loops. A dependency that is
  declared twice gives two edges, which the in-degree counts and the loop removes together.
\<close>

definition dep_edges :: "ComponentRef list \<Rightarrow> components \<Rightarrow> (string \<times> string) list" where
  "dep_edges refs comps =
     concat (map (\<lambda>ref. case comps (cf_Name ref) of
                    None \<Rightarrow> []
                  | Some c \<Rightarrow> map (\<lambda>dep. (dep, cf_Name ref))
                      (filter (\<lambda>dep. dep \<in> cf_Name ` set refs) (bc_Dependencies c))) refs)"

lemma ref_by_name_dom: "ref_by_name refs n = None \<longleftrightarrow> n \<notin> cf_Name ` set refs"
proof -
  have "fold (\<lambda>ref m. m(cf_Name ref \<mapsto> ref)) refs m n = None \<longleftrightarrow> n \<notin> cf_Name ` set refs \<and> m n = None" for m
    by (induction refs arbitrary: m) auto
  then show ?thesis by (simp add: ref_by_name_def)
qed

lemma ref_by_name_Some:
  assumes "distinct (map cf_Name refs)" "ref \<in> set refs"
  shows "ref_by_name refs (cf_Name ref) = Some ref"
proof -
  have other: "fold (\<lambda>ref m. m(cf_Name ref \<mapsto> ref)) rs m n = m n" if "n \<notin> cf_Name ` set rs" for rs m n
    using that by (induction rs arbitrary: m) auto
  have "fold (\<lambda>ref m. m(cf_Name ref \<mapsto> ref)) refs m (cf_Name ref) = Some ref" for m
    using assms by (induction refs arbitrary: m) (auto simp: other)
  then show ?thesis by (simp add: ref_by_name_def)
qed

fun add_edge :: "string \<times> string \<Rightarrow> (string \<Rightarrow> int) \<times> adjacency \<Rightarrow> (string \<Rightarrow> int) \<times> adjacency" where
  "add_edge (d, n) (deg, g) = (deg(n := deg n + 1), append_at d n g)"

lemma order_graph_edges: "order_graph refs comps = fold add_edge (dep_edges refs comps) (\<lambda>_. 0, [])"
proof -
  have one: "fold (\<lambda>dep (inDegree, dependents).
                  if ref_by_name refs dep = None then (inDegree, dependents)
                  else (inDegree(n := inDegree n + 1), append_at dep n dependents)) ds acc =
      fold add_edge (map (\<lambda>dep. (dep, n)) (filter (\<lambda>dep. dep \<in> cf_Name ` set refs) ds)) acc" for n ds acc
    by (induction ds arbitrary: acc) (auto simp: ref_by_name_dom split: prod.splits)
  have "fold (order_ref (ref_by_name refs) comps) rs acc =
      fold add_edge (concat (map (\<lambda>ref. case comps (cf_Name ref) of None \<Rightarrow> []
        | Some c \<Rightarrow> map (\<lambda>dep. (dep, cf_Name ref))
            (filter (\<lambda>dep. dep \<in> cf_Name ` set refs) (bc_Dependencies c))) rs)) acc" for rs acc
    by (induction rs arbitrary: acc) (auto simp: order_ref_def one split: option.splits)
  then show ?thesis by (simp add: order_graph_def dep_edges_def)
qed

lemma adjacent_append_at: "adjacent (append_at k v g) n = (if n = k then adjacent g n @ [v] else adjacent g n)"
  by (induction k v g rule: append_at.induct) (auto simp: adjacent_def split: option.splits)

lemma fold_add_edge:
  "fold add_edge es (deg, g) = (deg', g') \<Longrightarrow>
     deg' n = deg n + int (length (filter (\<lambda>e. snd e = n) es)) \<and>
     adjacent g' n = adjacent g n @ map snd (filter (\<lambda>e. fst e = n) es)"
  by (induction es arbitrary: deg g) (fastforce simp: adjacent_append_at)+

lemma order_graph_counts:
  assumes "order_graph refs comps = (deg, g)"
  shows "deg n = int (length (filter (\<lambda>e. snd e = n) (dep_edges refs comps)))"
    and "adjacent g n = map snd (filter (\<lambda>e. fst e = n) (dep_edges refs comps))"
  using fold_add_edge [of "dep_edges refs comps" "\<lambda>_. 0" "[]" deg g n] assms
  by (auto simp: order_graph_edges adjacent_def [of "[]"])

lemma dep_edges_names: "(d, n) \<in> set (dep_edges refs comps) \<Longrightarrow> d \<in> cf_Name ` set refs \<and> n \<in> cf_Name ` set refs"
  by (auto simp: dep_edges_def split: option.splits)

section \<open>The loop\<close>

lemma release_dependents_eq:
  assumes "release_dependents ds deg q = (deg', q')" "\<And>n. int (count_list ds n) \<le> deg n \<or> count_list ds n = 0"
  shows "(\<forall>n. deg' n = deg n - int (count_list ds n)) \<and>
    (\<exists>new. q' = q @ new \<and> distinct new \<and> set new = {n \<in> set ds. deg n = int (count_list ds n)})"
  using assms
proof (induction ds arbitrary: deg q)
  case (Cons d ds)
  let ?deg = "deg(d := deg d - 1)"
  let ?q = "if deg d = 1 then q @ [d] else q"
  have run: "release_dependents ds ?deg ?q = (deg', q')" using Cons.prems(1) by (simp add: Let_def)
  have le: "int (count_list ds n) \<le> ?deg n \<or> count_list ds n = 0" for n
    using Cons.prems(2) [of n] by (auto split: if_splits)
  obtain new where new: "q' = ?q @ new" "distinct new" "set new = {n \<in> set ds. ?deg n = int (count_list ds n)}"
    and deg: "\<forall>n. deg' n = ?deg n - int (count_list ds n)"
    using Cons.IH [OF run le] by blast
  have "\<exists>new. q' = q @ new \<and> distinct new \<and> set new = {n \<in> set (d # ds). deg n = int (count_list (d # ds) n)}"
  proof (cases "deg d = 1")
    case True
    have "d \<notin> set ds" using Cons.prems(2) [of d] True by (auto simp: count_list_0_iff)
    have "m \<in> set (d # new) \<longleftrightarrow> m \<in> set (d # ds) \<and> deg m = int (count_list (d # ds) m)" for m
      using \<open>d \<notin> set ds\<close> True unfolding set_simps insert_iff new(3) by (cases "m = d") (simp_all add: count_notin)
    then have "set (d # new) = {m \<in> set (d # ds). deg m = int (count_list (d # ds) m)}" by blast
    moreover have "q' = q @ d # new" "distinct (d # new)" using new True \<open>d \<notin> set ds\<close> by simp_all
    ultimately show ?thesis by blast
  next
    case False
    have "d \<in> set ds" if "deg d = 1 + int (count_list ds d)"
      using that False by (cases "d \<in> set ds") (auto simp: count_notin)
    then have "m \<in> set new \<longleftrightarrow> m \<in> set (d # ds) \<and> deg m = int (count_list (d # ds) m)" for m
      unfolding new(3) by (cases "m = d") auto
    then have "set new = {m \<in> set (d # ds). deg m = int (count_list (d # ds) m)}" by blast
    moreover have "q' = q @ new" using new(1) False by simp
    ultimately show ?thesis using new(2) by blast
  qed
  with deg show ?case by auto
qed simp


definition open_edges :: "(string \<times> string) list \<Rightarrow> string list \<Rightarrow> string \<Rightarrow> nat" where
  "open_edges es ordered n = length (filter (\<lambda>e. snd e = n \<and> fst e \<notin> set ordered) es)"

definition dependency_first :: "(string \<times> string) list \<Rightarrow> string list \<Rightarrow> bool" where
  "dependency_first es ordered \<longleftrightarrow>
     (\<forall>i < length ordered. \<forall>d. (d, ordered ! i) \<in> set es \<longrightarrow> d \<in> set (take i ordered))"

text \<open>The invariant of the loop: the queue holds exactly the names outside the result whose
  dependencies are all in it.\<close>

definition kahn_inv :: "(string \<times> string) list \<Rightarrow> string list \<Rightarrow> (string \<Rightarrow> int) \<Rightarrow> string list \<Rightarrow> string list \<Rightarrow> bool" where
  "kahn_inv es names deg queue ordered \<longleftrightarrow>
     distinct (ordered @ queue) \<and> set (ordered @ queue) \<subseteq> set names \<and>
     (\<forall>n. deg n = int (open_edges es ordered n)) \<and>
     (\<forall>n \<in> set names. n \<in> set (ordered @ queue) \<longleftrightarrow> deg n = 0) \<and>
     dependency_first es ordered"

lemma open_edges_snoc:
  assumes "n \<notin> set ordered"
  shows "open_edges es (ordered @ [n]) m =
      open_edges es ordered m - count_list (map snd (filter (\<lambda>e. fst e = n) es)) m"
    and "count_list (map snd (filter (\<lambda>e. fst e = n) es)) m \<le> open_edges es ordered m"
proof -
  have "open_edges es ordered m =
      open_edges es (ordered @ [n]) m + count_list (map snd (filter (\<lambda>e. fst e = n) es)) m"
    using assms by (induction es) (auto simp: open_edges_def)
  then show "open_edges es (ordered @ [n]) m =
      open_edges es ordered m - count_list (map snd (filter (\<lambda>e. fst e = n) es)) m"
    "count_list (map snd (filter (\<lambda>e. fst e = n) es)) m \<le> open_edges es ordered m" by simp_all
qed

lemma open_edges_0: "open_edges es ordered n = 0 \<longleftrightarrow> (\<forall>d. (d, n) \<in> set es \<longrightarrow> d \<in> set ordered)"
  by (force simp: open_edges_def filter_empty_conv)

lemma dependency_first_snoc:
  assumes "dependency_first es ordered" "open_edges es ordered n = 0"
  shows "dependency_first es (ordered @ [n])"
  using assms by (auto simp: dependency_first_def open_edges_0 nth_append less_Suc_eq)

lemma kahn_inv_step:
  assumes inv: "kahn_inv es names deg (n # q) ordered"
    and g: "\<And>n. adjacent g n = map snd (filter (\<lambda>e. fst e = n) es)"
    and es: "snd ` set es \<subseteq> set names"
    and run: "release_dependents (adjacent g n) deg q = (deg', q')"
  shows "kahn_inv es names deg' q' (ordered @ [n])"
proof -
  let ?c = "count_list (adjacent g n)"
  have n: "n \<notin> set ordered" "n \<in> set names" "open_edges es ordered n = 0"
    and dist: "distinct (ordered @ n # q)" and sub: "set (ordered @ n # q) \<subseteq> set names"
    and deg: "\<And>m. deg m = int (open_edges es ordered m)"
    and zero: "\<And>m. m \<in> set names \<Longrightarrow> m \<in> set (ordered @ n # q) \<longleftrightarrow> deg m = 0"
    and topo: "dependency_first es ordered"
    using inv by (auto simp: kahn_inv_def)
  have oe: "open_edges es (ordered @ [n]) m = open_edges es ordered m - ?c m"
    "?c m \<le> open_edges es ordered m" for m
    using open_edges_snoc [OF n(1), of es m] by (simp_all add: g)
  have le: "int (?c m) \<le> deg m \<or> ?c m = 0" for m using oe(2) [of m] by (simp add: deg)
  obtain new where new: "q' = q @ new" "distinct new" "set new = {m \<in> set (adjacent g n). deg m = int (?c m)}"
    and deg': "\<And>m. deg' m = deg m - int (?c m)"
    using release_dependents_eq [OF run] le by blast
  have deg'_open: "deg' m = int (open_edges es (ordered @ [n]) m)" for m
    by (simp add: deg' deg oe of_nat_diff)
  have new_open: "m \<in> set new \<longleftrightarrow> deg' m = 0 \<and> deg m \<noteq> 0" for m
  proof -
    have "m \<in> set (adjacent g n) \<longleftrightarrow> ?c m \<noteq> 0" using count_list_0_iff by metis
    then show ?thesis unfolding new(3) deg' by auto
  qed
  have new_names: "set new \<subseteq> set names" using new(3) es by (auto simp: g)
  have "m \<in> set ((ordered @ [n]) @ q') \<longleftrightarrow> deg' m = 0" if "m \<in> set names" for m
  proof -
    have "deg m = 0 \<Longrightarrow> deg' m = 0" using oe(2) [of m] by (simp add: deg' deg)
    then show ?thesis using zero [OF that] new_open [of m] new(1) by auto
  qed
  moreover have "set new \<inter> set (ordered @ n # q) = {}"
    using new_open zero new_names by blast
  then have "distinct ((ordered @ [n]) @ q')" using dist new(1,2) by auto
  moreover have "dependency_first es (ordered @ [n])" by (rule dependency_first_snoc [OF topo n(3)])
  ultimately show ?thesis using sub new(1) new_names deg'_open by (auto simp: kahn_inv_def)
qed

lemma kahn_keeps_inv:
  assumes "kahn_inv es names deg q ordered" "\<And>n. adjacent g n = map snd (filter (\<lambda>e. fst e = n) es)"
    "snd ` set es \<subseteq> set names"
  shows "\<exists>deg'. kahn_inv es names deg' [] (kahn g deg q ordered)"
  using assms
proof (induction g deg q ordered rule: kahn.induct)
  case (2 g deg n q ordered)
  then show ?case using kahn_inv_step [OF "2.prems"] by (auto split: prod.splits)
qed auto


section \<open>Topological order and cycles\<close>

text \<open>The dependencies inside a release, dependency first.\<close>

definition depends_in :: "BoriRelease \<Rightarrow> components \<Rightarrow> (string \<times> string) set" where
  "depends_in rel comps =
     {(d, n). n \<in> cf_Name ` set (br_Components rel) \<and> d \<in> cf_Name ` set (br_Components rel) \<and>
        (\<exists>c. comps n = Some c \<and> d \<in> set (bc_Dependencies c))}"

lemma set_dep_edges: "set (dep_edges (br_Components rel) comps) = depends_in rel comps"
  by (force simp: dep_edges_def depends_in_def split: option.splits)

lemma takeWhile_position: "x \<in> set (take i xs) \<Longrightarrow> length (takeWhile (\<lambda>y. y \<noteq> x) xs) < i"
proof (induction xs arbitrary: i)
  case (Cons a xs)
  then show ?case using Cons.IH [of "i - 1"] by (cases i) auto
qed simp

lemma takeWhile_nth: "x \<in> set xs \<Longrightarrow>
    length (takeWhile (\<lambda>y. y \<noteq> x) xs) < length xs \<and> xs ! length (takeWhile (\<lambda>y. y \<noteq> x) xs) = x"
  by (induction xs) auto

lemma dependency_first_acyclic:
  assumes "dependency_first es ordered" "snd ` set es \<subseteq> set ordered"
  shows "acyclic (set es)"
proof -
  let ?pos = "\<lambda>n. length (takeWhile (\<lambda>y. y \<noteq> n) ordered)"
  have "?pos d < ?pos n" if "(d, n) \<in> set es" for d n
  proof -
    have "n \<in> set ordered" using that assms(2) by force
    with that have "d \<in> set (take (?pos n) ordered)"
      using assms(1) takeWhile_nth unfolding dependency_first_def by metis
    then show ?thesis by (rule takeWhile_position)
  qed
  then show ?thesis by (intro acyclicI_order [of _ "\<lambda>n. - int (?pos n)"]) simp
qed

lemma kahn_complete:
  assumes "kahn_inv es names deg [] ordered" "fst ` set es \<subseteq> set names" "acyclic (set es)"
  shows "set ordered = set names"
proof (rule ccontr)
  assume "set ordered \<noteq> set names"
  with assms(1) obtain m where m: "m \<in> set names - set ordered" by (auto simp: kahn_inv_def)
  have "wf (set es)" using assms(3) by (simp add: finite_acyclic_wf)
  from wfE_min [OF this m] obtain n where n: "n \<in> set names - set ordered"
    and min: "\<And>d. (d, n) \<in> set es \<Longrightarrow> d \<notin> set names - set ordered" by blast
  have "open_edges es ordered n \<noteq> 0" using n assms(1) by (auto simp: kahn_inv_def)
  then obtain d where "(d, n) \<in> set es" "d \<notin> set ordered" unfolding open_edges_0 by blast
  then show False using min [of d] assms(2) by force
qed

lemma Order_run:
  assumes "distinct (map cf_Name (br_Components rel))"
  obtains ordered where
    "distinct ordered" "set ordered \<subseteq> cf_Name ` set (br_Components rel)"
    "dependency_first (dep_edges (br_Components rel) comps) ordered"
    "acyclic (depends_in rel comps) \<longleftrightarrow> length ordered = length (br_Components rel)"
    "Order rel comps = (if length ordered \<noteq> length (br_Components rel)
       then Inl (''dependency cycle detected in release '' @ go_quote (br_Name rel))
       else Inr (map (\<lambda>n. the (ref_by_name (br_Components rel) n)) ordered))"
proof -
  let ?refs = "br_Components rel"
  let ?es = "dep_edges ?refs comps"
  obtain deg g where dg: "order_graph ?refs comps = (deg, g)" by fastforce
  let ?names = "map cf_Name ?refs"
  define queue where "queue = filter (\<lambda>n. deg n = 0) ?names"
  have es: "fst ` set ?es \<subseteq> set ?names" "snd ` set ?es \<subseteq> set ?names" by (auto dest: dep_edges_names)
  have "kahn_inv ?es ?names deg queue []"
    using assms by (auto simp: kahn_inv_def queue_def open_edges_def dependency_first_def order_graph_counts [OF dg])
  then obtain deg' where inv: "kahn_inv ?es ?names deg' [] (kahn g deg queue [])"
    using kahn_keeps_inv order_graph_counts(2) [OF dg] es(2) by metis
  let ?ord = "kahn g deg queue []"
  have d: "distinct ?ord" "set ?ord \<subseteq> set ?names" "dependency_first ?es ?ord"
    using inv by (auto simp: kahn_inv_def)
  have "length ?ord = length ?refs \<longleftrightarrow> set ?ord = set ?names"
    using d(1,2) distinct_card [OF d(1)] distinct_card [OF assms]
    by (metis List.finite_set card_subset_eq length_map)
  moreover have "acyclic (set ?es) \<longleftrightarrow> set ?ord = set ?names"
    using kahn_complete [OF inv es(1)] dependency_first_acyclic [OF d(3)] es(2) by auto
  ultimately have "acyclic (depends_in rel comps) \<longleftrightarrow> length ?ord = length ?refs" by (simp add: set_dep_edges)
  moreover have "(case ref_by_name ?refs n of None \<Rightarrow> zero_ref | Some ref \<Rightarrow> ref) = the (ref_by_name ?refs n)"
    if "n \<in> set ?ord" for n
    using that d(2) ref_by_name_dom [of ?refs n] by (auto split: option.splits)
  then have "map (\<lambda>n. case ref_by_name ?refs n of None \<Rightarrow> zero_ref | Some ref \<Rightarrow> ref) ?ord =
      map (\<lambda>n. the (ref_by_name ?refs n)) ?ord" by (intro map_cong refl)
  ultimately show thesis using d that [of ?ord] by (simp add: Order_def dg queue_def [symmetric] Let_def)
qed


lemma the_ref_by_name:
  assumes "distinct (map cf_Name refs)" "n \<in> cf_Name ` set refs"
  shows "the (ref_by_name refs n) \<in> set refs \<and> cf_Name (the (ref_by_name refs n)) = n"
  using assms ref_by_name_Some by force

lemma Order_permutes:
  assumes "distinct (map cf_Name (br_Components rel))" and ok: "Order rel comps = Inr ordered"
  shows "mset ordered = mset (br_Components rel) \<and>
    (\<forall>i < length ordered. \<forall>c dep.
       comps (cf_Name (ordered ! i)) = Some c \<and> dep \<in> set (bc_Dependencies c) \<and>
       dep \<in> cf_Name ` set (br_Components rel) \<longrightarrow> dep \<in> cf_Name ` set (take i ordered))"
proof -
  let ?refs = "br_Components rel"
  let ?ref = "\<lambda>n. the (ref_by_name ?refs n)"
  obtain names where n: "distinct names" "set names \<subseteq> cf_Name ` set ?refs"
      "dependency_first (dep_edges ?refs comps) names"
    and len: "length names = length ?refs" and ord: "ordered = map ?ref names"
  proof (rule Order_run [OF assms(1), of comps], goal_cases)
    case (1 names)
    show thesis
      by (rule 1(1) [of names], rule 1(2), rule 1(3), rule 1(4)) (use 1(6) ok in \<open>simp_all split: if_splits\<close>)
  qed
  have r: "?ref x \<in> set ?refs \<and> cf_Name (?ref x) = x" if "x \<in> set names" for x
    using that n(2) the_ref_by_name [OF assms(1)] by blast
  have names: "map cf_Name ordered = names" using r unfolding ord map_map by (intro map_idI) simp
  have dist: "distinct ordered" "distinct ?refs" using n(1) names assms(1) distinct_map by metis+
  moreover have "set ordered \<subseteq> set ?refs" using r ord by auto
  moreover have "length ordered = length ?refs" using len ord by simp
  ultimately have "set ordered = set ?refs"
    by (metis List.finite_set card_subset_eq distinct_card)
  then have perm: "mset ordered = mset ?refs" using dist by (simp add: set_eq_iff_mset_eq_distinct)
  have "dep \<in> cf_Name ` set (take i ordered)"
    if i: "i < length ordered" and dep: "comps (cf_Name (ordered ! i)) = Some c" "dep \<in> set (bc_Dependencies c)"
      "dep \<in> cf_Name ` set ?refs" for i c dep
  proof -
    have "ordered ! i \<in> set ?refs" using i perm by (metis nth_mem set_mset_mset)
    then have "(dep, names ! i) \<in> depends_in rel comps"
      using dep i names by (auto simp: depends_in_def)
    then have "dep \<in> set (take i names)"
      using n(3) i ord by (simp add: dependency_first_def set_dep_edges)
    then show ?thesis by (simp add: names [symmetric] take_map)
  qed
  with perm show ?thesis by blast
qed

text \<open>C26: When \<open>Order\<close> succeeds on a release without repeated names, the result is a permutation of its
  components and every component comes after all of its dependencies that the release has.
\<close>

theorem Order_topological:
  assumes "distinct (map cf_Name (br_Components rel))" and ok: "Order rel comps = Inr ordered"
  shows "mset ordered = mset (br_Components rel) \<and>
    (\<forall>i < length ordered. \<forall>c dep.
       comps (cf_Name (ordered ! i)) = Some c \<and> dep \<in> set (bc_Dependencies c) \<and>
       dep \<in> cf_Name ` set (br_Components rel) \<longrightarrow> dep \<in> cf_Name ` set (take i ordered))"
  by (rule Order_permutes [OF assms])

text \<open>C27: \<open>Order\<close> returns on every release, and on a release without repeated names it reports a
  cycle exactly when the dependencies inside the release have one.
\<close>

theorem Order_cycle_iff:
  assumes "distinct (map cf_Name (br_Components rel))"
  shows "(Order rel comps = Inl (''dependency cycle detected in release '' @ go_quote (br_Name rel)) \<longleftrightarrow>
      (\<exists>n. (n, n) \<in> (depends_in rel comps)\<^sup>+)) \<and>
    ((\<exists>ordered. Order rel comps = Inr ordered) \<longleftrightarrow> \<not> (\<exists>n. (n, n) \<in> (depends_in rel comps)\<^sup>+))"
proof (rule Order_run [OF assms, of comps], goal_cases)
  case (1 names)
  have "acyclic (depends_in rel comps) \<longleftrightarrow> \<not> (\<exists>n. (n, n) \<in> (depends_in rel comps)\<^sup>+)" by (simp add: acyclic_def)
  with 1(4) show ?case unfolding 1(5) by auto
qed

section \<open>Any release\<close>

text \<open>Whatever the names, only components of the release are ordered.\<close>

lemma release_dependents_set: "release_dependents ds deg q = (deg', q') \<Longrightarrow> set q' \<subseteq> set q \<union> set ds"
  by (induction ds arbitrary: deg q) (fastforce simp: Let_def split: if_splits)+

lemma kahn_set: "set (kahn g deg q ordered) \<subseteq> set ordered \<union> set q \<union> targets_of g"
proof (induction g deg q ordered rule: kahn.induct)
  case (2 g deg n q ordered)
  obtain deg' q' where rd: "release_dependents (adjacent g n) deg q = (deg', q')" by fastforce
  from 2 [OF rd [symmetric] refl] release_dependents_set [OF rd] adjacent_targets [of g n]
  show ?case by (auto simp: rd)
qed simp

lemma targets_append_at: "targets_of (append_at k v g) = insert v (targets_of g)"
  by (induction k v g rule: append_at.induct) (auto simp: targets_of_def)

lemma order_graph_targets: "order_graph refs comps = (deg, g) \<Longrightarrow> targets_of g \<subseteq> cf_Name ` set refs"
proof -
  have "targets_of g' = targets_of g \<union> snd ` set es" if "fold add_edge es (deg, g) = (deg', g')" for es deg g deg' g'
    using that
  proof (induction es arbitrary: deg g)
    case (Cons e es)
    obtain d n where e: "e = (d, n)" by fastforce
    have "fold add_edge es (deg(n := deg n + 1), append_at d n g) = (deg', g')"
      using Cons.prems by (simp add: e)
    from Cons.IH [OF this] have "targets_of g' = targets_of (append_at d n g) \<union> snd ` set es" .
    then show ?case by (simp add: e targets_append_at)
  qed simp
  from this [of _ "\<lambda>_. 0" "[]" deg g] show "order_graph refs comps = (deg, g) \<Longrightarrow> targets_of g \<subseteq> cf_Name ` set refs"
    by (auto simp: order_graph_edges targets_of_def [of "[]"] dest: dep_edges_names)
qed

lemma ref_by_name_in: "ref_by_name refs n = Some ref \<Longrightarrow> ref \<in> set refs"
proof -
  have "ref \<in> set rs \<or> m n = Some ref" if "fold (\<lambda>ref m. m(cf_Name ref \<mapsto> ref)) rs m n = Some ref" for rs m
    using that
  proof (induction rs arbitrary: m)
    case (Cons r rs)
    from Cons.IH [of "m(cf_Name r \<mapsto> r)"] Cons.prems show ?case by (auto split: if_splits)
  qed simp
  from this [of refs "\<lambda>_. None"] show "ref_by_name refs n = Some ref \<Longrightarrow> ref \<in> set refs"
    by (simp add: ref_by_name_def)
qed

lemma Order_subset:
  assumes "Order rel comps = Inr ordered"
  shows "set ordered \<subseteq> set (br_Components rel)"
proof
  let ?refs = "br_Components rel"
  obtain deg g where dg: "order_graph ?refs comps = (deg, g)" by fastforce
  let ?names = "kahn g deg (filter (\<lambda>n. deg n = 0) (map cf_Name ?refs)) []"
  fix ref assume "ref \<in> set ordered"
  then obtain n where n: "n \<in> set ?names" "ref = (case ref_by_name ?refs n of None \<Rightarrow> zero_ref | Some ref \<Rightarrow> ref)"
    using assms by (auto simp: Order_def dg Let_def split: if_splits)
  have "n \<in> cf_Name ` set ?refs"
    using n(1) kahn_set [of g deg "filter (\<lambda>n. deg n = 0) (map cf_Name ?refs)" "[]"] order_graph_targets [OF dg] by auto
  then show "ref \<in> set ?refs"
    using n(2) ref_by_name_dom [of ?refs n] ref_by_name_in [of ?refs n] by (cases "ref_by_name ?refs n") auto
qed

section \<open>Repeated names\<close>

definition demo_component :: "string \<Rightarrow> string list \<Rightarrow> BoriComponent" where
  "demo_component n deps = \<lparr>bc_Name = n, bc_Kind = ''data-component'', bc_Version = ''v1.0.0'',
     bc_Image = \<lparr>ir_Ref = ''reg.local/'' @ n @ '':v1''\<rparr>, bc_Ports = \<lparr>po_Metrics = 0, po_Health = 0\<rparr>,
     bc_Health = \<lparr>ep_Path = []\<rparr>, bc_Metrics = \<lparr>ep_Path = []\<rparr>, bc_Dependencies = deps, bc_Contracts = [],
     bc_VerificationPolicies = [],
     bc_Deploy = \<lparr>dc_Namespace = [], dc_Bootstrap = None, dc_Update = None\<rparr>\<rparr>"

definition demo_components :: components where
  "demo_components n =
     map_of (map (\<lambda>c. (bc_Name c, c))
       [demo_component ''a'' [], demo_component ''d'' [], demo_component ''b'' [''a'', ''c''],
        demo_component ''c'' [''d'']]) n"


section \<open>Instances\<close>

definition demo_refs :: "ComponentRef list" where
  "demo_refs = map (\<lambda>n. demo_ref n ''v1'') [''b'', ''c'', ''a'', ''d'']"

lemma demo_refs_distinct: "distinct (map cf_Name (br_Components (demo_release demo_refs)))"
  by code_simp

lemma demo_order: "Order (demo_release demo_refs) demo_components =
    Inr (map (\<lambda>n. demo_ref n ''v1'') [''a'', ''d'', ''c'', ''b''])"
  by code_simp

theorem Order_topological_witness:
  "mset (map (\<lambda>n. demo_ref n ''v1'') [''a'', ''d'', ''c'', ''b'']) = mset demo_refs"
  using Order_topological [OF demo_refs_distinct demo_order] by (simp add: demo_release_def)

theorem Order_cycle_iff_witness:
  "\<not> (\<exists>n. (n, n) \<in> (depends_in (demo_release demo_refs) demo_components)\<^sup>+)"
  using Order_cycle_iff [OF demo_refs_distinct, of demo_components] demo_order by blast

end
