(* ===== verification/Release_Diff.thy ===== *)
theory Release_Diff
  imports Release_Order
begin

text \<open>
  Which components a change affects (pkg/release/diff.go): a breadth-first search from the changed
  names through the reverse dependencies. The search terminates on every input and its result is the
  part of the release that depends, directly or through others, on a changed component, in the order of
  the references given.
\<close>

section \<open>The search\<close>

definition reverse_ref :: "components \<Rightarrow> ComponentRef \<Rightarrow> adjacency \<Rightarrow> adjacency" where
  "reverse_ref comps ref reverseDeps =
     (case comps (cf_Name ref) of
        None \<Rightarrow> reverseDeps
      | Some c \<Rightarrow> fold (\<lambda>dep g. append_at dep (cf_Name ref) g) (bc_Dependencies c) reverseDeps)"

definition reverse_deps :: "ComponentRef list \<Rightarrow> components \<Rightarrow> adjacency" where
  "reverse_deps orderedRefs comps = fold (reverse_ref comps) orderedRefs []"

function bfs :: "adjacency \<Rightarrow> string list \<Rightarrow> string set \<Rightarrow> string set" where
  "bfs reverseDeps [] affected = affected"
| "bfs reverseDeps (name # queue) affected =
     (if name \<in> affected then bfs reverseDeps queue affected
      else let affected' = insert name affected in
           bfs reverseDeps (queue @ filter (\<lambda>n. n \<notin> affected') (adjacent reverseDeps name)) affected')"
  by pat_completeness auto
termination
proof (relation "measures [\<lambda>(g, q, a). card ((set q \<union> targets_of g) - a), \<lambda>(g, q, a). length q]", goal_cases)
  case (2 g n q a)
  have "(set q \<union> targets_of g) - a = (set (n # q) \<union> targets_of g) - a" using 2 by auto
  then show ?case by simp
next
  case (3 g n q a a')
  have "(set (q @ filter (\<lambda>m. m \<notin> a') (adjacent g n)) \<union> targets_of g) - a' \<subset> (set (n # q) \<union> targets_of g) - a"
    using 3 adjacent_targets [of g n] by auto
  then have "card ((set (q @ filter (\<lambda>m. m \<notin> a') (adjacent g n)) \<union> targets_of g) - a')
      < card ((set (n # q) \<union> targets_of g) - a)"
    by (intro psubset_card_mono) auto
  then show ?case by simp
qed simp

definition AffectedComponents :: "string list \<Rightarrow> ComponentRef list \<Rightarrow> components \<Rightarrow> string list" where
  "AffectedComponents changed orderedRefs comps =
     (let affected = bfs (reverse_deps orderedRefs comps) changed {}
      in filter (\<lambda>n. n \<in> affected) (map cf_Name orderedRefs))"

section \<open>Reachability\<close>

text \<open>Who depends on whom, dependency first; the dependency itself need not be in the release.\<close>

definition dependent_on :: "ComponentRef list \<Rightarrow> components \<Rightarrow> (string \<times> string) set" where
  "dependent_on refs comps =
     {(d, n). n \<in> cf_Name ` set refs \<and> (\<exists>c. comps n = Some c \<and> d \<in> set (bc_Dependencies c))}"

definition adjacency_rel :: "adjacency \<Rightarrow> (string \<times> string) set" where
  "adjacency_rel g = {(k, v). v \<in> set (adjacent g k)}"

lemma adjacency_append_at: "adjacency_rel (append_at k v g) = insert (k, v) (adjacency_rel g)"
  by (auto simp: adjacency_rel_def adjacent_append_at split: if_splits)

lemma adjacency_reverse_deps: "adjacency_rel (reverse_deps refs comps) = dependent_on refs comps"
proof -
  have inner: "adjacency_rel (fold (\<lambda>dep g. append_at dep n g) ds g) = adjacency_rel g \<union> {(d, n) |d. d \<in> set ds}"
    for n ds g
    by (induction ds arbitrary: g) (auto simp: adjacency_append_at)
  have "adjacency_rel (fold (reverse_ref comps) refs g) = adjacency_rel g \<union> dependent_on refs comps" for g
    by (induction refs arbitrary: g) (auto simp: reverse_ref_def inner dependent_on_def split: option.splits)
  moreover have "adjacency_rel [] = {}" by (simp add: adjacency_rel_def adjacent_def)
  ultimately show ?thesis by (simp add: reverse_deps_def)
qed

text \<open>What is marked stays closed under dependents, up to the queue.\<close>

lemma bfs_closure:
  assumes "adjacency_rel g `` affected \<subseteq> affected \<union> set queue"
  shows "bfs g queue affected = (adjacency_rel g)\<^sup>* `` (affected \<union> set queue)"
  using assms
proof (induction g queue affected rule: bfs.induct)
  case (1 g affected)
  then show ?case by (auto simp: Image_closed_trancl)
next
  case (2 g n q a)
  show ?case
  proof (cases "n \<in> a")
    case True
    with 2 show ?thesis by (auto simp: insert_absorb)
  next
    case False
    let ?R = "adjacency_rel g"
    let ?a = "insert n a"
    let ?q = "q @ filter (\<lambda>m. m \<notin> ?a) (adjacent g n)"
    have succ: "?R `` {n} = set (adjacent g n)" by (auto simp: adjacency_rel_def)
    have all: "?a \<union> set ?q = a \<union> set (n # q) \<union> ?R `` {n}" by (auto simp: succ)
    have "?R `` ?a = ?R `` {n} \<union> ?R `` a" by auto
    then have "?R `` ?a \<subseteq> ?a \<union> set ?q" using "2.prems" unfolding all by auto
    then have "bfs g ?q ?a = ?R\<^sup>* `` (?a \<union> set ?q)" using 2(2) [OF False refl] by simp
    also have "\<dots> = ?R\<^sup>* `` (a \<union> set (n # q))" unfolding all by (auto intro: converse_rtrancl_into_rtrancl)
    finally show ?thesis using False by (simp add: Let_def)
  qed
qed

text \<open>C28: \<open>AffectedComponents\<close> returns, in the given order, exactly the components of the release that
  are changed or depend on a changed one through any number of dependencies.
\<close>

theorem AffectedComponents_exact:
  "AffectedComponents changed refs comps =
     filter (\<lambda>n. \<exists>c \<in> set changed. (c, n) \<in> (dependent_on refs comps)\<^sup>*) (map cf_Name refs)"
  by (auto simp: AffectedComponents_def Let_def bfs_closure adjacency_reverse_deps intro!: filter_cong)

end
