(* ===== verification/Deploy_Plan.thy ===== *)
theory Deploy_Plan
  imports Release_Diff
begin

text \<open>
  Planning a deployment: image references pinned by digest (pkg/imageref), the plan of a release in an
  environment (pkg/planner, pkg/artifact/plan.go) and the rollout steps derived from it (pkg/rollout).

  The planner reads four kinds of YAML files below the repository root. What reading and decoding them
  gives is a parameter, the record \<open>repository\<close>; a failed load is the error text \<open>Inl\<close>. Parsing an
  image reference is third-party code and a parameter too, the record \<open>image_lib\<close>.
\<close>

section \<open>Image references\<close>

record image_lib =
  il_ParseReference :: "string \<Rightarrow> string + string"
  il_Digest :: "string \<Rightarrow> string \<Rightarrow> string"

text \<open>\<open>il_ParseReference\<close> gives the repository of a reference, \<open>il_Digest\<close> the name of a digest in a
  repository.\<close>

definition DigestQualifiedRef :: "image_lib \<Rightarrow> string \<Rightarrow> string \<Rightarrow> string + string" where
  "DigestQualifiedRef lib imageRef imageDigest =
     (if imageDigest = [] then Inr imageRef
      else if imageRef = [] then Inl ''image.ref is required when imageDigest is set''
      else if \<not> HasPrefix imageDigest ''sha256:''
      then Inl (''imageDigest must start with '' @ go_quote ''sha256:'' @ '': '' @ go_quote imageDigest)
      else case il_ParseReference lib imageRef of
             Inl err \<Rightarrow> Inl (''parse image.ref '' @ go_quote imageRef @ '': '' @ err)
           | Inr repo \<Rightarrow> Inr (il_Digest lib repo imageDigest))"

section \<open>Plans\<close>

record ComponentPlan =
  cp_Name :: string
  cp_Version :: string
  cp_Adapter :: string
  cp_Namespace :: string
  cp_ImageRef :: string
  cp_ImageDigest :: string
  cp_GitSha :: string
  cp_Action :: string
  cp_Message :: string

record Plan =
  pn_SchemaVersion :: string
  pn_RunID :: string
  pn_Release :: string
  pn_Environment :: string
  pn_CreatedAt :: instant
  pn_Components :: "ComponentPlan list"
  pn_Violations :: "string list"

record repository =
  rp_LoadReleaseByName :: "string \<Rightarrow> string + BoriRelease"
  rp_LoadEnvironmentByName :: "string \<Rightarrow> string + BoriEnvironment"
  rp_LoadComponentByName :: "string \<Rightarrow> string + BoriComponent"
  rp_LoadMatrix :: "string \<Rightarrow> string + CompatibilityMatrix"

definition LoadMatrixForRelease :: "repository \<Rightarrow> BoriRelease \<Rightarrow> string + CompatibilityMatrix" where
  "LoadMatrixForRelease repo rel =
     (if cx_Matrix (br_Compatibility rel) = [] then Inr \<lparr>cm_Constraints = []\<rparr>
      else rp_LoadMatrix repo (cx_Matrix (br_Compatibility rel)))"

fun load_refs :: "repository \<Rightarrow> ComponentRef list \<Rightarrow> components \<Rightarrow> string + components" where
  "load_refs repo [] comps = Inr comps"
| "load_refs repo (ref # refs) comps =
     (case rp_LoadComponentByName repo (cf_Name ref) of
        Inl err \<Rightarrow> Inl (''load component '' @ go_quote (cf_Name ref) @ '': '' @ err)
      | Inr c \<Rightarrow> load_refs repo refs (comps(cf_Name ref \<mapsto> c)))"

definition LoadComps :: "repository \<Rightarrow> BoriRelease \<Rightarrow> string + components" where
  "LoadComps repo rel = load_refs repo (br_Components rel) (\<lambda>_. None)"

definition defaultNamespace :: "string \<Rightarrow> string" where
  "defaultNamespace componentName = componentName @ ''-system''"

definition zero_component :: BoriComponent where
  "zero_component = \<lparr>bc_Name = [], bc_Kind = [], bc_Version = [], bc_Image = \<lparr>ir_Ref = []\<rparr>,
     bc_Ports = \<lparr>po_Metrics = 0, po_Health = 0\<rparr>, bc_Health = \<lparr>ep_Path = []\<rparr>, bc_Metrics = \<lparr>ep_Path = []\<rparr>,
     bc_Dependencies = [], bc_Contracts = [], bc_VerificationPolicies = [],
     bc_Deploy = \<lparr>dc_Namespace = [], dc_Bootstrap = None, dc_Update = None\<rparr>\<rparr>"

definition component_of :: "components \<Rightarrow> string \<Rightarrow> BoriComponent" where
  "component_of comps n = (case comps n of None \<Rightarrow> zero_component | Some c \<Rightarrow> c)"

text \<open>The image and the adapter of a component: an image pinned by digest takes the update path, any
  other the bootstrap path.\<close>

definition plan_image :: "image_lib \<Rightarrow> BoriComponent \<Rightarrow> ComponentRef \<Rightarrow> string + string \<times> string" where
  "plan_image lib c ref =
     (if cf_ImageDigest ref \<noteq> [] then
        (case DigestQualifiedRef lib (ir_Ref (bc_Image c)) (cf_ImageDigest ref) of
           Inl err \<Rightarrow> Inl (''component '' @ go_quote (cf_Name ref) @ '': '' @ err)
         | Inr q \<Rightarrow> Inr (q, UpdateAdapter (bc_Deploy c)))
      else Inr (ir_Ref (bc_Image c), BootstrapAdapter (bc_Deploy c)))"

definition component_namespace :: "BoriComponent \<Rightarrow> string" where
  "component_namespace c =
     (if dc_Namespace (bc_Deploy c) = [] then defaultNamespace (bc_Name c) else dc_Namespace (bc_Deploy c))"

definition plan_component :: "image_lib \<Rightarrow> string list \<Rightarrow> components \<Rightarrow> ComponentRef \<Rightarrow> string + ComponentPlan" where
  "plan_component lib allowed comps ref =
     (let c = component_of comps (cf_Name ref); ns = component_namespace c in
      case plan_image lib c ref of
        Inl err \<Rightarrow> Inl err
      | Inr (imageRef, adapterName) \<Rightarrow>
          Inr \<lparr>cp_Name = bc_Name c, cp_Version = cf_Version ref, cp_Adapter = adapterName, cp_Namespace = ns,
               cp_ImageRef = imageRef, cp_ImageDigest = cf_ImageDigest ref, cp_GitSha = cf_GitSha ref,
               cp_Action = (if ns \<in> set allowed then ''deploy'' else ''violation''),
               cp_Message = (if ns \<in> set allowed then []
                             else ''namespace '' @ go_quote ns @ '' not in environment allowed list'')\<rparr>)"

fun plan_refs :: "image_lib \<Rightarrow> string list \<Rightarrow> components \<Rightarrow> ComponentRef list \<Rightarrow> Plan \<Rightarrow> string + Plan" where
  "plan_refs lib allowed comps [] plan = Inr plan"
| "plan_refs lib allowed comps (ref # refs) plan =
     (case plan_component lib allowed comps ref of
        Inl err \<Rightarrow> Inl err
      | Inr cp \<Rightarrow>
          plan_refs lib allowed comps refs
            (plan\<lparr>pn_Violations := pn_Violations plan @
                   (if cp_Action cp = ''violation'' then [cp_Name cp @ '': '' @ cp_Message cp] else []),
                  pn_Components := pn_Components plan @ [cp]\<rparr>))"

text \<open>\<open>Planner.Plan\<close>; the release injected by the operator replaces the one in the repository, and the
  instant is the one \<open>time.Now\<close> returns.\<close>

definition plan_release :: "repository \<Rightarrow> BoriRelease option \<Rightarrow> string \<Rightarrow> string + BoriRelease" where
  "plan_release repo injected releaseName =
     (case injected of
        Some rel \<Rightarrow> Inr rel
      | None \<Rightarrow>
          (case rp_LoadReleaseByName repo releaseName of
             Inl err \<Rightarrow> Inl (''load release '' @ go_quote releaseName @ '': '' @ err)
           | Inr rel \<Rightarrow> Inr rel))"

definition Planner_Plan :: "repository \<Rightarrow> image_lib \<Rightarrow> BoriRelease option \<Rightarrow> instant \<Rightarrow>
    string \<Rightarrow> string \<Rightarrow> string \<Rightarrow> string + Plan" where
  "Planner_Plan repo lib injected now runID releaseName envName =
     (case plan_release repo injected releaseName of
        Inl err \<Rightarrow> Inl err
      | Inr rel \<Rightarrow>
     (case rp_LoadEnvironmentByName repo envName of
        Inl err \<Rightarrow> Inl (''load environment '' @ go_quote envName @ '': '' @ err)
      | Inr env \<Rightarrow>
     (case LoadComps repo rel of
        Inl err \<Rightarrow> Inl err
      | Inr comps \<Rightarrow>
     (case Order rel comps of
        Inl err \<Rightarrow> Inl (''order components: '' @ err)
      | Inr orderedRefs \<Rightarrow>
          (let matrix = (case LoadMatrixForRelease repo rel of Inl _ \<Rightarrow> \<lparr>cm_Constraints = []\<rparr> | Inr m \<Rightarrow> m);
               violations = CheckCompatibility rel matrix
           in plan_refs lib (np_Allowed (be_NamespacePolicy env)) comps orderedRefs
                \<lparr>pn_SchemaVersion = ''bori.plan.v1'', pn_RunID = runID, pn_Release = releaseName,
                 pn_Environment = envName, pn_CreatedAt = now, pn_Components = [],
                 pn_Violations = map (\<lambda>v. ''compat: '' @ Violation_String v) violations\<rparr>)))))"

section \<open>Rollouts\<close>

record RolloutStep =
  rs_Component :: string
  rs_Action :: string
  rs_Adapter :: string
  rs_Namespace :: string
  rs_FromVersion :: string
  rs_ToVersion :: string
  rs_Status :: string
  rs_Message :: string

record BoriRollout =
  ro_SchemaVersion :: string
  ro_RolloutID :: string
  ro_Release :: string
  ro_Environment :: string
  ro_RevisionID :: string
  ro_FromRevision :: string
  ro_CreatedAt :: instant
  ro_Steps :: "RolloutStep list"
  ro_Status :: string

text \<open>\<open>Format("20060102-150405")\<close> in UTC.\<close>

definition compact_stamp :: "instant \<Rightarrow> string" where
  "compact_stamp t =
     (let secs = t div 1000000000; sod = secs mod 86400 in
      case civil (secs div 86400) of (y, m, d) \<Rightarrow>
        pad 4 y @ pad 2 m @ pad 2 d @ ''-'' @
        pad 2 (sod div 3600) @ pad 2 (sod mod 3600 div 60) @ pad 2 (sod mod 60))"

text \<open>\<open>strings.NewReplacer("/", "-", " ", "-")\<close> works byte by byte.\<close>

definition safe_segment :: "string \<Rightarrow> string" where
  "safe_segment s = map (\<lambda>c. if c = CHR ''/'' \<or> c = CHR '' '' then CHR ''-'' else c) s"

definition newRolloutID :: "string \<Rightarrow> string \<Rightarrow> instant \<Rightarrow> string" where
  "newRolloutID rel environment t =
     ''rollout-'' @ safe_segment rel @ ''-'' @ environment @ ''-'' @ compact_stamp t"

definition rollout_steps :: "ComponentPlan \<Rightarrow> RolloutStep list" where
  "rollout_steps cp =
     (let action = (if cp_Action cp = ''violation'' then ''skip'' else ''deploy'');
          status = (if cp_Action cp = ''violation'' then ''skipped'' else ''pending'') in
      \<lparr>rs_Component = cp_Name cp, rs_Action = action, rs_Adapter = cp_Adapter cp, rs_Namespace = cp_Namespace cp,
       rs_FromVersion = [], rs_ToVersion = cp_Version cp, rs_Status = status, rs_Message = []\<rparr> #
      (if action = ''deploy''
       then [\<lparr>rs_Component = cp_Name cp, rs_Action = ''verify'', rs_Adapter = [], rs_Namespace = [],
              rs_FromVersion = [], rs_ToVersion = cp_Version cp, rs_Status = ''pending'', rs_Message = []\<rparr>]
       else []))"

definition rollout_BuildFromPlan :: "instant \<Rightarrow> Plan \<Rightarrow> string \<Rightarrow> BoriRollout" where
  "rollout_BuildFromPlan now plan revisionID =
     \<lparr>ro_SchemaVersion = ''bori.rollout.v1'',
      ro_RolloutID = newRolloutID (pn_Release plan) (pn_Environment plan) now,
      ro_Release = pn_Release plan, ro_Environment = pn_Environment plan, ro_RevisionID = revisionID,
      ro_FromRevision = [], ro_CreatedAt = now,
      ro_Steps = concat (map rollout_steps (pn_Components plan)), ro_Status = ''planned''\<rparr>"



section \<open>What a plan contains\<close>

lemma load_refs_loaded:
  "load_refs repo refs comps0 = Inr comps \<Longrightarrow> n \<in> cf_Name ` set refs \<Longrightarrow>
     \<exists>c. rp_LoadComponentByName repo n = Inr c \<and> comps n = Some c"
  "load_refs repo refs comps0 = Inr comps \<Longrightarrow> n \<notin> cf_Name ` set refs \<Longrightarrow> comps n = comps0 n"
proof -
  have "(n \<in> cf_Name ` set refs \<longrightarrow> (\<exists>c. rp_LoadComponentByName repo n = Inr c \<and> comps n = Some c)) \<and>
      (n \<notin> cf_Name ` set refs \<longrightarrow> comps n = comps0 n)"
    if "load_refs repo refs comps0 = Inr comps"
    using that
  proof (induction refs arbitrary: comps0)
    case (Cons ref refs)
    then obtain c where c: "rp_LoadComponentByName repo (cf_Name ref) = Inr c"
      "load_refs repo refs (comps0(cf_Name ref \<mapsto> c)) = Inr comps" by (auto split: sum.splits)
    show ?case using Cons.IH [OF c(2)] c(1) by (cases "n \<in> cf_Name ` set refs") auto
  qed simp
  then show "load_refs repo refs comps0 = Inr comps \<Longrightarrow> n \<in> cf_Name ` set refs \<Longrightarrow>
     \<exists>c. rp_LoadComponentByName repo n = Inr c \<and> comps n = Some c"
    "load_refs repo refs comps0 = Inr comps \<Longrightarrow> n \<notin> cf_Name ` set refs \<Longrightarrow> comps n = comps0 n" by blast+
qed

lemma LoadComps_loaded:
  assumes "LoadComps repo rel = Inr comps"
  shows "comps n = Some c \<longleftrightarrow> n \<in> cf_Name ` set (br_Components rel) \<and> rp_LoadComponentByName repo n = Inr c"
  using load_refs_loaded [OF assms [unfolded LoadComps_def], of n] by (cases "n \<in> cf_Name ` set (br_Components rel)") auto

lemma plan_component_facts:
  assumes "plan_component lib allowed comps ref = Inr cp"
  shows "cp_Name cp = bc_Name (component_of comps (cf_Name ref))"
    "cp_Namespace cp = component_namespace (component_of comps (cf_Name ref))"
    "cp_Version cp = cf_Version ref" "cp_ImageDigest cp = cf_ImageDigest ref" "cp_GitSha cp = cf_GitSha ref"
    "cp_Action cp = (if cp_Namespace cp \<in> set allowed then ''deploy'' else ''violation'')"
    "cf_ImageDigest ref \<noteq> [] \<Longrightarrow>
       \<exists>r. il_ParseReference lib (ir_Ref (bc_Image (component_of comps (cf_Name ref)))) = Inr r \<and>
           cp_ImageRef cp = il_Digest lib r (cf_ImageDigest ref) \<and> HasPrefix (cf_ImageDigest ref) ''sha256:''"
  using assms
  by (auto simp: plan_component_def plan_image_def DigestQualifiedRef_def Let_def split: sum.splits if_splits)

definition violation_texts :: "ComponentPlan list \<Rightarrow> string list" where
  "violation_texts cps =
     map (\<lambda>cp. cp_Name cp @ '': '' @ cp_Message cp) (filter (\<lambda>cp. cp_Action cp = ''violation'') cps)"

lemma plan_refs_Inr:
  assumes "plan_refs lib allowed comps refs plan = Inr plan'"
  shows "\<exists>cps. list_all2 (\<lambda>ref cp. plan_component lib allowed comps ref = Inr cp) refs cps \<and>
    plan' = plan\<lparr>pn_Components := pn_Components plan @ cps, pn_Violations := pn_Violations plan @ violation_texts cps\<rparr>"
  using assms
proof (induction refs arbitrary: plan)
  case (Cons ref refs)
  then obtain cp where cp: "plan_component lib allowed comps ref = Inr cp" by (auto split: sum.splits)
  let ?plan = "plan\<lparr>pn_Violations := pn_Violations plan @
      (if cp_Action cp = ''violation'' then [cp_Name cp @ '': '' @ cp_Message cp] else []),
      pn_Components := pn_Components plan @ [cp]\<rparr>"
  have "plan_refs lib allowed comps refs ?plan = Inr plan'" using Cons.prems cp by simp
  from Cons.IH [OF this] obtain cps where
    cps: "list_all2 (\<lambda>ref cp. plan_component lib allowed comps ref = Inr cp) refs cps"
      "plan' = ?plan\<lparr>pn_Components := pn_Components ?plan @ cps, pn_Violations := pn_Violations ?plan @ violation_texts cps\<rparr>"
    by blast
  show ?case
    by (rule exI [of _ "cp # cps"]) (use cp cps in \<open>simp add: violation_texts_def\<close>)
qed (auto simp: violation_texts_def)

text \<open>Everything a successful plan rests on.\<close>

definition planned :: "repository \<Rightarrow> image_lib \<Rightarrow> BoriRelease \<Rightarrow> BoriEnvironment \<Rightarrow> components \<Rightarrow>
    ComponentRef list \<Rightarrow> Plan \<Rightarrow> bool" where
  "planned repo lib rel env comps ordered plan \<longleftrightarrow>
     LoadComps repo rel = Inr comps \<and> Order rel comps = Inr ordered \<and>
     list_all2 (\<lambda>ref cp. plan_component lib (np_Allowed (be_NamespacePolicy env)) comps ref = Inr cp)
       ordered (pn_Components plan)"

definition plan_matrix :: "repository \<Rightarrow> BoriRelease \<Rightarrow> CompatibilityMatrix" where
  "plan_matrix repo rel = (case LoadMatrixForRelease repo rel of Inl _ \<Rightarrow> \<lparr>cm_Constraints = []\<rparr> | Inr m \<Rightarrow> m)"

lemma Planner_Plan_Inr:
  assumes "Planner_Plan repo lib injected now runID releaseName envName = Inr plan"
  obtains rel env comps ordered where
    "plan_release repo injected releaseName = Inr rel" "rp_LoadEnvironmentByName repo envName = Inr env"
    "planned repo lib rel env comps ordered plan"
    "pn_Release plan = releaseName" "pn_Environment plan = envName"
    "pn_Violations plan = map (\<lambda>v. ''compat: '' @ Violation_String v) (CheckCompatibility rel (plan_matrix repo rel)) @
       violation_texts (pn_Components plan)"
proof -
  from assms obtain rel env comps ordered where
    r: "plan_release repo injected releaseName = Inr rel" "rp_LoadEnvironmentByName repo envName = Inr env"
      "LoadComps repo rel = Inr comps" "Order rel comps = Inr ordered"
    and p: "plan_refs lib (np_Allowed (be_NamespacePolicy env)) comps ordered
      \<lparr>pn_SchemaVersion = ''bori.plan.v1'', pn_RunID = runID, pn_Release = releaseName,
       pn_Environment = envName, pn_CreatedAt = now, pn_Components = [],
       pn_Violations = map (\<lambda>v. ''compat: '' @ Violation_String v) (CheckCompatibility rel (plan_matrix repo rel))\<rparr> = Inr plan"
    unfolding Planner_Plan_def plan_matrix_def Let_def by (auto split: sum.splits)
  from plan_refs_Inr [OF p] r show thesis
    by (intro that [OF r(1,2)]) (auto simp: planned_def)
qed


lemma planned_facts:
  assumes "planned repo lib rel env comps ordered plan" "i < length (pn_Components plan)"
  shows "length ordered = length (pn_Components plan)" "i < length ordered"
    "plan_component lib (np_Allowed (be_NamespacePolicy env)) comps (ordered ! i) = Inr (pn_Components plan ! i)"
  using assms by (auto simp: planned_def list_all2_conv_all_nth)

text \<open>A repository whose component files carry the name they are filed under.\<close>

definition well_named :: "repository \<Rightarrow> bool" where
  "well_named repo \<longleftrightarrow> (\<forall>n c. rp_LoadComponentByName repo n = Inr c \<longrightarrow> bc_Name c = n)"

lemma planned_names:
  assumes "planned repo lib rel env comps ordered plan" "well_named repo"
    and ord: "set ordered \<subseteq> set (br_Components rel)"
  shows "map cp_Name (pn_Components plan) = map cf_Name ordered"
proof (rule nth_equalityI)
  show "length (map cp_Name (pn_Components plan)) = length (map cf_Name ordered)"
    using assms(1) by (auto simp: planned_def list_all2_lengthD)
  fix i assume i: "i < length (map cp_Name (pn_Components plan))"
  note pc = planned_facts [OF assms(1), of i]
  have "ordered ! i \<in> set (br_Components rel)" using i pc(2) ord by (auto simp: subset_iff)
  then obtain c where "rp_LoadComponentByName repo (cf_Name (ordered ! i)) = Inr c" "comps (cf_Name (ordered ! i)) = Some c"
    using assms(1) load_refs_loaded(1) unfolding planned_def LoadComps_def by blast
  then show "map cp_Name (pn_Components plan) ! i = map cf_Name ordered ! i"
    using i pc plan_component_facts(1) [OF pc(3)] assms(2) by (simp add: component_of_def well_named_def)
qed



section \<open>Instances\<close>

definition demo_environment :: "string list \<Rightarrow> BoriEnvironment" where
  "demo_environment allowed = \<lparr>be_Name = ''dev'', be_Cluster = \<lparr>cl_Kubeconfig = [], cl_Context = []\<rparr>,
     be_NamespacePolicy = \<lparr>np_Allowed = allowed, np_AllowClusterScopedResources = False\<rparr>,
     be_Registry = \<lparr>rg_Default = []\<rparr>, be_Secrets = \<lparr>sx_Mode = ''reference-only'', sx_Redaction = ''strict''\<rparr>,
     be_NetworkIntegration = \<lparr>ni_Type = ''none'', ni_Checks = []\<rparr>\<rparr>"

definition demo_repository :: "string list \<Rightarrow> repository" where
  "demo_repository allowed =
     \<lparr>rp_LoadReleaseByName = (\<lambda>n. if n = ''demo'' then Inr (demo_release demo_refs) else Inl ''not found''),
      rp_LoadEnvironmentByName = (\<lambda>n. Inr (demo_environment allowed)),
      rp_LoadComponentByName = (\<lambda>n. case demo_components n of None \<Rightarrow> Inl ''not found'' | Some c \<Rightarrow> Inr c),
      rp_LoadMatrix = (\<lambda>_. Inl ''not found'')\<rparr>"

text \<open>The repository of a reference is what stands before its tag.\<close>

definition demo_lib :: image_lib where
  "demo_lib = \<lparr>il_ParseReference = (\<lambda>s. Inr (takeWhile (\<lambda>c. c \<noteq> CHR '':'') s)), il_Digest = (\<lambda>r d. r @ ''@'' @ d)\<rparr>"

lemma demo_well_named: "well_named (demo_repository allowed)"
  by (auto simp: well_named_def demo_repository_def demo_components_def demo_component_def split: option.splits if_splits)

definition demo_planned :: "string list \<Rightarrow> string + Plan" where
  "demo_planned allowed = Planner_Plan (demo_repository allowed) demo_lib None 5 ''run'' ''demo'' ''dev''"

definition demo_allowed :: "string list" where
  "demo_allowed = [''a-system'', ''b-system'', ''c-system'']"

lemma demo_planned_ok: "\<exists>plan. demo_planned demo_allowed = Inr plan \<and>
    map cp_Namespace (pn_Components plan) = [''a-system'', ''d-system'', ''c-system'', ''b-system'']"
proof -
  have "map_sum id (\<lambda>p. map cp_Namespace (pn_Components p)) (demo_planned demo_allowed) =
      Inr [''a-system'', ''d-system'', ''c-system'', ''b-system'']" by code_simp
  then show ?thesis by (cases "demo_planned demo_allowed") auto
qed


end
