(* ===== verification/Deploy_Revision.thy ===== *)
theory Deploy_Revision
  imports Deploy_Plan "HOL-Library.AList"
begin

text \<open>
  Revisions (pkg/revision): the snapshot built from a plan, its content hash, promotion and failure,
  and the directory the revisions are kept in.

  SHA-256 in hexadecimal is a parameter \<open>sha\<close>: nothing proved depends on which function it is. Reading a
  file that is hashed is the parameter \<open>rd\<close>, from the segments given to \<open>filepath.Join\<close> to the contents.
  The directory of revisions is explicit state: a file holds the revision it was written with, or something
  that does not decode. The laws its clients rely on are the locale \<open>revision_store\<close>.
\<close>

section \<open>The data\<close>

record NetworkCheckResult =
  nc_Check :: string
  nc_Result :: string
  nc_Message :: string

record NetworkVerificationResult =
  nv_Type :: string
  nv_Overall :: string
  nv_Checks :: "NetworkCheckResult list"

record CompRevision =
  cr_Name :: string
  cr_Version :: string
  cr_ImageRef :: string
  cr_ImageDigest :: string
  cr_GitSha :: string
  cr_ComponentSpecDigest :: string
  cr_EnvironmentDigest :: string
  cr_VerificationPolicyDigest :: string
  cr_BaselineRef :: string

record BoriRevision =
  bv_SchemaVersion :: string
  bv_RevisionID :: string
  bv_Release :: string
  bv_Environment :: string
  bv_ParentRevisionID :: string
  bv_CreatedAt :: instant
  bv_Components :: "CompRevision list"
  bv_ContentHash :: string
  bv_VerificationRunID :: string
  bv_PromotionStatus :: string
  bv_PromotedAt :: "instant option"
  bv_BaselineRef :: string
  bv_FailReason :: string
  bv_NetworkVerification :: "NetworkVerificationResult option"

type_synonym path = "string list"

section \<open>Building a revision\<close>

definition NewRevisionID :: "(string \<Rightarrow> string) \<Rightarrow> string \<Rightarrow> string \<Rightarrow> instant \<Rightarrow> string" where
  "NewRevisionID sha rel environment t =
     (let ts = compact_stamp t; short = take 6 (sha (rel @ ''|'' @ environment @ ''|'' @ ts))
      in safe_segment rel @ ''-'' @ ts @ ''-'' @ short)"

definition content_line :: "CompRevision \<Rightarrow> string" where
  "content_line c =
     cr_Name c @ ''|'' @ cr_ImageRef c @ ''|'' @ cr_ImageDigest c @ ''|'' @ cr_ComponentSpecDigest c @ ''|'' @
     cr_EnvironmentDigest c @ ''|'' @ cr_VerificationPolicyDigest c @ ''|'' @ cr_BaselineRef c @ [char_of (10::nat)]"

definition by_name :: "CompRevision \<Rightarrow> CompRevision \<Rightarrow> bool" where
  "by_name a b \<longleftrightarrow> cr_Name a < cr_Name b"

definition ComputeContentHash :: "(string \<Rightarrow> string) \<Rightarrow> CompRevision list \<Rightarrow> string" where
  "ComputeContentHash sha comps = take 16 (sha (concat (map content_line (sort_slice by_name comps))))"

definition fileDigest :: "(string \<Rightarrow> string) \<Rightarrow> (path \<Rightarrow> string option) \<Rightarrow> path \<Rightarrow> string" where
  "fileDigest sha rd p = (case rd p of None \<Rightarrow> [] | Some contents \<Rightarrow> sha contents)"

definition comp_revision :: "(string \<Rightarrow> string) \<Rightarrow> (path \<Rightarrow> string option) \<Rightarrow> string \<Rightarrow> string \<Rightarrow>
    ComponentPlan \<Rightarrow> CompRevision" where
  "comp_revision sha rd boriRoot envDigest cp =
     \<lparr>cr_Name = cp_Name cp, cr_Version = cp_Version cp, cr_ImageRef = cp_ImageRef cp,
      cr_ImageDigest = cp_ImageDigest cp, cr_GitSha = cp_GitSha cp,
      cr_ComponentSpecDigest = fileDigest sha rd [boriRoot, ''components'', cp_Name cp, ''component.yaml''],
      cr_EnvironmentDigest = envDigest, cr_VerificationPolicyDigest = [], cr_BaselineRef = []\<rparr>"

definition revision_BuildFromPlan :: "(string \<Rightarrow> string) \<Rightarrow> (path \<Rightarrow> string option) \<Rightarrow> instant \<Rightarrow>
    Plan \<Rightarrow> string \<Rightarrow> BoriRevision" where
  "revision_BuildFromPlan sha rd now plan boriRoot =
     (let envDigest = fileDigest sha rd [boriRoot, ''environments'', pn_Environment plan, ''environment.yaml''];
          comps = map (comp_revision sha rd boriRoot envDigest)
                    (filter (\<lambda>cp. cp_Action cp \<noteq> ''violation'') (pn_Components plan))
      in \<lparr>bv_SchemaVersion = ''bori.revision.v1'',
          bv_RevisionID = NewRevisionID sha (pn_Release plan) (pn_Environment plan) now,
          bv_Release = pn_Release plan, bv_Environment = pn_Environment plan, bv_ParentRevisionID = [],
          bv_CreatedAt = now, bv_Components = comps, bv_ContentHash = ComputeContentHash sha comps,
          bv_VerificationRunID = [], bv_PromotionStatus = ''pending'', bv_PromotedAt = None,
          bv_BaselineRef = [], bv_FailReason = [], bv_NetworkVerification = None\<rparr>)"

text \<open>The policy file is looked for in the registry first, then in the application's directory.
  \<open>os.Stat\<close> reports that the file does not exist where \<open>rd\<close> gives nothing.\<close>

definition policy_digest :: "(string \<Rightarrow> string) \<Rightarrow> (path \<Rightarrow> string option) \<Rightarrow> string \<Rightarrow> string \<Rightarrow> string \<Rightarrow>
    components \<Rightarrow> CompRevision \<Rightarrow> CompRevision" where
  "policy_digest sha rd boriRoot appsDir profile comps cr =
     (case comps (cr_Name cr) of
        None \<Rightarrow> cr
      | Some c \<Rightarrow>
          (case bc_VerificationPolicies c of
             [] \<Rightarrow> cr
           | pol # _ \<Rightarrow>
               (let registry = [boriRoot, ''verification'', ''policies'', pol @ ''.yaml''];
                    polPath = (if rd registry = None
                               then [appsDir, cr_Name cr, ''.bori'', ''policy.'' @ profile @ ''.yaml'']
                               else registry)
                in cr\<lparr>cr_VerificationPolicyDigest := fileDigest sha rd polPath\<rparr>)))"

definition AddVerificationPolicyDigests :: "(string \<Rightarrow> string) \<Rightarrow> (path \<Rightarrow> string option) \<Rightarrow> string \<Rightarrow> string \<Rightarrow>
    string \<Rightarrow> components \<Rightarrow> BoriRevision \<Rightarrow> BoriRevision" where
  "AddVerificationPolicyDigests sha rd boriRoot appsDir profile comps rv =
     (let crs = map (policy_digest sha rd boriRoot appsDir profile comps) (bv_Components rv)
      in rv\<lparr>bv_Components := crs, bv_ContentHash := ComputeContentHash sha crs\<rparr>)"

definition revision_Fail :: "string \<Rightarrow> BoriRevision \<Rightarrow> BoriRevision" where
  "revision_Fail reason rv = rv\<lparr>bv_PromotionStatus := ''failed'', bv_FailReason := reason\<rparr>"

definition Promote :: "(string \<Rightarrow> string) \<Rightarrow> instant \<Rightarrow> string \<Rightarrow> BoriRevision \<Rightarrow> BoriRevision" where
  "Promote sha now baselineRef rv =
     rv\<lparr>bv_PromotionStatus := ''promoted'', bv_PromotedAt := Some now, bv_BaselineRef := baselineRef,
         bv_ContentHash := ComputeContentHash sha (bv_Components rv)\<rparr>"

section \<open>The directory of revisions\<close>

datatype dir_entry = Subdirectory | Undecodable | RevisionFile BoriRevision

text \<open>\<open>None\<close> is the directory that does not exist.\<close>

type_synonym revision_dir = "(string \<times> dir_entry) list option"

definition HasSuffix :: "string \<Rightarrow> string \<Rightarrow> bool" where
  "HasSuffix s x \<longleftrightarrow> length x \<le> length s \<and> drop (length s - length x) s = x"

definition TrimSuffix :: "string \<Rightarrow> string \<Rightarrow> string" where
  "TrimSuffix s x = (if HasSuffix s x then take (length s - length x) s else s)"

definition dir_entries :: "revision_dir \<Rightarrow> (string \<times> dir_entry) list" where
  "dir_entries d = (case d of None \<Rightarrow> [] | Some es \<Rightarrow> es)"

definition revision_Write :: "revision_dir \<Rightarrow> BoriRevision \<Rightarrow> string + revision_dir" where
  "revision_Write d rv =
     (let file = bv_RevisionID rv @ ''.json'' in
      if map_of (dir_entries d) file = Some Subdirectory then Inl (''create '' @ file @ '': is a directory'')
      else Inr (Some (AList.update file (RevisionFile rv) (dir_entries d))))"

definition revision_Read :: "revision_dir \<Rightarrow> string \<Rightarrow> string + BoriRevision" where
  "revision_Read d revisionID =
     (case map_of (dir_entries d) (revisionID @ ''.json'') of
        Some (RevisionFile rv) \<Rightarrow> Inr rv
      | Some Undecodable \<Rightarrow> Inl (''parse: '' @ revisionID)
      | _ \<Rightarrow> Inl (''read '' @ revisionID @ ''.json''))"

definition read_entry :: "revision_dir \<Rightarrow> string \<times> dir_entry \<Rightarrow> BoriRevision list" where
  "read_entry d e =
     (if snd e = Subdirectory \<or> \<not> HasSuffix (fst e) ''.json'' then []
      else case revision_Read d (TrimSuffix (fst e) ''.json'') of Inl _ \<Rightarrow> [] | Inr rv \<Rightarrow> [rv])"

definition newer :: "BoriRevision \<Rightarrow> BoriRevision \<Rightarrow> bool" where
  "newer a b \<longleftrightarrow> bv_CreatedAt a > bv_CreatedAt b"

text \<open>\<open>os.ReadDir\<close> lists the entries by file name.\<close>

definition revision_List :: "revision_dir \<Rightarrow> BoriRevision list" where
  "revision_List d =
     sort_slice newer
       (concat (map (read_entry d) (sort_slice (\<lambda>a b. fst a < fst b) (dir_entries d))))"

section \<open>The store as an interface\<close>

locale revision_store =
  fixes wr :: "'s \<Rightarrow> BoriRevision \<Rightarrow> string + 's"
    and rd :: "'s \<Rightarrow> string \<Rightarrow> string + BoriRevision"
    and ls :: "'s \<Rightarrow> BoriRevision list"
  assumes read_written: "wr s rv = Inr s' \<Longrightarrow> rd s' (bv_RevisionID rv) = Inr rv"
    and read_others: "wr s rv = Inr s' \<Longrightarrow> i \<noteq> bv_RevisionID rv \<Longrightarrow> rd s' i = rd s i"
    and rewritable: "rd s (bv_RevisionID rv) = Inr old \<Longrightarrow> \<exists>s'. wr s rv = Inr s'"
    and listed: "set (ls s) = {rv. \<exists>i. rd s i = Inr rv}"
    and newest_first: "sorted_wrt (\<lambda>a b. bv_CreatedAt b \<le> bv_CreatedAt a) (ls s)"
begin

definition older_than :: "'s \<Rightarrow> BoriRevision \<Rightarrow> bool" where
  "older_than s rv \<longleftrightarrow>
     (\<forall>i r. i \<noteq> bv_RevisionID rv \<longrightarrow> rd s i = Inr r \<longrightarrow> bv_CreatedAt r < bv_CreatedAt rv)"

lemma older_than_write:
  assumes "older_than s rv" "wr s rv' = Inr s'" "bv_RevisionID rv' = bv_RevisionID rv"
  shows "older_than s' rv"
  using assms read_others by (auto simp: older_than_def)

lemma listed_after_write:
  assumes "older_than s rv" "wr s rv = Inr s'"
  shows "\<exists>rest. ls s' = rv # rest"
proof -
  have mem: "rv \<in> set (ls s')" using read_written [OF assms(2)] listed by blast
  then obtain r rest where ls: "ls s' = r # rest" by (cases "ls s'") auto
  have "bv_CreatedAt rv \<le> bv_CreatedAt r" using mem newest_first [of s'] unfolding ls by auto
  moreover obtain i where "rd s' i = Inr r" using listed [of s'] ls by auto
  ultimately have "i = bv_RevisionID rv"
    using older_than_write [OF assms refl] by (fastforce simp: older_than_def)
  then have "r = rv" using \<open>rd s' i = Inr r\<close> read_written [OF assms(2)] by simp
  with ls show ?thesis by blast
qed

lemma found_after_write:
  assumes "older_than s rv" "wr s rv = Inr s'" "p rv"
  shows "List.find p (ls s') = Some rv"
  using listed_after_write [OF assms(1,2)] assms(3) by auto

end

lemma TrimSuffix_append [simp]: "TrimSuffix (s @ x) x = s"
  by (simp add: TrimSuffix_def HasSuffix_def)

lemma HasSuffix_append [simp]: "HasSuffix (s @ x) x"
  by (simp add: HasSuffix_def)

lemma HasSuffixE: "HasSuffix s x \<Longrightarrow> \<exists>t. s = t @ x"
  by (metis HasSuffix_def append_take_drop_id)

lemma set_read_entries:
  "set (concat (map (read_entry d) (dir_entries d))) = {rv. \<exists>i. revision_Read d i = Inr rv}" (is "?L = ?R")
proof
  show "?L \<subseteq> ?R" by (auto simp: read_entry_def split: if_splits sum.splits)
  show "?R \<subseteq> ?L"
  proof
    fix rv assume "rv \<in> ?R"
    then obtain i where i: "revision_Read d i = Inr rv" by blast
    then have "map_of (dir_entries d) (i @ ''.json'') = Some (RevisionFile rv)"
      by (auto simp: revision_Read_def split: option.splits dir_entry.splits)
    then have "(i @ ''.json'', RevisionFile rv) \<in> set (dir_entries d)" by (rule map_of_SomeD)
    moreover have "rv \<in> set (read_entry d (i @ ''.json'', RevisionFile rv))"
      using i by (simp add: read_entry_def)
    ultimately show "rv \<in> ?L" by (auto intro!: bexI)
  qed
qed

interpretation newer_order: weak_less newer
  by (rule weak_less_by_key [where key = "\<lambda>r. - bv_CreatedAt r"]) (simp add: newer_def)

interpretation revisions: revision_store revision_Write revision_Read revision_List
proof
  fix s s' :: revision_dir and rv :: BoriRevision and i
  assume wr: "revision_Write s rv = Inr s'"
  then have s': "s' = Some (AList.update (bv_RevisionID rv @ ''.json'') (RevisionFile rv) (dir_entries s))"
    by (auto simp: revision_Write_def Let_def split: if_splits)
  show "revision_Read s' (bv_RevisionID rv) = Inr rv"
    by (simp add: s' revision_Read_def dir_entries_def update_conv)
  show "revision_Read s' i = revision_Read s i" if "i \<noteq> bv_RevisionID rv"
    using that by (simp add: s' revision_Read_def dir_entries_def update_conv)
next
  fix s :: revision_dir and rv old :: BoriRevision
  assume "revision_Read s (bv_RevisionID rv) = Inr old"
  then show "\<exists>s'. revision_Write s rv = Inr s'"
    by (auto simp: revision_Read_def revision_Write_def Let_def split: option.splits dir_entry.splits)
next
  fix s :: revision_dir
  show "set (revision_List s) = {rv. \<exists>i. revision_Read s i = Inr rv}"
    using set_read_entries [of s] by (simp add: revision_List_def)
  show "sorted_wrt (\<lambda>a b. bv_CreatedAt b \<le> bv_CreatedAt a) (revision_List s)"
    using newer_order.sorted_sort_slice unfolding revision_List_def newer_def not_less .
qed


section \<open>What a revision keeps\<close>

text \<open>The life of a revision: built from a plan, completed with policy digests, then failed or
  promoted.\<close>

inductive revision_life :: "(string \<Rightarrow> string) \<Rightarrow> (path \<Rightarrow> string option) \<Rightarrow> Plan \<Rightarrow> BoriRevision \<Rightarrow> bool"
  for sha rd plan where
  built: "revision_life sha rd plan (revision_BuildFromPlan sha rd now plan boriRoot)"
| policies: "revision_life sha rd plan rv \<Longrightarrow>
    revision_life sha rd plan (AddVerificationPolicyDigests sha rd boriRoot appsDir profile comps rv)"
| failed: "revision_life sha rd plan rv \<Longrightarrow> revision_life sha rd plan (revision_Fail reason rv)"
| promoted: "revision_life sha rd plan rv \<Longrightarrow> revision_life sha rd plan (Promote sha now baselineRef rv)"

text \<open>What identifies a deployed component.\<close>

definition identity_of :: "CompRevision \<Rightarrow> string \<times> string \<times> string \<times> string \<times> string" where
  "identity_of c = (cr_Name c, cr_Version c, cr_ImageRef c, cr_ImageDigest c, cr_GitSha c)"

definition planned_identity :: "ComponentPlan \<Rightarrow> string \<times> string \<times> string \<times> string \<times> string" where
  "planned_identity c = (cp_Name c, cp_Version c, cp_ImageRef c, cp_ImageDigest c, cp_GitSha c)"

lemma identity_policy_digest [simp]:
  "identity_of (policy_digest sha rd boriRoot appsDir profile comps c) = identity_of c"
  by (simp add: policy_digest_def identity_of_def Let_def split: option.splits list.splits)

lemma identity_comp_revision [simp]: "identity_of (comp_revision sha rd root e cp) = planned_identity cp"
  by (simp add: comp_revision_def identity_of_def planned_identity_def)

lemmas revision_ops =
  revision_BuildFromPlan_def AddVerificationPolicyDigests_def revision_Fail_def Promote_def

text \<open>However a revision is completed, failed or promoted, its content hash is the hash of its
  components, it records exactly the components of the plan that are not violations, and a
  promoted one has its promotion time.\<close>

theorem revision_lifecycle:
  assumes "revision_life sha rd plan rv"
  shows "bv_ContentHash rv = ComputeContentHash sha (bv_Components rv) \<and>
    map identity_of (bv_Components rv) =
      map planned_identity (filter (\<lambda>cp. cp_Action cp \<noteq> ''violation'') (pn_Components plan)) \<and>
    bv_Release rv = pn_Release plan \<and> bv_Environment rv = pn_Environment plan \<and>
    (bv_PromotionStatus rv = ''promoted'' \<longrightarrow> bv_PromotedAt rv \<noteq> None)"
  using assms by induction (simp_all add: revision_ops Let_def o_def)

section \<open>The content hash\<close>

lemma content_hash_perm:
  assumes "distinct (map cr_Name xs)" "mset xs = mset ys"
  shows "ComputeContentHash sha xs = ComputeContentHash sha ys"
  unfolding ComputeContentHash_def
  by (subst sort_slice_distinct_keys [where key = cr_Name, OF _ assms]) (simp_all add: by_name_def)

text \<open>What is hashed of a component, and texts that do not contain the separators.\<close>

definition hashed_fields :: "CompRevision \<Rightarrow> string list" where
  "hashed_fields c =
     [cr_Name c, cr_ImageRef c, cr_ImageDigest c, cr_ComponentSpecDigest c, cr_EnvironmentDigest c,
      cr_VerificationPolicyDigest c, cr_BaselineRef c]"

definition separator_free :: "string \<Rightarrow> bool" where
  "separator_free s \<longleftrightarrow> CHR ''|'' \<notin> set s \<and> char_of (10::nat) \<notin> set s"

fun join_fields :: "string list \<Rightarrow> string" where
  "join_fields [] = []"
| "join_fields [s] = s @ [char_of (10::nat)]"
| "join_fields (s # t # ss) = s @ CHR ''|'' # join_fields (t # ss)"

lemma content_line_fields: "content_line c = join_fields (hashed_fields c)"
  by (simp add: content_line_def hashed_fields_def)

lemma split_first_unique:
  assumes "s @ c # t = s' @ c' # t'" "separator_free s" "separator_free s'"
    "c \<in> {CHR ''|'', char_of (10::nat)}" "c' \<in> {CHR ''|'', char_of (10::nat)}"
  shows "s = s' \<and> c = c' \<and> t = t'"
  using assms
proof (induction s arbitrary: s')
  case (Cons a s)
  then show ?case by (cases s') (auto simp: separator_free_def)
qed (auto simp: separator_free_def Cons_eq_append_conv)

lemma join_fields_inj:
  assumes "join_fields xs @ r = join_fields ys @ r'" "length xs = length ys" "xs \<noteq> []"
    "list_all separator_free xs" "list_all separator_free ys"
  shows "xs = ys \<and> r = r'"
  using assms
proof (induction xs arbitrary: ys rule: join_fields.induct)
  case (2 s)
  then obtain s' where ys: "ys = [s']" by (cases ys) auto
  then show ?case using 2 split_first_unique [of s _ r s' _ r'] by auto
next
  case (3 s t ss)
  then obtain s' t' ss' where ys: "ys = s' # t' # ss'"
    by (cases ys; cases "tl ys") auto
  have "s @ CHR ''|'' # (join_fields (t # ss) @ r) = s' @ CHR ''|'' # (join_fields (t' # ss') @ r')"
    using "3.prems"(1) ys by simp
  then have "s = s' \<and> join_fields (t # ss) @ r = join_fields (t' # ss') @ r'"
    using split_first_unique [of s "CHR ''|''" "join_fields (t # ss) @ r" s' "CHR ''|''" "join_fields (t' # ss') @ r'"]
      "3.prems"(4,5) ys by simp
  with "3.IH" [of "t' # ss'"] "3.prems" ys show ?case by simp
qed simp

lemma content_text_inj:
  assumes "concat (map content_line xs) = concat (map content_line ys)"
    "\<And>c. c \<in> set xs \<union> set ys \<Longrightarrow> list_all separator_free (hashed_fields c)"
  shows "map hashed_fields xs = map hashed_fields ys"
  using assms
proof (induction xs arbitrary: ys)
  case Nil
  then show ?case by (cases ys) (auto simp: content_line_def)
next
  case (Cons x xs)
  obtain y ys' where ys: "ys = y # ys'" using Cons.prems(1) by (cases ys) (auto simp: content_line_def)
  have "hashed_fields x = hashed_fields y \<and> concat (map content_line xs) = concat (map content_line ys')"
  proof (rule join_fields_inj)
    show "join_fields (hashed_fields x) @ concat (map content_line xs) =
        join_fields (hashed_fields y) @ concat (map content_line ys')"
      using Cons.prems(1) unfolding ys list.map concat.simps content_line_fields .
  qed (use Cons.prems(2) ys in \<open>simp_all add: hashed_fields_def\<close>)
  then have eq: "hashed_fields x = hashed_fields y" "concat (map content_line xs) = concat (map content_line ys')"
    by blast+
  have "map hashed_fields xs = map hashed_fields ys'"
    by (rule Cons.IH [OF eq(2)], rule Cons.prems(2)) (use ys in auto)
  with eq(1) show ?case by (simp add: ys)
qed


text \<open>The content hash does not depend on the order of the components, and the text it hashes
  determines every hashed field of every component, as long as no field contains a separator.\<close>

theorem content_hash_identifies:
  assumes "distinct (map cr_Name xs)" "distinct (map cr_Name ys)"
  shows "(mset xs = mset ys \<longrightarrow> ComputeContentHash sha xs = ComputeContentHash sha ys) \<and>
    ((\<forall>c \<in> set xs \<union> set ys. list_all separator_free (hashed_fields c)) \<and>
     concat (map content_line (sort_slice by_name xs)) = concat (map content_line (sort_slice by_name ys)) \<longrightarrow>
     hashed_fields ` set xs = hashed_fields ` set ys)"
proof (intro conjI impI)
  assume "(\<forall>c \<in> set xs \<union> set ys. list_all separator_free (hashed_fields c)) \<and>
     concat (map content_line (sort_slice by_name xs)) = concat (map content_line (sort_slice by_name ys))"
  then have "map hashed_fields (sort_slice by_name xs) = map hashed_fields (sort_slice by_name ys)"
    by (intro content_text_inj) auto
  from arg_cong [OF this, of set] show "hashed_fields ` set xs = hashed_fields ` set ys" by simp
qed (rule content_hash_perm [OF assms(1)])


section \<open>Instances\<close>

definition demo_cr :: "string \<Rightarrow> string \<Rightarrow> CompRevision" where
  "demo_cr n v = \<lparr>cr_Name = n, cr_Version = v, cr_ImageRef = ''reg.local/'' @ n, cr_ImageDigest = [],
     cr_GitSha = [], cr_ComponentSpecDigest = ''abc'', cr_EnvironmentDigest = ''def'',
     cr_VerificationPolicyDigest = [], cr_BaselineRef = []\<rparr>"

definition demo_revision :: "string \<Rightarrow> instant \<Rightarrow> string \<Rightarrow> CompRevision list \<Rightarrow> BoriRevision" where
  "demo_revision i t status crs = \<lparr>bv_SchemaVersion = ''bori.revision.v1'', bv_RevisionID = i,
     bv_Release = ''demo'', bv_Environment = ''dev'', bv_ParentRevisionID = [], bv_CreatedAt = t,
     bv_Components = crs, bv_ContentHash = [], bv_VerificationRunID = [], bv_PromotionStatus = status,
     bv_PromotedAt = Some t, bv_BaselineRef = [], bv_FailReason = [], bv_NetworkVerification = None\<rparr>"

theorem content_hash_identifies_witness:
  "ComputeContentHash id [demo_cr ''b'' ''v1'', demo_cr ''a'' ''v1''] =
   ComputeContentHash id [demo_cr ''a'' ''v1'', demo_cr ''b'' ''v1'']"
  using content_hash_identifies [of "[demo_cr ''b'' ''v1'', demo_cr ''a'' ''v1'']"
      "[demo_cr ''a'' ''v1'', demo_cr ''b'' ''v1'']" id]
  by (simp add: demo_cr_def)

definition demo_dir :: revision_dir where
  "demo_dir = Some [(''r1.json'', RevisionFile (demo_revision ''r1'' 5 ''failed'' [])), (''notes'', Undecodable),
     (''old'', Subdirectory)]"


definition demo_cp :: "string \<Rightarrow> string \<Rightarrow> ComponentPlan" where
  "demo_cp n act = \<lparr>cp_Name = n, cp_Version = ''v1'', cp_Adapter = ''kustomize'', cp_Namespace = n @ ''-system'',
     cp_ImageRef = ''reg.local/'' @ n, cp_ImageDigest = [], cp_GitSha = [], cp_Action = act, cp_Message = []\<rparr>"

definition demo_plan :: Plan where
  "demo_plan = \<lparr>pn_SchemaVersion = [], pn_RunID = [], pn_Release = ''demo'', pn_Environment = ''dev'',
     pn_CreatedAt = 1, pn_Components = [demo_cp ''a'' ''deploy'', demo_cp ''b'' ''violation''], pn_Violations = []\<rparr>"

theorem revision_lifecycle_witness:
  "map cr_Name (bv_Components (Promote id 9 [] (revision_BuildFromPlan id (\<lambda>_. None) 7 demo_plan []))) = [''a'']"
proof -
  have life: "revision_life id (\<lambda>_. None) demo_plan
      (Promote id 9 [] (revision_BuildFromPlan id (\<lambda>_. None) 7 demo_plan []))"
    by (intro revision_life.promoted revision_life.built)
  have "map identity_of (bv_Components (Promote id 9 [] (revision_BuildFromPlan id (\<lambda>_. None) 7 demo_plan []))) =
      map planned_identity [demo_cp ''a'' ''deploy'']"
    using revision_lifecycle [OF life] by (simp add: demo_plan_def demo_cp_def)
  from arg_cong [OF this, of "map fst"] show ?thesis
    by (simp add: identity_of_def planned_identity_def demo_cp_def o_def)
qed

end
