(* ===== verification/Deploy_Shadow.thy ===== *)
theory Deploy_Shadow
  imports Deploy_Revision
begin

text \<open>
  Shadow mode (pkg/shadow): the desired release against the most recently promoted revision, per
  component and as status conditions. \<open>Reconcile\<close> is characterised for every release and directory; the
  conditions follow from the same facts.
\<close>

section \<open>The data\<close>

datatype ConditionStatus = ConditionTrue | ConditionFalse | ConditionUnknown

record Condition =
  cd_Type :: string
  cd_Status :: ConditionStatus
  cd_Reason :: string
  cd_Message :: string
  cd_LastTransitionTime :: instant

record ComponentStatus =
  cs_Name :: string
  cs_DesiredVersion :: string
  cs_DeployedVersion :: string
  cs_SyncStatus :: string
  cs_ImageDigest :: string
  cs_DeployedImage :: string
  cs_Conditions :: "Condition list"

record DriftItem =
  di_Component :: string
  di_DesiredVersion :: string
  di_ActualVersion :: string
  di_DesiredImageDigest :: string
  di_ActualImageDigest :: string
  di_SyncStatus :: string

record ShadowState =
  ss_SchemaVersion :: string
  ss_Release :: string
  ss_Environment :: string
  ss_ComputedAt :: instant
  ss_DesiredRevision :: string
  ss_ActualRevision :: string
  ss_Drift :: "DriftItem list"
  ss_Conditions :: "Condition list"
  ss_Components :: "ComponentStatus list"

section \<open>Reconciliation\<close>

definition componentIdentityInSync :: "ComponentRef \<Rightarrow> CompRevision \<Rightarrow> bool" where
  "componentIdentityInSync desired actual =
     (if cf_ImageDigest desired \<noteq> [] then cr_ImageDigest actual = cf_ImageDigest desired
      else cr_Version actual = cf_Version desired)"

definition latest_promoted :: "string \<Rightarrow> BoriRevision list \<Rightarrow> BoriRevision option" where
  "latest_promoted relName revs =
     List.find (\<lambda>r. bv_Release r = relName \<and> bv_PromotionStatus r = ''promoted'') revs"

definition actual_revs :: "BoriRevision option \<Rightarrow> string \<Rightarrow> CompRevision option" where
  "actual_revs lst =
     (case lst of
        None \<Rightarrow> (\<lambda>_. None)
      | Some r \<Rightarrow> fold (\<lambda>cr m. m(cr_Name cr \<mapsto> cr)) (bv_Components r) (\<lambda>_. None))"

definition sync_status :: "(string \<Rightarrow> CompRevision option) \<Rightarrow> ComponentRef \<Rightarrow> string" where
  "sync_status actual ref =
     (case actual (cf_Name ref) of
        None \<Rightarrow> ''unknown''
      | Some cr \<Rightarrow> if componentIdentityInSync ref cr then ''in-sync'' else ''out-of-sync'')"

text \<open>A missing entry of the Go map reads as the struct with empty fields.\<close>

definition actual_field :: "(CompRevision \<Rightarrow> string) \<Rightarrow> (string \<Rightarrow> CompRevision option) \<Rightarrow> ComponentRef \<Rightarrow> string" where
  "actual_field f actual ref = (case actual (cf_Name ref) of None \<Rightarrow> [] | Some cr \<Rightarrow> f cr)"

definition drift_item :: "(string \<Rightarrow> CompRevision option) \<Rightarrow> ComponentRef \<Rightarrow> DriftItem" where
  "drift_item actual ref =
     \<lparr>di_Component = cf_Name ref, di_DesiredVersion = cf_Version ref,
      di_ActualVersion = actual_field cr_Version actual ref, di_DesiredImageDigest = cf_ImageDigest ref,
      di_ActualImageDigest = actual_field cr_ImageDigest actual ref, di_SyncStatus = sync_status actual ref\<rparr>"

definition component_status :: "(string \<Rightarrow> CompRevision option) \<Rightarrow> ComponentRef \<Rightarrow> ComponentStatus" where
  "component_status actual ref =
     \<lparr>cs_Name = cf_Name ref, cs_DesiredVersion = cf_Version ref,
      cs_DeployedVersion = actual_field cr_Version actual ref, cs_SyncStatus = sync_status actual ref,
      cs_ImageDigest = cf_ImageDigest ref, cs_DeployedImage = actual_field cr_ImageRef actual ref,
      cs_Conditions = []\<rparr>"

definition shadow_cond :: "instant \<Rightarrow> string \<Rightarrow> ConditionStatus \<Rightarrow> string \<Rightarrow> string \<Rightarrow> Condition" where
  "shadow_cond now t s reason msg =
     \<lparr>cd_Type = t, cd_Status = s, cd_Reason = reason, cd_Message = msg, cd_LastTransitionTime = now\<rparr>"

definition installed_cond :: "BoriRevision option \<Rightarrow> bool \<Rightarrow> instant \<Rightarrow> Condition" where
  "installed_cond lst allInstalled now =
     (case (allInstalled, lst) of
        (True, Some r) \<Rightarrow> shadow_cond now ''Installed'' ConditionTrue ''RevisionFound''
          (''promoted revision '' @ bv_RevisionID r @ '' found'')
      | _ \<Rightarrow> shadow_cond now ''Installed'' ConditionFalse ''NoPromotedRevision''
          (''no promoted revision found '' @ map char_of [226::nat, 128, 148] @ '' run `bori deploy` first''))"

definition verified_cond :: "BoriRevision option \<Rightarrow> instant \<Rightarrow> Condition" where
  "verified_cond lst now =
     (case lst of
        Some r \<Rightarrow>
          if bv_VerificationRunID r \<noteq> []
          then shadow_cond now ''Verified'' ConditionTrue ''VerificationRunFound''
                 (''verification run '' @ bv_VerificationRunID r @ '' passed'')
          else shadow_cond now ''Verified'' ConditionUnknown ''NotConfigured''
                 ''no verification gate has run; deploy success alone does not set Verified=True''
      | None \<Rightarrow> shadow_cond now ''Verified'' ConditionUnknown ''NotConfigured''
                 ''no verification gate has run; deploy success alone does not set Verified=True'')"

definition promoted_cond :: "BoriRevision option \<Rightarrow> instant \<Rightarrow> Condition" where
  "promoted_cond lst now =
     (case lst of
        Some r \<Rightarrow>
          if bv_PromotionStatus r = ''promoted''
          then shadow_cond now ''Promoted'' ConditionTrue ''Promoted''
                 (''revision '' @ bv_RevisionID r @ '' promoted at '' @
                  (case bv_PromotedAt r of Some t \<Rightarrow> go_RFC3339 t | None \<Rightarrow> ''unknown''))
          else shadow_cond now ''Promoted'' ConditionFalse ''NotPromoted'' ''no promoted revision''
      | None \<Rightarrow> shadow_cond now ''Promoted'' ConditionFalse ''NotPromoted'' ''no promoted revision'')"

definition degraded_cond :: "bool \<Rightarrow> bool \<Rightarrow> instant \<Rightarrow> Condition list" where
  "degraded_cond allInstalled allInSync now =
     (if \<not> allInSync
      then [shadow_cond now ''Degraded'' ConditionTrue ''DriftDetected''
              ''one or more components are out-of-sync with the release definition'']
      else if allInstalled
      then [shadow_cond now ''Degraded'' ConditionFalse ''InSync'' ''all components match the release definition'']
      else [])"

definition computeConditions :: "BoriRevision option \<Rightarrow> bool \<Rightarrow> bool \<Rightarrow> instant \<Rightarrow> Condition list" where
  "computeConditions lst allInstalled allInSync now =
     [installed_cond lst allInstalled now, verified_cond lst now, promoted_cond lst now] @
     degraded_cond allInstalled allInSync now"

text \<open>\<open>Reconcile\<close> on the listing of the revision directory.\<close>

definition shadow_Reconcile :: "instant \<Rightarrow> BoriRelease \<Rightarrow> BoriRevision list \<Rightarrow> ShadowState" where
  "shadow_Reconcile now rel revs =
     (let lst = latest_promoted (br_Name rel) revs;
          actual = actual_revs lst;
          allInSync = list_all (\<lambda>ref. sync_status actual ref = ''in-sync'') (br_Components rel);
          allInstalled = (lst \<noteq> None)
      in \<lparr>ss_SchemaVersion = ''bori.shadowState.v1'', ss_Release = br_Name rel, ss_Environment = [],
          ss_ComputedAt = now, ss_DesiredRevision = [],
          ss_ActualRevision = (case lst of None \<Rightarrow> [] | Some r \<Rightarrow> bv_RevisionID r),
          ss_Drift = map (drift_item actual) (br_Components rel),
          ss_Conditions = computeConditions lst allInstalled allInSync now,
          ss_Components = map (component_status actual) (br_Components rel)\<rparr>)"

section \<open>The state file\<close>

text \<open>The states are kept as files named after the release. \<open>WriteState\<close> replaces the characters that
  do not belong into a file name; \<open>ReadState\<close> takes the name as it is.\<close>

type_synonym state_files = "(string \<times> ShadowState) list"

definition state_segment :: "string \<Rightarrow> string" where
  "state_segment s = map (\<lambda>c. if c \<in> {CHR ''/'', CHR '' '', CHR '':''} then CHR ''-'' else c) s"

definition WriteState :: "string \<Rightarrow> ShadowState \<Rightarrow> state_files \<Rightarrow> state_files" where
  "WriteState rel st files = AList.update (''shadow-'' @ state_segment rel @ ''.json'') st files"

definition ReadState :: "string \<Rightarrow> state_files \<Rightarrow> string + ShadowState" where
  "ReadState rel files =
     (case map_of files (''shadow-'' @ rel @ ''.json'') of
        None \<Rightarrow> Inl (''read shadow-'' @ rel @ ''.json'')
      | Some st \<Rightarrow> Inr st)"

lemma ReadState_WriteState:
  "state_segment rel = rel \<Longrightarrow> ReadState rel (WriteState rel st files) = Inr st"
  "state_segment rel \<noteq> rel \<Longrightarrow> ReadState rel (WriteState rel st []) = Inl (''read shadow-'' @ rel @ ''.json'')"
  by (auto simp: ReadState_def WriteState_def update_conv)

section \<open>What the state says\<close>

lemma fold_last_entry:
  "distinct (map key xs) \<Longrightarrow>
     fold (\<lambda>x m. m(key x \<mapsto> x)) xs m n = Some x \<longleftrightarrow> x \<in> set xs \<and> key x = n \<or> n \<notin> key ` set xs \<and> m n = Some x"
  by (induction xs arbitrary: m) (auto simp: image_iff)

lemma actual_revs_Some:
  assumes "\<And>r. lst = Some r \<Longrightarrow> distinct (map cr_Name (bv_Components r))"
  shows "actual_revs lst n = Some cr \<longleftrightarrow> (\<exists>r. lst = Some r \<and> cr \<in> set (bv_Components r) \<and> cr_Name cr = n)"
  using assms by (auto simp: actual_revs_def fold_last_entry split: option.splits)

definition condition_status :: "ShadowState \<Rightarrow> string \<Rightarrow> ConditionStatus option" where
  "condition_status st t = map_option cd_Status (List.find (\<lambda>c. cd_Type c = t) (ss_Conditions st))"

lemmas cond_defs = shadow_cond_def installed_cond_def verified_cond_def promoted_cond_def degraded_cond_def
  computeConditions_def

lemma latest_promoted_Some:
  "latest_promoted n revs = Some r \<Longrightarrow> r \<in> set revs \<and> bv_Release r = n \<and> bv_PromotionStatus r = ''promoted''"
  by (auto simp: latest_promoted_def dest: find_SomeD)

lemma shadow_conditions:
  fixes rel revs now
  defines "st \<equiv> shadow_Reconcile now rel revs"
  shows "condition_status st ''Installed'' =
      Some (if latest_promoted (br_Name rel) revs = None then ConditionFalse else ConditionTrue)"
    and "condition_status st ''Promoted'' =
      Some (if latest_promoted (br_Name rel) revs = None then ConditionFalse else ConditionTrue)"
    and "condition_status st ''Verified'' =
      Some (case latest_promoted (br_Name rel) revs of
              Some r \<Rightarrow> if bv_VerificationRunID r \<noteq> [] then ConditionTrue else ConditionUnknown
            | None \<Rightarrow> ConditionUnknown)"
    and "condition_status st ''Degraded'' =
      (if \<exists>d \<in> set (ss_Drift st). di_SyncStatus d \<noteq> ''in-sync'' then Some ConditionTrue
       else if latest_promoted (br_Name rel) revs = None then None else Some ConditionFalse)"
  unfolding st_def
  by (auto simp: shadow_Reconcile_def Let_def condition_status_def cond_defs drift_item_def list_all_iff
      split: option.splits dest: latest_promoted_Some)


lemma sync_status_in_sync:
  "sync_status actual ref = ''in-sync'' \<longleftrightarrow>
     (\<exists>cr. actual (cf_Name ref) = Some cr \<and> componentIdentityInSync ref cr)"
  by (auto simp: sync_status_def split: option.splits)

text \<open>The revision shadow mode compares with is the newest promoted one of the release.\<close>

lemma find_sorted_newest:
  assumes "sorted_wrt (\<lambda>a b. bv_CreatedAt b \<le> bv_CreatedAt a) revs" "List.find p revs = Some r"
    "r' \<in> set revs" "p r'"
  shows "bv_CreatedAt r' \<le> bv_CreatedAt r"
  using assms by (induction revs) (auto split: if_splits)


text \<open>A release of two components of which the newest promoted revision records only one, in an
  environment that the release is not asked about.\<close>

definition demo_release2 :: BoriRelease where
  "demo_release2 = demo_release [demo_ref ''a'' ''v1'', demo_ref ''b'' ''v1'']"

definition demo_dir2 :: revision_dir where
  "demo_dir2 = Some [(''r1.json'', RevisionFile (demo_revision ''r1'' 5 ''promoted'' [demo_cr ''a'' ''v1'']))]"

lemma demo_latest: "latest_promoted (br_Name demo_release2) (revision_List demo_dir2) =
    Some (demo_revision ''r1'' 5 ''promoted'' [demo_cr ''a'' ''v1''])"
  by code_simp


end
