(* ===== verification/Deploy_Reconcile.thy ===== *)
theory Deploy_Reconcile
  imports Deploy_Shadow
begin

text \<open>
  The reconciliation pass (pkg/reconcile): shadow check, plan, revision and rollout records, the calls
  to the deploy adapters, the recorded outcome and the new shadow state; and the plan of a rollback.

  The state is what the pass keeps under the bori directory (\<open>archive\<close>) together with the sequence of
  requests handed to adapters. An adapter is code outside the package and a parameter: a function of the
  requests made before and of its own request. So are the clock (its \<open>k\<close>-th reading in the pass), the
  repository, and whether a file operation of the pass succeeds (\<open>re_io_ok\<close>, by the artifact it is about):
  a failed write is a warning and leaves the archive as it was.
\<close>

section \<open>The data\<close>

record DeployRequest =
  dq_Component :: BoriComponent
  dq_Environment :: BoriEnvironment
  dq_DryRun :: bool
  dq_OutDir :: path
  dq_BoriRoot :: string

record DeployResult =
  dr_Success :: bool
  dr_Message :: string
  dr_ManifestPath :: string

record CompDeploy =
  cy_Name :: string
  cy_Version :: string
  cy_Adapter :: string
  cy_Success :: bool
  cy_Message :: string

record DeployReport =
  dp_SchemaVersion :: string
  dp_RunID :: string
  dp_Release :: string
  dp_Environment :: string
  dp_StartedAt :: instant
  dp_FinishedAt :: instant
  dp_Overall :: string
  dp_Components :: "CompDeploy list"

datatype run_error = RunError string | ViolationError "string list"

definition ViolationError_Error :: "string list \<Rightarrow> string" where
  "ViolationError_Error vs = ''namespace violations: '' @ go_Join vs '', ''"

record Request =
  rq_BoriRoot :: string
  rq_AppsDir :: string
  rq_BoriDir :: string
  rq_ReleaseName :: string
  rq_EnvName :: string
  rq_DryRun :: bool
  rq_DeployDryRun :: bool
  rq_SkipIfInSync :: bool
  rq_Release :: "BoriRelease option"

record RunResult =
  rr_RunID :: string
  rr_Release :: string
  rr_Environment :: string
  rr_RevisionID :: string
  rr_DriftDetected :: bool
  rr_DeployStatus :: string
  rr_VerifyResult :: string
  rr_Promoted :: bool
  rr_ShadowState :: "ShadowState option"

type_synonym deploy_adapter = "DeployRequest list \<Rightarrow> DeployRequest \<Rightarrow> string option \<times> DeployResult option"

record run_env =
  re_repo :: repository
  re_lib :: image_lib
  re_sha :: "string \<Rightarrow> string"
  re_files :: "path \<Rightarrow> string option"
  re_Abs :: "string \<Rightarrow> string + string"
  re_clock :: "nat \<Rightarrow> instant"
  re_io_ok :: "string \<Rightarrow> bool"
  re_adapters :: "string \<Rightarrow> deploy_adapter option"

record archive =
  ar_revisions :: revision_dir
  ar_plans :: "(string \<times> Plan) list"
  ar_rollouts :: "(string \<times> BoriRollout) list"
  ar_deploys :: "(string \<times> DeployReport) list"
  ar_shadow :: state_files
  ar_calls :: "DeployRequest list"

section \<open>The deploy loop\<close>

record deploy_state =
  ds_ok :: bool
  ds_deploys :: "CompDeploy list"
  ds_reasons :: "string list"
  ds_calls :: "DeployRequest list"

definition deploy_failed :: "string \<Rightarrow> deploy_state \<Rightarrow> deploy_state" where
  "deploy_failed reason st = st\<lparr>ds_ok := False, ds_reasons := ds_reasons st @ [reason]\<rparr>"

text \<open>The component as loaded, with the version and the image of the plan.\<close>

definition plan_override :: "ComponentPlan \<Rightarrow> BoriComponent \<Rightarrow> BoriComponent" where
  "plan_override cp c =
     (let c1 = (if cp_Version cp \<noteq> [] then c\<lparr>bc_Version := cp_Version cp\<rparr> else c)
      in if cp_ImageRef cp \<noteq> [] then c1\<lparr>bc_Image := \<lparr>ir_Ref = cp_ImageRef cp\<rparr>\<rparr> else c1)"

definition call_adapter :: "deploy_adapter \<Rightarrow> ComponentPlan \<Rightarrow> DeployRequest \<Rightarrow> deploy_state \<Rightarrow> deploy_state" where
  "call_adapter a cp req st =
     (case a (ds_calls st) req of (err, res) \<Rightarrow>
        let st' = st\<lparr>ds_calls := ds_calls st @ [req]\<rparr>;
            cd = \<lparr>cy_Name = cp_Name cp, cy_Version = cp_Version cp, cy_Adapter = cp_Adapter cp,
                  cy_Success = False, cy_Message = []\<rparr>
        in if err \<noteq> None \<or> (case res of Some r \<Rightarrow> \<not> dr_Success r | None \<Rightarrow> False)
           then (let msg = (case res of Some r \<Rightarrow> dr_Message r | None \<Rightarrow> (case err of Some e \<Rightarrow> e | None \<Rightarrow> ''<nil>''))
                 in deploy_failed (cp_Name cp @ '': '' @ msg)
                      (st'\<lparr>ds_deploys := ds_deploys st @ [cd\<lparr>cy_Message := msg\<rparr>]\<rparr>))
           else st'\<lparr>ds_deploys := ds_deploys st @
                  [cd\<lparr>cy_Success := True, cy_Message := (case res of Some r \<Rightarrow> dr_Message r | None \<Rightarrow> [])\<rparr>]\<rparr>)"

definition deploy_component :: "run_env \<Rightarrow> string \<Rightarrow> path \<Rightarrow> BoriEnvironment \<Rightarrow> ComponentPlan \<Rightarrow>
    deploy_state \<Rightarrow> deploy_state" where
  "deploy_component e root runDir env cp st =
     (if cp_Action cp = ''violation'' then st
      else case re_adapters e (cp_Adapter cp) of
        None \<Rightarrow> deploy_failed (cp_Name cp @ '': unknown adapter '' @ go_quote (cp_Adapter cp)) st
      | Some a \<Rightarrow>
          (case rp_LoadComponentByName (re_repo e) (cp_Name cp) of
             Inl err \<Rightarrow> deploy_failed (cp_Name cp @ '': load component: '' @ err) st
           | Inr c \<Rightarrow>
               call_adapter a cp
                 \<lparr>dq_Component = plan_override cp c, dq_Environment = env, dq_DryRun = False,
                  dq_OutDir = runDir @ [''deploy'', cp_Name cp], dq_BoriRoot = root\<rparr> st))"

definition deploy_all :: "run_env \<Rightarrow> string \<Rightarrow> path \<Rightarrow> BoriEnvironment \<Rightarrow> Plan \<Rightarrow> DeployRequest list \<Rightarrow> deploy_state" where
  "deploy_all e root runDir env plan calls =
     fold (deploy_component e root runDir env) (pn_Components plan)
       \<lparr>ds_ok = True, ds_deploys = [], ds_reasons = [], ds_calls = calls\<rparr>"

section \<open>One pass\<close>

definition run_shadow :: "run_env \<Rightarrow> string \<Rightarrow> nat \<Rightarrow> BoriRelease \<Rightarrow> archive \<Rightarrow> ShadowState option" where
  "run_shadow e step k rel ar =
     (if re_io_ok e step then Some (shadow_Reconcile (re_clock e k) rel (revision_List (ar_revisions ar))) else None)"

definition drift_detected :: "ShadowState option \<Rightarrow> bool" where
  "drift_detected s =
     (case s of
        None \<Rightarrow> True
      | Some st \<Rightarrow> list_ex (\<lambda>d. di_SyncStatus d \<noteq> ''in-sync'') (ss_Drift st) \<or> ss_ActualRevision st = [])"

text \<open>The revision and rollout records of a plan. The result has the revision when it could be
  written.\<close>

definition record_plan :: "run_env \<Rightarrow> string \<Rightarrow> Request \<Rightarrow> BoriRelease \<Rightarrow> Plan \<Rightarrow> archive \<Rightarrow>
    BoriRevision option \<times> archive" where
  "record_plan e root req rel plan ar =
     (let comps = (case LoadComps (re_repo e) rel of Inl _ \<Rightarrow> (\<lambda>_. None) | Inr cs \<Rightarrow> cs);
          rv = AddVerificationPolicyDigests (re_sha e) (re_files e) root (rq_AppsDir req) ''kind'' comps
                 (revision_BuildFromPlan (re_sha e) (re_files e) (re_clock e 3) plan root);
          (written, ar1) =
            (case revision_Write (ar_revisions ar) rv of
               Inl _ \<Rightarrow> (None, ar)
             | Inr d \<Rightarrow> (Some rv, ar\<lparr>ar_revisions := d\<rparr>));
          ro = rollout_BuildFromPlan (re_clock e 4) plan (bv_RevisionID rv)
      in (written,
          if re_io_ok e ''rollout'' then ar1\<lparr>ar_rollouts := AList.update (ro_RolloutID ro) ro (ar_rollouts ar1)\<rparr>
          else ar1))"

definition update_revision :: "BoriRevision \<Rightarrow> archive \<Rightarrow> bool \<times> archive" where
  "update_revision rv ar =
     (case revision_Write (ar_revisions ar) rv of
        Inl _ \<Rightarrow> (False, ar)
      | Inr d \<Rightarrow> (True, ar\<lparr>ar_revisions := d\<rparr>))"

text \<open>Step 5: the shadow state of the new archive, kept in the result where it could be computed.\<close>

definition update_shadow :: "run_env \<Rightarrow> Request \<Rightarrow> BoriRelease \<Rightarrow> RunResult \<Rightarrow> archive \<Rightarrow> RunResult \<times> archive" where
  "update_shadow e req rel res ar =
     (case run_shadow e ''shadow-after'' 8 rel ar of
        None \<Rightarrow> (res, ar)
      | Some st \<Rightarrow>
          (res\<lparr>rr_ShadowState := Some st\<rparr>,
           if re_io_ok e ''shadow'' then ar\<lparr>ar_shadow := WriteState (rq_ReleaseName req) st (ar_shadow ar)\<rparr> else ar))"

text \<open>\<open>filepath.Join\<close> on a bori directory whose path is clean.\<close>

definition baseline_of :: "Request \<Rightarrow> string \<Rightarrow> string" where
  "baseline_of req runID = rq_BoriDir req @ ''/runs/'' @ runID @ ''/evidence''"

text \<open>Step 4: the revision is promoted when every component was deployed, failed otherwise.\<close>

definition record_outcome :: "run_env \<Rightarrow> Request \<Rightarrow> BoriRevision option \<Rightarrow> deploy_state \<Rightarrow> RunResult \<Rightarrow> archive \<Rightarrow>
    RunResult \<times> archive" where
  "record_outcome e req written st res ar =
     (case written of
        None \<Rightarrow> (res, ar)
      | Some rv \<Rightarrow>
          if ds_ok st
          then (case update_revision (Promote (re_sha e) (re_clock e 7) (baseline_of req (rr_RunID res)) rv) ar of
                  (ok, ar') \<Rightarrow> (if ok then res\<lparr>rr_Promoted := True\<rparr> else res, ar'))
          else (res, snd (update_revision (revision_Fail (''deploy failed: '' @ go_Join (ds_reasons st) ''; '') rv) ar)))"

definition deploy_report :: "run_env \<Rightarrow> Request \<Rightarrow> RunResult \<Rightarrow> deploy_state \<Rightarrow> DeployReport" where
  "deploy_report e req res st =
     \<lparr>dp_SchemaVersion = ''bori.deployResult.v1'', dp_RunID = rr_RunID res, dp_Release = rq_ReleaseName req,
      dp_Environment = rq_EnvName req, dp_StartedAt = re_clock e 5, dp_FinishedAt = re_clock e 6,
      dp_Overall = rr_DeployStatus res, dp_Components = ds_deploys st\<rparr>"

definition run_deploy :: "run_env \<Rightarrow> string \<Rightarrow> Request \<Rightarrow> BoriRelease \<Rightarrow> Plan \<Rightarrow> BoriRevision option \<Rightarrow>
    RunResult \<Rightarrow> archive \<Rightarrow> (run_error + RunResult) \<times> archive" where
  "run_deploy e root req rel plan written res ar =
     (case rp_LoadEnvironmentByName (re_repo e) (rq_EnvName req) of
        Inl err \<Rightarrow> (Inl (RunError (''load environment '' @ go_quote (rq_EnvName req) @ '': '' @ err)), ar)
      | Inr env \<Rightarrow>
          (let st = deploy_all e root [rq_BoriDir req, ''runs'', rr_RunID res] env plan (ar_calls ar);
               res1 = res\<lparr>rr_DeployStatus := (if ds_ok st then ''success'' else ''failed'')\<rparr>;
               ar1 = ar\<lparr>ar_calls := ds_calls st\<rparr>;
               ar2 = (if re_io_ok e ''deploy-result''
                      then ar1\<lparr>ar_deploys := AList.update (rr_RunID res) (deploy_report e req res1 st) (ar_deploys ar1)\<rparr>
                      else ar1);
               (res3, ar3) = record_outcome e req written st res1 ar2;
               (res4, ar4) = update_shadow e req rel res3 ar3
           in (Inr res4, ar4)))"

definition run_deploy_dry :: "run_env \<Rightarrow> Request \<Rightarrow> BoriRelease \<Rightarrow> BoriRevision option \<Rightarrow> RunResult \<Rightarrow> archive \<Rightarrow>
    RunResult \<times> archive" where
  "run_deploy_dry e req rel written res ar =
     (let res1 = res\<lparr>rr_DeployStatus := ''skipped (deploy-dry-run)'', rr_VerifyResult := ''skipped (deploy-dry-run)''\<rparr>;
          (res2, ar2) =
            (case written of
               None \<Rightarrow> (res1, ar)
             | Some rv \<Rightarrow>
                 (case update_revision (Promote (re_sha e) (re_clock e 7) (baseline_of req (rr_RunID res)) rv) ar of
                    (ok, ar') \<Rightarrow> (if ok then res1\<lparr>rr_Promoted := True\<rparr> else res1, ar')))
      in update_shadow e req rel res2 ar2)"

definition run_planned :: "run_env \<Rightarrow> string \<Rightarrow> Request \<Rightarrow> BoriRelease \<Rightarrow> Plan \<Rightarrow> RunResult \<Rightarrow> archive \<Rightarrow>
    (run_error + RunResult) \<times> archive" where
  "run_planned e root req rel plan res ar =
     (let ar1 = (if re_io_ok e ''plan'' then ar\<lparr>ar_plans := AList.update (rr_RunID res) plan (ar_plans ar)\<rparr> else ar);
          (written, ar2) = record_plan e root req rel plan ar1;
          res2 = (case written of None \<Rightarrow> res | Some rv \<Rightarrow> res\<lparr>rr_RevisionID := bv_RevisionID rv\<rparr>)
      in if rq_DryRun req
         then (Inr (res2\<lparr>rr_DeployStatus := ''skipped (dry-run)'', rr_VerifyResult := ''skipped (dry-run)''\<rparr>), ar2)
         else if rq_DeployDryRun req
         then map_prod Inr id (run_deploy_dry e req rel written res2 ar2)
         else run_deploy e root req rel plan written res2 ar2)"

definition run_release :: "run_env \<Rightarrow> Request \<Rightarrow> string + BoriRelease" where
  "run_release e req =
     (case rq_Release req of
        Some rel \<Rightarrow> Inr rel
      | None \<Rightarrow> (case rp_LoadReleaseByName (re_repo e) (rq_ReleaseName req) of
                   Inl err \<Rightarrow> Inl (''load release: '' @ err)
                 | Inr rel \<Rightarrow> Inr rel))"

definition Run :: "run_env \<Rightarrow> Request \<Rightarrow> archive \<Rightarrow> (run_error + RunResult) \<times> archive" where
  "Run e req ar =
     (let runID = compact_stamp (re_clock e 0) in
      case re_Abs e (rq_BoriRoot req) of
        Inl err \<Rightarrow> (Inl (RunError (''abs bori-root: '' @ err)), ar)
      | Inr root \<Rightarrow>
     (case run_release e req of
        Inl err \<Rightarrow> (Inl (RunError err), ar)
      | Inr rel \<Rightarrow>
          (let shadow = run_shadow e ''shadow-before'' 1 rel ar;
               res = \<lparr>rr_RunID = runID, rr_Release = rq_ReleaseName req, rr_Environment = rq_EnvName req,
                      rr_RevisionID = [], rr_DriftDetected = drift_detected shadow, rr_DeployStatus = [],
                      rr_VerifyResult = [], rr_Promoted = False, rr_ShadowState = shadow\<rparr>
           in if \<not> rr_DriftDetected res \<and> rq_SkipIfInSync req
              then (Inr (res\<lparr>rr_DeployStatus := ''skipped'', rr_VerifyResult := ''skipped''\<rparr>), ar)
              else case Planner_Plan (re_repo e) (re_lib e) (rq_Release req) (re_clock e 2) runID
                          (rq_ReleaseName req) (rq_EnvName req) of
                     Inl err \<Rightarrow> (Inl (RunError (''plan: '' @ err)), ar)
                   | Inr plan \<Rightarrow>
                       if pn_Violations plan \<noteq> [] then (Inl (ViolationError (pn_Violations plan)), ar)
                       else run_planned e root req rel plan res ar)))"

section \<open>Rollback\<close>

definition rollback_component :: "repository \<Rightarrow> string list \<Rightarrow> CompRevision \<Rightarrow> ComponentPlan option" where
  "rollback_component repo allowed cr =
     (case rp_LoadComponentByName repo (cr_Name cr) of
        Inl _ \<Rightarrow> None
      | Inr c \<Rightarrow>
          (let ns = (if dc_Namespace (bc_Deploy c) = [] then cr_Name cr @ ''-system'' else dc_Namespace (bc_Deploy c))
           in Some \<lparr>cp_Name = cr_Name cr, cp_Version = cr_Version cr,
                cp_Adapter = (if cr_ImageDigest cr \<noteq> [] then UpdateAdapter (bc_Deploy c) else BootstrapAdapter (bc_Deploy c)),
                cp_Namespace = ns, cp_ImageRef = cr_ImageRef cr, cp_ImageDigest = cr_ImageDigest cr,
                cp_GitSha = cr_GitSha cr,
                cp_Action = (if ns \<in> set allowed then ''deploy'' else ''violation''),
                cp_Message = (if ns \<in> set allowed then [] else ''namespace '' @ go_quote ns @ '' not allowed'')\<rparr>))"

text \<open>The compatibility check of the versions rolled back to only prints warnings: the third component
  of the result.\<close>

definition RollbackPlan :: "run_env \<Rightarrow> string \<Rightarrow> revision_dir \<Rightarrow> string \<Rightarrow> string \<Rightarrow> string \<Rightarrow>
    string + Plan \<times> BoriRevision \<times> string list" where
  "RollbackPlan e boriRoot d releaseName envName targetRevisionID =
     (case re_Abs e boriRoot of
        Inl err \<Rightarrow> Inl (''abs: '' @ err)
      | Inr root \<Rightarrow>
     (case revision_Read d targetRevisionID of
        Inl err \<Rightarrow> Inl (''read revision '' @ go_quote targetRevisionID @ '': '' @ err)
      | Inr rv \<Rightarrow>
     (case rp_LoadReleaseByName (re_repo e) releaseName of
        Inl err \<Rightarrow> Inl (''load release: '' @ err)
      | Inr rel \<Rightarrow>
          (let rollbackRel = rel\<lparr>br_Components := map (\<lambda>cr. \<lparr>cf_Name = cr_Name cr, cf_Version = cr_Version cr,
                                   cf_ImageDigest = [], cf_GitSha = []\<rparr>) (bv_Components rv)\<rparr>;
               matrix = (case LoadMatrixForRelease (re_repo e) rollbackRel of Inl _ \<Rightarrow> \<lparr>cm_Constraints = []\<rparr> | Inr m \<Rightarrow> m);
               warnings = map Violation_String (CheckCompatibility rollbackRel matrix)
           in case rp_LoadEnvironmentByName (re_repo e) envName of
                Inl err \<Rightarrow> Inl (''load environment: '' @ err)
              | Inr env \<Rightarrow>
                  (let cps = List.map_filter (rollback_component (re_repo e) (np_Allowed (be_NamespacePolicy env)))
                               (bv_Components rv)
                   in Inr (\<lparr>pn_SchemaVersion = ''bori.plan.v1'', pn_RunID = compact_stamp (re_clock e 0),
                            pn_Release = releaseName, pn_Environment = envName, pn_CreatedAt = re_clock e 1,
                            pn_Components = cps,
                            pn_Violations = map (\<lambda>cp. cp_Name cp @ '': '' @ cp_Message cp)
                              (filter (\<lambda>cp. cp_Action cp = ''violation'') cps)\<rparr>, rv, warnings))))))"

end
