(* ===== verification/Deploy_Runs.thy ===== *)
theory Deploy_Runs
  imports Deploy_Reconcile
begin

text \<open>
  What a reconciliation pass does and leaves behind: which requests reach an adapter and in which order,
  when a revision is promoted, and that a pass after a successful one finds nothing to do.
\<close>

section \<open>The calls of the deploy loop\<close>

definition accepted :: "string option \<times> DeployResult option \<Rightarrow> bool" where
  "accepted ans = (fst ans = None \<and> (case snd ans of Some r \<Rightarrow> dr_Success r | None \<Rightarrow> True))"

definition request_for :: "run_env \<Rightarrow> string \<Rightarrow> path \<Rightarrow> BoriEnvironment \<Rightarrow> ComponentPlan \<Rightarrow> DeployRequest \<Rightarrow> bool" where
  "request_for e root runDir env cp q \<longleftrightarrow>
     cp_Action cp \<noteq> ''violation'' \<and>
     (\<exists>c. rp_LoadComponentByName (re_repo e) (cp_Name cp) = Inr c \<and>
        q = \<lparr>dq_Component = plan_override cp c, dq_Environment = env, dq_DryRun = False,
             dq_OutDir = runDir @ [''deploy'', cp_Name cp], dq_BoriRoot = root\<rparr>)"

definition accepted_at :: "run_env \<Rightarrow> DeployRequest list \<Rightarrow> DeployRequest \<Rightarrow> bool" where
  "accepted_at e earlier q \<longleftrightarrow> (\<exists>n a. re_adapters e n = Some a \<and> accepted (a earlier q))"

lemma call_adapter_facts [simp]:
  "ds_calls (call_adapter a cp q st) = ds_calls st @ [q]"
  "ds_ok (call_adapter a cp q st) \<longleftrightarrow> ds_ok st \<and> accepted (a (ds_calls st) q)"
  by (auto simp: call_adapter_def deploy_failed_def accepted_def Let_def split: prod.splits option.splits)

lemma deploy_component_cases:
  obtains (skipped) "cp_Action cp = ''violation''" "deploy_component e root runDir env cp st = st"
  | (failed) "cp_Action cp \<noteq> ''violation''"
      "ds_calls (deploy_component e root runDir env cp st) = ds_calls st"
      "\<not> ds_ok (deploy_component e root runDir env cp st)"
  | (called) q where "cp_Action cp \<noteq> ''violation''" "request_for e root runDir env cp q"
      "ds_calls (deploy_component e root runDir env cp st) = ds_calls st @ [q]"
      "ds_ok (deploy_component e root runDir env cp st) \<Longrightarrow> ds_ok st \<and> accepted_at e (ds_calls st) q"
proof (cases "cp_Action cp = ''violation''")
  case True
  then show thesis using skipped by (simp add: deploy_component_def)
next
  case act: False
  show thesis
  proof (cases "re_adapters e (cp_Adapter cp)")
    case None
    then show thesis using act by (intro failed) (auto simp: deploy_component_def deploy_failed_def)
  next
    case (Some a)
    show thesis
    proof (cases "rp_LoadComponentByName (re_repo e) (cp_Name cp)")
      case (Inl err)
      then show thesis using act Some by (intro failed) (auto simp: deploy_component_def deploy_failed_def)
    next
      case (Inr c)
      let ?q = "\<lparr>dq_Component = plan_override cp c, dq_Environment = env, dq_DryRun = False,
          dq_OutDir = runDir @ [''deploy'', cp_Name cp], dq_BoriRoot = root\<rparr>"
      have "deploy_component e root runDir env cp st = call_adapter a cp ?q st"
        using act Some Inr by (simp add: deploy_component_def)
      then show thesis
        using act Some Inr by (intro called [of ?q]) (auto simp: request_for_def accepted_at_def)
    qed
  qed
qed

definition deployable :: "ComponentPlan \<Rightarrow> bool" where
  "deployable cp \<longleftrightarrow> cp_Action cp \<noteq> ''violation''"

lemma deploy_fold:
  "\<exists>calls. ds_calls (fold (deploy_component e root runDir env) cps st) = ds_calls st @ calls \<and>
     (\<forall>q \<in> set calls. \<exists>cp \<in> set cps. request_for e root runDir env cp q) \<and>
     (ds_ok (fold (deploy_component e root runDir env) cps st) \<longrightarrow>
        ds_ok st \<and> list_all2 (request_for e root runDir env) (filter deployable cps) calls \<and>
        (\<forall>i < length calls. accepted_at e (ds_calls st @ take i calls) (calls ! i)))"
  (is "\<exists>calls. ?P cps st calls")
proof (induction cps arbitrary: st)
  case (Cons cp cps)
  let ?st = "deploy_component e root runDir env cp st"
  obtain calls where IH: "?P cps ?st calls" using Cons.IH by blast
  show ?case
  proof (cases rule: deploy_component_cases [of cp e root runDir env st])
    case skipped
    then show ?thesis using IH by (intro exI [of _ calls]) (auto simp: deployable_def)
  next
    case failed
    then show ?thesis using IH by (intro exI [of _ calls]) auto
  next
    case (called q)
    have "accepted_at e (ds_calls st @ take i (q # calls)) ((q # calls) ! i)"
      if "ds_ok (fold (deploy_component e root runDir env) cps ?st)" "i < length (q # calls)" for i
      using IH that called(3,4) by (cases i) auto
    with IH called show ?thesis by (intro exI [of _ "q # calls"]) (auto simp: deployable_def)
  qed
qed auto

section \<open>The shape of a pass\<close>

text \<open>A pass that gets past the plan; every other pass leaves the archive as it was.\<close>

lemma Run_cases:
  obtains (early) r where "Run e req ar = (r, ar)" "\<And>res. r = Inr res \<Longrightarrow> \<not> rr_Promoted res"
  | (planned) root rel plan res where
      "Run e req ar = run_planned e root req rel plan res ar" "run_release e req = Inr rel"
      "Planner_Plan (re_repo e) (re_lib e) (rq_Release req) (re_clock e 2) (compact_stamp (re_clock e 0))
         (rq_ReleaseName req) (rq_EnvName req) = Inr plan"
      "pn_Violations plan = []" "\<not> rr_Promoted res"
proof (cases "re_Abs e (rq_BoriRoot req)")
  case (Inl err)
  then show thesis by (intro early) (auto simp: Run_def Let_def)
next
  case root: (Inr root)
  show thesis
  proof (cases "run_release e req")
    case (Inl err)
    with root show thesis by (intro early) (auto simp: Run_def Let_def)
  next
    case rel: (Inr rel)
    let ?p = "Planner_Plan (re_repo e) (re_lib e) (rq_Release req) (re_clock e 2) (compact_stamp (re_clock e 0))
         (rq_ReleaseName req) (rq_EnvName req)"
    let ?sh = "run_shadow e ''shadow-before'' 1 rel ar"
    consider (skip) "\<not> drift_detected ?sh \<and> rq_SkipIfInSync req"
      | (err) err where "\<not> (\<not> drift_detected ?sh \<and> rq_SkipIfInSync req)" "?p = Inl err"
      | (viol) plan where "\<not> (\<not> drift_detected ?sh \<and> rq_SkipIfInSync req)" "?p = Inr plan" "pn_Violations plan \<noteq> []"
      | (go) plan where "\<not> (\<not> drift_detected ?sh \<and> rq_SkipIfInSync req)" "?p = Inr plan" "pn_Violations plan = []"
      by (cases ?p) blast+
    then show thesis
    proof cases
      case (go plan)
      then show thesis using root rel by (intro planned [OF _ rel go(2,3)]) (auto simp: Run_def Let_def)
    qed (rule early [of "fst (Run e req ar)"]; use root rel in \<open>auto simp: Run_def Let_def\<close>)+
  qed
qed


text \<open>How the steps after the plan change the archive.\<close>

lemma update_shadow_frame [simp]:
  "rr_Promoted (fst (update_shadow e req rel res ar)) = rr_Promoted res"
  "rr_RevisionID (fst (update_shadow e req rel res ar)) = rr_RevisionID res"
  "ar_calls (snd (update_shadow e req rel res ar)) = ar_calls ar"
  "ar_revisions (snd (update_shadow e req rel res ar)) = ar_revisions ar"
  by (auto simp: update_shadow_def split: option.splits)

lemma update_revision_frame [simp]: "ar_calls (snd (update_revision rv ar)) = ar_calls ar"
  by (auto simp: update_revision_def split: sum.splits)

lemma update_revision_ok:
  assumes "fst (update_revision rv ar)"
  shows "revision_Write (ar_revisions ar) rv = Inr (ar_revisions (snd (update_revision rv ar)))"
  using assms by (auto simp: update_revision_def split: sum.splits)

lemma record_outcome_frame [simp]: "ar_calls (snd (record_outcome e req written st res ar)) = ar_calls ar"
  by (auto simp: record_outcome_def split: option.splits prod.splits dest: arg_cong [of _ _ "\<lambda>x. ar_calls (snd x)"])

lemma record_outcome_promoted:
  assumes "rr_Promoted (fst (record_outcome e req written st res ar))" "\<not> rr_Promoted res"
  shows "\<exists>rv t b. written = Some rv \<and> ds_ok st \<and>
    revision_Write (ar_revisions ar) (Promote (re_sha e) t b rv) =
      Inr (ar_revisions (snd (record_outcome e req written st res ar)))"
proof -
  obtain rv where rv: "written = Some rv" "ds_ok st"
    using assms by (auto simp: record_outcome_def split: option.splits if_splits)
  let ?p = "Promote (re_sha e) (re_clock e 7) (baseline_of req (rr_RunID res)) rv"
  have "fst (update_revision ?p ar)"
    using assms rv by (auto simp: record_outcome_def split: prod.splits if_splits)
  from update_revision_ok [OF this] rv show ?thesis
    by (intro exI [of _ rv] exI [of _ "re_clock e 7"] exI [of _ "baseline_of req (rr_RunID res)"])
      (auto simp: record_outcome_def split: prod.splits)
qed

lemma record_plan_frame [simp]: "ar_calls (snd (record_plan e root req rel plan ar)) = ar_calls ar"
  by (auto simp: record_plan_def Let_def split: sum.splits prod.splits)

lemma record_plan_written:
  assumes "record_plan e root req rel plan ar = (Some rv, ar')"
  shows "revision_life (re_sha e) (re_files e) plan rv" "bv_CreatedAt rv = re_clock e 3"
    "bv_RevisionID rv = NewRevisionID (re_sha e) (pn_Release plan) (pn_Environment plan) (re_clock e 3)"
    "revision_Write (ar_revisions ar) rv = Inr (ar_revisions ar')"
proof -
  obtain comps where
    rv: "rv = AddVerificationPolicyDigests (re_sha e) (re_files e) root (rq_AppsDir req) ''kind'' comps
      (revision_BuildFromPlan (re_sha e) (re_files e) (re_clock e 3) plan root)"
    and w: "revision_Write (ar_revisions ar) rv = Inr (ar_revisions ar')"
    using assms by (auto simp: record_plan_def Let_def split: sum.splits if_splits)
  show "revision_life (re_sha e) (re_files e) plan rv"
    unfolding rv by (intro revision_life.policies revision_life.built)
  show "bv_CreatedAt rv = re_clock e 3"
    "bv_RevisionID rv = NewRevisionID (re_sha e) (pn_Release plan) (pn_Environment plan) (re_clock e 3)"
    by (simp_all add: rv revision_ops Let_def)
  show "revision_Write (ar_revisions ar) rv = Inr (ar_revisions ar')" by (rule w)
qed


definition run_dir :: "Request \<Rightarrow> RunResult \<Rightarrow> path" where
  "run_dir req res = [rq_BoriDir req, ''runs'', rr_RunID res]"

lemma run_deploy_facts:
  assumes "run_deploy e root req rel plan written res ar = (r, ar')"
  shows "(\<exists>err. r = Inl err) \<and> ar' = ar \<or>
    (\<exists>env res'. rp_LoadEnvironmentByName (re_repo e) (rq_EnvName req) = Inr env \<and> r = Inr res' \<and>
       ar_calls ar' = ds_calls (deploy_all e root (run_dir req res) env plan (ar_calls ar)) \<and>
       rr_RevisionID res' = rr_RevisionID res \<and>
       (rr_Promoted res' \<and> \<not> rr_Promoted res \<longrightarrow>
          ds_ok (deploy_all e root (run_dir req res) env plan (ar_calls ar)) \<and>
          (\<exists>rv t b. written = Some rv \<and>
             revision_Write (ar_revisions ar) (Promote (re_sha e) t b rv) = Inr (ar_revisions ar'))))"
proof (cases "rp_LoadEnvironmentByName (re_repo e) (rq_EnvName req)")
  case (Inl err)
  then show ?thesis using assms by (auto simp: run_deploy_def)
next
  case (Inr env)
  let ?st = "deploy_all e root (run_dir req res) env plan (ar_calls ar)"
  let ?res1 = "res\<lparr>rr_DeployStatus := (if ds_ok ?st then ''success'' else ''failed'')\<rparr>"
  let ?ar1 = "ar\<lparr>ar_calls := ds_calls ?st\<rparr>"
  define ar2 where "ar2 = (if re_io_ok e ''deploy-result''
      then ?ar1\<lparr>ar_deploys := AList.update (rr_RunID res) (deploy_report e req ?res1 ?st) (ar_deploys ?ar1)\<rparr> else ?ar1)"
  let ?o = "record_outcome e req written ?st ?res1 ar2"
  let ?u = "update_shadow e req rel (fst ?o) (snd ?o)"
  have run: "r = Inr (fst ?u)" "ar' = snd ?u"
    using assms Inr by (auto simp: run_deploy_def Let_def ar2_def run_dir_def split: prod.splits)
  have ar2: "ar_calls ar2 = ds_calls ?st" "ar_revisions ar2 = ar_revisions ar" by (simp_all add: ar2_def)
  have id: "rr_RevisionID (fst ?o) = rr_RevisionID res"
    by (auto simp: record_outcome_def split: option.splits prod.splits)
  have "ds_ok ?st \<and> (\<exists>rv t b. written = Some rv \<and>
      revision_Write (ar_revisions ar) (Promote (re_sha e) t b rv) = Inr (ar_revisions ar'))"
    if "rr_Promoted (fst ?u)" "\<not> rr_Promoted res"
  proof -
    have "rr_Promoted (fst ?o)" "\<not> rr_Promoted ?res1" using that by simp_all
    from record_outcome_promoted [OF this] obtain rv t b where o: "written = Some rv" "ds_ok ?st"
      "revision_Write (ar_revisions ar2) (Promote (re_sha e) t b rv) = Inr (ar_revisions (snd ?o))" by blast
    have "ar_revisions (snd ?o) = ar_revisions ar'" by (simp add: run(2))
    with o ar2(2) show ?thesis by metis
  qed
  moreover have "ar_calls ar' = ds_calls ?st" "rr_RevisionID (fst ?u) = rr_RevisionID res"
    by (simp_all add: run(2) ar2 id)
  ultimately show ?thesis using Inr run(1) by blast
qed

lemma run_deploy_dry_facts:
  assumes "run_deploy_dry e req rel written res ar = (res', ar')"
  shows "ar_calls ar' = ar_calls ar" "rr_RevisionID res' = rr_RevisionID res"
    "rr_Promoted res' \<Longrightarrow> \<not> rr_Promoted res \<Longrightarrow>
       \<exists>rv t b. written = Some rv \<and> revision_Write (ar_revisions ar) (Promote (re_sha e) t b rv) = Inr (ar_revisions ar')"
proof -
  let ?res1 = "res\<lparr>rr_DeployStatus := ''skipped (deploy-dry-run)'', rr_VerifyResult := ''skipped (deploy-dry-run)''\<rparr>"
  have dry: "run_deploy_dry e req rel written res ar = (case written of
       None \<Rightarrow> update_shadow e req rel ?res1 ar
     | Some rv \<Rightarrow> (let p = update_revision (Promote (re_sha e) (re_clock e 7) (baseline_of req (rr_RunID res)) rv) ar
         in update_shadow e req rel (if fst p then ?res1\<lparr>rr_Promoted := True\<rparr> else ?res1) (snd p)))"
    by (auto simp: run_deploy_dry_def Let_def split: option.splits prod.splits)
  have r: "res' = fst (run_deploy_dry e req rel written res ar)" "ar' = snd (run_deploy_dry e req rel written res ar)"
    using assms by simp_all
  show "ar_calls ar' = ar_calls ar" "rr_RevisionID res' = rr_RevisionID res"
    unfolding r dry by (auto simp: Let_def split: option.splits)
  show "\<exists>rv t b. written = Some rv \<and> revision_Write (ar_revisions ar) (Promote (re_sha e) t b rv) = Inr (ar_revisions ar')"
    if "rr_Promoted res'" "\<not> rr_Promoted res"
  proof -
    from that obtain rv where rv: "written = Some rv"
      and ok: "fst (update_revision (Promote (re_sha e) (re_clock e 7) (baseline_of req (rr_RunID res)) rv) ar)"
      unfolding r dry by (auto simp: Let_def split: option.splits if_splits)
    have "ar_revisions ar' = ar_revisions (snd (update_revision
        (Promote (re_sha e) (re_clock e 7) (baseline_of req (rr_RunID res)) rv) ar))"
      unfolding r dry by (simp add: rv Let_def)
    with update_revision_ok [OF ok] rv show ?thesis by metis
  qed
qed

text \<open>What a pass that got past the plan has done.\<close>

lemma run_planned_facts:
  assumes run: "run_planned e root req rel plan res ar = (r, ar')"
  shows "(ar_calls ar' = ar_calls ar \<or>
      (\<not> rq_DryRun req \<and> \<not> rq_DeployDryRun req \<and>
       (\<exists>env runDir. rp_LoadEnvironmentByName (re_repo e) (rq_EnvName req) = Inr env \<and>
         ar_calls ar' = ds_calls (deploy_all e root runDir env plan (ar_calls ar)))))"
    and "r = Inr res' \<Longrightarrow> rr_Promoted res' \<Longrightarrow> \<not> rr_Promoted res \<Longrightarrow>
      \<exists>rv d t b. revision_life (re_sha e) (re_files e) plan rv \<and> bv_CreatedAt rv = re_clock e 3 \<and>
        bv_RevisionID rv = NewRevisionID (re_sha e) (pn_Release plan) (pn_Environment plan) (re_clock e 3) \<and>
        rr_RevisionID res' = bv_RevisionID rv \<and>
        revision_Write (ar_revisions ar) rv = Inr d \<and>
        revision_Write d (Promote (re_sha e) t b rv) = Inr (ar_revisions ar')"
    and "r = Inr res' \<Longrightarrow> rr_Promoted res' \<Longrightarrow> \<not> rr_Promoted res \<Longrightarrow> \<not> rq_DeployDryRun req \<Longrightarrow>
      \<exists>env runDir. rp_LoadEnvironmentByName (re_repo e) (rq_EnvName req) = Inr env \<and>
        ar_calls ar' = ds_calls (deploy_all e root runDir env plan (ar_calls ar)) \<and>
        ds_ok (deploy_all e root runDir env plan (ar_calls ar))"
proof -
  define ar1 where
    "ar1 = (if re_io_ok e ''plan'' then ar\<lparr>ar_plans := AList.update (rr_RunID res) plan (ar_plans ar)\<rparr> else ar)"
  obtain written ar2 where rp: "record_plan e root req rel plan ar1 = (written, ar2)" by fastforce
  define res2 where "res2 = (case written of None \<Rightarrow> res | Some rv \<Rightarrow> res\<lparr>rr_RevisionID := bv_RevisionID rv\<rparr>)"
  have ar1: "ar_calls ar1 = ar_calls ar" "ar_revisions ar1 = ar_revisions ar" by (simp_all add: ar1_def)
  have ar2: "ar_calls ar2 = ar_calls ar" using record_plan_frame [of e root req rel plan ar1] rp ar1 by simp
  have prom2: "rr_Promoted res2 = rr_Promoted res" by (simp add: res2_def split: option.splits)
  have run': "(r, ar') = (if rq_DryRun req
         then (Inr (res2\<lparr>rr_DeployStatus := ''skipped (dry-run)'', rr_VerifyResult := ''skipped (dry-run)''\<rparr>), ar2)
         else if rq_DeployDryRun req then map_prod Inr id (run_deploy_dry e req rel written res2 ar2)
         else run_deploy e root req rel plan written res2 ar2)"
    using run by (simp add: run_planned_def ar1_def [symmetric] rp res2_def [symmetric])
  consider (dry) "rq_DryRun req" "r = Inr (res2\<lparr>rr_DeployStatus := ''skipped (dry-run)'', rr_VerifyResult := ''skipped (dry-run)''\<rparr>)" "ar' = ar2"
    | (ddry) x where "\<not> rq_DryRun req" "rq_DeployDryRun req" "run_deploy_dry e req rel written res2 ar2 = (x, ar')" "r = Inr x"
    | (dep) "\<not> rq_DryRun req" "\<not> rq_DeployDryRun req" "run_deploy e root req rel plan written res2 ar2 = (r, ar')"
    using run' by (cases "run_deploy_dry e req rel written res2 ar2") (auto split: if_splits)
  note mode = this
  show "(ar_calls ar' = ar_calls ar \<or>
      (\<not> rq_DryRun req \<and> \<not> rq_DeployDryRun req \<and>
       (\<exists>env runDir. rp_LoadEnvironmentByName (re_repo e) (rq_EnvName req) = Inr env \<and>
         ar_calls ar' = ds_calls (deploy_all e root runDir env plan (ar_calls ar)))))"
    using mode
  proof cases
    case dep
    with run_deploy_facts [OF dep(3)] ar2 show ?thesis by auto
  qed (use ar2 run_deploy_dry_facts(1) in auto)
  show "\<exists>rv d t b. revision_life (re_sha e) (re_files e) plan rv \<and> bv_CreatedAt rv = re_clock e 3 \<and>
        bv_RevisionID rv = NewRevisionID (re_sha e) (pn_Release plan) (pn_Environment plan) (re_clock e 3) \<and>
        rr_RevisionID res' = bv_RevisionID rv \<and>
        revision_Write (ar_revisions ar) rv = Inr d \<and>
        revision_Write d (Promote (re_sha e) t b rv) = Inr (ar_revisions ar')"
    if "r = Inr res'" "rr_Promoted res'" "\<not> rr_Promoted res"
  proof -
    have "\<exists>rv t b. written = Some rv \<and> rr_RevisionID res' = rr_RevisionID res2 \<and>
        revision_Write (ar_revisions ar2) (Promote (re_sha e) t b rv) = Inr (ar_revisions ar')"
      using mode
    proof cases
      case (ddry x)
      with run_deploy_dry_facts(2,3) [OF ddry(3)] that prom2 show ?thesis by auto
    next
      case dep
      with run_deploy_facts [OF dep(3)] that prom2 show ?thesis by auto
    qed (use that prom2 in auto)
    then obtain rv t b where rv: "written = Some rv" "rr_RevisionID res' = rr_RevisionID res2"
      "revision_Write (ar_revisions ar2) (Promote (re_sha e) t b rv) = Inr (ar_revisions ar')" by blast
    note w = record_plan_written [OF rp [unfolded rv(1)]]
    show ?thesis
      by (intro exI [of _ rv] exI [of _ "ar_revisions ar2"] exI [of _ t] exI [of _ b])
        (use w rv ar1 in \<open>simp add: res2_def\<close>)
  qed
  show "\<exists>env runDir. rp_LoadEnvironmentByName (re_repo e) (rq_EnvName req) = Inr env \<and>
        ar_calls ar' = ds_calls (deploy_all e root runDir env plan (ar_calls ar)) \<and>
        ds_ok (deploy_all e root runDir env plan (ar_calls ar))"
    if "r = Inr res'" "rr_Promoted res'" "\<not> rr_Promoted res" "\<not> rq_DeployDryRun req"
    using mode
  proof cases
    case dep
    with run_deploy_facts [OF dep(3)] that prom2 ar2 show ?thesis by auto
  qed (use that prom2 in auto)
qed


section \<open>Properties of a pass\<close>

lemma plan_override_frame [simp]:
  "component_namespace (plan_override cp c) = component_namespace c" "bc_Name (plan_override cp c) = bc_Name c"
  "bc_Dependencies (plan_override cp c) = bc_Dependencies c"
  by (simp_all add: plan_override_def component_namespace_def Let_def)

text \<open>The request made for a planned component is about the component the plan was made for.\<close>

lemma planned_request:
  assumes pl: "planned repo lib rel env comps ordered plan" and wn: "well_named repo" and r: "re_repo e = repo"
    and i: "i < length (pn_Components plan)" and q: "request_for e root runDir env' (pn_Components plan ! i) q"
  shows "component_namespace (dq_Component q) = cp_Namespace (pn_Components plan ! i)"
    "bc_Name (dq_Component q) = cf_Name (ordered ! i)" "dq_Environment q = env'"
    "\<exists>c. comps (cf_Name (ordered ! i)) = Some c \<and> bc_Dependencies (dq_Component q) = bc_Dependencies c"
proof -
  note pc = planned_facts [OF pl i]
  have sub: "set ordered \<subseteq> set (br_Components rel)" using pl by (auto simp: planned_def dest: Order_subset)
  then have "cf_Name (ordered ! i) \<in> cf_Name ` set (br_Components rel)" using nth_mem [OF pc(2)] by blast
  then obtain c where c: "rp_LoadComponentByName repo (cf_Name (ordered ! i)) = Inr c" "comps (cf_Name (ordered ! i)) = Some c"
    using pl load_refs_loaded(1) unfolding planned_def LoadComps_def by blast
  have n: "cp_Name (pn_Components plan ! i) = cf_Name (ordered ! i)"
    using planned_names [OF pl wn sub] i pc(2) by (metis nth_map)
  have comp: "component_of comps (cf_Name (ordered ! i)) = c" by (simp add: component_of_def c)
  show "component_namespace (dq_Component q) = cp_Namespace (pn_Components plan ! i)"
    "bc_Name (dq_Component q) = cf_Name (ordered ! i)" "dq_Environment q = env'"
    "\<exists>c. comps (cf_Name (ordered ! i)) = Some c \<and> bc_Dependencies (dq_Component q) = bc_Dependencies c"
    using q c n plan_component_facts(2) [OF pc(3)] wn
    by (auto simp: request_for_def r comp well_named_def)
qed

lemma planned_namespaces:
  assumes "planned repo lib rel env comps ordered plan" "violation_texts (pn_Components plan) = []"
    "cp \<in> set (pn_Components plan)"
  shows "cp_Namespace cp \<in> set (np_Allowed (be_NamespacePolicy env))" "deployable cp"
proof -
  obtain i where i: "i < length (pn_Components plan)" "cp = pn_Components plan ! i"
    using assms(3) by (auto simp: in_set_conv_nth)
  have "cp_Action cp \<noteq> ''violation''" using assms(2,3) by (auto simp: violation_texts_def filter_empty_conv)
  then show "cp_Namespace cp \<in> set (np_Allowed (be_NamespacePolicy env))" "deployable cp"
    using plan_component_facts(6) [OF planned_facts(3) [OF assms(1) i(1)]] i(2)
    by (auto simp: deployable_def split: if_splits)
qed

lemma run_release_plan:
  "run_release e req = Inr rel \<longleftrightarrow> plan_release (re_repo e) (rq_Release req) (rq_ReleaseName req) = Inr rel"
  by (auto simp: run_release_def plan_release_def split: option.splits sum.splits)

lemma deploy_all_fold:
  "deploy_all e root runDir env plan calls = fold (deploy_component e root runDir env) (pn_Components plan)
     \<lparr>ds_ok = True, ds_deploys = [], ds_reasons = [], ds_calls = calls\<rparr>"
  by (simp add: deploy_all_def)

text \<open>C35: Whatever a pass ends with, it only adds to the requests made to adapters; each of them is for
  a component whose namespace the environment allows, and a dry run makes none.\<close>

theorem Run_calls_allowed:
  assumes "Run e req ar = (r, ar')" "well_named (re_repo e)"
  shows "\<exists>calls. ar_calls ar' = ar_calls ar @ calls \<and>
    (\<forall>q \<in> set calls. rp_LoadEnvironmentByName (re_repo e) (rq_EnvName req) = Inr (dq_Environment q) \<and>
       component_namespace (dq_Component q) \<in> set (np_Allowed (be_NamespacePolicy (dq_Environment q)))) \<and>
    (rq_DryRun req \<or> rq_DeployDryRun req \<longrightarrow> calls = [])"
proof (cases rule: Run_cases [of e req ar])
  case (early r')
  then show ?thesis using assms(1) by simp
next
  case (planned root rel plan res)
  have run: "run_planned e root req rel plan res ar = (r, ar')" using planned(1) assms(1) by simp
  obtain env comps ordered where env: "rp_LoadEnvironmentByName (re_repo e) (rq_EnvName req) = Inr env"
    and pl: "planned (re_repo e) (re_lib e) rel env comps ordered plan"
    and v: "violation_texts (pn_Components plan) = []"
    using Planner_Plan_Inr [OF planned(3)] planned(2,4) run_release_plan [of e req rel]
    by (metis (no_types, lifting) append_is_Nil_conv sum.inject(2))
  from run_planned_facts(1) [OF run] show ?thesis
  proof (elim disjE exE conjE)
    fix env' runDir
    assume nd: "\<not> rq_DryRun req" "\<not> rq_DeployDryRun req"
      and env': "rp_LoadEnvironmentByName (re_repo e) (rq_EnvName req) = Inr env'"
      and calls: "ar_calls ar' = ds_calls (deploy_all e root runDir env' plan (ar_calls ar))"
    have eq: "env' = env" using env env' by simp
    obtain new where new: "ar_calls ar' = ar_calls ar @ new"
      "\<forall>q \<in> set new. \<exists>cp \<in> set (pn_Components plan). request_for e root runDir env cp q"
      using deploy_fold [of e root runDir env "pn_Components plan"
          "\<lparr>ds_ok = True, ds_deploys = [], ds_reasons = [], ds_calls = ar_calls ar\<rparr>"] calls
      unfolding deploy_all_fold eq by auto
    have "dq_Environment q = env \<and> component_namespace (dq_Component q) \<in> set (np_Allowed (be_NamespacePolicy env))"
      if q: "q \<in> set new" for q
    proof -
      obtain cp where cp: "cp \<in> set (pn_Components plan)" "request_for e root runDir env cp q"
        using bspec [OF new(2) q] by (elim bexE)
      obtain i where "i < length (pn_Components plan)" "cp = pn_Components plan ! i"
        using cp(1) by (auto simp: in_set_conv_nth)
      with cp(2) have i: "i < length (pn_Components plan)" "request_for e root runDir env (pn_Components plan ! i) q"
        by simp_all
      note pr = planned_request [OF pl assms(2) refl i]
      show ?thesis using pr(1,3) planned_namespaces(1) [OF pl v nth_mem [OF i(1)]] by simp
    qed
    then show ?thesis using new(1) env nd by blast
  qed simp
qed




section \<open>Convergence\<close>

text \<open>Against a revision that records the plan of a release, the release is in sync.\<close>

lemma promoted_in_sync:
  assumes pl: "planned repo lib rel env comps ordered plan" and wn: "well_named repo"
    and dist: "distinct (map cf_Name (br_Components rel))" and v: "violation_texts (pn_Components plan) = []"
    and ids: "map identity_of (bv_Components rv) = map planned_identity (filter (\<lambda>cp. cp_Action cp \<noteq> ''violation'') (pn_Components plan))"
    and ref: "ref \<in> set (br_Components rel)"
  shows "sync_status (actual_revs (Some rv)) ref = ''in-sync''"
proof -
  have o: "Order rel comps = Inr ordered" using pl by (simp add: planned_def)
  note sub = Order_subset [OF o] and perm = conjunct1 [OF Order_permutes [OF dist o]]
  have all: "filter (\<lambda>cp. cp_Action cp \<noteq> ''violation'') (pn_Components plan) = pn_Components plan"
    using v by (auto simp: violation_texts_def filter_empty_conv)
  have "map cr_Name (bv_Components rv) = map fst (map identity_of (bv_Components rv))" by (simp add: identity_of_def)
  also have "\<dots> = map cp_Name (pn_Components plan)" unfolding ids all by (simp add: planned_identity_def)
  also have "\<dots> = map cf_Name ordered" by (rule planned_names [OF pl wn sub])
  finally have names: "map cr_Name (bv_Components rv) = map cf_Name ordered" .
  have "mset (map cf_Name ordered) = mset (map cf_Name (br_Components rel))" using perm by simp
  then have dist': "distinct (map cr_Name (bv_Components rv))"
    unfolding names using dist mset_eq_imp_distinct_iff by blast
  have "ref \<in> set ordered" using ref mset_eq_setD [OF perm] by simp
  then obtain i where i: "i < length ordered" "ordered ! i = ref" by (auto simp: in_set_conv_nth)
  have len: "length (bv_Components rv) = length ordered" "length (pn_Components plan) = length ordered"
    using names pl by (auto simp: planned_def dest: map_eq_imp_length_eq list_all2_lengthD)
  let ?cr = "bv_Components rv ! i"
  have cr: "identity_of ?cr = planned_identity (pn_Components plan ! i)"
    using arg_cong [OF ids, of "\<lambda>l. l ! i"] i len by (simp add: all)
  have pc: "plan_component lib (np_Allowed (be_NamespacePolicy env)) comps ref = Inr (pn_Components plan ! i)"
    using planned_facts(3) [OF pl, of i] i len by simp
  have "cr_Name ?cr = cf_Name ref" using arg_cong [OF names, of "\<lambda>l. l ! i"] i len by simp
  moreover have "componentIdentityInSync ref ?cr"
    using cr plan_component_facts(3,4) [OF pc]
    by (simp add: identity_of_def planned_identity_def componentIdentityInSync_def)
  moreover have "?cr \<in> set (bv_Components rv)" using i len by simp
  ultimately have "actual_revs (Some rv) (cf_Name ref) = Some ?cr" using dist' by (subst actual_revs_Some) auto
  with \<open>componentIdentityInSync ref ?cr\<close> show ?thesis by (simp add: sync_status_def)
qed

lemma NewRevisionID_not_Nil [simp]: "NewRevisionID sha rel env t \<noteq> []"
  by (simp add: NewRevisionID_def Let_def)

lemma Run_promoted_latest:
  assumes run: "Run e req ar = (Inr res', ar')" and prom: "rr_Promoted res'"
    and newest: "\<And>i r. revision_Read (ar_revisions ar) i = Inr r \<Longrightarrow> bv_CreatedAt r < re_clock e 3"
  obtains rel plan rv where "run_release e req = Inr rel"
    "Planner_Plan (re_repo e) (re_lib e) (rq_Release req) (re_clock e 2) (compact_stamp (re_clock e 0))
       (rq_ReleaseName req) (rq_EnvName req) = Inr plan" "pn_Violations plan = []"
    "revision_life (re_sha e) (re_files e) plan rv" "bv_RevisionID rv \<noteq> []" "bv_PromotionStatus rv = ''promoted''"
    "latest_promoted (pn_Release plan) (revision_List (ar_revisions ar')) = Some rv"
proof (cases rule: Run_cases [of e req ar])
  case (early r')
  then show thesis using run prom by simp
next
  case (planned root rel plan res)
  have run': "run_planned e root req rel plan res ar = (Inr res', ar')" using planned(1) run by simp
  obtain rv d t b where life: "revision_life (re_sha e) (re_files e) plan rv" and at: "bv_CreatedAt rv = re_clock e 3"
    and rid: "bv_RevisionID rv = NewRevisionID (re_sha e) (pn_Release plan) (pn_Environment plan) (re_clock e 3)"
    and w1: "revision_Write (ar_revisions ar) rv = Inr d"
    and w2: "revision_Write d (Promote (re_sha e) t b rv) = Inr (ar_revisions ar')"
    using run_planned_facts(2) [OF run' refl prom planned(5)] by blast
  let ?p = "Promote (re_sha e) t b rv"
  have p: "bv_RevisionID ?p = bv_RevisionID rv" "bv_CreatedAt ?p = re_clock e 3" "bv_PromotionStatus ?p = ''promoted''"
    by (simp_all add: Promote_def at)
  have life_p: "revision_life (re_sha e) (re_files e) plan ?p" using life by (rule revision_life.promoted)
  have rel_p: "bv_Release ?p = pn_Release plan"
    using life_p by induction (simp_all add: revision_ops Let_def)
  have "revisions.older_than (ar_revisions ar) ?p"
    using newest p(2) unfolding revisions.older_than_def by auto
  then have old: "revisions.older_than d ?p" by (rule revisions.older_than_write [OF _ w1 p(1) [symmetric]])
  have "latest_promoted (pn_Release plan) (revision_List (ar_revisions ar')) = Some ?p"
    unfolding latest_promoted_def by (rule revisions.found_after_write [OF old w2]) (use rel_p p(3) in simp)
  then show thesis by (rule that [OF planned(2,3,4) life_p, rotated 2]) (simp_all add: p rid)
qed

text \<open>C36: After a pass that promoted its revision, a pass that may skip finds every component of the
  release in sync: it deploys nothing and leaves the archive as it is. The clock of the first pass has
  to be later than the revisions on record, and the release filed under its own name.\<close>

theorem Run_converges:
  assumes "Run e req ar = (Inr res', ar')" "rr_Promoted res'" "well_named (re_repo e)"
    and rel: "run_release e req = Inr rel" "br_Name rel = rq_ReleaseName req"
    and dist: "distinct (map cf_Name (br_Components rel))"
    and "\<And>i r. revision_Read (ar_revisions ar) i = Inr r \<Longrightarrow> bv_CreatedAt r < re_clock e 3"
    and again: "re_Abs e2 (rq_BoriRoot req2) = Inr root" "run_release e2 req2 = Inr rel" "rq_SkipIfInSync req2"
      "re_io_ok e2 ''shadow-before''"
  shows "\<exists>res2. Run e2 req2 ar' = (Inr res2, ar') \<and> rr_DeployStatus res2 = ''skipped'' \<and> \<not> rr_DriftDetected res2"
proof -
  obtain rel' plan rv where 2: "run_release e req = Inr rel'"
    "Planner_Plan (re_repo e) (re_lib e) (rq_Release req) (re_clock e 2) (compact_stamp (re_clock e 0))
       (rq_ReleaseName req) (rq_EnvName req) = Inr plan" "pn_Violations plan = []"
    "revision_life (re_sha e) (re_files e) plan rv" "bv_RevisionID rv \<noteq> []"
    "latest_promoted (pn_Release plan) (revision_List (ar_revisions ar')) = Some rv"
  proof (rule Run_promoted_latest [OF assms(1,2)])
    show "bv_CreatedAt r < re_clock e 3" if "revision_Read (ar_revisions ar) i = Inr r" for i r
      using that by (rule assms(7))
  qed (rule that)
  have rel': "rel' = rel" using 2(1) rel by simp
  obtain env comps ordered where pl: "planned (re_repo e) (re_lib e) rel env comps ordered plan"
    and v: "violation_texts (pn_Components plan) = []" and pr: "pn_Release plan = rq_ReleaseName req"
    using Planner_Plan_Inr [OF 2(2)] 2(1,3) run_release_plan [of e req rel'] rel'
    by (metis (no_types, lifting) append_is_Nil_conv sum.inject(2))
  have ids: "map identity_of (bv_Components rv) =
      map planned_identity (filter (\<lambda>cp. cp_Action cp \<noteq> ''violation'') (pn_Components plan))"
    using 2(4) by induction (simp_all add: revision_ops Let_def o_def)
  have latest: "latest_promoted (br_Name rel) (revision_List (ar_revisions ar')) = Some rv"
    using 2(6) rel(2) pr by simp
  have "\<not> drift_detected (run_shadow e2 ''shadow-before'' 1 rel ar')"
    using promoted_in_sync [OF pl assms(3) dist v ids] again(4) 2(5)
    by (auto simp: run_shadow_def drift_detected_def shadow_Reconcile_def Let_def latest list_ex_iff drift_item_def)
  then show ?thesis using again by (simp add: Run_def Let_def)
qed


section \<open>Instances\<close>

text \<open>The release of four components against an empty archive, with an adapter that accepts everything.\<close>

definition demo_run_env :: run_env where
  "demo_run_env =
     \<lparr>re_repo = demo_repository [''a-system'', ''b-system'', ''c-system'', ''d-system''], re_lib = demo_lib,
      re_sha = id, re_files = (\<lambda>_. None), re_Abs = Inr, re_clock = (\<lambda>k. 10 + int k), re_io_ok = (\<lambda>_. True),
      re_adapters = (\<lambda>n. if n = ''kustomize''
        then Some (\<lambda>_ _. (None, Some \<lparr>dr_Success = True, dr_Message = ''ok'', dr_ManifestPath = []\<rparr>)) else None)\<rparr>"

definition demo_request :: "string \<Rightarrow> Request" where
  "demo_request env = \<lparr>rq_BoriRoot = ''/bori'', rq_AppsDir = ''/apps'', rq_BoriDir = ''/run'', rq_ReleaseName = ''demo'',
     rq_EnvName = env, rq_DryRun = False, rq_DeployDryRun = False, rq_SkipIfInSync = True, rq_Release = None\<rparr>"

definition empty_archive :: archive where
  "empty_archive = \<lparr>ar_revisions = None, ar_plans = [], ar_rollouts = [], ar_deploys = [], ar_shadow = [], ar_calls = []\<rparr>"

definition demo_pass :: "(run_error + RunResult) \<times> archive" where
  "demo_pass = Run demo_run_env (demo_request ''dev'') empty_archive"

definition demo_result :: RunResult where
  "demo_result = projr (fst demo_pass)"

lemma demo_pass_promoted: "(case fst demo_pass of Inl _ \<Rightarrow> False | Inr res \<Rightarrow> rr_Promoted res) \<and>
    length (ar_calls (snd demo_pass)) = 4"
  by code_simp

lemma demo_pass_eq: "Run demo_run_env (demo_request ''dev'') empty_archive = (Inr demo_result, snd demo_pass)"
  and demo_promoted: "rr_Promoted demo_result"
  using demo_pass_promoted unfolding demo_result_def demo_pass_def
  by (cases "Run demo_run_env (demo_request ''dev'') empty_archive"; auto split: sum.splits)+

lemma demo_run_facts:
  "well_named (re_repo demo_run_env)" "run_release demo_run_env (demo_request env) = Inr (demo_release demo_refs)"
  "\<not> rq_DeployDryRun (demo_request env)" "rq_SkipIfInSync (demo_request env)" "br_Name (demo_release demo_refs) = ''demo''"
  "rq_ReleaseName (demo_request env) = ''demo''" "re_io_ok demo_run_env s"
  "re_Abs demo_run_env (rq_BoriRoot (demo_request env)) = Inr ''/bori''"
  using demo_well_named
  by (simp_all add: demo_run_env_def demo_request_def run_release_def demo_repository_def demo_release_def)

theorem Run_calls_allowed_witness:
  "\<exists>calls. ar_calls (snd demo_pass) = calls \<and> length calls = 4 \<and>
     (\<lambda>q. component_namespace (dq_Component q)) ` set calls \<subseteq> {''a-system'', ''b-system'', ''c-system'', ''d-system''}"
proof -
  have "be_NamespacePolicy (dq_Environment q) =
      be_NamespacePolicy (demo_environment [''a-system'', ''b-system'', ''c-system'', ''d-system''])"
    if "rp_LoadEnvironmentByName (re_repo demo_run_env) n = Inr (dq_Environment q)" for q n
    using that by (simp add: demo_run_env_def demo_repository_def)
  then show ?thesis
    using Run_calls_allowed [OF demo_pass_eq demo_run_facts(1)] demo_pass_promoted
    by (fastforce simp: empty_archive_def demo_environment_def)
qed


text \<open>The second pass is asked about another environment: shadow mode does not tell them apart.\<close>

theorem Run_converges_witness:
  "\<exists>res. Run demo_run_env (demo_request ''prod'') (snd demo_pass) = (Inr res, snd demo_pass) \<and>
     rr_DeployStatus res = ''skipped''"
proof -
  have empty: "bv_CreatedAt r < re_clock demo_run_env 3" if "revision_Read (ar_revisions empty_archive) i = Inr r" for i r
    using that by (simp add: empty_archive_def revision_Read_def dir_entries_def)
  have "\<exists>res. Run demo_run_env (demo_request ''prod'') (snd demo_pass) = (Inr res, snd demo_pass) \<and>
      rr_DeployStatus res = ''skipped'' \<and> \<not> rr_DriftDetected res"
  proof (rule Run_converges [OF demo_pass_eq demo_promoted demo_run_facts(1) demo_run_facts(2)])
    show "br_Name (demo_release demo_refs) = rq_ReleaseName (demo_request ''dev'')" by (simp add: demo_run_facts)
  qed (rule demo_refs_distinct demo_run_facts empty; assumption?)+
  then show ?thesis by blast
qed

end
