(* ===== verification/Verify_Gate.thy ===== *)
theory Verify_Gate
  imports Release_Compat
begin

text \<open>
  The verification gate (pkg/verification): severities of gate results, which results block a promotion
  under which policy, the decision recorded for a run of the gate tool, and the check of the tool's
  version. The gate tool and its output file are outside: what running it leaves is a parameter.

  A gate result is whatever text the tool's summary holds; the four known ones have names.
\<close>

section \<open>Results and policies\<close>

definition GateResultPass :: string where "GateResultPass = ''PASS''"
definition GateResultWarn :: string where "GateResultWarn = ''WARN''"
definition GateResultNoGrade :: string where "GateResultNoGrade = ''NO_GRADE''"
definition GateResultFail :: string where "GateResultFail = ''FAIL''"

definition FailOnNever :: string where "FailOnNever = ''NEVER''"
definition FailOnFail :: string where "FailOnFail = ''FAIL''"
definition FailOnFailOrNoGrade :: string where "FailOnFailOrNoGrade = ''FAIL_OR_NOGRADE''"
definition FailOnWarn :: string where "FailOnWarn = ''WARN''"

lemmas gate_names = GateResultPass_def GateResultWarn_def GateResultNoGrade_def GateResultFail_def
  FailOnNever_def FailOnFail_def FailOnFailOrNoGrade_def FailOnWarn_def

definition severity :: "string \<Rightarrow> int" where
  "severity g =
     (if g = GateResultPass then 0 else if g = GateResultWarn then 1 else if g = GateResultNoGrade then 2
      else if g = GateResultFail then 3 else 2)"

definition gate_Max :: "string \<Rightarrow> string \<Rightarrow> string" where
  "gate_Max a b = (if severity a \<ge> severity b then a else b)"

definition IsBlocking :: "string \<Rightarrow> string \<Rightarrow> bool" where
  "IsBlocking result failOn =
     (if failOn = FailOnNever then False
      else if failOn = FailOnFail then result = GateResultFail
      else if failOn = FailOnFailOrNoGrade then result = GateResultFail \<or> result = GateResultNoGrade
      else if failOn = FailOnWarn then severity result \<ge> severity GateResultWarn
      else result = GateResultFail \<or> result = GateResultNoGrade)"

section \<open>A run of the gate\<close>

record VerifyRequest =
  vq_RunID :: string
  vq_App :: string
  vq_Profile :: string
  vq_PolicyPath :: string
  vq_MeasurementSummaryPath :: string
  vq_FailOn :: string
  vq_OutDir :: string

record VerifyResult =
  vs_App :: string
  vs_GateResult :: string
  vs_Message :: string
  vs_SummaryPath :: string
  vs_GatePath :: string

record VerificationRun =
  vn_SchemaVersion :: string
  vn_RunID :: string
  vn_App :: string
  vn_Release :: string
  vn_Environment :: string
  vn_Provider :: string
  vn_MeasurementSummaryPath :: string
  vn_GateSummaryPath :: string
  vn_GateResult :: string
  vn_PromotionDecision :: string
  vn_StartedAt :: instant
  vn_FinishedAt :: instant

text \<open>What running the tool leaves at the output path: nothing, a file that does not decode, or a summary
  with a result and a message.\<close>

datatype gate_output = NoOutput | BadOutput string | Summary string string

definition readGateSummary :: "gate_output \<Rightarrow> string + string \<times> string" where
  "readGateSummary out =
     (case out of
        Summary result message \<Rightarrow> Inr (if result = [] then GateResultNoGrade else result, message)
      | BadOutput err \<Rightarrow> Inl err
      | NoOutput \<Rightarrow> Inl ''no such file'')"

text \<open>\<open>KubeSlintProvider.Run\<close>: the error of the command, its output, the two clock readings. The run record
  is written beside the result.\<close>

definition gate_path :: "VerifyRequest \<Rightarrow> string" where
  "gate_path req = vq_OutDir req @ ''/'' @ vq_App req @ ''-gate-summary.json''"

definition KubeSlint_Run :: "VerifyRequest \<Rightarrow> string option \<Rightarrow> gate_output \<Rightarrow> instant \<Rightarrow> instant \<Rightarrow>
    string + VerifyResult \<times> VerificationRun" where
  "KubeSlint_Run req runErr out startedAt finishedAt =
     (if out = NoOutput then
        Inl (case runErr of Some err \<Rightarrow> ''slint-gate: '' @ err
                          | None \<Rightarrow> ''slint-gate produced no output at '' @ gate_path req)
      else case readGateSummary out of
             Inl err \<Rightarrow> Inl (''read gate summary: '' @ err)
           | Inr (gateResult, message) \<Rightarrow>
               Inr (\<lparr>vs_App = vq_App req, vs_GateResult = gateResult, vs_Message = message,
                     vs_SummaryPath = vq_MeasurementSummaryPath req, vs_GatePath = gate_path req\<rparr>,
                    \<lparr>vn_SchemaVersion = ''bori.verificationRun.v1'', vn_RunID = vq_RunID req, vn_App = vq_App req,
                     vn_Release = [], vn_Environment = [], vn_Provider = ''kube-slint'', vn_MeasurementSummaryPath = vq_MeasurementSummaryPath req,
                     vn_GateSummaryPath = gate_path req, vn_GateResult = gateResult,
                     vn_PromotionDecision = (if IsBlocking gateResult (vq_FailOn req) then ''blocked'' else ''eligible''),
                     vn_StartedAt = startedAt, vn_FinishedAt = finishedAt\<rparr>))"

section \<open>The decision\<close>

lemma severity_range: "0 \<le> severity g \<and> severity g \<le> 3"
  by (simp add: severity_def)

lemma severity_gate_Max: "severity (gate_Max a b) = max (severity a) (severity b)"
  by (simp add: gate_Max_def)

text \<open>The results the tool documents.\<close>

definition known_result :: "string \<Rightarrow> bool" where
  "known_result g \<longleftrightarrow> g \<in> {GateResultPass, GateResultWarn, GateResultNoGrade, GateResultFail}"

text \<open>The severity from which a policy blocks; 4 is never reached.\<close>

definition threshold :: "string \<Rightarrow> int" where
  "threshold failOn =
     (if failOn = FailOnNever then 4 else if failOn = FailOnFail then 3 else if failOn = FailOnWarn then 1 else 2)"

lemma IsBlocking_threshold: "known_result g \<Longrightarrow> IsBlocking g failOn \<longleftrightarrow> severity g \<ge> threshold failOn"
  by (auto simp: known_result_def IsBlocking_def threshold_def severity_def gate_names)

text \<open>C40: On the documented results a promotion is blocked exactly from the severity of the policy on, so
  that the most severe of several results blocks exactly when one of them does; an unknown policy is
  the strict one. An unknown result counts as NO_GRADE in the severity but does not block under any
  policy but WARN.\<close>

theorem gate_decision:
  assumes "known_result a" "known_result b" "\<not> known_result u"
  shows "(IsBlocking a failOn \<longleftrightarrow> severity a \<ge> threshold failOn) \<and>
    (IsBlocking (gate_Max a b) failOn \<longleftrightarrow> IsBlocking a failOn \<or> IsBlocking b failOn) \<and>
    severity u = severity GateResultNoGrade \<and> (IsBlocking u failOn \<longleftrightarrow> failOn = FailOnWarn)"
proof -
  have m: "known_result (gate_Max a b)" using assms by (simp add: gate_Max_def)
  have "IsBlocking u failOn \<longleftrightarrow> failOn = FailOnWarn" "severity u = severity GateResultNoGrade"
    using assms(3) by (auto simp: known_result_def IsBlocking_def severity_def gate_names)
  with assms m show ?thesis by (auto simp: IsBlocking_threshold severity_gate_Max)
qed

theorem gate_decision_witness:
  "\<not> IsBlocking ''BROKEN'' FailOnFailOrNoGrade \<and> IsBlocking (gate_Max GateResultPass GateResultFail) FailOnFail"
proof -
  have k: "known_result GateResultPass" "known_result GateResultFail" "\<not> known_result ''BROKEN''"
    by (simp_all add: known_result_def gate_names)
  show ?thesis
    using gate_decision [OF k, of FailOnFailOrNoGrade] gate_decision [OF k, of FailOnFail]
    by (simp add: IsBlocking_def gate_names)
qed


section \<open>The version of the gate tool\<close>

text \<open>\<open>fmt.Sscanf(v, "%d.%d.%d", ...)\<close>: numbers are read until the text stops matching, the rest keep
  their zero.\<close>

definition scan_int :: "string \<Rightarrow> (int \<times> string) option" where
  "scan_int s =
     (let (neg, t) = (case s of CHR ''-'' # t \<Rightarrow> (True, t) | CHR ''+'' # t \<Rightarrow> (False, t) | _ \<Rightarrow> (False, s));
          ds = takeWhile is_digit t; n = int (decimal_value ds); i = (if neg then - n else n)
      in if ds = [] \<or> i < min_int \<or> i > max_int then None else Some (i, dropWhile is_digit t))"

definition scan_dot :: "string \<Rightarrow> (int \<times> string) option" where
  "scan_dot s = (case s of CHR ''.'' # t \<Rightarrow> scan_int t | _ \<Rightarrow> None)"

definition parseSemver :: "string \<Rightarrow> int \<times> int \<times> int" where
  "parseSemver v =
     (case scan_int (TrimPrefix v ''v'') of
        None \<Rightarrow> (0, 0, 0)
      | Some (major, r1) \<Rightarrow>
          (case scan_dot r1 of
             None \<Rightarrow> (major, 0, 0)
           | Some (minor, r2) \<Rightarrow>
               (case scan_dot r2 of None \<Rightarrow> (major, minor, 0) | Some (patch, _) \<Rightarrow> (major, minor, patch))))"

definition versionSufficient :: "string \<Rightarrow> string \<Rightarrow> bool" where
  "versionSufficient detected required =
     (case (parseSemver detected, parseSemver required) of ((d0, d1, d2), (r0, r1, r2)) \<Rightarrow>
        if d0 \<noteq> r0 then d0 > r0 else if d1 \<noteq> r1 then d1 > r1 else d2 \<ge> r2)"

definition RequiredSlintGateVersion :: string where
  "RequiredSlintGateVersion = ''1.2.0''"

text \<open>\<open>strings.Fields\<close> on ASCII text.\<close>

definition is_space :: "char \<Rightarrow> bool" where
  "is_space c \<longleftrightarrow> (of_char c :: nat) \<in> {9, 10, 11, 12, 13, 32}"

function go_Fields :: "string \<Rightarrow> string list" where
  "go_Fields [] = []"
| "go_Fields (c # s) =
     (if is_space c then go_Fields s
      else (c # takeWhile (\<lambda>x. \<not> is_space x) s) # go_Fields (dropWhile (\<lambda>x. \<not> is_space x) s))"
  by pat_completeness auto
termination
  by (relation "measure length") (auto simp: le_imp_less_Suc length_dropWhile_le)

text \<open>The output of the tool's \<open>version\<close> command, or its error; the detected version comes with the
  warning.\<close>

definition CheckSlintGateVersion :: "string \<Rightarrow> string + string \<Rightarrow> string \<times> string option" where
  "CheckSlintGateVersion bin out =
     (case out of
        Inl err \<Rightarrow>
          ([], Some (bin @ '' version: binary not found or does not support 'version' subcommand '' @
                 map char_of [226::nat, 128, 148] @ '' install slint-gate v'' @ RequiredSlintGateVersion @ ''+: '' @ err))
      | Inr text \<Rightarrow>
          (let parts = go_Fields text in
           if parts = [] then ([], Some ''slint-gate version: empty output'')
           else let detected = last parts in
                if \<not> versionSufficient detected RequiredSlintGateVersion
                then (detected, Some (''slint-gate '' @ detected @ '' detected, require v'' @ RequiredSlintGateVersion @
                        ''+ '' @ map char_of [226::nat, 128, 148] @ '' K0-K5 features unavailable''))
                else (detected, None)))"

lemma versionSufficient_triple:
  "versionSufficient d r \<longleftrightarrow> triple_le (parseSemver r) (parseSemver d)"
  by (cases "parseSemver d"; cases "parseSemver r") (auto simp: versionSufficient_def)

lemma required_triple: "parseSemver RequiredSlintGateVersion = (1, 2, 0)"
  by code_simp

text \<open>A version that cannot be read counts as 0.0.0 and is reported as too old.\<close>

lemma unread_version_insufficient:
  assumes "scan_int (TrimPrefix d ''v'') = None"
  shows "\<not> versionSufficient d RequiredSlintGateVersion"
proof -
  have "parseSemver d = (0, 0, 0)" by (simp add: parseSemver_def assms)
  then show ?thesis by (simp add: versionSufficient_triple required_triple)
qed

end
