(* ===== verification/Investigate_Candidates.thy ===== *)
theory Investigate_Candidates
  imports Ops_Capability "HOL-Library.AList"
begin

text \<open>
  The inputs of an investigation (\<open>investigate/limits.go\<close>, \<open>requests.go\<close>, the data of \<open>providers/provider.go\<close>)
  and its hypotheses (\<open>candidates.go\<close>). A provider is an opaque value of type \<open>'p\<close>. Go maps whose iteration
  order is unspecified are association lists with distinct keys.
\<close>

section \<open>Limits\<close>

text \<open>\<open>RefreshFraction\<close> is only used to take a fraction of an age as a \<open>float64\<close> product; the field is that
  function.\<close>

record Limits =
  li_MaxCallsPerEpisode :: int
  li_MaxStepsPerEpisode :: int
  li_EpisodeDeadline :: duration
  li_PerCallTimeout :: duration
  li_MaxCandidates :: int
  li_MaxTraceEntries :: int
  li_MaxResidentEpisodes :: int
  li_MaxHeldObservations :: int
  li_EpisodeCooldown :: duration
  li_RefreshFraction :: "duration \<Rightarrow> duration"
  li_RunSlice :: duration

definition time_Second :: duration where "time_Second = 1000000000"

text \<open>Half of an age: the product with 0.5 is exact below \<open>2\<^sup>5\<^sup>3\<close> nanoseconds and conversion truncates.\<close>

definition half_age :: "duration \<Rightarrow> duration" where
  "half_age d = sgn d * (\<bar>d\<bar> div 2)"

definition ReferenceLimits :: Limits where
  "ReferenceLimits =
     \<lparr>li_MaxCallsPerEpisode = 6, li_MaxStepsPerEpisode = 8, li_EpisodeDeadline = 10 * time_Second,
      li_PerCallTimeout = 2 * time_Second, li_MaxCandidates = 32, li_MaxTraceEntries = 64,
      li_MaxResidentEpisodes = 256, li_MaxHeldObservations = 1024, li_EpisodeCooldown = 10 * time_Second,
      li_RefreshFraction = half_age, li_RunSlice = 20 * time_Second\<rparr>"

text \<open>\<open>ForConfig\<close> takes the per-call timeout the provider configuration gives, or its error.\<close>

definition ForConfig :: "'e + duration \<Rightarrow> 'e + Limits" where
  "ForConfig perCallTimeout =
     (case perCallTimeout of Inl err \<Rightarrow> Inl err | Inr d \<Rightarrow> Inr (ReferenceLimits\<lparr>li_PerCallTimeout := d\<rparr>))"

section \<open>Requests\<close>

record Subject =
  sj_Namespace :: string
  sj_APIVersion :: string
  sj_Kind :: string
  sj_Name :: string
  sj_ResolvedUID :: string

record ProviderRequest =
  rq_Key :: ApplicabilityKey
  rq_Subject :: Subject
  rq_SlotType :: ValueType

record ProviderResult =
  pr_Value :: Value
  pr_ObservedAt :: instant
  pr_ValidUntil :: instant
  pr_EvidenceRef :: string
  pr_Unavailable :: string

definition unavailable_result :: "string \<Rightarrow> ProviderResult" where
  "unavailable_result why =
     \<lparr>pr_Value = Value_zero, pr_ObservedAt = 0, pr_ValidUntil = 0, pr_EvidenceRef = [], pr_Unavailable = why\<rparr>"

definition provider_Observation :: "ProviderRequest \<Rightarrow> ProviderResult \<Rightarrow> instant \<Rightarrow> Observation" where
  "provider_Observation req res at =
     (if pr_Unavailable res \<noteq> []
      then \<lparr>o_Key = rq_Key req, o_Outcome = OutcomeProviderUnavailable, o_Value = Value_zero, o_ObservedAt = at,
            o_ValidUntil = 0, o_EvidenceRef = []\<rparr>
      else \<lparr>o_Key = rq_Key req, o_Outcome = OutcomeValue, o_Value = pr_Value res, o_ObservedAt = pr_ObservedAt res,
            o_ValidUntil = pr_ValidUntil res, o_EvidenceRef = pr_EvidenceRef res\<rparr>)"

record 'p Query =
  qy_Request :: ProviderRequest
  qy_Provider :: 'p
  qy_MaxAge :: duration

type_synonym 'p slots = "(string \<times> 'p Query) list"
type_synonym 'p Queries = "(string \<times> 'p slots) list"

definition slotOf :: "Contract \<Rightarrow> string \<Rightarrow> AssertionSlot option" where
  "slotOf c name = List.find (\<lambda>s. as_Name s = name) (c_Assertions c)"

text \<open>The map of contracts keeps the last one of an identity.\<close>

definition contract_map :: "Snapshot \<Rightarrow> ContractIdentity \<Rightarrow> Contract option" where
  "contract_map s = fold (\<lambda>c m. m(c_Identity c \<mapsto> c)) (s_Contracts s) (\<lambda>_. None)"

definition request_binding :: "(ProviderIdentity \<Rightarrow> 'p option) \<Rightarrow> Target \<Rightarrow> Subject \<Rightarrow> Contract \<Rightarrow> AssertionBinding \<Rightarrow>
    'p Queries \<Rightarrow> 'p Queries" where
  "request_binding lookup t subj c b out =
     (case slotOf c (ab_Slot b) of
        None \<Rightarrow> out
      | Some slot \<Rightarrow>
          (case lookup (ab_Provider b) of
             None \<Rightarrow> out
           | Some p \<Rightarrow>
               let uid = ti_UID (t_Identity t);
                   cur = (case map_of out uid of None \<Rightarrow> [] | Some m \<Rightarrow> m)
               in AList.update uid
                    (AList.update (ab_Slot b)
                      \<lparr>qy_Request = \<lparr>rq_Key = \<lparr>ak_Target = t_Identity t, ak_ResolvedUID = t_ResolvedUID t,
                          ak_Contract = t_ContractRef t, ak_Slot = ab_Slot b, ak_Provider = ab_Provider b\<rparr>,
                        rq_Subject = subj, rq_SlotType = as_Type slot\<rparr>,
                       qy_Provider = p, qy_MaxAge = as_MaxAge slot\<rparr> cur) out))"

definition request_target :: "Snapshot \<Rightarrow> (string \<Rightarrow> Subject option) \<Rightarrow> (ProviderIdentity \<Rightarrow> 'p option) \<Rightarrow> Target \<Rightarrow>
    'p Queries \<Rightarrow> 'p Queries" where
  "request_target s subjects lookup t out =
     (case subjects (ti_UID (t_Identity t)) of
        None \<Rightarrow> out
      | Some subj \<Rightarrow>
          if sj_ResolvedUID subj \<noteq> t_ResolvedUID t then out
          else (case contract_map s (t_ContractRef t) of
                  None \<Rightarrow> out
                | Some c \<Rightarrow> fold (request_binding lookup t subj c) (t_AssertionBindings t) out))"

definition Requests :: "Snapshot \<Rightarrow> (string \<Rightarrow> Subject option) \<Rightarrow> (ProviderIdentity \<Rightarrow> 'p option) \<Rightarrow> 'p Queries" where
  "Requests s subjects lookup = fold (request_target s subjects lookup) (s_Targets s) []"

section \<open>Candidates\<close>

datatype CandidateStatus = Open | Maintained | Refuted

definition CandidateStatus_str :: "CandidateStatus \<Rightarrow> string" where
  "CandidateStatus_str s = (case s of Open \<Rightarrow> ''Open'' | Maintained \<Rightarrow> ''Maintained'' | Refuted \<Rightarrow> ''Refuted'')"

text \<open>The zero kind is that of a candidate which left the derived set.\<close>

datatype CandidateKind = KindAssertion | KindDependency | KindEnvelope | KindLocal | KindNone

definition CandidateKind_str :: "CandidateKind \<Rightarrow> string" where
  "CandidateKind_str k =
     (case k of KindAssertion \<Rightarrow> ''assertion'' | KindDependency \<Rightarrow> ''dependency'' | KindEnvelope \<Rightarrow> ''envelope''
      | KindLocal \<Rightarrow> ''local-capability'' | KindNone \<Rightarrow> [])"

record Hypothesis =
  hy_ID :: string
  hy_Kind :: CandidateKind
  hy_Ref :: string
  hy_Status :: CandidateStatus

definition unmetCodes :: "ReasonCode list" where
  "unmetCodes = [ReasonPredicateUnmet, ReasonDependencyUnmet, ReasonEnvelopeUnmet, ReasonLocalUnmet]"

definition capabilityOf :: "Contract \<Rightarrow> CapabilityType \<Rightarrow> Capability option" where
  "capabilityOf c t = List.find (\<lambda>cp. cp_Type cp = t) (c_Capabilities c)"

definition envelopeOf :: "Contract \<Rightarrow> string \<Rightarrow> Envelope" where
  "envelopeOf c name = (case List.find (\<lambda>e. env_Name e = name) (c_Envelopes c) of None \<Rightarrow> Envelope_zero | Some e \<Rightarrow> e)"

definition envelopeReasons :: "TargetAssessment \<Rightarrow> string \<Rightarrow> Reason list" where
  "envelopeReasons ta name =
     (case List.find (\<lambda>e. er_Name e = name) (ta_Envelopes ta) of None \<Rightarrow> [] | Some e \<Rightarrow> er_Reasons e)"

definition requirementRef :: "Requirement \<Rightarrow> CandidateKind \<times> string \<times> string" where
  "requirementRef r =
     (case r_Predicate r of
        Some p \<Rightarrow> (KindAssertion, p_Assertion p, ''assertion:'' @ p_Assertion p)
      | None \<Rightarrow>
          (case r_Dependency r of
             Some d \<Rightarrow> (KindDependency, dr_Slot d, ''dependency:'' @ dr_Slot d)
           | None \<Rightarrow>
               if r_Envelope r \<noteq> [] then (KindEnvelope, r_Envelope r, ''envelope:'' @ r_Envelope r)
               else (KindLocal, r_LocalCapability r, ''local:'' @ r_LocalCapability r)))"

definition reason_about :: "string \<Rightarrow> Reason \<Rightarrow> bool" where
  "reason_about subject r \<longleftrightarrow>
     rs_Subject r = subject \<or> take (length subject + 2) (rs_Subject r) = subject @ ''->''"

definition status_step :: "string \<Rightarrow> Reason \<Rightarrow> CandidateStatus \<Rightarrow> CandidateStatus" where
  "status_step subject r st =
     (if \<not> reason_about subject r then st
      else if rs_Code r \<in> set unmetCodes then (if st = Refuted then Maintained else st)
      else Open)"

definition statusFrom :: "Reason list \<Rightarrow> string \<Rightarrow> CandidateStatus" where
  "statusFrom rs subject = fold (status_step subject) rs Refuted"

definition assertion_candidate :: "string \<Rightarrow> Reason list \<Rightarrow> Predicate \<Rightarrow> Hypothesis" where
  "assertion_candidate pre reasons p =
     \<lparr>hy_ID = pre @ ''/'' @ CandidateKind_str KindAssertion @ '':'' @ p_Assertion p, hy_Kind = KindAssertion,
      hy_Ref = p_Assertion p, hy_Status = statusFrom reasons (''assertion:'' @ p_Assertion p)\<rparr>"

definition requirement_candidates :: "TargetAssessment \<Rightarrow> Contract \<Rightarrow> CapabilityResult \<Rightarrow> Requirement \<Rightarrow> Hypothesis list" where
  "requirement_candidates ta c cr r =
     (case requirementRef r of (kind, ref, subject) \<Rightarrow>
       let ident = CapabilityType_String (cr_Type cr) @ ''/'' @ CandidateKind_str kind @ '':'' @ ref
       in \<lparr>hy_ID = ident, hy_Kind = kind, hy_Ref = ref, hy_Status = statusFrom (cr_Reasons cr) subject\<rparr> #
          (if kind \<noteq> KindEnvelope then []
           else map (assertion_candidate ident (envelopeReasons ta ref)) (env_Requirements (envelopeOf c ref))))"

definition capability_candidates :: "TargetAssessment \<Rightarrow> Contract \<Rightarrow> CapabilityResult \<Rightarrow> Hypothesis list" where
  "capability_candidates ta c cr =
     (if cr_State cr = Available then []
      else case capabilityOf c (cr_Type cr) of
             None \<Rightarrow> []
           | Some cp \<Rightarrow> concat (map (requirement_candidates ta c cr) (cp_Requirements cp)))"

definition selection_candidates :: "TargetAssessment \<Rightarrow> Contract \<Rightarrow> Hypothesis list" where
  "selection_candidates ta c =
     (let sel = ta_EnvelopeSelection ta in
      if sel = [] then []
      else concat (map (\<lambda>er. if er_Name er \<noteq> sel \<or> er_State er = Satisfied then []
                             else map (assertion_candidate (''envelope:'' @ sel) (er_Reasons er)) (env_Requirements (envelopeOf c sel)))
                     (ta_Envelopes ta)))"

text \<open>\<open>dedupe\<close> drops a candidate with the ID of the one before it.\<close>

fun dedupe_ids :: "Hypothesis list \<Rightarrow> Hypothesis list" where
  "dedupe_ids [] = []"
| "dedupe_ids [c] = [c]"
| "dedupe_ids (c # d # cs) = (if hy_ID d = hy_ID c then dedupe_ids (c # cs) else c # dedupe_ids (d # cs))"

definition id_less :: "Hypothesis \<Rightarrow> Hypothesis \<Rightarrow> bool" where
  "id_less a b \<longleftrightarrow> hy_ID a < hy_ID b"

definition deriveCandidates :: "TargetAssessment \<Rightarrow> Contract \<Rightarrow> Hypothesis list" where
  "deriveCandidates ta c =
     dedupe_ids (sort_slice id_less
       (concat (map (capability_candidates ta c) (ta_Capabilities ta)) @ selection_candidates ta c))"

definition open_assertion :: "Hypothesis \<Rightarrow> bool" where
  "open_assertion c \<longleftrightarrow> hy_Kind c = KindAssertion \<and> hy_Status c = Open"

definition reserved_less :: "(string \<Rightarrow> nat) \<Rightarrow> Hypothesis \<Rightarrow> Hypothesis \<Rightarrow> bool" where
  "reserved_less sq a b =
     (if sq (hy_Ref a) \<noteq> sq (hy_Ref b) then sq (hy_Ref a) < sq (hy_Ref b) else hy_ID a < hy_ID b)"

definition boundCandidates :: "Hypothesis list \<Rightarrow> (string \<Rightarrow> bool) \<Rightarrow> (string \<Rightarrow> nat) \<Rightarrow> int \<Rightarrow> Hypothesis list" where
  "boundCandidates full queryable sq mx =
     (if int (length full) \<le> mx then full
      else
        let reserved = filter (\<lambda>c. open_assertion c \<and> queryable (hy_Ref c)) full;
            rest = filter (\<lambda>c. \<not> (open_assertion c \<and> queryable (hy_Ref c))) full;
            out = sort_slice (reserved_less sq) reserved @ rest
        in sort_slice id_less (if int (length out) > mx then take (nat mx) out else out))"

definition hasOpen :: "Hypothesis list \<Rightarrow> bool" where
  "hasOpen cs = list_ex (\<lambda>c. hy_Status c = Open) cs"

end
