(* ===== verification/Investigate_Engine.thy ===== *)
theory Investigate_Engine
  imports Investigate_Candidates
begin

text \<open>
  The investigator (\<open>investigate/investigator.go\<close>). Its state is explicit; what is outside is a state \<open>'w\<close>
  that the clock, the contexts and the providers read and change (\<open>inv_env\<close>): the evaluation clock, the wall
  clock of the contexts, whether the caller's context and the run slice have ended, and the answer of a
  provider to one call with its deadline. The mutex makes every operation atomic.

  An episode and a progress record are pointers into the maps of the investigator; the model writes them
  back when the code returns. A progress record that is not in the map is lost, as in the code. \<open>iv_sent\<close> and
  \<open>iv_starts\<close> are not state of the code: they list the requests sent to providers and the starts of episodes.
\<close>

section \<open>State\<close>

datatype EpisodeState = Active | Resolved | Refreshed | NoAllowedQuery | ExhaustedCalls | ExhaustedSteps
  | DeadlineHit | Cancelled | Superseded | TargetInvalid | CapacityHit

definition EpisodeState_str :: "EpisodeState \<Rightarrow> string" where
  "EpisodeState_str s =
     (case s of Active \<Rightarrow> ''Active'' | Resolved \<Rightarrow> ''Resolved'' | Refreshed \<Rightarrow> ''Refreshed''
      | NoAllowedQuery \<Rightarrow> ''NoAllowedQuery'' | ExhaustedCalls \<Rightarrow> ''ExhaustedCalls'' | ExhaustedSteps \<Rightarrow> ''ExhaustedSteps''
      | DeadlineHit \<Rightarrow> ''Deadline'' | Cancelled \<Rightarrow> ''Cancelled'' | Superseded \<Rightarrow> ''Superseded''
      | TargetInvalid \<Rightarrow> ''TargetInvalid'' | CapacityHit \<Rightarrow> ''Capacity'')"

datatype EpisodeKind = KindInvestigate | KindRefresh

record TraceEntry =
  te_Step :: int
  te_Action :: string
  te_Slot :: string
  te_Detail :: string

record Episode =
  ep_Key :: string
  ep_TargetUID :: string
  ep_Kind :: EpisodeKind
  ep_Started :: instant
  ep_Deadline :: instant
  ep_Calls :: int
  ep_Steps :: int
  ep_State :: EpisodeState
  ep_Candidates :: "Hypothesis list"
  ep_Trace :: "TraceEntry list"
  ep_Truncated :: int
  ep_dispatched :: "string list"

definition ep_active :: "Episode \<Rightarrow> bool" where
  "ep_active e \<longleftrightarrow> ep_State e = Active"

definition ep_trace :: "Limits \<Rightarrow> string \<Rightarrow> string \<Rightarrow> string \<Rightarrow> Episode \<Rightarrow> Episode" where
  "ep_trace L act slot detail e =
     (if int (length (ep_Trace e)) \<ge> li_MaxTraceEntries L then e\<lparr>ep_Truncated := ep_Truncated e + 1\<rparr>
      else e\<lparr>ep_Trace := ep_Trace e @ [\<lparr>te_Step = ep_Steps e, te_Action = act, te_Slot = slot, te_Detail = detail\<rparr>]\<rparr>)"

record slotProgress =
  sp_key :: string
  sp_next :: nat
  sp_seq :: "string \<Rightarrow> nat"

record InvStats =
  sn_Dispatched :: int
  sn_LateDiscarded :: int
  sn_AdmissionDenied :: int
  sn_CapacityDenied :: int
  sn_EpisodesStarted :: int

record 'w Investigator =
  iv_held :: "(ApplicabilityKey \<times> Observation list) list"
  iv_marks :: "ApplicabilityKey \<Rightarrow> instant option"
  iv_episodes :: "(string \<times> Episode) list"
  iv_progress :: "string \<Rightarrow> slotProgress option"
  iv_cursor :: string
  iv_stats :: InvStats
  iv_world :: 'w
  iv_sent :: "ProviderRequest list"
  iv_starts :: "(string \<times> instant) list"

record ('p, 'w) inv_env =
  ie_clock :: "'w \<Rightarrow> instant \<times> 'w"
  ie_wall :: "'w \<Rightarrow> instant"
  ie_ctxErr :: "'w \<Rightarrow> bool"
  ie_runErr :: "'w \<Rightarrow> bool"
  ie_ctxDeadline :: "instant option"
  ie_observe :: "'p \<Rightarrow> ProviderRequest \<Rightarrow> instant \<Rightarrow> 'w \<Rightarrow> (ProviderResult \<times> bool) \<times> 'w"

definition New :: "'w \<Rightarrow> 'w Investigator" where
  "New w =
     \<lparr>iv_held = [], iv_marks = (\<lambda>_. None), iv_episodes = [], iv_progress = (\<lambda>_. None), iv_cursor = [],
      iv_stats = \<lparr>sn_Dispatched = 0, sn_LateDiscarded = 0, sn_AdmissionDenied = 0, sn_CapacityDenied = 0,
        sn_EpisodesStarted = 0\<rparr>, iv_world = w, iv_sent = [], iv_starts = []\<rparr>"

definition read_clock :: "('p, 'w) inv_env \<Rightarrow> 'w Investigator \<Rightarrow> instant \<times> 'w Investigator" where
  "read_clock E iv = (case ie_clock E (iv_world iv) of (t, w) \<Rightarrow> (t, iv\<lparr>iv_world := w\<rparr>))"

text \<open>\<open>context.WithTimeout\<close>: the earlier of the parent's deadline and the timeout from now.\<close>

definition with_timeout :: "('p, 'w) inv_env \<Rightarrow> instant option \<Rightarrow> duration \<Rightarrow> 'w \<Rightarrow> instant" where
  "with_timeout E parent timeout w =
     (case parent of None \<Rightarrow> ie_wall E w + timeout | Some d \<Rightarrow> min d (ie_wall E w + timeout))"

definition sliceEndedFirst :: "instant \<Rightarrow> instant \<Rightarrow> bool" where
  "sliceEndedFirst slice callDeadline \<longleftrightarrow> \<not> callDeadline < slice"

definition count_late :: "'w Investigator \<Rightarrow> 'w Investigator" where
  "count_late iv = iv\<lparr>iv_stats := (iv_stats iv)\<lparr>sn_LateDiscarded := sn_LateDiscarded (iv_stats iv) + 1\<rparr>\<rparr>"

definition count_capacity :: "'w Investigator \<Rightarrow> 'w Investigator" where
  "count_capacity iv = iv\<lparr>iv_stats := (iv_stats iv)\<lparr>sn_CapacityDenied := sn_CapacityDenied (iv_stats iv) + 1\<rparr>\<rparr>"

definition count_denied :: "'w Investigator \<Rightarrow> 'w Investigator" where
  "count_denied iv = iv\<lparr>iv_stats := (iv_stats iv)\<lparr>sn_AdmissionDenied := sn_AdmissionDenied (iv_stats iv) + 1\<rparr>\<rparr>"

definition put_episode :: "string \<Rightarrow> Episode \<Rightarrow> 'w Investigator \<Rightarrow> 'w Investigator" where
  "put_episode uid e iv = iv\<lparr>iv_episodes := AList.update uid e (iv_episodes iv)\<rparr>"

section \<open>Ends and evaluation\<close>

definition trim_char :: "char \<Rightarrow> bool" where
  "trim_char c \<longleftrightarrow> (of_char c :: nat) \<in> {9, 10, 11, 12, 13, 32}"

definition TrimSpace :: "string \<Rightarrow> string" where
  "TrimSpace s = rev (dropWhile trim_char (rev (dropWhile trim_char s)))"

definition end_episode :: "Limits \<Rightarrow> EpisodeState \<Rightarrow> string \<Rightarrow> Episode \<Rightarrow> Episode" where
  "end_episode L st detail e =
     ep_trace L ''end'' [] (TrimSpace (EpisodeState_str st @ '' '' @ detail)) (e\<lparr>ep_State := st\<rparr>)"

text \<open>The error of \<open>Evaluate\<close> is dropped and leaves the empty assessment; \<open>Ops_Properties.Evaluate_composition\<close>
  shows that the evaluation returns.\<close>

definition evaluate :: "'w Investigator \<Rightarrow> Snapshot \<Rightarrow> instant \<Rightarrow> Assessment" where
  "evaluate iv base now =
     (case Evaluate (base\<lparr>s_At := now, s_Observations := concat (map snd (iv_held iv))\<rparr>) of
        Some (Inr a) \<Rightarrow> a
      | _ \<Rightarrow> \<lparr>a_Targets = []\<rparr>)"

definition valid_target :: "Assessment \<Rightarrow> string \<Rightarrow> TargetAssessment option" where
  "valid_target a uid =
     (case Assessment_Target a uid of None \<Rightarrow> None | Some ta \<Rightarrow> if ta_Valid ta then Some ta else None)"

definition end_invalid :: "Limits \<Rightarrow> string \<Rightarrow> 'w Investigator \<Rightarrow> 'w Investigator" where
  "end_invalid L uid iv =
     (case map_of (iv_episodes iv) uid of
        None \<Rightarrow> iv
      | Some e \<Rightarrow> if ep_active e then put_episode uid (end_episode L TargetInvalid [] e) iv else iv)"

definition validOnly :: "('p, 'w) inv_env \<Rightarrow> Limits \<Rightarrow> Snapshot \<Rightarrow> 'p Queries \<Rightarrow> 'w Investigator \<Rightarrow> 'p Queries \<times> 'w Investigator" where
  "validOnly E L base qs iv =
     (case read_clock E iv of (now, iv) \<Rightarrow>
       let a = evaluate iv base now
       in (filter (\<lambda>(uid, slots). valid_target a uid \<noteq> None) qs,
           fold (\<lambda>(uid, slots). if valid_target a uid \<noteq> None then id else end_invalid L uid) qs iv))"

section \<open>Held evidence\<close>

definition authorized_keys :: "'p Queries \<Rightarrow> ApplicabilityKey list" where
  "authorized_keys qs = concat (map (\<lambda>(uid, slots). map (\<lambda>(s, q). rq_Key (qy_Request q)) slots) qs)"

definition purge_episode :: "Limits \<Rightarrow> 'p Queries \<Rightarrow> instant \<Rightarrow> string \<times> Episode \<Rightarrow> (string \<times> Episode) option" where
  "purge_episode L qs now x =
     (case x of (uid, e) \<Rightarrow>
       if uid \<in> fst ` set qs then Some (uid, e)
       else if \<not> now < ep_Started e + li_EpisodeCooldown L then None
       else Some (uid, if ep_active e then end_episode L Superseded ''target no longer queryable'' e else e))"

definition purge :: "('p, 'w) inv_env \<Rightarrow> Limits \<Rightarrow> 'p Queries \<Rightarrow> 'w Investigator \<Rightarrow> 'w Investigator" where
  "purge E L qs iv =
     (let auth = authorized_keys qs;
          iv1 = iv\<lparr>iv_held := filter (\<lambda>x. fst x \<in> set auth) (iv_held iv),
                   iv_marks := (\<lambda>k. if k \<in> fst ` set (iv_held iv) \<and> k \<notin> set auth then None else iv_marks iv k)\<rparr>
      in case read_clock E iv1 of (now, iv2) \<Rightarrow>
           iv2\<lparr>iv_episodes := List.map_filter (purge_episode L qs now) (iv_episodes iv2),
               iv_progress := (\<lambda>uid. if uid \<in> fst ` set (iv_episodes iv2) \<and> uid \<notin> fst ` set qs then None
                                      else iv_progress iv2 uid)\<rparr>)"

definition admit :: "Limits \<Rightarrow> Observation \<Rightarrow> 'w Investigator \<Rightarrow> bool \<times> 'w Investigator" where
  "admit L ob iv =
     (let k = o_Key ob; hold = (\<lambda>l iv. iv\<lparr>iv_held := AList.update k l (iv_held iv)\<rparr>);
          mark = (\<lambda>iv. iv\<lparr>iv_marks := (iv_marks iv)(k \<mapsto> o_ObservedAt ob)\<rparr>)
      in case map_of (iv_held iv) k of
           None \<Rightarrow>
             if int (length (iv_held iv)) \<ge> li_MaxHeldObservations L then (False, count_capacity iv)
             else (True, (if o_Outcome ob = OutcomeValue then mark else id) (hold [ob] iv))
         | Some l \<Rightarrow>
             if o_Outcome ob \<noteq> OutcomeValue then (True, hold [ob] iv)
             else (case iv_marks iv k of
                     None \<Rightarrow> (True, mark (hold [ob] iv))
                   | Some m \<Rightarrow>
                       if m < o_ObservedAt ob then (True, mark (hold [ob] iv))
                       else if o_ObservedAt ob = m \<and> o_Outcome (hd l) = OutcomeValue \<and> o_ObservedAt (hd l) = m then
                         (if \<exists>h \<in> set l. o_Value h = o_Value ob then (True, iv)
                          else if length l < 4 then (True, hold (l @ [ob]) iv)
                          else (True, iv))
                       else (True, iv)))"

definition refreshDue :: "Limits \<Rightarrow> 'w Investigator \<Rightarrow> 'p Query \<Rightarrow> instant option" where
  "refreshDue L iv q =
     (case map_of (iv_held iv) (rq_Key (qy_Request q)) of
        None \<Rightarrow> None
      | Some [] \<Rightarrow> None
      | Some (ob # _) \<Rightarrow>
          if o_Outcome ob \<noteq> OutcomeValue \<or> qy_MaxAge q \<le> 0 then None
          else
            let expiry = o_ObservedAt ob + qy_MaxAge q;
                expiry = (if \<not> IsZero (o_ValidUntil ob) \<and> o_ValidUntil ob < expiry then o_ValidUntil ob else expiry)
            in Some (expiry + - li_RefreshFraction L (qy_MaxAge q)))"

section \<open>Selection\<close>

datatype queryClass = classInvestigate | classRefresh

definition openBySlot :: "Hypothesis list \<Rightarrow> string \<Rightarrow> nat" where
  "openBySlot cands s = length (filter (\<lambda>c. open_assertion c \<and> hy_Ref c = s) cands)"

definition usedSlots :: "Contract \<Rightarrow> string \<Rightarrow> string list" where
  "usedSlots c selected =
     concat (map (\<lambda>cp. List.map_filter (\<lambda>r. map_option p_Assertion (r_Predicate r)) (cp_Requirements cp)) (c_Capabilities c)) @
     concat (map (\<lambda>e. if env_Name e = selected \<or>
                         list_ex (\<lambda>cp. list_ex (\<lambda>r. r_Envelope r = env_Name e) (cp_Requirements cp)) (c_Capabilities c)
                       then map p_Assertion (env_Requirements e) else []) (c_Envelopes c))"

definition slot_less :: "(string \<Rightarrow> nat) \<Rightarrow> string \<Rightarrow> string \<Rightarrow> bool" where
  "slot_less sq a b = (if sq a \<noteq> sq b then sq a < sq b else a < b)"

definition slot_current :: "TargetAssessment \<Rightarrow> string \<Rightarrow> bool" where
  "slot_current ta s \<longleftrightarrow> map_of (rev (map (\<lambda>e. (se_Slot e, se_Status e)) (ta_Evidence ta))) s = Some EvidenceCurrent"

definition best_step :: "(string \<Rightarrow> bool) \<Rightarrow> (string \<Rightarrow> nat) \<Rightarrow> string \<Rightarrow> string \<times> nat \<Rightarrow> string \<times> nat" where
  "best_step skip score s acc = (if skip s then acc else if score s > snd acc then (s, score s) else acc)"

definition selectQuery :: "Limits \<Rightarrow> 'w Investigator \<Rightarrow> TargetAssessment \<Rightarrow> Contract \<Rightarrow> Hypothesis list \<Rightarrow> 'p slots \<Rightarrow>
    string list \<Rightarrow> (string \<Rightarrow> nat) \<Rightarrow> instant \<Rightarrow> ('p Query \<times> queryClass) option" where
  "selectQuery L iv ta c cands slots dispatched sq now =
     (let names = sort_slice (slot_less sq) (map fst slots);
          best = fst (fold (best_step (\<lambda>s. s \<in> set dispatched \<or> slot_current ta s) (openBySlot cands)) names ([], 0))
      in if best \<noteq> [] then map_option (\<lambda>q. (q, classInvestigate)) (map_of slots best)
         else
           (case List.find (\<lambda>s. s \<notin> set dispatched \<and> slot_current ta s \<and> s \<in> set (usedSlots c (ta_EnvelopeSelection ta)) \<and>
                      (case map_of slots s of
                         None \<Rightarrow> False
                       | Some q \<Rightarrow> (case refreshDue L iv q of None \<Rightarrow> False | Some due \<Rightarrow> \<not> now < due))) names of
              None \<Rightarrow> None
            | Some s \<Rightarrow> map_option (\<lambda>q. (q, classRefresh)) (map_of slots s)))"

definition class_reason :: "queryClass \<Rightarrow> Hypothesis list \<Rightarrow> string \<Rightarrow> string" where
  "class_reason cl cands slot =
     (case cl of
        classRefresh \<Rightarrow> ''refresh: held evidence due before expiry''
      | classInvestigate \<Rightarrow>
          let ids = map hy_ID (filter (\<lambda>c. open_assertion c \<and> hy_Ref c = slot) cands);
              listed = (if length ids > 4 then take 4 ids @ [''+'' @ show_int (int (length ids) - 4) @ '' more''] else ids)
          in ''investigate: decides '' @ show_int (int (length ids)) @ '' open candidate(s) '' @ go_Join listed '','')"

definition arrow :: string where
  "arrow = [char_of (226::nat), char_of (134::nat), char_of (146::nat)]"

definition trace_change :: "Limits \<Rightarrow> (string \<Rightarrow> CandidateStatus option) \<Rightarrow> Hypothesis \<Rightarrow> Episode \<Rightarrow> Episode" where
  "trace_change L prev c e =
     (case prev (hy_ID c) of
        Some p \<Rightarrow>
          if p \<noteq> hy_Status c
          then ep_trace L ''candidate'' (hy_Ref c)
                 (hy_ID c @ '': '' @ CandidateStatus_str p @ arrow @ CandidateStatus_str (hy_Status c)) e
          else e
      | None \<Rightarrow> e)"

definition vanish_step :: "Limits \<Rightarrow> (string \<Rightarrow> CandidateStatus option) \<Rightarrow> Hypothesis list \<Rightarrow> string \<Rightarrow>
    Hypothesis list \<times> Episode \<Rightarrow> Hypothesis list \<times> Episode" where
  "vanish_step L prev full i acc =
     (case acc of (kept, e) \<Rightarrow>
       if i \<in> hy_ID ` set full then (kept, e)
       else
         (if int (length kept) < li_MaxCandidates L
          then kept @ [\<lparr>hy_ID = i, hy_Kind = KindNone, hy_Ref = [], hy_Status = Refuted\<rparr>] else kept,
          case prev i of
            Some p \<Rightarrow>
              if p \<noteq> Refuted
              then ep_trace L ''candidate'' []
                     (i @ '': '' @ CandidateStatus_str p @ arrow @ ''Refuted (capability proven available)'') e
              else e
          | None \<Rightarrow> e))"

definition updateCandidates :: "Limits \<Rightarrow> Episode \<Rightarrow> Hypothesis list \<Rightarrow> Hypothesis list \<Rightarrow> Episode" where
  "updateCandidates L e full kept =
     (let prev = map_of (rev (map (\<lambda>c. (hy_ID c, hy_Status c)) (ep_Candidates e)));
          e1 = fold (trace_change L prev) full e
      in case fold (vanish_step L prev full) (sort_Strings (remdups (map hy_ID (ep_Candidates e)))) (kept, e1) of
           (kept, e2) \<Rightarrow> e2\<lparr>ep_Candidates := sort_slice id_less kept\<rparr>)"

end
