(* ===== verification/Investigate_Run.thy ===== *)
theory Investigate_Run
  imports Investigate_Engine
begin

text \<open>
  One episode and one run of the investigator (\<open>investigate/investigator.go\<close>), and what it tells the reconciler:
  the held observations, the current episode and the next wake-up.
\<close>

section \<open>One provider call\<close>

definition dispatch_query :: "Limits \<Rightarrow> queryClass \<Rightarrow> Hypothesis list \<Rightarrow> string \<Rightarrow> ProviderRequest \<Rightarrow>
    'w Investigator \<times> Episode \<times> slotProgress \<Rightarrow> 'w Investigator \<times> Episode \<times> slotProgress" where
  "dispatch_query L cl full slot req x =
     (case x of (iv, e, pg) \<Rightarrow>
       (iv\<lparr>iv_stats := (iv_stats iv)\<lparr>sn_Dispatched := sn_Dispatched (iv_stats iv) + 1\<rparr>, iv_sent := iv_sent iv @ [req]\<rparr>,
        ep_trace L ''select'' slot (class_reason cl full slot)
          (e\<lparr>ep_Steps := ep_Steps e + 1, ep_Calls := ep_Calls e + 1, ep_dispatched := List.insert slot (ep_dispatched e)\<rparr>),
        pg\<lparr>sp_next := sp_next pg + 1, sp_seq := (sp_seq pg)(slot := sp_next pg + 1)\<rparr>))"

definition resultDetail :: "ProviderResult \<Rightarrow> string" where
  "resultDetail r =
     (if pr_Unavailable r \<noteq> [] then ''unavailable: '' @ pr_Unavailable r else ''value '' @ ValueType_str (v_Type (pr_Value r)))"

text \<open>What is admitted of an answer: nothing late and nothing stamped in the future.\<close>

definition timely_result :: "bool \<Rightarrow> instant \<Rightarrow> ProviderResult \<Rightarrow> ProviderResult" where
  "timely_result late after res =
     (let res = (if late then unavailable_result ''timeout'' else res)
      in if pr_Unavailable res = [] \<and> after < pr_ObservedAt res then unavailable_result ''future-observedAt'' else res)"

text \<open>The end of an iteration, after the provider has answered; the flag tells whether the loop goes on.\<close>

definition receive :: "('p, 'w) inv_env \<Rightarrow> Limits \<Rightarrow> instant \<Rightarrow> instant \<Rightarrow> instant \<Rightarrow> duration \<Rightarrow> ProviderRequest \<Rightarrow>
    ProviderResult \<Rightarrow> bool \<Rightarrow> instant \<Rightarrow> 'w Investigator \<times> Episode \<Rightarrow> bool \<times> 'w Investigator \<times> Episode" where
  "receive E L slice ownDeadline now timeout req res callErr after x =
     (case x of (iv, e) \<Rightarrow>
       let slot = ak_Slot (rq_Key req); w = iv_world iv in
       if ie_ctxErr E w then
         (False, count_late iv, end_episode L Cancelled [] (ep_trace L ''late'' slot ''cancelled'' e))
       else if callErr \<and> ie_runErr E w \<and> sliceEndedFirst slice ownDeadline then
         (False, count_late iv, ep_trace L ''late'' slot ''run slice ended'' e)
       else
         let late = (callErr \<or> time_Sub after now > timeout \<or> \<not> after < ep_Deadline e);
             iv = (if late \<and> pr_Unavailable res = [] then count_late iv else iv);
             e = (if late \<and> pr_Unavailable res = [] then ep_trace L ''late'' slot ''result after deadline discarded'' e else e);
             res' = timely_result late after res
         in case admit L (provider_Observation req res' after) iv of
              (ok, iv) \<Rightarrow>
                if ok then (True, iv, ep_trace L ''result'' slot (resultDetail res') e)
                else (False, iv, end_episode L CapacityHit [] e))"

definition call_provider :: "('p, 'w) inv_env \<Rightarrow> Limits \<Rightarrow> instant \<Rightarrow> instant \<Rightarrow> 'p Query \<Rightarrow>
    'w Investigator \<times> Episode \<Rightarrow> bool \<times> 'w Investigator \<times> Episode" where
  "call_provider E L slice now q x =
     (case x of (iv, e) \<Rightarrow>
       let rem = time_Sub (ep_Deadline e) now;
           timeout = (if rem < li_PerCallTimeout L then rem else li_PerCallTimeout L);
           ownDeadline = with_timeout E (Some slice) timeout (iv_world iv)
       in case ie_observe E (qy_Provider q) (qy_Request q) ownDeadline (iv_world iv) of
            ((res, callErr), w) \<Rightarrow>
              (case read_clock E (iv\<lparr>iv_world := w\<rparr>) of
                 (after, iv) \<Rightarrow> receive E L slice ownDeadline now timeout (qy_Request q) res callErr after (iv, e)))"

section \<open>The episode loop\<close>

definition finished_state :: "Hypothesis list \<Rightarrow> Episode \<Rightarrow> EpisodeState" where
  "finished_state full e =
     (if hasOpen full then NoAllowedQuery else if ep_Kind e = KindRefresh then Refreshed else Resolved)"

definition queryableSlots :: "'p slots \<Rightarrow> string \<Rightarrow> bool" where
  "queryableSlots slots s \<longleftrightarrow> s \<in> fst ` set slots"

type_synonym 'w run = "'w Investigator \<times> Episode \<times> slotProgress"

definition plan_step :: "('p, 'w) inv_env \<Rightarrow> Limits \<Rightarrow> instant \<Rightarrow> Contract \<Rightarrow> 'p slots \<Rightarrow> instant \<Rightarrow> TargetAssessment \<Rightarrow>
    'w run \<Rightarrow> bool \<times> 'w run" where
  "plan_step E L slice c slots now ta x =
     (case x of (iv, e, pg) \<Rightarrow>
       let full = deriveCandidates ta c;
           e = updateCandidates L e full (boundCandidates full (queryableSlots slots) (sp_seq pg) (li_MaxCandidates L))
       in case selectQuery L iv ta c full slots (ep_dispatched e) (sp_seq pg) now of
            None \<Rightarrow> (False, iv, end_episode L (finished_state full e) [] e, pg)
          | Some (q, cl) \<Rightarrow>
              if ep_Calls e \<ge> li_MaxCallsPerEpisode L then (False, iv, end_episode L ExhaustedCalls [] e, pg)
              else
                (case dispatch_query L cl full (ak_Slot (rq_Key (qy_Request q))) (qy_Request q) (iv, e, pg) of
                   (iv, e, pg) \<Rightarrow>
                     (case call_provider E L slice now q (iv, e) of (go, iv, e) \<Rightarrow> (go, iv, e, pg))))"

definition loop_body :: "('p, 'w) inv_env \<Rightarrow> Limits \<Rightarrow> instant \<Rightarrow> Snapshot \<Rightarrow> Contract \<Rightarrow> string \<Rightarrow> 'p slots \<Rightarrow>
    'w run \<Rightarrow> bool \<times> 'w run" where
  "loop_body E L slice base c uid slots x =
     (case x of (iv, e, pg) \<Rightarrow>
       (case read_clock E iv of (now, iv) \<Rightarrow>
         if ie_ctxErr E (iv_world iv) then (False, iv, end_episode L Cancelled [] e, pg)
         else if ie_runErr E (iv_world iv) then (False, iv, e, pg)
         else if \<not> now < ep_Deadline e then (False, iv, end_episode L DeadlineHit [] e, pg)
         else if ep_Steps e \<ge> li_MaxStepsPerEpisode L then (False, iv, end_episode L ExhaustedSteps [] e, pg)
         else
           (case valid_target (evaluate iv base now) uid of
              None \<Rightarrow> (False, iv, end_episode L TargetInvalid [] e, pg)
            | Some ta \<Rightarrow> plan_step E L slice c slots now ta (iv, e, pg))))"

text \<open>The loop ends because an iteration that goes on has used a step of the budget.\<close>

lemma ep_trace_keeps [simp]:
  "ep_Steps (ep_trace L a s d e) = ep_Steps e" "ep_Calls (ep_trace L a s d e) = ep_Calls e"
  "ep_State (ep_trace L a s d e) = ep_State e" "ep_dispatched (ep_trace L a s d e) = ep_dispatched e"
  "ep_Deadline (ep_trace L a s d e) = ep_Deadline e" "ep_Started (ep_trace L a s d e) = ep_Started e"
  "ep_TargetUID (ep_trace L a s d e) = ep_TargetUID e" "ep_Key (ep_trace L a s d e) = ep_Key e"
  "ep_Kind (ep_trace L a s d e) = ep_Kind e" "ep_Candidates (ep_trace L a s d e) = ep_Candidates e"
  by (simp_all add: ep_trace_def)

lemma end_episode_keeps [simp]:
  "ep_Steps (end_episode L st d e) = ep_Steps e" "ep_Calls (end_episode L st d e) = ep_Calls e"
  "ep_State (end_episode L st d e) = st" "ep_dispatched (end_episode L st d e) = ep_dispatched e"
  "ep_Deadline (end_episode L st d e) = ep_Deadline e" "ep_Started (end_episode L st d e) = ep_Started e"
  "ep_TargetUID (end_episode L st d e) = ep_TargetUID e" "ep_Key (end_episode L st d e) = ep_Key e"
  "ep_Kind (end_episode L st d e) = ep_Kind e" "ep_Candidates (end_episode L st d e) = ep_Candidates e"
  by (simp_all add: end_episode_def)

definition same_budget :: "Episode \<Rightarrow> Episode \<Rightarrow> bool" where
  "same_budget e e' \<longleftrightarrow>
     ep_Steps e' = ep_Steps e \<and> ep_Calls e' = ep_Calls e \<and> ep_dispatched e' = ep_dispatched e \<and>
     ep_Deadline e' = ep_Deadline e \<and> ep_Started e' = ep_Started e \<and> ep_TargetUID e' = ep_TargetUID e \<and>
     ep_Key e' = ep_Key e \<and> ep_Kind e' = ep_Kind e"

lemma same_budget_refl [simp]: "same_budget e e"
  by (simp add: same_budget_def)

lemma same_budget_trans: "same_budget a b \<Longrightarrow> same_budget b c \<Longrightarrow> same_budget a c"
  by (simp add: same_budget_def)

lemma same_budget_steps [simp]:
  "same_budget e (ep_trace L a s d e') \<longleftrightarrow> same_budget e e'" "same_budget e (end_episode L st d e') \<longleftrightarrow> same_budget e e'"
  by (simp_all add: same_budget_def)

lemma updateCandidates_budget: "same_budget e (updateCandidates L e full kept)"
proof -
  have "same_budget e (fold (trace_change L prev) cs e')" if "same_budget e e'" for prev cs e'
    using that by (induction cs arbitrary: e') (simp_all add: trace_change_def split: option.split)
  moreover have "same_budget e (snd (fold (vanish_step L prev full) js (k, e')))" if "same_budget e e'" for prev js k e'
    using that by (induction js arbitrary: k e') (simp_all add: vanish_step_def split: option.split)
  moreover have "same_budget e (e'\<lparr>ep_Candidates := cs\<rparr>) \<longleftrightarrow> same_budget e e'" for e' cs by (simp add: same_budget_def)
  ultimately show ?thesis by (simp add: updateCandidates_def Let_def split_beta)
qed

lemma receive_budget: "receive E L slice od now tmo req res err after (iv, e) = (go, iv', e') \<Longrightarrow> same_budget e e'"
  by (auto simp: receive_def Let_def split: prod.splits if_splits)

lemma call_provider_budget: "call_provider E L slice now q (iv, e) = (go, iv', e') \<Longrightarrow> same_budget e e'"
  by (auto simp: call_provider_def Let_def dest: receive_budget split: prod.splits)

lemma plan_step_steps:
  assumes "plan_step E L slice c slots now ta (iv, e, pg) = (go, iv', e', pg')"
  shows "ep_Steps e' = ep_Steps e + (if go then 1 else ep_Steps e' - ep_Steps e)"
proof (cases go)
  case True
  show ?thesis
    using assms True updateCandidates_budget [of e L]
    by (auto simp: plan_step_def Let_def dispatch_query_def same_budget_def dest!: call_provider_budget split: option.splits if_splits prod.splits)
qed simp

lemma loop_body_steps:
  assumes "loop_body E L slice base c uid slots (iv, e, pg) = (True, iv', e', pg')"
  shows "ep_Steps e < li_MaxStepsPerEpisode L \<and> ep_Steps e' = ep_Steps e + 1"
  using assms plan_step_steps [where go = True]
  by (auto simp: loop_body_def split: option.splits if_splits prod.splits)

function episode_loop :: "('p, 'w) inv_env \<Rightarrow> Limits \<Rightarrow> instant \<Rightarrow> Snapshot \<Rightarrow> Contract \<Rightarrow> string \<Rightarrow> 'p slots \<Rightarrow> 'w run \<Rightarrow> 'w run" where
  "episode_loop E L slice base c uid slots (iv, e, pg) =
     (if \<not> ep_active e then (iv, e, pg)
      else case loop_body E L slice base c uid slots (iv, e, pg) of
             (go, x) \<Rightarrow> if go then episode_loop E L slice base c uid slots x else x)"
  by pat_completeness auto
termination episode_loop
proof (relation "measure (\<lambda>(E, L, slice, base, c, uid, slots, (iv, e, pg)). nat (li_MaxStepsPerEpisode L - ep_Steps e))", goal_cases)
  case (2 E L slice base c uid slots iv e pg go y)
  obtain iv' e' pg' where y: "y = (iv', e', pg')" by (cases y)
  then show ?case using 2 loop_body_steps [of E L slice base c uid slots iv e pg iv' e' pg'] by auto
qed simp

declare episode_loop.simps [simp del]

section \<open>One target\<close>

definition contractOf :: "Snapshot \<Rightarrow> ContractIdentity \<Rightarrow> Contract option" where
  "contractOf s ident = List.find (\<lambda>c. c_Identity c = ident) (s_Contracts s)"

text \<open>The resolved UID is that of the last slot visited; all slots of a target have the same.\<close>

definition episodeKey :: "TargetAssessment \<Rightarrow> 'p slots \<Rightarrow> string" where
  "episodeKey ta slots =
     (let keys = map (\<lambda>(s, q). rq_Key (qy_Request q)) slots;
          resolved = (if keys = [] then [] else ak_ResolvedUID (last keys));
          parts = sort_Strings (map (\<lambda>k. ak_Slot k @ ''='' @ ProviderIdentity_String (ak_Provider k)) keys)
      in go_Join ([resolved, ContractIdentity_String (ta_Contract ta), ti_UID (ta_Target ta)] @ parts) ''|'')"

definition new_progress :: "string \<Rightarrow> slotProgress" where
  "new_progress key = \<lparr>sp_key = key, sp_next = 0, sp_seq = (\<lambda>_. 0)\<rparr>"

definition progress_of :: "'w Investigator \<Rightarrow> string \<Rightarrow> string \<Rightarrow> slotProgress option" where
  "progress_of iv uid key =
     (case iv_progress iv uid of None \<Rightarrow> None | Some pg \<Rightarrow> if sp_key pg = key then Some pg else None)"

definition cooled :: "Limits \<Rightarrow> instant \<Rightarrow> Episode \<Rightarrow> bool" where
  "cooled L now e \<longleftrightarrow> \<not> now < ep_Started e + li_EpisodeCooldown L"

definition pruneEpisodes :: "Limits \<Rightarrow> instant \<Rightarrow> 'w Investigator \<Rightarrow> 'w Investigator" where
  "pruneEpisodes L now iv =
     (let gone = (\<lambda>(uid, e). \<not> ep_active e \<and> cooled L now e)
      in iv\<lparr>iv_episodes := filter (\<lambda>x. \<not> gone x) (iv_episodes iv),
            iv_progress := (\<lambda>uid. if uid \<in> fst ` set (filter gone (iv_episodes iv)) then None else iv_progress iv uid)\<rparr>)"

definition new_episode :: "Limits \<Rightarrow> string \<Rightarrow> string \<Rightarrow> queryClass \<Rightarrow> instant \<Rightarrow> Episode" where
  "new_episode L uid key cl now =
     \<lparr>ep_Key = key, ep_TargetUID = uid, ep_Kind = (if cl = classRefresh then KindRefresh else KindInvestigate),
      ep_Started = now, ep_Deadline = now + li_EpisodeDeadline L, ep_Calls = 0, ep_Steps = 0, ep_State = Active,
      ep_Candidates = [], ep_Trace = [], ep_Truncated = 0, ep_dispatched = []\<rparr>"

definition start_episode :: "string \<Rightarrow> Episode \<Rightarrow> slotProgress \<Rightarrow> 'w Investigator \<Rightarrow> 'w Investigator" where
  "start_episode uid e pg iv =
     (put_episode uid e iv)\<lparr>iv_progress := (iv_progress iv)(uid \<mapsto> pg), iv_starts := iv_starts iv @ [(uid, ep_Started e)],
        iv_stats := (iv_stats iv)\<lparr>sn_EpisodesStarted := sn_EpisodesStarted (iv_stats iv) + 1\<rparr>\<rparr>"

text \<open>Admission of a new episode: \<open>None\<close> when none is started.\<close>

definition admit_episode :: "Limits \<Rightarrow> string \<Rightarrow> Episode option \<Rightarrow> instant \<Rightarrow> 'w Investigator \<Rightarrow> bool \<times> 'w Investigator" where
  "admit_episode L uid ep now iv =
     (case ep of
        Some e \<Rightarrow> if now < ep_Started e + li_EpisodeCooldown L then (False, count_denied iv) else (True, iv)
      | None \<Rightarrow>
          if int (length (iv_episodes iv)) \<ge> li_MaxResidentEpisodes L
          then (let iv = pruneEpisodes L now iv in
                if int (length (iv_episodes iv)) \<ge> li_MaxResidentEpisodes L then (False, count_capacity iv) else (True, iv))
          else (True, iv))"

definition run_episode :: "('p, 'w) inv_env \<Rightarrow> Limits \<Rightarrow> instant \<Rightarrow> Snapshot \<Rightarrow> Contract \<Rightarrow> string \<Rightarrow> 'p slots \<Rightarrow>
    bool \<Rightarrow> Episode \<Rightarrow> slotProgress \<Rightarrow> 'w Investigator \<Rightarrow> 'w Investigator" where
  "run_episode E L slice base c uid slots attached e pg iv =
     (case episode_loop E L slice base c uid slots (iv, e, pg) of (iv, e, pg) \<Rightarrow>
       let iv = put_episode uid e iv in if attached then iv\<lparr>iv_progress := (iv_progress iv)(uid \<mapsto> pg)\<rparr> else iv)"

definition begin_episode :: "('p, 'w) inv_env \<Rightarrow> Limits \<Rightarrow> instant \<Rightarrow> Snapshot \<Rightarrow> Contract \<Rightarrow> string \<Rightarrow> 'p slots \<Rightarrow>
    instant \<Rightarrow> TargetAssessment \<Rightarrow> string \<Rightarrow> slotProgress \<Rightarrow> Episode option \<Rightarrow> 'w Investigator \<Rightarrow> 'w Investigator" where
  "begin_episode E L slice base c uid slots now ta key pg ep iv =
     (case selectQuery L iv ta c (deriveCandidates ta c) slots [] (sp_seq pg) now of
        None \<Rightarrow> iv
      | Some (q, cl) \<Rightarrow>
          (case admit_episode L uid ep now iv of
             (ok, iv) \<Rightarrow>
               if \<not> ok then iv
               else let e = new_episode L uid key cl now
                    in run_episode E L slice base c uid slots True e pg (start_episode uid e pg iv)))"

definition investigate :: "('p, 'w) inv_env \<Rightarrow> Limits \<Rightarrow> instant \<Rightarrow> Snapshot \<Rightarrow> string \<Rightarrow> 'p slots \<Rightarrow>
    'w Investigator \<Rightarrow> 'w Investigator" where
  "investigate E L slice base uid slots iv =
     (case read_clock E iv of (now, iv) \<Rightarrow>
       (case valid_target (evaluate iv base now) uid of
          None \<Rightarrow> end_invalid L uid iv
        | Some ta \<Rightarrow>
            (case contractOf base (ta_Contract ta) of
               None \<Rightarrow> iv
             | Some c \<Rightarrow>
                 let key = episodeKey ta slots;
                     stored = progress_of iv uid key;
                     pg = (case stored of None \<Rightarrow> new_progress key | Some pg \<Rightarrow> pg);
                     ep = map_of (iv_episodes iv) uid
                 in case ep of
                      None \<Rightarrow> begin_episode E L slice base c uid slots now ta key pg None iv
                    | Some e \<Rightarrow>
                        if ep_active e \<and> ep_Key e = key
                        then run_episode E L slice base c uid slots (stored \<noteq> None) e pg iv
                        else
                          let e' = (if ep_active e then end_episode L Superseded ''identity or bindings changed'' e else e)
                          in begin_episode E L slice base c uid slots now ta key pg (Some e') (put_episode uid e' iv))))"

section \<open>Run\<close>

text \<open>The rotation over the targets: the state and the target the next run starts from.\<close>

fun visit_targets :: "('p, 'w) inv_env \<Rightarrow> Limits \<Rightarrow> instant \<Rightarrow> Snapshot \<Rightarrow> 'p Queries \<Rightarrow> string \<Rightarrow> string list \<Rightarrow>
    'w Investigator \<Rightarrow> string \<times> 'w Investigator" where
  "visit_targets E L slice base qs fin [] iv = (fin, iv)"
| "visit_targets E L slice base qs fin (uid # uids) iv =
     (if ie_ctxErr E (iv_world iv) \<or> ie_runErr E (iv_world iv) then (uid, iv)
      else
        let iv = investigate E L slice base uid (case map_of qs uid of None \<Rightarrow> [] | Some s \<Rightarrow> s) iv
        in if ie_runErr E (iv_world iv) then (uid, iv)
           else visit_targets E L slice base qs fin uids iv)"

definition start_index :: "string list \<Rightarrow> string \<Rightarrow> nat" where
  "start_index uids cursor =
     (if cursor = [] then 0 else length (takeWhile (\<lambda>u. u < cursor) uids) mod length uids)"

definition Investigator_Run :: "('p, 'w) inv_env \<Rightarrow> Limits \<Rightarrow> Snapshot \<Rightarrow> 'p Queries \<Rightarrow> 'w Investigator \<Rightarrow> 'w Investigator" where
  "Investigator_Run E L base qs0 iv =
     (case validOnly E L base qs0 iv of (qs, iv) \<Rightarrow>
       let iv = purge E L qs iv;
           slice = with_timeout E (ie_ctxDeadline E) (li_RunSlice L) (iv_world iv);
           uids = sort_Strings (map fst qs)
       in if uids = [] then iv\<lparr>iv_cursor := []\<rparr>
          else
            let order = rotate (start_index uids (iv_cursor iv)) uids
            in case visit_targets E L slice base qs (hd order) order iv of
                 (next, iv) \<Rightarrow> iv\<lparr>iv_cursor := next\<rparr>)"

section \<open>What the investigator reports\<close>

definition keyString :: "ApplicabilityKey \<Rightarrow> string" where
  "keyString k =
     TargetIdentity_String (ak_Target k) @ ''|'' @ ak_ResolvedUID k @ ''|'' @ ContractIdentity_String (ak_Contract k) @
     ''|'' @ ak_Slot k @ ''|'' @ ProviderIdentity_String (ak_Provider k)"

definition Observations :: "'w Investigator \<Rightarrow> Observation list" where
  "Observations iv = concat (map snd (sort_slice (\<lambda>a b. keyString (fst a) < keyString (fst b)) (iv_held iv)))"

definition Investigator_Episode :: "'w Investigator \<Rightarrow> string \<Rightarrow> Episode option" where
  "Investigator_Episode iv targetUID = map_of (iv_episodes iv) targetUID"

definition Current :: "'w Investigator \<Rightarrow> TargetAssessment \<Rightarrow> 'p slots \<Rightarrow> Episode option" where
  "Current iv ta slots =
     (case Investigator_Episode iv (ti_UID (ta_Target ta)) of
        None \<Rightarrow> None
      | Some e \<Rightarrow> if ep_Key e \<noteq> episodeKey ta slots then None else Some e)"

definition workLeft :: "EpisodeState \<Rightarrow> bool" where
  "workLeft s \<longleftrightarrow> s \<in> {ExhaustedCalls, ExhaustedSteps, DeadlineHit, Cancelled, CapacityHit}"

definition consider_wake :: "instant \<Rightarrow> instant \<Rightarrow> instant \<Rightarrow> instant" where
  "consider_wake now t next = (if now < t \<and> (IsZero next \<or> t < next) then t else next)"

definition wake_slot :: "Limits \<Rightarrow> 'w Investigator \<Rightarrow> instant \<Rightarrow> instant \<Rightarrow> 'p Query \<Rightarrow> instant \<Rightarrow> instant" where
  "wake_slot L iv now admissible q next =
     (case refreshDue L iv q of
        None \<Rightarrow> next
      | Some due \<Rightarrow> consider_wake now (if due < admissible then admissible else due) next)"

definition wake_target :: "Limits \<Rightarrow> 'w Investigator \<Rightarrow> instant \<Rightarrow> string \<times> 'p slots \<Rightarrow> instant \<Rightarrow> instant" where
  "wake_target L iv now x next =
     (case x of (uid, slots) \<Rightarrow>
       let admissible = (case map_of (iv_episodes iv) uid of None \<Rightarrow> 0 | Some e \<Rightarrow> ep_Started e + li_EpisodeCooldown L)
       in fold (\<lambda>(s, q). wake_slot L iv now admissible q) slots next)"

definition resumable :: "'p Queries \<Rightarrow> instant \<Rightarrow> string \<times> Episode \<Rightarrow> bool" where
  "resumable qs now x =
     (case x of (uid, e) \<Rightarrow>
       (case map_of qs uid of None \<Rightarrow> False | Some slots \<Rightarrow> ep_active e \<and> slots \<noteq> [] \<and> now < ep_Deadline e))"

definition wake_episode :: "Limits \<Rightarrow> 'p Queries \<Rightarrow> instant \<Rightarrow> string \<times> Episode \<Rightarrow> instant \<Rightarrow> instant" where
  "wake_episode L qs now x next =
     (case x of (uid, e) \<Rightarrow>
       if map_of qs uid \<noteq> None \<and> \<not> ep_active e \<and> workLeft (ep_State e)
       then consider_wake now (ep_Started e + li_EpisodeCooldown L) next else next)"

text \<open>A resumable episode returns at once from the second loop.\<close>

definition NextWake :: "Limits \<Rightarrow> 'w Investigator \<Rightarrow> 'p Queries \<Rightarrow> instant \<Rightarrow> instant" where
  "NextWake L iv qs now =
     (if list_ex (resumable qs now) (iv_episodes iv) then now
      else fold (wake_episode L qs now) (iv_episodes iv) (fold (wake_target L iv now) qs 0))"

end
