(* ===== verification/Investigate_Invariants.thy ===== *)
theory Investigate_Invariants
  imports Investigate_Run
begin

text \<open>
  The invariants of the investigator: the form of held evidence and its watermarks, the budget of every
  episode, and what one run may add.
\<close>

section \<open>Held evidence\<close>

text \<open>What is held of a key: one statement that the provider is unavailable, or up to four different values with
  the stamp of the watermark.\<close>

definition held_ok :: "(ApplicabilityKey \<Rightarrow> instant option) \<Rightarrow> ApplicabilityKey \<times> Observation list \<Rightarrow> bool" where
  "held_ok marks x =
     (case x of (k, l) \<Rightarrow>
       l \<noteq> [] \<and> length l \<le> 4 \<and> list_all (\<lambda>ob. o_Key ob = k) l \<and>
       (if o_Outcome (hd l) = OutcomeValue
        then list_all (\<lambda>ob. o_Outcome ob = OutcomeValue \<and> marks k = Some (o_ObservedAt ob)) l \<and> distinct (map o_Value l)
        else length l = 1))"

definition evidence_ok :: "Limits \<Rightarrow> 'w Investigator \<Rightarrow> bool" where
  "evidence_ok L iv \<longleftrightarrow>
     distinct (map fst (iv_held iv)) \<and> int (length (iv_held iv)) \<le> max 0 (li_MaxHeldObservations L) \<and>
     (\<forall>x \<in> set (iv_held iv). held_ok (iv_marks iv) x) \<and>
     (\<forall>k. iv_marks iv k \<noteq> None \<longrightarrow> k \<in> fst ` set (iv_held iv))"

lemma held_ok_single: "o_Key ob = k \<Longrightarrow> o_Outcome ob \<noteq> OutcomeValue \<or> marks k = Some (o_ObservedAt ob) \<Longrightarrow> held_ok marks (k, [ob])"
  by (auto simp: held_ok_def)

lemma update_keeps_all:
  assumes "distinct (map fst xs)" and "\<forall>x \<in> set xs. fst x \<noteq> k \<longrightarrow> P x" and "P (k, v)"
  shows "\<forall>x \<in> set (AList.update k v xs). P x"
proof
  fix x
  assume "x \<in> set (AList.update k v xs)"
  moreover have "distinct (map fst (AList.update k v xs))" using assms(1) by (rule distinct_update)
  ultimately have "map_of (AList.update k v xs) (fst x) = Some (snd x)" by simp
  then have "((map_of xs)(k \<mapsto> v)) (fst x) = Some (snd x)" by (simp add: update_conv)
  then show "P x" using assms(2,3) by (cases "fst x = k") (auto dest: map_of_SomeD simp flip: surjective_pairing intro: prod_eqI)
qed

lemma length_update: "length (AList.update k v xs) = (if k \<in> fst ` set xs then length xs else length xs + 1)"
  by (induction xs) auto

lemma evidence_ok_hold:
  assumes ok: "evidence_ok L iv" and new: "held_ok marks' (k, l)"
    and same: "\<And>k'. k' \<noteq> k \<Longrightarrow> marks' k' = iv_marks iv k'"
    and room: "k \<in> fst ` set (iv_held iv) \<or> int (length (iv_held iv)) < li_MaxHeldObservations L"
  shows "evidence_ok L (iv\<lparr>iv_held := AList.update k l (iv_held iv), iv_marks := marks'\<rparr>)"
proof -
  have d: "distinct (map fst (iv_held iv))" using ok by (simp add: evidence_ok_def)
  have "\<forall>x \<in> set (iv_held iv). fst x \<noteq> k \<longrightarrow> held_ok marks' x"
    using ok same by (auto simp: evidence_ok_def held_ok_def)
  from update_keeps_all [OF d this new] have "\<forall>x \<in> set (AList.update k l (iv_held iv)). held_ok marks' x" .
  moreover have "marks' k' \<noteq> None \<Longrightarrow> k' \<in> fst ` set (AList.update k l (iv_held iv))" for k'
    using ok same [of k'] by (cases "k' = k") (auto simp: evidence_ok_def dom_update)
  ultimately show ?thesis using ok room d distinct_update by (auto simp: evidence_ok_def length_update)
qed

lemma held_ok_snoc:
  assumes "held_ok marks (o_Key ob, l)" and "o_Outcome ob = OutcomeValue" and "o_Outcome (hd l) = OutcomeValue"
    and "marks (o_Key ob) = Some (o_ObservedAt ob)" and "\<not> (\<exists>h \<in> set l. o_Value h = o_Value ob)" and "length l < 4"
  shows "held_ok marks (o_Key ob, l @ [ob])"
  using assms by (auto simp: held_ok_def hd_append)

text \<open>Admission stores at most one statement; the watermark of its key never falls.\<close>

definition stored :: "Limits \<Rightarrow> ApplicabilityKey \<Rightarrow> 'w Investigator \<Rightarrow> 'w Investigator \<Rightarrow> bool" where
  "stored L k iv iv' \<longleftrightarrow>
     (\<exists>l marks'. iv' = iv\<lparr>iv_held := AList.update k l (iv_held iv), iv_marks := marks'\<rparr> \<and> held_ok marks' (k, l) \<and>
        (\<forall>k'. k' \<noteq> k \<longrightarrow> marks' k' = iv_marks iv k') \<and>
        (\<forall>m. iv_marks iv k = Some m \<longrightarrow> (\<exists>m'. marks' k = Some m' \<and> m \<le> m')) \<and>
        (k \<in> fst ` set (iv_held iv) \<or> int (length (iv_held iv)) < li_MaxHeldObservations L))"

lemma storedI:
  assumes "held_ok marks' (k, l)" and "\<And>k'. k' \<noteq> k \<Longrightarrow> marks' k' = iv_marks iv k'"
    and "\<And>m. iv_marks iv k = Some m \<Longrightarrow> \<exists>m'. marks' k = Some m' \<and> m \<le> m'"
    and "k \<in> fst ` set (iv_held iv) \<or> int (length (iv_held iv)) < li_MaxHeldObservations L"
  shows "stored L k iv (iv\<lparr>iv_held := AList.update k l (iv_held iv), iv_marks := marks'\<rparr>)"
  unfolding stored_def using assms by blast

lemma stored_hold:
  assumes "held_ok (iv_marks iv) (k, l)" and "k \<in> fst ` set (iv_held iv) \<or> int (length (iv_held iv)) < li_MaxHeldObservations L"
  shows "stored L k iv (iv\<lparr>iv_held := AList.update k l (iv_held iv)\<rparr>)"
proof -
  have "stored L k iv (iv\<lparr>iv_held := AList.update k l (iv_held iv), iv_marks := iv_marks iv\<rparr>)"
    using assms by (intro storedI) auto
  then show ?thesis by simp
qed

lemma stored_mark:
  assumes "o_Key ob = k" and "\<And>m. iv_marks iv k = Some m \<Longrightarrow> m \<le> o_ObservedAt ob"
    and "k \<in> fst ` set (iv_held iv) \<or> int (length (iv_held iv)) < li_MaxHeldObservations L"
  shows "stored L k iv (iv\<lparr>iv_held := AList.update k [ob] (iv_held iv), iv_marks := (iv_marks iv)(k \<mapsto> o_ObservedAt ob)\<rparr>)"
  using assms by (intro storedI held_ok_single) auto

lemma admit_cases:
  assumes ok: "evidence_ok L iv" and ad: "admit L ob iv = (b, iv')"
  shows "iv' = iv \<or> \<not> b \<and> iv' = count_capacity iv \<or> stored L (o_Key ob) iv iv'"
proof (cases "map_of (iv_held iv) (o_Key ob)")
  case None
  then have "iv_marks iv (o_Key ob) = None" using ok by (auto simp: evidence_ok_def map_of_eq_None_iff)
  then show ?thesis using ad None
    by (auto simp: admit_def Let_def not_le intro!: stored_mark stored_hold held_ok_single split: if_splits)
next
  case (Some l)
  let ?k = "o_Key ob"
  have l: "(?k, l) \<in> set (iv_held iv)" using Some by (rule map_of_SomeD)
  then have k: "?k \<in> fst ` set (iv_held iv)" by force
  have hl: "held_ok (iv_marks iv) (?k, l)" using ok l by (auto simp: evidence_ok_def)
  show ?thesis
  proof (cases "o_Outcome ob = OutcomeValue")
    case False
    then have "iv' = iv\<lparr>iv_held := AList.update ?k [ob] (iv_held iv)\<rparr>" using ad Some by (simp add: admit_def Let_def)
    then show ?thesis using k False by (simp add: stored_hold held_ok_single)
  next
    case True
    note V = True
    show ?thesis
    proof (cases "iv_marks iv ?k")
      case None
      then show ?thesis using ad Some V k by (auto simp: admit_def Let_def intro!: stored_mark)
    next
      case (Some m)
      note M = Some
      show ?thesis
      proof (cases "m < o_ObservedAt ob")
        case True
        then show ?thesis using ad \<open>map_of (iv_held iv) ?k = Some l\<close> V k M by (auto simp: admit_def Let_def intro!: stored_mark)
      next
        case False
        then show ?thesis using ad \<open>map_of (iv_held iv) ?k = Some l\<close> V k M held_ok_snoc [OF hl V]
          by (auto simp: admit_def Let_def intro!: stored_hold split: if_splits)
      qed
    qed
  qed
qed

section \<open>What the steps of an episode change of the investigator\<close>

definition marks_mono :: "(ApplicabilityKey \<Rightarrow> instant option) \<Rightarrow> (ApplicabilityKey \<Rightarrow> instant option) \<Rightarrow> bool" where
  "marks_mono a b \<longleftrightarrow> (\<forall>k m. a k = Some m \<longrightarrow> (\<exists>m'. b k = Some m' \<and> m \<le> m'))"

lemma marks_mono_refl [simp]: "marks_mono a a"
  by (simp add: marks_mono_def)

lemma marks_mono_trans: "marks_mono a b \<Longrightarrow> marks_mono b c \<Longrightarrow> marks_mono a c"
  unfolding marks_mono_def by (meson order_trans)

text \<open>\<open>moves R n iv iv'\<close>: \<open>n\<close> requests were sent, all in \<open>R\<close>; evidence was added for their keys only, and no
  watermark fell; episodes, progress and cursor are untouched.\<close>

definition moves :: "ProviderRequest set \<Rightarrow> nat \<Rightarrow> 'w Investigator \<Rightarrow> 'w Investigator \<Rightarrow> bool" where
  "moves R n iv iv' \<longleftrightarrow>
     iv_episodes iv' = iv_episodes iv \<and> iv_progress iv' = iv_progress iv \<and> iv_cursor iv' = iv_cursor iv \<and> iv_starts iv' = iv_starts iv \<and>
     sn_EpisodesStarted (iv_stats iv') = sn_EpisodesStarted (iv_stats iv) \<and>
     sn_Dispatched (iv_stats iv') = sn_Dispatched (iv_stats iv) + int n \<and>
     (\<exists>new. iv_sent iv' = iv_sent iv @ new \<and> length new = n \<and> set new \<subseteq> R) \<and>
     fst ` set (iv_held iv) \<subseteq> fst ` set (iv_held iv') \<and>
     fst ` set (iv_held iv') \<subseteq> fst ` set (iv_held iv) \<union> rq_Key ` R \<and>
     marks_mono (iv_marks iv) (iv_marks iv')"

lemma moves_refl [simp]: "moves R 0 iv iv"
  by (simp add: moves_def)

lemma moves_trans:
  assumes "moves R a x y" and "moves R b y z"
  shows "moves R (a + b) x z"
proof -
  obtain n1 n2 where n: "iv_sent y = iv_sent x @ n1" "length n1 = a" "set n1 \<subseteq> R" "iv_sent z = iv_sent y @ n2" "length n2 = b" "set n2 \<subseteq> R"
    using assms unfolding moves_def by blast
  then have "\<exists>new. iv_sent z = iv_sent x @ new \<and> length new = a + b \<and> set new \<subseteq> R"
    by (intro exI [of _ "n1 @ n2"]) simp
  moreover have "fst ` set (iv_held x) \<subseteq> fst ` set (iv_held z)" "fst ` set (iv_held z) \<subseteq> fst ` set (iv_held x) \<union> rq_Key ` R"
    using subset_trans [of "fst ` set (iv_held x)" "fst ` set (iv_held y)" "fst ` set (iv_held z)"]
      subset_trans [of "fst ` set (iv_held z)" "fst ` set (iv_held y) \<union> rq_Key ` R" "fst ` set (iv_held x) \<union> rq_Key ` R"] assms
    unfolding moves_def by simp_all
  ultimately show ?thesis using assms marks_mono_trans [of "iv_marks x" "iv_marks y" "iv_marks z"] unfolding moves_def by simp
qed

lemma moves_simps [simp]:
  "moves R n iv (iv'\<lparr>iv_world := w\<rparr>) \<longleftrightarrow> moves R n iv iv'" "moves R n iv (count_late iv') \<longleftrightarrow> moves R n iv iv'"
  "moves R n iv (count_capacity iv') \<longleftrightarrow> moves R n iv iv'" "moves R n iv (count_denied iv') \<longleftrightarrow> moves R n iv iv'"
  "moves R n (iv\<lparr>iv_world := w\<rparr>) iv' \<longleftrightarrow> moves R n iv iv'" "moves R n (count_late iv) iv' \<longleftrightarrow> moves R n iv iv'"
  by (simp_all add: moves_def count_late_def count_capacity_def count_denied_def)

lemma evidence_ok_simps [simp]:
  "evidence_ok L (iv\<lparr>iv_world := w\<rparr>) \<longleftrightarrow> evidence_ok L iv" "evidence_ok L (count_late iv) \<longleftrightarrow> evidence_ok L iv"
  "evidence_ok L (count_capacity iv) \<longleftrightarrow> evidence_ok L iv" "evidence_ok L (count_denied iv) \<longleftrightarrow> evidence_ok L iv"
  "evidence_ok L (iv\<lparr>iv_stats := s, iv_sent := x\<rparr>) \<longleftrightarrow> evidence_ok L iv" "evidence_ok L (put_episode uid e iv) \<longleftrightarrow> evidence_ok L iv"
  "evidence_ok L (iv\<lparr>iv_cursor := cu\<rparr>) \<longleftrightarrow> evidence_ok L iv" "evidence_ok L (iv\<lparr>iv_progress := p\<rparr>) \<longleftrightarrow> evidence_ok L iv"
  by (simp_all add: evidence_ok_def count_late_def count_capacity_def count_denied_def put_episode_def)

lemma stored_moves: "stored L k iv iv' \<Longrightarrow> k \<in> rq_Key ` R \<Longrightarrow> moves R 0 iv iv'"
proof (unfold stored_def, elim exE conjE, goal_cases)
  case (1 l marks')
  have "\<exists>m'. marks' k' = Some m' \<and> m \<le> m'" if "iv_marks iv k' = Some m" for k' m
    using 1 that by (cases "k' = k") auto
  then show ?case using 1(1,2) by (auto simp: moves_def marks_mono_def dom_update)
qed

lemma stored_ok: "stored L k iv iv' \<Longrightarrow> evidence_ok L iv \<Longrightarrow> evidence_ok L iv'"
  by (auto simp: stored_def intro!: evidence_ok_hold)

lemma admit_moves:
  assumes "evidence_ok L iv" and "admit L ob iv = (b, iv')" and "o_Key ob \<in> rq_Key ` R"
  shows "evidence_ok L iv' \<and> moves R 0 iv iv'"
proof -
  consider "iv' = iv" | "iv' = count_capacity iv" | "stored L (o_Key ob) iv iv'" using admit_cases [OF assms(1,2)] by blast
  then show ?thesis using assms(1) stored_ok [of L "o_Key ob" iv iv'] stored_moves [of L "o_Key ob" iv iv', OF _ assms(3)] by cases simp_all
qed

lemma provider_Observation_Key [simp]: "o_Key (provider_Observation req res at) = rq_Key req"
  by (simp add: provider_Observation_def)

lemma receive_moves:
  assumes "evidence_ok L iv" and "receive E L slice od now tmo req res err after (iv, e) = (go, iv', e')" and "req \<in> R"
  shows "evidence_ok L iv' \<and> moves R 0 iv iv'"
proof -
  have "evidence_ok L iv2 \<and> moves R 0 iv iv2"
    if "admit L (provider_Observation req r after) iv1 = (b, iv2)" and "iv1 = iv \<or> iv1 = count_late iv" for r iv1 iv2 b
    using admit_moves [OF _ that(1), of R] that(2) assms(1,3) by auto
  then show ?thesis using assms(1,2)
    by (auto simp: receive_def Let_def split: prod.splits if_splits)
qed

lemma call_provider_moves:
  assumes "evidence_ok L iv" and "call_provider E L slice now q (iv, e) = (go, iv', e')" and "qy_Request q \<in> R"
  shows "evidence_ok L iv' \<and> moves R 0 iv iv'"
proof -
  obtain res err w after iv1 where c: "ie_observe E (qy_Provider q) (qy_Request q) (with_timeout E (Some slice)
      (if time_Sub (ep_Deadline e) now < li_PerCallTimeout L then time_Sub (ep_Deadline e) now else li_PerCallTimeout L) (iv_world iv)) (iv_world iv) = ((res, err), w)"
    "read_clock E (iv\<lparr>iv_world := w\<rparr>) = (after, iv1)" by (metis surj_pair)
  obtain w' where iv1: "iv1 = iv\<lparr>iv_world := w'\<rparr>" using c(2) by (auto simp: read_clock_def split: prod.splits)
  have "evidence_ok L iv1" using assms(1) by (simp add: iv1)
  moreover obtain tmo od where "receive E L slice od now tmo (qy_Request q) res err after (iv1, e) = (go, iv', e')"
    using assms(2) c by (auto simp: call_provider_def Let_def)
  ultimately have "evidence_ok L iv' \<and> moves R 0 iv1 iv'" using assms(3) by (rule receive_moves)
  then show ?thesis by (simp add: iv1)
qed

section \<open>The budget of an episode\<close>

definition budget_ok :: "Limits \<Rightarrow> Episode \<Rightarrow> bool" where
  "budget_ok L e \<longleftrightarrow>
     ep_Steps e = ep_Calls e \<and> ep_Calls e = int (length (ep_dispatched e)) \<and> distinct (ep_dispatched e) \<and>
     ep_Calls e \<le> max 0 (li_MaxCallsPerEpisode L) \<and> ep_Steps e \<le> max 0 (li_MaxStepsPerEpisode L) \<and>
     ep_Deadline e = ep_Started e + li_EpisodeDeadline L"

definition trace_ok :: "Limits \<Rightarrow> Episode \<Rightarrow> bool" where
  "trace_ok L e \<longleftrightarrow> int (length (ep_Trace e)) \<le> max 0 (li_MaxTraceEntries L)"

definition cands_ok :: "Limits \<Rightarrow> Episode \<Rightarrow> bool" where
  "cands_ok L e \<longleftrightarrow> int (length (ep_Candidates e)) \<le> max 0 (li_MaxCandidates L)"

definition episode_ok :: "Limits \<Rightarrow> string \<Rightarrow> Episode \<Rightarrow> bool" where
  "episode_ok L uid e \<longleftrightarrow> ep_TargetUID e = uid \<and> budget_ok L e \<and> trace_ok L e \<and> cands_ok L e"

lemma same_budget_ok: "same_budget e e' \<Longrightarrow> budget_ok L e' \<longleftrightarrow> budget_ok L e"
  by (simp add: same_budget_def budget_ok_def)

lemma trace_ok_trace [simp]: "trace_ok L (ep_trace L a s d e)" if "trace_ok L e"
  using that by (auto simp: trace_ok_def ep_trace_def)

lemma trace_ok_simps [simp]:
  "trace_ok L (e\<lparr>ep_State := st\<rparr>) \<longleftrightarrow> trace_ok L e" "trace_ok L (e\<lparr>ep_Candidates := cs\<rparr>) \<longleftrightarrow> trace_ok L e"
  "trace_ok L (e\<lparr>ep_Steps := n, ep_Calls := m, ep_dispatched := ds\<rparr>) \<longleftrightarrow> trace_ok L e"
  by (simp_all add: trace_ok_def)

lemma trace_ok_end [simp]: "trace_ok L e \<Longrightarrow> trace_ok L (end_episode L st d e)"
  by (simp add: end_episode_def)

lemma episode_ok_end: "episode_ok L uid e \<Longrightarrow> episode_ok L uid (end_episode L st d e)"
  using same_budget_ok [of e "end_episode L st d e" L] by (auto simp: episode_ok_def cands_ok_def)

lemma length_boundCandidates: "int (length (boundCandidates full qb sq mx)) \<le> max 0 mx"
  by (auto simp: boundCandidates_def Let_def simp del: take_append)

lemma vanish_fold:
  assumes "int (length kept) \<le> max 0 (li_MaxCandidates L)" and "trace_ok L e" and "fold (vanish_step L prev full) js (kept, e) = (k', e')"
  shows "int (length k') \<le> max 0 (li_MaxCandidates L) \<and> trace_ok L e'"
  using assms
proof (induction js arbitrary: kept e)
  case (Cons j js)
  obtain k1 e1 where s: "vanish_step L prev full j (kept, e) = (k1, e1)" by (cases "vanish_step L prev full j (kept, e)")
  then have "int (length k1) \<le> max 0 (li_MaxCandidates L) \<and> trace_ok L e1"
    using Cons.prems(1,2) by (auto simp: vanish_step_def split: if_splits option.splits)
  then show ?case using Cons.IH [of k1 e1] Cons.prems(3) s by simp
qed simp

lemma updateCandidates_ok:
  assumes "trace_ok L e" and "int (length kept) \<le> max 0 (li_MaxCandidates L)"
  shows "trace_ok L (updateCandidates L e full kept) \<and> cands_ok L (updateCandidates L e full kept)"
proof -
  let ?prev = "map_of (rev (map (\<lambda>c. (hy_ID c, hy_Status c)) (ep_Candidates e)))"
  have t: "trace_ok L (fold (trace_change L prev) cs e')" if "trace_ok L e'" for prev cs e'
    using that by (induction cs arbitrary: e') (simp_all add: trace_change_def split: option.split)
  obtain k' e' where f: "fold (vanish_step L ?prev full) (sort_Strings (remdups (map hy_ID (ep_Candidates e))))
     (kept, fold (trace_change L ?prev) full e) = (k', e')" by (rule prod.exhaust)
  from vanish_fold [OF assms(2) t [OF assms(1)] f] show ?thesis
    using f by (simp add: updateCandidates_def Let_def cands_ok_def)
qed

lemma receive_traces:
  assumes "receive E L slice od now tmo req res err after (iv, e) = (go, iv', e')" and "trace_ok L e"
  shows "trace_ok L e' \<and> ep_Candidates e' = ep_Candidates e"
  using assms by (auto simp: receive_def Let_def split: prod.splits if_splits)

lemma call_provider_traces:
  assumes "call_provider E L slice now q (iv, e) = (go, iv', e')" and "trace_ok L e"
  shows "trace_ok L e' \<and> ep_Candidates e' = ep_Candidates e"
  using assms by (auto simp: call_provider_def Let_def dest: receive_traces split: prod.splits)

section \<open>Selection\<close>

definition slots_wf :: "'p slots \<Rightarrow> bool" where
  "slots_wf slots \<longleftrightarrow> distinct (map fst slots) \<and> list_all (\<lambda>(s, q). ak_Slot (rq_Key (qy_Request q)) = s) slots"

definition slot_requests :: "'p slots \<Rightarrow> ProviderRequest set" where
  "slot_requests slots = (\<lambda>(s, q). qy_Request q) ` set slots"

lemma best_fold:
  assumes "fst acc = [] \<or> \<not> skip (fst acc)"
  shows "fst (fold (best_step skip score) names acc) = [] \<or> \<not> skip (fst (fold (best_step skip score) names acc))"
  using assms by (induction names arbitrary: acc) (auto simp: best_step_def)

lemma selectQuery_slot:
  assumes "selectQuery L iv ta c cands slots ds sq now = Some (q, cl)"
  obtains s where "(s, q) \<in> set slots" and "s \<notin> set ds"
proof -
  let ?skip = "\<lambda>s. s \<in> set ds \<or> slot_current ta s"
  define names where "names = sort_slice (slot_less sq) (map fst slots)"
  define best where "best = fst (fold (best_step ?skip (openBySlot cands)) names ([], 0))"
  have b: "best \<noteq> [] \<Longrightarrow> best \<notin> set ds" using best_fold [of "([], 0)" ?skip "openBySlot cands" names] by (auto simp: best_def)
  show ?thesis
  proof (cases "best = []")
    case False
    then have "map_of slots best = Some q" using assms unfolding selectQuery_def Let_def names_def [symmetric] best_def [symmetric] by auto
    from map_of_SomeD [OF this] b [OF False] show ?thesis by (rule that)
  next
    case True
    define P where "P s \<longleftrightarrow> s \<notin> set ds \<and> slot_current ta s \<and> s \<in> set (usedSlots c (ta_EnvelopeSelection ta)) \<and>
      (case map_of slots s of None \<Rightarrow> False
       | Some q \<Rightarrow> (case refreshDue L iv q of None \<Rightarrow> False | Some due \<Rightarrow> \<not> now < due))" for s
    obtain s where s: "List.find P names = Some s" "map_of slots s = Some q"
      using assms True unfolding selectQuery_def Let_def names_def [symmetric] best_def [symmetric] P_def [abs_def, symmetric]
      by (auto split: option.splits)
    then have "s \<notin> set ds" using find_SomeD [OF s(1)] by (simp add: P_def)
    with map_of_SomeD [OF s(2)] show ?thesis by (rule that)
  qed
qed

end
