(* ===== verification/Investigate_Runs.thy ===== *)
theory Investigate_Runs
  imports Investigate_Invariants
begin

text \<open>
  What an episode, a visit of a target and a run do: the invariants they keep, which requests they send and
  how many, and when episodes start.
\<close>

section \<open>An episode\<close>

definition same_episode :: "Episode \<Rightarrow> Episode \<Rightarrow> bool" where
  "same_episode e e' \<longleftrightarrow>
     ep_TargetUID e' = ep_TargetUID e \<and> ep_Key e' = ep_Key e \<and> ep_Kind e' = ep_Kind e \<and>
     ep_Started e' = ep_Started e \<and> ep_Deadline e' = ep_Deadline e"

lemma same_episode_refl [simp]: "same_episode e e"
  by (simp add: same_episode_def)

lemma same_episode_trans: "same_episode a b \<Longrightarrow> same_episode b c \<Longrightarrow> same_episode a c"
  by (simp add: same_episode_def)

lemma same_budget_episode: "same_budget e e' \<Longrightarrow> same_episode e e'"
  by (simp add: same_budget_def same_episode_def)

text \<open>The outcome of steps of an episode: the calls counted are the requests sent.\<close>

definition steps_ok :: "Limits \<Rightarrow> string \<Rightarrow> 'p slots \<Rightarrow> 'w Investigator \<Rightarrow> Episode \<Rightarrow> 'w Investigator \<Rightarrow> Episode \<Rightarrow> bool" where
  "steps_ok L uid slots iv e iv' e' \<longleftrightarrow>
     evidence_ok L iv' \<and> episode_ok L uid e' \<and> same_episode e e' \<and>
     (\<exists>n. moves (slot_requests slots) n iv iv' \<and> ep_Calls e' = ep_Calls e + int n)"

lemma steps_ok_trans:
  assumes "steps_ok L uid slots a e b f" and "steps_ok L uid slots b f c g"
  shows "steps_ok L uid slots a e c g"
proof -
  obtain n m where n: "moves (slot_requests slots) n a b" "ep_Calls f = ep_Calls e + int n"
    and m: "moves (slot_requests slots) m b c" "ep_Calls g = ep_Calls f + int m"
    using assms by (auto simp: steps_ok_def)
  have "moves (slot_requests slots) (n + m) a c" using n(1) m(1) by (rule moves_trans)
  moreover have "ep_Calls g = ep_Calls e + int (n + m)" using n(2) m(2) by simp
  moreover have "same_episode e g" using assms same_episode_trans by (auto simp: steps_ok_def)
  ultimately show ?thesis using assms(2) unfolding steps_ok_def by blast
qed

lemma steps_ok_still:
  assumes "evidence_ok L iv" and "episode_ok L uid e'" and "same_budget e e'"
  shows "steps_ok L uid slots iv e (iv\<lparr>iv_world := w\<rparr>) e'"
  unfolding steps_ok_def using assms same_budget_episode [OF assms(3)]
  by (intro conjI exI [of _ "0::nat"]) (simp_all add: same_budget_def)

lemma dispatch_query_ok:
  assumes wf: "slots_wf slots" and q: "(s, q) \<in> set slots" and s: "s \<notin> set (ep_dispatched e)"
    and ok: "evidence_ok L iv" "episode_ok L uid e"
    and room: "ep_Calls e < li_MaxCallsPerEpisode L" "ep_Steps e < li_MaxStepsPerEpisode L"
    and d: "dispatch_query L cl full (ak_Slot (rq_Key (qy_Request q))) (qy_Request q) (iv, e, pg) = (iv', e', pg')"
  shows "steps_ok L uid slots iv e iv' e'"
proof -
  have slot: "ak_Slot (rq_Key (qy_Request q)) = s" using wf q by (auto simp: slots_wf_def list_all_iff)
  have "moves (slot_requests slots) 1 iv iv'"
    using d q by (auto simp: dispatch_query_def moves_def slot_requests_def)
  moreover have "episode_ok L uid e'" "ep_Calls e' = ep_Calls e + 1" "same_episode e e'" "evidence_ok L iv'"
    using d ok s room unfolding dispatch_query_def slot
    by (auto simp: episode_ok_def budget_ok_def cands_ok_def same_episode_def)
  ultimately show ?thesis unfolding steps_ok_def by (intro conjI exI [of _ "1::nat"]) simp_all
qed

lemma call_ok:
  assumes "evidence_ok L iv" and "episode_ok L uid e" and "(s, q) \<in> set slots"
    and c: "call_provider E L slice now q (iv, e) = (go, iv', e')"
  shows "steps_ok L uid slots iv e iv' e'"
proof -
  have "qy_Request q \<in> slot_requests slots" using assms(3) by (force simp: slot_requests_def)
  from call_provider_moves [OF assms(1) c this] have "evidence_ok L iv' \<and> moves (slot_requests slots) 0 iv iv'" .
  moreover have b: "same_budget e e'" using call_provider_budget [OF c] .
  moreover have "episode_ok L uid e'"
    using call_provider_traces [OF c] assms(2) same_budget_ok [OF b] b by (simp add: episode_ok_def cands_ok_def same_budget_def)
  ultimately show ?thesis unfolding steps_ok_def
    using same_budget_episode [OF b] by (intro conjI exI [of _ "0::nat"]) (simp_all add: same_budget_def)
qed

lemma updated_ok:
  assumes "episode_ok L uid e"
  shows "episode_ok L uid (updateCandidates L e full (boundCandidates full qb sq (li_MaxCandidates L)))"
proof -
  let ?e = "updateCandidates L e full (boundCandidates full qb sq (li_MaxCandidates L))"
  have b: "same_budget e ?e" by (rule updateCandidates_budget)
  have "trace_ok L ?e \<and> cands_ok L ?e"
    using assms by (intro updateCandidates_ok length_boundCandidates) (simp add: episode_ok_def)
  then show ?thesis using assms b same_budget_ok [OF b, of L] by (simp add: episode_ok_def same_budget_def)
qed

lemma plan_step_ok:
  assumes wf: "slots_wf slots" and ok: "evidence_ok L iv" "episode_ok L uid e" and room: "ep_Steps e < li_MaxStepsPerEpisode L"
    and p: "plan_step E L slice c slots now ta (iv, e, pg) = (go, iv', e', pg')"
  shows "steps_ok L uid slots iv e iv' e'"
proof -
  define full where "full = deriveCandidates ta c"
  define e1 where "e1 = updateCandidates L e full (boundCandidates full (queryableSlots slots) (sp_seq pg) (li_MaxCandidates L))"
  have e1: "episode_ok L uid e1" "same_budget e e1" using updated_ok [OF ok(2)] updateCandidates_budget by (simp_all add: e1_def)
  have first: "steps_ok L uid slots iv e iv e1" using steps_ok_still [OF ok(1) e1, of slots "iv_world iv"] by simp
  note p' = p [unfolded plan_step_def, simplified Let_def prod.case, folded full_def, folded e1_def]
  show ?thesis
  proof (cases "selectQuery L iv ta c full slots (ep_dispatched e1) (sp_seq pg) now")
    case None
    then have "iv' = iv" "e' = end_episode L (finished_state full e1) [] e1" using p' by simp_all
    then show ?thesis using steps_ok_still [OF ok(1) episode_ok_end [OF e1(1)], of e _ _ slots "iv_world iv"] e1(2) by simp
  next
    case (Some x)
    obtain q cl where x: "x = (q, cl)" by (cases x)
    obtain s where s: "(s, q) \<in> set slots" "s \<notin> set (ep_dispatched e1)" using selectQuery_slot Some x by metis
    show ?thesis
    proof (cases "ep_Calls e1 \<ge> li_MaxCallsPerEpisode L")
      case True
      then have "iv' = iv" "e' = end_episode L ExhaustedCalls [] e1" using p' Some x by simp_all
      then show ?thesis using steps_ok_still [OF ok(1) episode_ok_end [OF e1(1)], of e _ _ slots "iv_world iv"] e1(2) by simp
    next
      case False
      obtain iv2 e2 pg2 where d: "dispatch_query L cl full (ak_Slot (rq_Key (qy_Request q))) (qy_Request q) (iv, e1, pg) = (iv2, e2, pg2)"
        by (rule prod_cases3)
      have c: "call_provider E L slice now q (iv2, e2) = (go, iv', e')"
        using p' Some x False d by (auto split: prod.splits)
      have "ep_Steps e1 < li_MaxStepsPerEpisode L" using room e1(2) by (simp add: same_budget_def)
      then have second: "steps_ok L uid slots iv e1 iv2 e2" using dispatch_query_ok [OF wf s ok(1) e1(1)] False d by simp
      then have "evidence_ok L iv2" "episode_ok L uid e2" by (simp_all add: steps_ok_def)
      then have "steps_ok L uid slots iv2 e2 iv' e'" by (rule call_ok [OF _ _ s(1) c])
      then show ?thesis using steps_ok_trans [OF first steps_ok_trans [OF second]] by blast
    qed
  qed
qed

lemma read_clock_world: "read_clock E iv = (now, iv') \<Longrightarrow> \<exists>w. iv' = iv\<lparr>iv_world := w\<rparr>"
  by (auto simp: read_clock_def split: prod.splits)

lemma loop_body_ok:
  assumes wf: "slots_wf slots" and ok: "evidence_ok L iv" "episode_ok L uid e"
    and p: "loop_body E L slice base c uid slots (iv, e, pg) = (go, iv', e', pg')"
  shows "steps_ok L uid slots iv e iv' e'"
proof -
  obtain now iv1 where r: "read_clock E iv = (now, iv1)" by (rule prod.exhaust)
  then obtain w where iv1: "iv1 = iv\<lparr>iv_world := w\<rparr>" using read_clock_world by blast
  have ok1: "evidence_ok L iv1" using ok(1) by (simp add: iv1)
  have still: "steps_ok L uid slots iv e iv1 e" unfolding iv1 by (rule steps_ok_still [OF ok]) simp
  have ended: "steps_ok L uid slots iv e iv1 (end_episode L st d e)" for st d
    unfolding iv1 by (rule steps_ok_still [OF ok(1) episode_ok_end [OF ok(2)]]) simp
  have planned: "steps_ok L uid slots iv e iv' e'"
    if "\<not> ep_Steps e \<ge> li_MaxStepsPerEpisode L" and "plan_step E L slice c slots now ta (iv1, e, pg) = (go, iv', e', pg')" for ta
    using plan_step_ok [OF wf ok1 ok(2) _ that(2)] that(1) steps_ok_trans [OF still] by simp
  show ?thesis using p still ended planned by (auto simp: loop_body_def r split: if_splits option.splits)
qed

lemma episode_loop_ok:
  assumes "slots_wf slots" and "evidence_ok L iv" and "episode_ok L uid e"
    and "episode_loop E L slice base c uid slots (iv, e, pg) = (iv', e', pg')"
  shows "steps_ok L uid slots iv e iv' e'"
  using assms
proof (induction E L slice base c uid slots "(iv, e, pg)" arbitrary: iv e pg rule: episode_loop.induct)
  case (1 E L slice base c uid slots iv e pg)
  show ?case
  proof (cases "ep_active e")
    case False
    then have "iv' = iv" "e' = e" using "1.prems"(4) by (simp_all add: episode_loop.simps)
    then show ?thesis using steps_ok_still [OF "1.prems"(2,3), of e slots "iv_world iv"] by simp
  next
    case True
    obtain go iv1 e1 pg1 where b: "loop_body E L slice base c uid slots (iv, e, pg) = (go, iv1, e1, pg1)" by (rule prod_cases4)
    have first: "steps_ok L uid slots iv e iv1 e1" by (rule loop_body_ok [OF "1.prems"(1-3) b])
    show ?thesis
    proof (cases go)
      case False
      then show ?thesis using "1.prems"(4) True b first by (simp add: episode_loop.simps [of E L slice base c uid slots iv])
    next
      case True
      then have rest: "episode_loop E L slice base c uid slots (iv1, e1, pg1) = (iv', e', pg')"
        using "1.prems"(4) \<open>ep_active e\<close> b by (simp add: episode_loop.simps [of E L slice base c uid slots iv])
      have "evidence_ok L iv1" "episode_ok L uid e1" using first by (simp_all add: steps_ok_def)
      from "1.hyps" [OF _ b [symmetric] True "1.prems"(1) this rest] \<open>ep_active e\<close>
      have "steps_ok L uid slots iv1 e1 iv' e'" by simp
      with first show ?thesis by (rule steps_ok_trans)
    qed
  qed
qed

section \<open>A target\<close>

definition episodes_ok :: "Limits \<Rightarrow> 'w Investigator \<Rightarrow> bool" where
  "episodes_ok L iv \<longleftrightarrow>
     distinct (map fst (iv_episodes iv)) \<and> int (length (iv_episodes iv)) \<le> max 0 (li_MaxResidentEpisodes L) \<and>
     (\<forall>x \<in> set (iv_episodes iv). episode_ok L (fst x) (snd x))"

definition inv_ok :: "Limits \<Rightarrow> 'w Investigator \<Rightarrow> bool" where
  "inv_ok L iv \<longleftrightarrow> evidence_ok L iv \<and> episodes_ok L iv"

text \<open>\<open>sends\<close> is what \<open>moves\<close> says of requests and evidence, whatever happens to the episodes.\<close>

definition sends :: "ProviderRequest set \<Rightarrow> nat \<Rightarrow> 'w Investigator \<Rightarrow> 'w Investigator \<Rightarrow> bool" where
  "sends R n iv iv' \<longleftrightarrow>
     sn_Dispatched (iv_stats iv') = sn_Dispatched (iv_stats iv) + int n \<and>
     (\<exists>new. iv_sent iv' = iv_sent iv @ new \<and> length new = n \<and> set new \<subseteq> R) \<and>
     fst ` set (iv_held iv) \<subseteq> fst ` set (iv_held iv') \<and>
     fst ` set (iv_held iv') \<subseteq> fst ` set (iv_held iv) \<union> rq_Key ` R \<and>
     marks_mono (iv_marks iv) (iv_marks iv')"

lemma moves_sends: "moves R n iv iv' \<Longrightarrow> sends R n iv iv'"
  by (simp add: moves_def sends_def)

lemma sends_refl [simp]: "sends R 0 iv iv"
  by (simp add: sends_def)

lemma sends_trans:
  assumes "sends R a x y" and "sends S b y z"
  shows "sends (R \<union> S) (a + b) x z"
proof -
  from assms(1) obtain n1 where "iv_sent y = iv_sent x @ n1" "length n1 = a" "set n1 \<subseteq> R" unfolding sends_def by (elim conjE exE) simp
  moreover from assms(2) obtain n2 where "iv_sent z = iv_sent y @ n2" "length n2 = b" "set n2 \<subseteq> S" unfolding sends_def by (elim conjE exE) simp
  ultimately have "\<exists>new. iv_sent z = iv_sent x @ new \<and> length new = a + b \<and> set new \<subseteq> R \<union> S"
    by (intro exI [of _ "n1 @ n2"]) auto
  moreover have "fst ` set (iv_held x) \<subseteq> fst ` set (iv_held z)"
    using assms subset_trans [of "fst ` set (iv_held x)" "fst ` set (iv_held y)" "fst ` set (iv_held z)"] by (simp add: sends_def)
  moreover have "fst ` set (iv_held z) \<subseteq> fst ` set (iv_held x) \<union> rq_Key ` (R \<union> S)"
  proof -
    have "fst ` set (iv_held y) \<subseteq> fst ` set (iv_held x) \<union> rq_Key ` R" "fst ` set (iv_held z) \<subseteq> fst ` set (iv_held y) \<union> rq_Key ` S"
      using assms by (simp_all add: sends_def)
    moreover have "D \<subseteq> B \<union> (C \<union> F)" if "A \<subseteq> B \<union> C" "D \<subseteq> A \<union> F" for A B C D F :: "ApplicabilityKey set" using that by blast
    ultimately show ?thesis unfolding image_Un by simp
  qed
  ultimately show ?thesis using assms marks_mono_trans [of "iv_marks x" "iv_marks y" "iv_marks z"] unfolding sends_def by simp
qed

lemma put_episode_fields [simp]:
  "iv_held (put_episode uid e iv) = iv_held iv" "iv_marks (put_episode uid e iv) = iv_marks iv"
  "iv_stats (put_episode uid e iv) = iv_stats iv" "iv_sent (put_episode uid e iv) = iv_sent iv"
  "iv_episodes (put_episode uid e iv) = AList.update uid e (iv_episodes iv)" "iv_cursor (put_episode uid e iv) = iv_cursor iv"
  "iv_progress (put_episode uid e iv) = iv_progress iv" "iv_starts (put_episode uid e iv) = iv_starts iv" "iv_world (put_episode uid e iv) = iv_world iv"
  by (simp_all add: put_episode_def)

lemma episodes_ok_put:
  assumes "episodes_ok L iv" and "episode_ok L uid e"
    and "uid \<in> fst ` set (iv_episodes iv) \<or> int (length (iv_episodes iv)) < li_MaxResidentEpisodes L"
    and "iv_episodes iv' = AList.update uid e (iv_episodes iv)"
  shows "episodes_ok L iv'"
proof -
  have d: "distinct (map fst (iv_episodes iv))" using assms(1) by (simp add: episodes_ok_def)
  have "\<forall>x \<in> set (AList.update uid e (iv_episodes iv)). episode_ok L (fst x) (snd x)"
    using assms(1,2) by (intro update_keeps_all [OF d]) (simp_all add: episodes_ok_def)
  then show ?thesis using assms d distinct_update by (auto simp: episodes_ok_def length_update)
qed

definition calls_left :: "Limits \<Rightarrow> Episode \<Rightarrow> int" where
  "calls_left L e = max 0 (li_MaxCallsPerEpisode L) - ep_Calls e"

lemma run_episode_ok:
  assumes wf: "slots_wf slots" and ok: "inv_ok L iv" and e: "episode_ok L uid e" and here: "uid \<in> fst ` set (iv_episodes iv)"
  obtains n e' where "inv_ok L (run_episode E L slice base c uid slots att e pg iv)"
    and "sends (slot_requests slots) n iv (run_episode E L slice base c uid slots att e pg iv)" and "int n \<le> calls_left L e"
    and "iv_episodes (run_episode E L slice base c uid slots att e pg iv) = AList.update uid e' (iv_episodes iv)"
    and "same_episode e e'" and "iv_cursor (run_episode E L slice base c uid slots att e pg iv) = iv_cursor iv"
    and "iv_starts (run_episode E L slice base c uid slots att e pg iv) = iv_starts iv"
proof -
  obtain iv1 e1 pg1 where l: "episode_loop E L slice base c uid slots (iv, e, pg) = (iv1, e1, pg1)" by (rule prod_cases3)
  have "evidence_ok L iv" using ok by (simp add: inv_ok_def)
  from episode_loop_ok [OF wf this e l] obtain n where s: "evidence_ok L iv1" "episode_ok L uid e1" "same_episode e e1"
    "moves (slot_requests slots) n iv iv1" "ep_Calls e1 = ep_Calls e + int n" by (auto simp: steps_ok_def)
  let ?r = "run_episode E L slice base c uid slots att e pg iv"
  have r: "iv_held ?r = iv_held iv1" "iv_marks ?r = iv_marks iv1" "iv_stats ?r = iv_stats iv1" "iv_sent ?r = iv_sent iv1"
    "iv_episodes ?r = AList.update uid e1 (iv_episodes iv)" "iv_cursor ?r = iv_cursor iv" "iv_starts ?r = iv_starts iv" "evidence_ok L ?r"
    using s(1,4) by (simp_all add: run_episode_def l Let_def moves_def)
  have "episodes_ok L ?r" using ok here by (intro episodes_ok_put [OF _ s(2) _ r(5)]) (simp_all add: inv_ok_def)
  moreover have "sends (slot_requests slots) n iv ?r" using moves_sends [OF s(4)] r by (simp add: sends_def)
  moreover have "int n \<le> calls_left L e" using s(2,5) by (simp add: episode_ok_def budget_ok_def calls_left_def)
  ultimately show ?thesis using that r s(3) by (simp add: inv_ok_def)
qed

text \<open>Admission changes no evidence and sends nothing; it may forget cooled records.\<close>

definition unmoved :: "'w Investigator \<Rightarrow> 'w Investigator \<Rightarrow> bool" where
  "unmoved iv iv' \<longleftrightarrow>
     iv_held iv' = iv_held iv \<and> iv_marks iv' = iv_marks iv \<and> iv_sent iv' = iv_sent iv \<and> iv_starts iv' = iv_starts iv \<and>
     iv_cursor iv' = iv_cursor iv \<and> sn_Dispatched (iv_stats iv') = sn_Dispatched (iv_stats iv)"

lemma unmoved_facts:
  assumes "unmoved iv iv'"
  shows "sends R 0 iv iv'" and "evidence_ok L iv' \<longleftrightarrow> evidence_ok L iv" and "iv_cursor iv' = iv_cursor iv"
    and "sends R n iv' x \<longleftrightarrow> sends R n iv x"
  using assms by (simp_all add: unmoved_def sends_def evidence_ok_def)

definition kept_episodes :: "Limits \<Rightarrow> instant \<Rightarrow> (string \<times> Episode) list \<Rightarrow> (string \<times> Episode) list" where
  "kept_episodes L now es = filter (\<lambda>(uid, e). ep_active e \<or> \<not> cooled L now e) es"

lemma admit_episode_facts:
  assumes "admit_episode L uid ep now iv = (ok, iv')"
  shows "unmoved iv iv'" and "iv_world iv' = iv_world iv"
    and "iv_episodes iv' = iv_episodes iv \<or> ep = None \<and> iv_episodes iv' = kept_episodes L now (iv_episodes iv)"
    and "ok \<Longrightarrow> (case ep of Some e \<Rightarrow> cooled L now e | None \<Rightarrow> int (length (iv_episodes iv')) < li_MaxResidentEpisodes L)"
proof -
  have gone: "filter (\<lambda>x. \<not> (case x of (uid, e) \<Rightarrow> \<not> ep_active e \<and> cooled L now e)) es = kept_episodes L now es" for es
    by (auto simp: kept_episodes_def intro: filter_cong)
  note defs = admit_episode_def pruneEpisodes_def count_denied_def count_capacity_def Let_def cooled_def gone
  show "unmoved iv iv'" "iv_world iv' = iv_world iv" using assms by (auto simp: defs unmoved_def split: option.splits if_splits)
  show "iv_episodes iv' = iv_episodes iv \<or> ep = None \<and> iv_episodes iv' = kept_episodes L now (iv_episodes iv)"
    using assms unfolding admit_episode_def pruneEpisodes_def Let_def gone
    by (auto simp: count_denied_def count_capacity_def split: option.splits if_splits)
  show "ok \<Longrightarrow> (case ep of Some e \<Rightarrow> cooled L now e | None \<Rightarrow> int (length (iv_episodes iv')) < li_MaxResidentEpisodes L)"
    using assms unfolding admit_episode_def pruneEpisodes_def Let_def gone
    by (auto simp: cooled_def split: option.splits if_splits)
qed

lemma episodes_ok_sub:
  assumes "episodes_ok L iv" and "iv_episodes iv' = filter P (iv_episodes iv)"
  shows "episodes_ok L iv'"
proof -
  have "int (length (filter P (iv_episodes iv))) \<le> int (length (iv_episodes iv))" by simp
  moreover have "int (length (iv_episodes iv)) \<le> max 0 (li_MaxResidentEpisodes L)" using assms(1) by (simp add: episodes_ok_def)
  ultimately have "int (length (filter P (iv_episodes iv))) \<le> max 0 (li_MaxResidentEpisodes L)" by (rule order_trans)
  then show ?thesis using assms by (simp add: episodes_ok_def distinct_map_filter)
qed

lemma admit_episode_ok:
  assumes "admit_episode L uid ep now iv = (ok, iv')" and "inv_ok L iv"
  shows "inv_ok L iv'"
proof -
  have "iv_episodes iv' = filter (\<lambda>_. True) (iv_episodes iv) \<or> iv_episodes iv' = kept_episodes L now (iv_episodes iv)"
    using admit_episode_facts(3) [OF assms(1)] by auto
  then have "episodes_ok L iv'" using assms(2) episodes_ok_sub unfolding kept_episodes_def inv_ok_def by blast
  then show ?thesis using assms(2) unmoved_facts(2) [OF admit_episode_facts(1) [OF assms(1)], of L] by (simp add: inv_ok_def)
qed

lemma new_episode_ok: "episode_ok L uid (new_episode L uid key cl now)"
  by (simp add: episode_ok_def budget_ok_def trace_ok_def cands_ok_def new_episode_def)

lemma start_episode_fields [simp]:
  "iv_held (start_episode uid e pg iv) = iv_held iv" "iv_marks (start_episode uid e pg iv) = iv_marks iv"
  "iv_sent (start_episode uid e pg iv) = iv_sent iv" "iv_cursor (start_episode uid e pg iv) = iv_cursor iv"
  "iv_world (start_episode uid e pg iv) = iv_world iv" "iv_episodes (start_episode uid e pg iv) = AList.update uid e (iv_episodes iv)"
  "iv_starts (start_episode uid e pg iv) = iv_starts iv @ [(uid, ep_Started e)]"
  "sn_Dispatched (iv_stats (start_episode uid e pg iv)) = sn_Dispatched (iv_stats iv)"
  by (simp_all add: start_episode_def)

lemma start_episode_ok:
  assumes "inv_ok L iv" and "episode_ok L uid e"
    and "uid \<in> fst ` set (iv_episodes iv) \<or> int (length (iv_episodes iv)) < li_MaxResidentEpisodes L"
  shows "inv_ok L (start_episode uid e pg iv)"
proof -
  have "episodes_ok L iv" using assms(1) by (simp add: inv_ok_def)
  from episodes_ok_put [OF this assms(2,3) start_episode_fields(6)] have "episodes_ok L (start_episode uid e pg iv)" .
  then show ?thesis using assms(1) by (simp add: inv_ok_def evidence_ok_def)
qed

lemma admit_episode_room:
  assumes "admit_episode L uid ep now iv = (b, iv')" and "b" and "ep = map_of (iv_episodes iv) uid"
  shows "uid \<in> fst ` set (iv_episodes iv') \<or> int (length (iv_episodes iv')) < li_MaxResidentEpisodes L"
proof (cases ep)
  case None
  then show ?thesis using admit_episode_facts(4) [OF assms(1,2)] by simp
next
  case (Some e)
  then have "iv_episodes iv' = iv_episodes iv" using admit_episode_facts(3) [OF assms(1)] by simp
  moreover have "uid \<in> fst ` set (iv_episodes iv)" using assms(3) Some map_of_SomeD [of "iv_episodes iv" uid e] by force
  ultimately show ?thesis by simp
qed

text \<open>What a visit of one target does: it keeps the invariants and sends at most one budget of requests, all to
  the slots of the target.\<close>

definition visit_ok :: "Limits \<Rightarrow> 'p slots \<Rightarrow> 'w Investigator \<Rightarrow> 'w Investigator \<Rightarrow> bool" where
  "visit_ok L slots iv iv' \<longleftrightarrow>
     inv_ok L iv' \<and> iv_cursor iv' = iv_cursor iv \<and>
     (\<exists>n. sends (slot_requests slots) n iv iv' \<and> int n \<le> max 0 (li_MaxCallsPerEpisode L))"

lemma visit_quiet: "unmoved iv iv' \<Longrightarrow> inv_ok L iv' \<Longrightarrow> visit_ok L slots iv iv'"
  unfolding visit_ok_def using unmoved_facts(1,3) [of iv iv'] by (intro conjI exI [of _ "0::nat"]) auto

lemma visit_after_quiet: "unmoved iv iv1 \<Longrightarrow> visit_ok L slots iv1 iv' \<Longrightarrow> visit_ok L slots iv iv'"
  unfolding visit_ok_def using unmoved_facts(3,4) [of iv iv1] by auto

lemma run_episode_visit:
  assumes "slots_wf slots" and "inv_ok L iv" and "episode_ok L uid e" and "uid \<in> fst ` set (iv_episodes iv)"
  shows "visit_ok L slots iv (run_episode E L slice base c uid slots att e pg iv)"
proof -
  obtain n e' where r: "inv_ok L (run_episode E L slice base c uid slots att e pg iv)"
    "sends (slot_requests slots) n iv (run_episode E L slice base c uid slots att e pg iv)" "int n \<le> calls_left L e"
    "iv_cursor (run_episode E L slice base c uid slots att e pg iv) = iv_cursor iv"
    using run_episode_ok [OF assms, of E slice base c att pg] by blast
  have "0 \<le> ep_Calls e" using assms(3) by (simp add: episode_ok_def budget_ok_def)
  then show ?thesis using r unfolding visit_ok_def calls_left_def by (intro conjI exI [of _ n]) auto
qed

lemma begin_episode_visit:
  assumes wf: "slots_wf slots" and ok: "inv_ok L iv" and ep: "ep = map_of (iv_episodes iv) uid"
  shows "visit_ok L slots iv (begin_episode E L slice base c uid slots now ta key pg ep iv)"
proof (cases "selectQuery L iv ta c (deriveCandidates ta c) slots [] (sp_seq pg) now")
  case None
  then show ?thesis using ok by (simp add: begin_episode_def visit_quiet unmoved_def)
next
  case (Some x)
  obtain q cl where x: "x = (q, cl)" by (rule prod.exhaust)
  obtain b iv1 where a: "admit_episode L uid ep now iv = (b, iv1)" by (rule prod.exhaust)
  note ad = admit_episode_facts [OF a] and ok1 = admit_episode_ok [OF a ok]
  show ?thesis
  proof (cases b)
    case False
    then show ?thesis using Some x a visit_quiet [OF ad(1) ok1] by (simp add: begin_episode_def)
  next
    case True
    let ?e = "new_episode L uid key cl now"
    let ?iv2 = "start_episode uid ?e pg iv1"
    have ok2: "inv_ok L ?iv2" by (rule start_episode_ok [OF ok1 new_episode_ok admit_episode_room [OF a True ep]])
    have "uid \<in> fst ` set (iv_episodes ?iv2)" by (simp add: dom_update)
    then have "visit_ok L slots ?iv2 (run_episode E L slice base c uid slots True ?e pg ?iv2)"
      by (rule run_episode_visit [OF wf ok2 new_episode_ok])
    then have "visit_ok L slots iv1 (run_episode E L slice base c uid slots True ?e pg ?iv2)"
      by (simp add: visit_ok_def sends_def)
    then show ?thesis using Some x a True visit_after_quiet [OF ad(1)] by (simp add: begin_episode_def Let_def)
  qed
qed

lemma unmoved_simps:
  "unmoved iv (iv\<lparr>iv_world := w\<rparr>)" "unmoved iv (put_episode uid e iv)" "unmoved iv iv"
  by (simp_all add: unmoved_def)

lemma unmoved_trans: "unmoved a b \<Longrightarrow> unmoved b c \<Longrightarrow> unmoved a c"
  by (simp add: unmoved_def)

lemma inv_ok_world [simp]: "inv_ok L (iv\<lparr>iv_world := w\<rparr>) \<longleftrightarrow> inv_ok L iv"
  by (simp add: inv_ok_def episodes_ok_def)

lemma inv_ok_put:
  assumes "inv_ok L iv" and "episode_ok L uid e" and "uid \<in> fst ` set (iv_episodes iv)"
  shows "inv_ok L (put_episode uid e iv)"
proof -
  have "episodes_ok L iv" using assms(1) by (simp add: inv_ok_def)
  from episodes_ok_put [OF this assms(2) _ put_episode_fields(5)] assms(3) have "episodes_ok L (put_episode uid e iv)" by simp
  then show ?thesis using assms(1) by (simp add: inv_ok_def)
qed

lemma inv_ok_episode:
  assumes "inv_ok L iv" and "map_of (iv_episodes iv) uid = Some e"
  shows "episode_ok L uid e" and "uid \<in> fst ` set (iv_episodes iv)"
proof -
  have m: "(uid, e) \<in> set (iv_episodes iv)" using assms(2) by (rule map_of_SomeD)
  show "episode_ok L uid e" using assms(1) m by (force simp: inv_ok_def episodes_ok_def)
  show "uid \<in> fst ` set (iv_episodes iv)" using m by force
qed

lemma end_invalid_ok: "inv_ok L iv \<Longrightarrow> unmoved iv (end_invalid L uid iv) \<and> inv_ok L (end_invalid L uid iv)"
  by (auto simp: end_invalid_def unmoved_simps split: option.split intro!: inv_ok_put episode_ok_end dest: inv_ok_episode)

lemma investigate_visit:
  assumes wf: "slots_wf slots" and ok: "inv_ok L iv"
  shows "visit_ok L slots iv (investigate E L slice base uid slots iv)"
proof -
  obtain now iv1 where r: "read_clock E iv = (now, iv1)" by (rule prod.exhaust)
  then obtain w where iv1: "iv1 = iv\<lparr>iv_world := w\<rparr>" using read_clock_world by blast
  have q1: "unmoved iv iv1" and ok1: "inv_ok L iv1" using ok by (simp_all add: iv1 unmoved_simps)
  have "visit_ok L slots iv1 (investigate E L slice base uid slots iv)"
  proof (cases "valid_target (evaluate iv1 base now) uid")
    case None
    then show ?thesis using end_invalid_ok [OF ok1, of uid] by (simp add: investigate_def r visit_quiet)
  next
    case (Some ta)
    note V = Some
    show ?thesis
    proof (cases "contractOf base (ta_Contract ta)")
      case None
      then show ?thesis using V ok1 by (simp add: investigate_def r visit_quiet unmoved_simps)
    next
      case (Some c)
      note C = Some
      define pg where "pg = (case progress_of iv1 uid (episodeKey ta slots) of None \<Rightarrow> new_progress (episodeKey ta slots) | Some pg \<Rightarrow> pg)"
      show ?thesis
      proof (cases "map_of (iv_episodes iv1) uid")
        case None
        then show ?thesis using V C begin_episode_visit [OF wf ok1, of None uid]
          by (simp add: investigate_def r Let_def)
      next
        case (Some e)
        note eok = inv_ok_episode [OF ok1 Some]
        show ?thesis
        proof (cases "ep_active e \<and> ep_Key e = episodeKey ta slots")
          case True
          then show ?thesis using V C Some run_episode_visit [OF wf ok1 eok] by (simp add: investigate_def r Let_def)
        next
          case False
          define e' where "e' = (if ep_active e then end_episode L Superseded ''identity or bindings changed'' e else e)"
          have "episode_ok L uid e'" using eok(1) by (simp add: e'_def episode_ok_end)
          then have "inv_ok L (put_episode uid e' iv1)" using inv_ok_put [OF ok1 _ eok(2)] by simp
          moreover have "Some e' = map_of (iv_episodes (put_episode uid e' iv1)) uid" by (simp add: update_conv)
          ultimately have "visit_ok L slots (put_episode uid e' iv1)
             (begin_episode E L slice base c uid slots now ta (episodeKey ta slots) pg (Some e') (put_episode uid e' iv1))"
            by (rule begin_episode_visit [OF wf])
          then have "visit_ok L slots iv1
             (begin_episode E L slice base c uid slots now ta (episodeKey ta slots) pg (Some e') (put_episode uid e' iv1))"
            by (rule visit_after_quiet [OF unmoved_simps(2)])
          moreover have "investigate E L slice base uid slots iv =
             begin_episode E L slice base c uid slots now ta (episodeKey ta slots) pg (Some e') (put_episode uid e' iv1)"
            unfolding investigate_def r prod.case V option.case C Let_def Some if_not_P [OF False] e'_def pg_def ..
          ultimately show ?thesis by simp
        qed
      qed
    qed
  qed
  then show ?thesis by (rule visit_after_quiet [OF q1])
qed

section \<open>A run\<close>

definition queries_wf :: "'p Queries \<Rightarrow> bool" where
  "queries_wf qs \<longleftrightarrow> distinct (map fst qs) \<and> (\<forall>x \<in> set qs. slots_wf (snd x))"

definition requests_of :: "'p Queries \<Rightarrow> ProviderRequest set" where
  "requests_of qs = (\<Union>x \<in> set qs. slot_requests (snd x))"

lemma slots_of_uid:
  assumes "queries_wf qs"
  shows "slots_wf (case map_of qs uid of None \<Rightarrow> [] | Some s \<Rightarrow> s)"
    and "slot_requests (case map_of qs uid of None \<Rightarrow> [] | Some s \<Rightarrow> s) \<subseteq> requests_of qs"
  using assms by (force simp: queries_wf_def requests_of_def slots_wf_def slot_requests_def dest: map_of_SomeD split: option.split)+

lemma sends_mono:
  assumes "sends R n x y" and "R \<subseteq> S"
  shows "sends S n x y"
proof -
  obtain new where "iv_sent y = iv_sent x @ new" "length new = n" "set new \<subseteq> R" using assms(1) by (auto simp: sends_def)
  then have "\<exists>new. iv_sent y = iv_sent x @ new \<and> length new = n \<and> set new \<subseteq> S" using assms(2) by (intro exI [of _ new]) simp
  moreover have "fst ` set (iv_held y) \<subseteq> fst ` set (iv_held x) \<union> rq_Key ` R" using assms(1) by (simp add: sends_def)
  then have "fst ` set (iv_held y) \<subseteq> fst ` set (iv_held x) \<union> rq_Key ` S"
    by (rule subset_trans) (intro Un_mono image_mono assms(2) order_refl)
  ultimately show ?thesis using assms(1) by (simp add: sends_def)
qed

lemma visit_targets_ok:
  assumes "queries_wf qs" and "inv_ok L iv" and "visit_targets E L slice base qs fin uids iv = (nxt, iv')"
  shows "inv_ok L iv' \<and> (\<exists>n. sends (requests_of qs) n iv iv' \<and> int n \<le> max 0 (li_MaxCallsPerEpisode L) * int (length uids))"
  using assms(2,3)
proof (induction uids arbitrary: iv)
  case Nil
  then show ?case by (intro conjI exI [of _ "0::nat"]) simp_all
next
  case (Cons uid uids)
  let ?s = "case map_of qs uid of None \<Rightarrow> [] | Some s \<Rightarrow> s" and ?B = "max 0 (li_MaxCallsPerEpisode L)"
  let ?i = "investigate E L slice base uid ?s iv"
  have "visit_ok L ?s iv ?i" by (rule investigate_visit [OF slots_of_uid(1) [OF assms(1)] Cons.prems(1)])
  then obtain n where i: "inv_ok L ?i" "sends (slot_requests ?s) n iv ?i" "int n \<le> ?B" by (auto simp: visit_ok_def)
  have n: "sends (requests_of qs) n iv ?i" by (rule sends_mono [OF i(2) slots_of_uid(2) [OF assms(1)]])
  have B: "int n \<le> ?B * int (length (uid # uids))" using i(3) by (simp add: algebra_simps) (smt (verit) mult_nonneg_nonneg of_nat_0_le_iff)
  consider "iv' = iv" | "iv' = ?i" | "visit_targets E L slice base qs fin uids ?i = (nxt, iv')"
    using Cons.prems(2) by (auto simp: Let_def split: if_splits)
  then show ?case
  proof cases
    case 1
    then show ?thesis using Cons.prems(1) by (intro conjI exI [of _ "0::nat"]) simp_all
  next
    case 2
    then show ?thesis using i(1) n B by auto
  next
    case 3
    from Cons.IH [OF i(1) 3] obtain m where m: "inv_ok L iv'" "sends (requests_of qs) m ?i iv'" "int m \<le> ?B * int (length uids)" by blast
    have "sends (requests_of qs) (n + m) iv iv'" using sends_trans [OF n m(2)] by simp
    moreover have "int (n + m) \<le> ?B * int (length (uid # uids))" using i(3) m(3) by (simp add: algebra_simps)
    ultimately show ?thesis using m(1) by blast
  qed
qed

lemma validOnly_ok:
  assumes "validOnly E L base qs iv = (qs', iv')" and "inv_ok L iv"
  shows "unmoved iv iv' \<and> inv_ok L iv'" and "set qs' \<subseteq> set qs" and "queries_wf qs \<Longrightarrow> queries_wf qs'" and "length qs' \<le> length qs"
    and "\<exists>now. \<forall>x \<in> set qs'. valid_target (evaluate iv base now) (fst x) \<noteq> None"
proof -
  obtain now iv1 where r: "read_clock E iv = (now, iv1)" by (rule prod.exhaust)
  then obtain w where iv1: "iv1 = iv\<lparr>iv_world := w\<rparr>" using read_clock_world by blast
  let ?v = "\<lambda>uid. valid_target (evaluate iv1 base now) uid \<noteq> None"
  have "unmoved iv (fold (\<lambda>(uid, slots). if ?v uid then id else end_invalid L uid) xs x) \<and>
      inv_ok L (fold (\<lambda>(uid, slots). if ?v uid then id else end_invalid L uid) xs x)"
    if "unmoved iv x \<and> inv_ok L x" for xs :: "'a Queries" and x
    using that
  proof (induction xs arbitrary: x)
    case (Cons y xs)
    have "unmoved iv (end_invalid L (fst y) x) \<and> inv_ok L (end_invalid L (fst y) x)"
      using end_invalid_ok [of L x "fst y"] Cons.prems unmoved_trans by blast
    then show ?case using Cons by (simp add: split_beta)
  qed simp
  from this [of iv1 qs] assms show "unmoved iv iv' \<and> inv_ok L iv'"
    by (simp add: validOnly_def r Let_def unmoved_simps iv1)
  have qs': "qs' = filter (\<lambda>(uid, slots). ?v uid) qs" using assms(1) by (simp add: validOnly_def r Let_def)
  show "set qs' \<subseteq> set qs" "queries_wf qs \<Longrightarrow> queries_wf qs'" "length qs' \<le> length qs"
    by (auto simp: qs' queries_wf_def distinct_map_filter)
  have "evaluate iv1 base now = evaluate iv base now" by (simp add: evaluate_def iv1)
  then show "\<exists>now. \<forall>x \<in> set qs'. valid_target (evaluate iv base now) (fst x) \<noteq> None"
    by (intro exI [of _ now]) (auto simp: qs')
qed

lemma filter_held_ok:
  assumes "evidence_ok L iv" and "iv_held iv' = filter (\<lambda>x. fst x \<in> A) (iv_held iv)"
    and "iv_marks iv' = (\<lambda>k. if k \<in> fst ` set (iv_held iv) \<and> k \<notin> A then None else iv_marks iv k)"
  shows "evidence_ok L iv'"
proof -
  have "int (length (filter (\<lambda>x. fst x \<in> A) (iv_held iv))) \<le> int (length (iv_held iv))" by simp
  also have "\<dots> \<le> max 0 (li_MaxHeldObservations L)" using assms(1) by (simp add: evidence_ok_def)
  finally have "int (length (iv_held iv')) \<le> max 0 (li_MaxHeldObservations L)" by (simp add: assms(2))
  moreover have "held_ok (iv_marks iv') x" if "x \<in> set (iv_held iv')" for x
  proof -
    have "x \<in> set (iv_held iv)" "fst x \<in> A" using that by (simp_all add: assms(2))
    then have "held_ok (iv_marks iv) x" "iv_marks iv' (fst x) = iv_marks iv (fst x)" using assms(1) by (simp_all add: evidence_ok_def assms(3))
    then show ?thesis by (cases x) (simp add: held_ok_def)
  qed
  moreover have "k \<in> fst ` set (iv_held iv')" if k: "iv_marks iv' k \<noteq> None" for k
  proof -
    have m: "iv_marks iv k \<noteq> None" "\<not> (k \<in> fst ` set (iv_held iv) \<and> k \<notin> A)" using k by (auto simp: assms(3) split: if_splits)
    from m(1) have "k \<in> fst ` set (iv_held iv)" using assms(1) by (simp add: evidence_ok_def)
    then show ?thesis using m(2) by (auto simp: assms(2))
  qed
  ultimately show ?thesis using assms(1) by (simp add: evidence_ok_def assms(2) distinct_map_filter)
qed

lemma purge_episode_facts:
  "purge_episode L qs now (uid, e) = Some (uid', e') \<Longrightarrow> episode_ok L uid e \<Longrightarrow> uid' = uid \<and> episode_ok L uid e'"
  by (auto simp: purge_episode_def episode_ok_end split: if_splits)

lemma map_filter_purge:
  assumes "distinct (map fst es)" and "\<forall>x \<in> set es. episode_ok L (fst x) (snd x)"
  shows "distinct (map fst (List.map_filter (purge_episode L qs now) es)) \<and>
    length (List.map_filter (purge_episode L qs now) es) \<le> length es \<and>
    (\<forall>x \<in> set (List.map_filter (purge_episode L qs now) es). episode_ok L (fst x) (snd x) \<and> fst x \<in> fst ` set es)"
  using assms
proof (induction es)
  case (Cons x es)
  obtain uid e where x: "x = (uid, e)" by (rule prod.exhaust)
  show ?case
  proof (cases "purge_episode L qs now (uid, e)")
    case None
    then show ?thesis using Cons x by (auto simp: List.map_filter_simps)
  next
    case (Some y)
    obtain uid' e' where y: "y = (uid', e')" by (rule prod.exhaust)
    then have "uid' = uid" "episode_ok L uid e'" using purge_episode_facts [of L qs now uid e uid' e'] Some Cons.prems(2) x by auto
    then show ?thesis using Cons x Some y by (auto simp: List.map_filter_simps)
  qed
qed (simp add: List.map_filter_simps)

lemma purge_ok:
  assumes "inv_ok L iv"
  shows "inv_ok L (purge E L qs iv)" and "iv_held (purge E L qs iv) = filter (\<lambda>x. fst x \<in> set (authorized_keys qs)) (iv_held iv)"
    and "iv_marks (purge E L qs iv) = (\<lambda>k. if k \<in> fst ` set (iv_held iv) \<and> k \<notin> set (authorized_keys qs) then None else iv_marks iv k)"
    and "iv_sent (purge E L qs iv) = iv_sent iv" and "iv_cursor (purge E L qs iv) = iv_cursor iv"
    and "iv_stats (purge E L qs iv) = iv_stats iv" and "iv_starts (purge E L qs iv) = iv_starts iv"
proof -
  let ?A = "set (authorized_keys qs)"
  define iv1 where "iv1 = iv\<lparr>iv_held := filter (\<lambda>x. fst x \<in> ?A) (iv_held iv),
    iv_marks := (\<lambda>k. if k \<in> fst ` set (iv_held iv) \<and> k \<notin> ?A then None else iv_marks iv k)\<rparr>"
  obtain now iv2 where r: "read_clock E iv1 = (now, iv2)" by (rule prod.exhaust)
  then obtain w where iv2: "iv2 = iv1\<lparr>iv_world := w\<rparr>" using read_clock_world by blast
  have p: "iv_episodes (purge E L qs iv) = List.map_filter (purge_episode L qs now) (iv_episodes iv)"
    "iv_held (purge E L qs iv) = filter (\<lambda>x. fst x \<in> ?A) (iv_held iv)"
    "iv_marks (purge E L qs iv) = (\<lambda>k. if k \<in> fst ` set (iv_held iv) \<and> k \<notin> ?A then None else iv_marks iv k)"
    "iv_sent (purge E L qs iv) = iv_sent iv" "iv_cursor (purge E L qs iv) = iv_cursor iv" "iv_stats (purge E L qs iv) = iv_stats iv"
    "iv_starts (purge E L qs iv) = iv_starts iv"
    unfolding purge_def Let_def iv1_def [symmetric] r prod.case by (simp_all add: iv2 iv1_def)
  have ev: "evidence_ok L (purge E L qs iv)" using assms by (intro filter_held_ok [OF _ p(2,3)]) (simp add: inv_ok_def)
  have d: "distinct (map fst (iv_episodes iv))" "\<forall>x \<in> set (iv_episodes iv). episode_ok L (fst x) (snd x)"
    and len: "int (length (iv_episodes iv)) \<le> max 0 (li_MaxResidentEpisodes L)"
    using assms by (simp_all add: inv_ok_def episodes_ok_def)
  from map_filter_purge [OF d, of qs now] len have "episodes_ok L (purge E L qs iv)"
    unfolding episodes_ok_def p(1) by (intro conjI) (simp, linarith, simp)
  with ev show "inv_ok L (purge E L qs iv)" by (simp add: inv_ok_def)
  show "iv_held (purge E L qs iv) = filter (\<lambda>x. fst x \<in> ?A) (iv_held iv)"
    "iv_marks (purge E L qs iv) = (\<lambda>k. if k \<in> fst ` set (iv_held iv) \<and> k \<notin> ?A then None else iv_marks iv k)"
    "iv_sent (purge E L qs iv) = iv_sent iv" "iv_cursor (purge E L qs iv) = iv_cursor iv" "iv_stats (purge E L qs iv) = iv_stats iv"
    "iv_starts (purge E L qs iv) = iv_starts iv" by (rule p)+
qed

lemma authorized_requests: "rq_Key ` requests_of qs = set (authorized_keys qs)"
  by (force simp: requests_of_def slot_requests_def authorized_keys_def)

lemma Run_visits:
  assumes "validOnly E L base qs iv = (qs', iv1)"
  obtains slice fin uids nxt iv3 where "visit_targets E L slice base qs' fin uids (purge E L qs' iv1) = (nxt, iv3)"
    and "length uids = length qs'" and "set uids = fst ` set qs'" and "\<exists>cu. Investigator_Run E L base qs iv = iv3\<lparr>iv_cursor := cu\<rparr>"
proof (cases "qs' = []")
  case True
  have "visit_targets E L 0 base qs' [] [] (purge E L qs' iv1) = ([], purge E L qs' iv1)" by simp
  moreover have "Investigator_Run E L base qs iv = (purge E L qs' iv1)\<lparr>iv_cursor := []\<rparr>"
    using True by (simp add: Investigator_Run_def assms Let_def sort_Strings_def)
  ultimately show ?thesis using that [of 0 "[]" "[]"] True by auto
next
  case False
  let ?uids = "sort_Strings (map fst qs')" and ?iv2 = "purge E L qs' iv1"
  let ?slice = "with_timeout E (ie_ctxDeadline E) (li_RunSlice L) (iv_world ?iv2)"
  let ?order = "rotate (start_index ?uids (iv_cursor ?iv2)) ?uids"
  obtain nxt iv3 where v: "visit_targets E L ?slice base qs' (hd ?order) ?order ?iv2 = (nxt, iv3)" by (rule prod.exhaust)
  have "Investigator_Run E L base qs iv = iv3\<lparr>iv_cursor := nxt\<rparr>"
    using False by (simp add: Investigator_Run_def assms Let_def v)
  then show ?thesis using that [OF v] by auto
qed

lemma inv_ok_cursor [simp]: "inv_ok L (iv\<lparr>iv_cursor := cu\<rparr>) \<longleftrightarrow> inv_ok L iv"
  by (simp add: inv_ok_def episodes_ok_def)

definition marks_mono_on :: "ApplicabilityKey set \<Rightarrow> (ApplicabilityKey \<Rightarrow> instant option) \<Rightarrow> (ApplicabilityKey \<Rightarrow> instant option) \<Rightarrow> bool" where
  "marks_mono_on A a b \<longleftrightarrow> (\<forall>k \<in> A. \<forall>m. a k = Some m \<longrightarrow> (\<exists>m'. b k = Some m' \<and> m \<le> m'))"

lemma Run_ok:
  assumes wf: "queries_wf qs" and ok: "inv_ok L iv"
  obtains qs' now new where "inv_ok L (Investigator_Run E L base qs iv)" and "set qs' \<subseteq> set qs"
    and "\<And>x. x \<in> set qs' \<Longrightarrow> valid_target (evaluate iv base now) (fst x) \<noteq> None"
    and "iv_sent (Investigator_Run E L base qs iv) = iv_sent iv @ new" and "set new \<subseteq> requests_of qs'"
    and "int (length new) \<le> max 0 (li_MaxCallsPerEpisode L) * int (length qs)"
    and "fst ` set (iv_held (Investigator_Run E L base qs iv)) \<subseteq> set (authorized_keys qs')"
    and "marks_mono_on (set (authorized_keys qs')) (iv_marks iv) (iv_marks (Investigator_Run E L base qs iv))"
proof -
  let ?r = "Investigator_Run E L base qs iv"
  obtain qs' iv1 where v: "validOnly E L base qs iv = (qs', iv1)" by (rule prod.exhaust)
  note vo = validOnly_ok [OF v ok]
  have q: "unmoved iv iv1" and ok1: "inv_ok L iv1" using vo(1) by simp_all
  obtain now where now: "\<forall>x \<in> set qs'. valid_target (evaluate iv base now) (fst x) \<noteq> None" using vo(5) by blast
  obtain slice fin uids nxt iv3 cu where vt: "visit_targets E L slice base qs' fin uids (purge E L qs' iv1) = (nxt, iv3)"
    and len: "length uids = length qs'" and r: "?r = iv3\<lparr>iv_cursor := cu\<rparr>" by (rule Run_visits [OF v]) blast
  note pu = purge_ok [OF ok1, of E qs']
  from visit_targets_ok [OF vo(3) [OF wf] pu(1) vt] obtain n where n: "inv_ok L iv3"
    "sends (requests_of qs') n (purge E L qs' iv1) iv3" "int n \<le> max 0 (li_MaxCallsPerEpisode L) * int (length uids)" by blast
  from n(2) obtain new where new: "iv_sent iv3 = iv_sent iv @ new" "length new = n" "set new \<subseteq> requests_of qs'"
    using q by (auto simp: sends_def pu(4) unmoved_def)
  have "max 0 (li_MaxCallsPerEpisode L) * int (length uids) \<le> max 0 (li_MaxCallsPerEpisode L) * int (length qs)"
    using vo(4) len by (intro mult_left_mono) simp_all
  then have bound: "int (length new) \<le> max 0 (li_MaxCallsPerEpisode L) * int (length qs)" using n(3) new(2) by linarith
  have h: "fst ` set (iv_held (purge E L qs' iv1)) \<subseteq> set (authorized_keys qs')" by (auto simp: pu(2))
  have "fst ` set (iv_held iv3) \<subseteq> fst ` set (iv_held (purge E L qs' iv1)) \<union> set (authorized_keys qs')"
    using n(2) by (simp add: sends_def authorized_requests)
  then have held: "fst ` set (iv_held iv3) \<subseteq> set (authorized_keys qs')"
    by (rule order_trans) (rule Un_least [OF h order_refl])
  have "\<exists>m'. iv_marks iv3 k = Some m' \<and> m \<le> m'" if "k \<in> set (authorized_keys qs')" "iv_marks iv k = Some m" for k m
  proof -
    have "iv_marks (purge E L qs' iv1) k = Some m" using that q by (simp add: pu(3) unmoved_def)
    moreover have "marks_mono (iv_marks (purge E L qs' iv1)) (iv_marks iv3)" using n(2) by (simp add: sends_def)
    ultimately show ?thesis by (simp add: marks_mono_def)
  qed
  then have "marks_mono_on (set (authorized_keys qs')) (iv_marks iv) (iv_marks iv3)" by (simp add: marks_mono_on_def)
  then show ?thesis using that [of qs' now new] n(1) vo(2) now new(1,3) bound held by (simp add: r)
qed

section \<open>Requests\<close>

text \<open>A query that \<open>Requests\<close> derives is for a binding of a target of the snapshot, with a registered provider.\<close>

definition bound_query :: "Snapshot \<Rightarrow> (ProviderIdentity \<Rightarrow> 'p option) \<Rightarrow> string \<Rightarrow> string \<Rightarrow> 'p Query \<Rightarrow> bool" where
  "bound_query s lookup uid slot q \<longleftrightarrow>
     (\<exists>t \<in> set (s_Targets s). \<exists>b \<in> set (t_AssertionBindings t). ti_UID (t_Identity t) = uid \<and> ab_Slot b = slot \<and>
        lookup (ab_Provider b) = Some (qy_Provider q) \<and> sj_ResolvedUID (rq_Subject (qy_Request q)) = t_ResolvedUID t \<and>
        rq_Key (qy_Request q) = \<lparr>ak_Target = t_Identity t, ak_ResolvedUID = t_ResolvedUID t,
          ak_Contract = t_ContractRef t, ak_Slot = ab_Slot b, ak_Provider = ab_Provider b\<rparr>)"

definition slots_bound :: "Snapshot \<Rightarrow> (ProviderIdentity \<Rightarrow> 'p option) \<Rightarrow> string \<times> 'p slots \<Rightarrow> bool" where
  "slots_bound s lookup x \<longleftrightarrow>
     distinct (map fst (snd x)) \<and> (\<forall>y \<in> set (snd x). bound_query s lookup (fst x) (fst y) (snd y))"

definition queries_bound :: "Snapshot \<Rightarrow> (ProviderIdentity \<Rightarrow> 'p option) \<Rightarrow> 'p Queries \<Rightarrow> bool" where
  "queries_bound s lookup qs \<longleftrightarrow> distinct (map fst qs) \<and> (\<forall>x \<in> set qs. slots_bound s lookup x)"

lemma request_binding_bound:
  assumes qb: "queries_bound s lookup qs" and t: "t \<in> set (s_Targets s)" and b: "b \<in> set (t_AssertionBindings t)"
    and subj: "sj_ResolvedUID subj = t_ResolvedUID t"
  shows "queries_bound s lookup (request_binding lookup t subj c b qs)"
proof (cases "\<exists>slot p. slotOf c (ab_Slot b) = Some slot \<and> lookup (ab_Provider b) = Some p")
  case True
  then obtain slot p where sp: "slotOf c (ab_Slot b) = Some slot" "lookup (ab_Provider b) = Some p" by blast
  let ?uid = "ti_UID (t_Identity t)"
  define cur where "cur = (case map_of qs ?uid of None \<Rightarrow> [] | Some m \<Rightarrow> m)"
  define q where "q = \<lparr>qy_Request = \<lparr>rq_Key = \<lparr>ak_Target = t_Identity t, ak_ResolvedUID = t_ResolvedUID t,
      ak_Contract = t_ContractRef t, ak_Slot = ab_Slot b, ak_Provider = ab_Provider b\<rparr>,
    rq_Subject = subj, rq_SlotType = as_Type slot\<rparr>, qy_Provider = p, qy_MaxAge = as_MaxAge slot\<rparr>"
  have form: "request_binding lookup t subj c b qs = AList.update ?uid (AList.update (ab_Slot b) q cur) qs"
    by (simp add: request_binding_def sp Let_def cur_def q_def)
  have cur: "slots_bound s lookup (?uid, cur)"
    using qb by (force simp: cur_def queries_bound_def slots_bound_def dest: map_of_SomeD split: option.split)
  have "bound_query s lookup ?uid (ab_Slot b) q"
    unfolding bound_query_def using t b subj sp(2) by (intro bexI [OF _ t] bexI [OF _ b]) (simp add: q_def)
  then have "\<forall>y \<in> set (AList.update (ab_Slot b) q cur). bound_query s lookup ?uid (fst y) (snd y)"
    using cur by (intro update_keeps_all) (simp_all add: slots_bound_def)
  then have new: "slots_bound s lookup (?uid, AList.update (ab_Slot b) q cur)"
    using cur distinct_update [of cur "ab_Slot b" q] by (simp add: slots_bound_def)
  have "\<forall>x \<in> set (AList.update ?uid (AList.update (ab_Slot b) q cur) qs). slots_bound s lookup x"
    using qb new by (intro update_keeps_all) (simp_all add: queries_bound_def)
  then show ?thesis using qb distinct_update [of qs ?uid] by (simp add: form queries_bound_def)
next
  case False
  then show ?thesis using qb by (auto simp: request_binding_def split: option.splits)
qed

lemma request_target_bound:
  assumes "queries_bound s lookup qs" and "t \<in> set (s_Targets s)"
  shows "queries_bound s lookup (request_target s subjects lookup t qs)"
proof -
  have "queries_bound s lookup (fold (request_binding lookup t subj c) bs qs)"
    if "set bs \<subseteq> set (t_AssertionBindings t)" "sj_ResolvedUID subj = t_ResolvedUID t" for subj c bs
    using that assms(1)
  proof (induction bs arbitrary: qs)
    case (Cons b bs)
    then show ?case using request_binding_bound [OF Cons.prems(3) assms(2), of b subj c] by simp
  qed simp
  then show ?thesis using assms(1) by (auto simp: request_target_def split: option.split)
qed

lemma Requests_bound: "queries_bound s lookup (Requests s subjects lookup)"
proof -
  have "queries_bound s lookup (fold (request_target s subjects lookup) ts qs)"
    if "set ts \<subseteq> set (s_Targets s)" "queries_bound s lookup qs" for ts qs
    using that by (induction ts arbitrary: qs) (simp_all add: request_target_bound)
  from this [of "s_Targets s" "[]"] show ?thesis by (simp add: Requests_def queries_bound_def [of s lookup "[]"])
qed

lemma bound_wf: "queries_bound s lookup qs \<Longrightarrow> queries_wf qs"
  by (force simp: queries_bound_def queries_wf_def slots_bound_def slots_wf_def bound_query_def list_all_iff)

end
