(* ===== verification/Investigate_Schedule.thy ===== *)
theory Investigate_Schedule
  imports Investigate_Runs
begin

text \<open>
  The admission of episodes as a machine of its own: which targets have a record and since when, the log of
  starts, and the time. Visits of targets and whole runs are sequences of its steps, so what is proved of the
  machine by rule induction holds of the investigator.
\<close>

section \<open>The machine\<close>

type_synonym schedule = "(string \<Rightarrow> instant option) \<times> (string \<times> instant) list \<times> instant"

text \<open>A start reads the clock; a record is forgotten only after its cooldown.\<close>

inductive sched_step :: "duration \<Rightarrow> schedule \<Rightarrow> schedule \<Rightarrow> bool" for cd where
  wait: "t \<le> t' \<Longrightarrow> sched_step cd (S, log, t) (S, log, t')"
| forget: "S u = Some s \<Longrightarrow> s + cd \<le> t \<Longrightarrow> sched_step cd (S, log, t) (S(u := None), log, t)"
| start: "(\<And>s. S u = Some s \<Longrightarrow> s + cd \<le> n) \<Longrightarrow> t \<le> n \<Longrightarrow> n \<le> t' \<Longrightarrow>
    sched_step cd (S, log, t) (S(u \<mapsto> n), log @ [(u, n)], t')"

abbreviation sched_steps :: "duration \<Rightarrow> schedule \<Rightarrow> schedule \<Rightarrow> bool" where
  "sched_steps cd \<equiv> (sched_step cd)\<^sup>*\<^sup>*"

definition starts_of :: "string \<Rightarrow> (string \<times> instant) list \<Rightarrow> instant list" where
  "starts_of u log = map snd (filter (\<lambda>x. fst x = u) log)"

definition spaced :: "duration \<Rightarrow> instant list \<Rightarrow> bool" where
  "spaced cd ts = successively (\<lambda>x y. x + cd \<le> y) ts"

text \<open>The record of a target is its last start, or was forgotten after the cooldown.\<close>

definition record_ok :: "duration \<Rightarrow> instant \<Rightarrow> instant option \<Rightarrow> instant list \<Rightarrow> bool" where
  "record_ok cd t r ts =
     (case r of None \<Rightarrow> ts = [] \<or> last ts + cd \<le> t | Some s \<Rightarrow> ts \<noteq> [] \<and> last ts = s)"

definition sched_ok :: "duration \<Rightarrow> schedule \<Rightarrow> bool" where
  "sched_ok cd x =
     (case x of (S, log, t) \<Rightarrow> \<forall>u. spaced cd (starts_of u log) \<and> record_ok cd t (S u) (starts_of u log))"

lemma record_ok_later: "record_ok cd t r ts \<Longrightarrow> t \<le> t' \<Longrightarrow> record_ok cd t' r ts"
  by (cases r) (auto simp: record_ok_def)

lemma record_ok_last:
  "record_ok cd t r ts \<Longrightarrow> (\<And>s. r = Some s \<Longrightarrow> s + cd \<le> n) \<Longrightarrow> t \<le> n \<Longrightarrow> ts \<noteq> [] \<Longrightarrow> last ts + cd \<le> n"
  by (cases r) (auto simp: record_ok_def)

lemma record_ok_forget: "record_ok cd t (Some s) ts \<Longrightarrow> s + cd \<le> t \<Longrightarrow> record_ok cd t None ts"
  by (simp add: record_ok_def)

lemma record_ok_snoc: "record_ok cd t (Some n) (ts @ [n])"
  by (simp add: record_ok_def)

lemma starts_of_snoc: "starts_of u (log @ [(v, n)]) = starts_of u log @ (if v = u then [n] else [])"
  by (simp add: starts_of_def)

lemma spaced_snoc: "spaced cd ts \<Longrightarrow> (ts \<noteq> [] \<Longrightarrow> last ts + cd \<le> n) \<Longrightarrow> spaced cd (ts @ [n])"
  by (cases "ts = []") (auto simp: spaced_def successively_append_iff)

lemma sched_ok_step: "sched_step cd x y \<Longrightarrow> sched_ok cd x \<Longrightarrow> sched_ok cd y"
proof (induction rule: sched_step.induct)
  case (wait t t' S log)
  then show ?case by (auto simp: sched_ok_def intro: record_ok_later)
next
  case (forget S u s t log)
  have "record_ok cd t (S u) (starts_of u log)" using forget.prems by (simp add: sched_ok_def)
  then have "record_ok cd t None (starts_of u log)" using record_ok_forget forget.hyps by simp
  then show ?case using forget.prems by (simp add: sched_ok_def)
next
  case (start S u n t t' log)
  have old: "spaced cd (starts_of v log)" "record_ok cd t (S v) (starts_of v log)" for v
    using start.prems by (simp_all add: sched_ok_def)
  have "spaced cd (starts_of u log @ [n])"
    using record_ok_last [OF old(2) start.hyps(1,2)] by (intro spaced_snoc old(1))
  moreover have "record_ok cd t' (S v) (starts_of v log)" for v using record_ok_later [OF old(2)] start.hyps by simp
  ultimately show ?case using old(1) by (simp add: sched_ok_def starts_of_snoc record_ok_snoc)
qed

lemma sched_ok_steps: "sched_steps cd x y \<Longrightarrow> sched_ok cd x \<Longrightarrow> sched_ok cd y"
  by (induction rule: rtranclp_induct) (auto intro: sched_ok_step)

text \<open>Several records are forgotten one by one.\<close>

lemma forget_many:
  assumes "finite U" and "\<And>u. u \<in> U \<Longrightarrow> \<exists>s. S u = Some s \<and> s + cd \<le> t"
  shows "sched_steps cd (S, log, t) (\<lambda>u. if u \<in> U then None else S u, log, t)"
  using assms
proof (induction U rule: finite_induct)
  case (insert u U)
  then obtain s where s: "S u = Some s" "s + cd \<le> t" by auto
  have "sched_step cd (\<lambda>u. if u \<in> U then None else S u, log, t) ((\<lambda>u. if u \<in> U then None else S u)(u := None), log, t)"
    using s insert.hyps by (intro forget) simp_all
  moreover have "(\<lambda>u. if u \<in> U then None else S u)(u := None) = (\<lambda>v. if v \<in> insert u U then None else S v)" by auto
  ultimately show ?case using insert.IH insert.prems by (simp add: rtranclp.rtrancl_into_rtrancl)
qed simp

section \<open>Time\<close>

definition steady_clock :: "('p, 'w) inv_env \<Rightarrow> ('w \<Rightarrow> instant) \<Rightarrow> bool" where
  "steady_clock E tm \<longleftrightarrow>
     (\<forall>w. tm w \<le> fst (ie_clock E w) \<and> fst (ie_clock E w) \<le> tm (snd (ie_clock E w))) \<and>
     (\<forall>p r d w. tm w \<le> tm (snd (ie_observe E p r d w)))"

lemma read_clock_time:
  "steady_clock E tm \<Longrightarrow> read_clock E iv = (now, iv') \<Longrightarrow> tm (iv_world iv) \<le> now \<and> now \<le> tm (iv_world iv')"
  by (auto simp: read_clock_def steady_clock_def split: prod.splits dest: spec [of _ "iv_world iv"])

lemma admit_world [simp]: "admit L ob iv = (b, iv') \<Longrightarrow> iv_world iv' = iv_world iv"
  by (auto simp: admit_def Let_def count_capacity_def split: option.splits if_splits)

lemma receive_world: "receive E L slice od now tmo req res err after (iv, e) = (go, iv', e') \<Longrightarrow> iv_world iv' = iv_world iv"
  by (auto simp: receive_def Let_def count_late_def split: prod.splits if_splits dest!: admit_world)

lemma call_provider_time:
  assumes sc: "steady_clock E tm" and c: "call_provider E L slice now q (iv, e) = (go, iv', e')"
  shows "tm (iv_world iv) \<le> tm (iv_world iv')"
proof -
  obtain od tmo res err w after iv1 where o: "ie_observe E (qy_Provider q) (qy_Request q) od (iv_world iv) = ((res, err), w)"
    "read_clock E (iv\<lparr>iv_world := w\<rparr>) = (after, iv1)" "receive E L slice od now tmo (qy_Request q) res err after (iv1, e) = (go, iv', e')"
    using c by (auto simp: call_provider_def Let_def split: prod.splits)
  have "tm (iv_world iv) \<le> tm w" using sc o(1) unfolding steady_clock_def by (metis snd_conv)
  also have "\<dots> \<le> tm (iv_world iv1)" using read_clock_time [OF sc o(2)] by simp
  finally show ?thesis using receive_world [OF o(3)] by simp
qed

lemma plan_step_time:
  assumes "steady_clock E tm" and "plan_step E L slice c slots now ta (iv, e, pg) = (go, iv', e', pg')"
  shows "tm (iv_world iv) \<le> tm (iv_world iv')"
  using assms(2) call_provider_time [OF assms(1)]
  by (fastforce simp: plan_step_def Let_def dispatch_query_def split: option.splits if_splits prod.splits)

lemma loop_body_time:
  assumes "steady_clock E tm" and "loop_body E L slice base c uid slots (iv, e, pg) = (go, iv', e', pg')"
  shows "tm (iv_world iv) \<le> tm (iv_world iv')"
proof -
  obtain now iv1 where r: "read_clock E iv = (now, iv1)" by (rule prod.exhaust)
  have t: "tm (iv_world iv) \<le> tm (iv_world iv1)" using read_clock_time [OF assms(1) r] by simp
  have "iv' = iv1 \<or> (\<exists>ta. plan_step E L slice c slots now ta (iv1, e, pg) = (go, iv', e', pg'))"
    using assms(2) by (auto simp: loop_body_def r split: if_splits option.splits)
  then show ?thesis
  proof (elim disjE exE)
    fix ta
    assume "plan_step E L slice c slots now ta (iv1, e, pg) = (go, iv', e', pg')"
    from order_trans [OF t plan_step_time [OF assms(1) this]] show ?thesis .
  qed (use t in simp)
qed

lemma episode_loop_time:
  assumes "steady_clock E tm" and "episode_loop E L slice base c uid slots (iv, e, pg) = (iv', e', pg')"
  shows "tm (iv_world iv) \<le> tm (iv_world iv')"
  using assms
proof (induction E L slice base c uid slots "(iv, e, pg)" arbitrary: iv e pg rule: episode_loop.induct)
  case (1 E L slice base c uid slots iv e pg)
  obtain go iv1 e1 pg1 where b: "loop_body E L slice base c uid slots (iv, e, pg) = (go, iv1, e1, pg1)" by (rule prod_cases4)
  note t = loop_body_time [OF "1.prems"(1) b]
  consider "iv' = iv" | "iv' = iv1" | "ep_active e" go "episode_loop E L slice base c uid slots (iv1, e1, pg1) = (iv', e', pg')"
    using "1.prems"(2) b by (auto simp: episode_loop.simps [of E L slice base c uid slots iv] split: if_splits)
  then show ?case
  proof cases
    case 3
    from "1.hyps" [OF _ b [symmetric] 3(2) "1.prems"(1) 3(3)] 3(1) t show ?thesis by simp
  qed (use t in simp_all)
qed

lemma run_episode_time:
  assumes "steady_clock E tm"
  shows "tm (iv_world iv) \<le> tm (iv_world (run_episode E L slice base c uid slots att e pg iv))"
proof -
  obtain iv1 e1 pg1 where l: "episode_loop E L slice base c uid slots (iv, e, pg) = (iv1, e1, pg1)" by (rule prod_cases3)
  from episode_loop_time [OF assms l] show ?thesis by (simp add: run_episode_def l Let_def)
qed

section \<open>The investigator as that machine\<close>

definition started_of :: "'w Investigator \<Rightarrow> string \<Rightarrow> instant option" where
  "started_of iv u = map_option ep_Started (map_of (iv_episodes iv) u)"

definition sched :: "('w \<Rightarrow> instant) \<Rightarrow> 'w Investigator \<Rightarrow> schedule" where
  "sched tm iv = (started_of iv, iv_starts iv, tm (iv_world iv))"

lemma started_of_update:
  "iv_episodes iv' = AList.update uid e (iv_episodes iv) \<Longrightarrow> started_of iv' = (started_of iv)(uid \<mapsto> ep_Started e)"
  by (auto simp: started_of_def update_conv)

lemma started_of_put [simp]: "started_of (put_episode uid e iv) = (started_of iv)(uid \<mapsto> ep_Started e)"
  by (rule started_of_update) simp

lemma started_of_same: "iv_episodes iv' = iv_episodes iv \<Longrightarrow> started_of iv' = started_of iv"
  by (simp add: started_of_def fun_eq_iff)

lemma started_of_simps [simp]:
  "started_of (iv\<lparr>iv_world := w\<rparr>) = started_of iv" "started_of (iv\<lparr>iv_cursor := cu\<rparr>) = started_of iv"
  by (rule started_of_same, simp)+

lemma sched_wait: "t \<le> tm (iv_world iv') \<Longrightarrow> started_of iv' = S \<Longrightarrow> iv_starts iv' = log \<Longrightarrow>
    sched_steps cd (S, log, t) (sched tm iv')"
  by (auto simp: sched_def intro: sched_step.wait)

lemma map_of_filter:
  "distinct (map fst xs) \<Longrightarrow> map_of (filter P xs) u = (case map_of xs u of None \<Rightarrow> None | Some e \<Rightarrow> if P (u, e) then Some e else None)"
proof (induction xs)
  case (Cons x xs)
  have "map_of xs (fst x) = None" using Cons.prems by (simp add: map_of_eq_None_iff)
  then show ?case using Cons by (cases x) (auto split: option.splits)
qed simp

definition gone_uids :: "Limits \<Rightarrow> instant \<Rightarrow> 'w Investigator \<Rightarrow> string set" where
  "gone_uids L now iv =
     {u. case map_of (iv_episodes iv) u of None \<Rightarrow> False | Some e \<Rightarrow> \<not> ep_active e \<and> cooled L now e}"

lemma finite_gone: "finite (gone_uids L now iv)"
proof -
  have "gone_uids L now iv \<subseteq> dom (map_of (iv_episodes iv))" by (auto simp: gone_uids_def split: option.splits)
  then show ?thesis using finite_dom_map_of finite_subset by blast
qed

lemma gone_cooled: "u \<in> gone_uids L now iv \<Longrightarrow> \<exists>s. started_of iv u = Some s \<and> s + li_EpisodeCooldown L \<le> now"
  by (cases "map_of (iv_episodes iv) u") (simp_all add: gone_uids_def started_of_def cooled_def)

lemma kept_started:
  assumes "distinct (map fst (iv_episodes iv))" and "iv_episodes iv' = kept_episodes L now (iv_episodes iv)"
  shows "started_of iv' = (\<lambda>u. if u \<in> gone_uids L now iv then None else started_of iv u)"
proof
  fix u
  show "started_of iv' u = (if u \<in> gone_uids L now iv then None else started_of iv u)"
    by (cases "map_of (iv_episodes iv) u")
      (simp_all add: started_of_def assms(2) kept_episodes_def map_of_filter [OF assms(1)] gone_uids_def)
qed

text \<open>What admission forgets, possibly after a start for a target that is not among them.\<close>

lemma forget_gone:
  assumes "now \<le> t" and "\<And>u. u \<in> gone_uids L now iv \<Longrightarrow> S u = started_of iv u"
  shows "sched_steps (li_EpisodeCooldown L) (S, log, t) (\<lambda>u. if u \<in> gone_uids L now iv then None else S u, log, t)"
proof (rule forget_many [OF finite_gone])
  fix u
  assume u: "u \<in> gone_uids L now iv"
  from gone_cooled [OF u] obtain s where "started_of iv u = Some s" "s + li_EpisodeCooldown L \<le> now" by blast
  then show "\<exists>s. S u = Some s \<and> s + li_EpisodeCooldown L \<le> t" using assms(1) assms(2) [OF u] by auto
qed

lemma run_episode_sched:
  assumes "steady_clock E tm" and "slots_wf slots" and "inv_ok L iv" and "episode_ok L uid e"
    and "map_of (iv_episodes iv) uid = Some e"
  shows "sched_steps cd (sched tm iv) (sched tm (run_episode E L slice base c uid slots att e pg iv))"
proof -
  let ?r = "run_episode E L slice base c uid slots att e pg iv"
  have here: "uid \<in> fst ` set (iv_episodes iv)" using map_of_SomeD [OF assms(5)] by force
  obtain e' where r: "iv_episodes ?r = AList.update uid e' (iv_episodes iv)" "same_episode e e'" "iv_starts ?r = iv_starts iv"
    using run_episode_ok [OF assms(2-4) here, of E slice base c att pg] by blast
  have "started_of ?r = started_of iv"
    using r(2) assms(5) by (simp add: started_of_update [OF r(1)] same_episode_def fun_eq_iff started_of_def)
  then show ?thesis unfolding sched_def [of tm iv] using run_episode_time [OF assms(1)] r(3) by (intro sched_wait) simp_all
qed

lemma admit_started:
  assumes "admit_episode L uid ep now iv = (b, iv1)" and "distinct (map fst (iv_episodes iv))"
  shows "started_of iv1 = started_of iv \<or>
    ep = None \<and> started_of iv1 = (\<lambda>u. if u \<in> gone_uids L now iv then None else started_of iv u)"
  using admit_episode_facts(3) [OF assms(1)] started_of_same [of iv1 iv] kept_started [OF assms(2), of iv1 L now] by blast

text \<open>A start is admitted at the instant the clock was read; the records forgotten at that moment are those of
  other targets, so the start may come first.\<close>

lemma begin_episode_sched:
  assumes sc: "steady_clock E tm" and wf: "slots_wf slots" and ok: "inv_ok L iv" and ep: "ep = map_of (iv_episodes iv) uid"
    and t: "t \<le> now" "now \<le> tm (iv_world iv)"
  shows "sched_steps (li_EpisodeCooldown L) (started_of iv, iv_starts iv, t)
    (sched tm (begin_episode E L slice base c uid slots now ta key pg ep iv))"
proof -
  let ?cd = "li_EpisodeCooldown L" and ?T = "tm (iv_world iv)" and ?G = "gone_uids L now iv"
  have d: "distinct (map fst (iv_episodes iv))" using ok by (simp add: inv_ok_def episodes_ok_def)
  have wait: "sched_steps ?cd (started_of iv, iv_starts iv, t) (sched tm iv)" using t by (intro sched_wait) simp_all
  show ?thesis
  proof (cases "selectQuery L iv ta c (deriveCandidates ta c) slots [] (sp_seq pg) now")
    case None
    then show ?thesis using wait by (simp add: begin_episode_def)
  next
    case (Some x)
    obtain q cl where x: "x = (q, cl)" by (rule prod.exhaust)
    obtain b iv1 where a: "admit_episode L uid ep now iv = (b, iv1)" by (rule prod.exhaust)
    note ad = admit_episode_facts [OF a] and ok1 = admit_episode_ok [OF a ok] and S1 = admit_started [OF a d]
    have log: "iv_starts iv1 = iv_starts iv" using ad(1) by (simp add: unmoved_def)
    show ?thesis
    proof (cases b)
      case False
      have "sched_steps ?cd (sched tm iv) (sched tm iv1)"
        using S1 forget_gone [OF t(2), of L iv "started_of iv" "iv_starts iv"] by (auto simp: sched_def log ad(2))
      then show ?thesis using Some x a False rtranclp_trans [OF wait] by (simp add: begin_episode_def)
    next
      case True
      let ?e = "new_episode L uid key cl now" and ?S = "(started_of iv)(uid \<mapsto> now)"
      let ?iv2 = "start_episode uid ?e pg iv1"
      let ?r = "run_episode E L slice base c uid slots True ?e pg ?iv2"
      have cool: "s + ?cd \<le> now" if "started_of iv uid = Some s" for s
        using that ad(4) [OF True] ep by (auto simp: started_of_def cooled_def)
      from sched_step.start [where cd = ?cd and S = "started_of iv" and u = uid, OF cool t]
      have first: "sched_steps ?cd (started_of iv, iv_starts iv, t) (?S, iv_starts iv @ [(uid, now)], ?T)" by blast
      have iv2: "sched tm ?iv2 = ((started_of iv1)(uid \<mapsto> now), iv_starts iv @ [(uid, now)], ?T)"
        using started_of_update [OF start_episode_fields(6), of uid ?e pg iv1]
        by (simp add: sched_def log ad(2) new_episode_def)
      have "sched_steps ?cd (?S, iv_starts iv @ [(uid, now)], ?T) (sched tm ?iv2)"
      proof (rule disjE [OF S1])
        assume "started_of iv1 = started_of iv"
        then show ?thesis by (simp add: iv2)
      next
        assume m: "ep = None \<and> started_of iv1 = (\<lambda>u. if u \<in> ?G then None else started_of iv u)"
        then have nu: "uid \<notin> ?G" using ep by (simp add: gone_uids_def)
        then have "(\<lambda>u. if u \<in> ?G then None else ?S u) = (started_of iv1)(uid \<mapsto> now)" using m by (auto simp: fun_eq_iff)
        moreover have "?S u = started_of iv u" if "u \<in> ?G" for u using that nu by auto
        ultimately show ?thesis using forget_gone [OF t(2), of L iv ?S "iv_starts iv @ [(uid, now)]"] iv2 by simp
      qed
      moreover have "sched_steps ?cd (sched tm ?iv2) (sched tm ?r)"
      proof (rule run_episode_sched [OF sc wf _ new_episode_ok])
        show "map_of (iv_episodes ?iv2) uid = Some ?e" by (simp add: update_conv)
        have "uid \<in> fst ` set (iv_episodes iv1) \<or> int (length (iv_episodes iv1)) < li_MaxResidentEpisodes L"
          by (rule admit_episode_room [OF a True ep])
        then show "inv_ok L ?iv2" by (rule start_episode_ok [OF ok1 new_episode_ok])
      qed
      ultimately have "sched_steps ?cd (started_of iv, iv_starts iv, t) (sched tm ?r)"
        using first by (meson rtranclp_trans)
      then show ?thesis using Some x a True by (simp add: begin_episode_def Let_def)
    qed
  qed
qed

lemma started_of_restart:
  assumes "map_of (iv_episodes iv) uid = Some e" and "ep_Started e' = ep_Started e"
  shows "started_of (put_episode uid e' iv) = started_of iv"
  using assms by (simp add: fun_eq_iff) (simp add: started_of_def)

lemma end_invalid_sched: "sched tm (end_invalid L uid iv) = sched tm iv"
  by (auto simp: end_invalid_def sched_def started_of_restart simp del: started_of_put split: option.split)

lemma investigate_sched:
  assumes sc: "steady_clock E tm" and wf: "slots_wf slots" and ok: "inv_ok L iv"
  shows "sched_steps (li_EpisodeCooldown L) (sched tm iv) (sched tm (investigate E L slice base uid slots iv))"
proof -
  let ?cd = "li_EpisodeCooldown L" and ?r = "investigate E L slice base uid slots iv"
  obtain now iv1 where r: "read_clock E iv = (now, iv1)" by (rule prod.exhaust)
  then obtain w where iv1: "iv1 = iv\<lparr>iv_world := w\<rparr>" using read_clock_world by blast
  have t: "tm (iv_world iv) \<le> now" "now \<le> tm (iv_world iv1)" using read_clock_time [OF sc r] by simp_all
  have ok1: "inv_ok L iv1" using ok by (simp add: iv1)
  have same: "started_of iv1 = started_of iv" "iv_starts iv1 = iv_starts iv" by (simp_all add: iv1)
  have wait: "sched_steps ?cd (sched tm iv) (sched tm iv1)"
    unfolding sched_def [of tm iv] using t same by (intro sched_wait) simp_all
  show ?thesis
  proof (cases "valid_target (evaluate iv1 base now) uid")
    case None
    then show ?thesis using wait by (simp add: investigate_def r end_invalid_sched)
  next
    case (Some ta)
    note V = Some
    show ?thesis
    proof (cases "contractOf base (ta_Contract ta)")
      case None
      then show ?thesis using V wait by (simp add: investigate_def r)
    next
      case (Some c)
      note C = Some
      define pg where "pg = (case progress_of iv1 uid (episodeKey ta slots) of None \<Rightarrow> new_progress (episodeKey ta slots) | Some pg \<Rightarrow> pg)"
      show ?thesis
      proof (cases "map_of (iv_episodes iv1) uid")
        case None
        have "?r = begin_episode E L slice base c uid slots now ta (episodeKey ta slots) pg None iv1"
          unfolding investigate_def r prod.case V option.case C Let_def None pg_def ..
        then show ?thesis using begin_episode_sched [OF sc wf ok1 None [symmetric] t] by (simp add: sched_def same)
      next
        case (Some e)
        note eok = inv_ok_episode [OF ok1 Some]
        show ?thesis
        proof (cases "ep_active e \<and> ep_Key e = episodeKey ta slots")
          case True
          then have "sched_steps ?cd (sched tm iv1) (sched tm ?r)"
            using V C Some run_episode_sched [OF sc wf ok1 eok(1) Some] by (simp add: investigate_def r Let_def)
          with wait show ?thesis by (rule rtranclp_trans)
        next
          case False
          define e' where "e' = (if ep_active e then end_episode L Superseded ''identity or bindings changed'' e else e)"
          let ?p = "put_episode uid e' iv1"
          have "episode_ok L uid e'" using eok(1) by (simp add: e'_def episode_ok_end)
          then have okp: "inv_ok L ?p" using inv_ok_put [OF ok1 _ eok(2)] by simp
          have epp: "Some e' = map_of (iv_episodes ?p) uid" by (simp add: update_conv)
          have "ep_Started e' = ep_Started e" by (simp add: e'_def)
          then have "started_of ?p = started_of iv" using started_of_restart [OF Some] same(1) by metis
          moreover have "?r = begin_episode E L slice base c uid slots now ta (episodeKey ta slots) pg (Some e') ?p"
            unfolding investigate_def r prod.case V option.case C Let_def Some if_not_P [OF False] e'_def pg_def ..
          ultimately show ?thesis using begin_episode_sched [OF sc wf okp epp t(1)] t(2) same(2) by (simp add: sched_def)
        qed
      qed
    qed
  qed
qed

lemma visit_targets_sched:
  assumes "steady_clock E tm" and "queries_wf qs" and "inv_ok L iv" and "visit_targets E L slice base qs fin uids iv = (nxt, iv')"
  shows "sched_steps (li_EpisodeCooldown L) (sched tm iv) (sched tm iv')"
  using assms(3,4)
proof (induction uids arbitrary: iv)
  case (Cons uid uids)
  let ?s = "case map_of qs uid of None \<Rightarrow> [] | Some s \<Rightarrow> s"
  let ?i = "investigate E L slice base uid ?s iv"
  have i: "sched_steps (li_EpisodeCooldown L) (sched tm iv) (sched tm ?i)"
    by (rule investigate_sched [OF assms(1) slots_of_uid(1) [OF assms(2)] Cons.prems(1)])
  have ok: "inv_ok L ?i" using investigate_visit [OF slots_of_uid(1) [OF assms(2)] Cons.prems(1)] by (simp add: visit_ok_def)
  consider "iv' = iv" | "iv' = ?i" | "visit_targets E L slice base qs fin uids ?i = (nxt, iv')"
    using Cons.prems(2) by (auto simp: Let_def split: if_splits)
  then show ?case
  proof cases
    case 3
    from i Cons.IH [OF ok 3] show ?thesis by (rule rtranclp_trans)
  qed (use i in simp_all)
qed simp

lemma validOnly_sched:
  assumes "steady_clock E tm" and "validOnly E L base qs iv = (qs', iv')"
  shows "sched_steps cd (sched tm iv) (sched tm iv')"
proof -
  obtain now iv1 where r: "read_clock E iv = (now, iv1)" by (rule prod.exhaust)
  then obtain w where iv1: "iv1 = iv\<lparr>iv_world := w\<rparr>" using read_clock_world by blast
  let ?f = "\<lambda>(uid, slots). if valid_target (evaluate iv1 base now) uid \<noteq> None then id else end_invalid L uid"
  have "sched tm (fold ?f xs x) = sched tm x" for xs :: "'a Queries" and x
    by (induction xs arbitrary: x) (simp_all add: end_invalid_sched split_beta)
  moreover have "iv' = fold ?f qs iv1" using assms(2) by (simp add: validOnly_def r Let_def)
  ultimately have "sched tm iv' = sched tm iv1" by simp
  moreover have "sched_steps cd (sched tm iv) (sched tm iv1)"
    unfolding sched_def [of tm iv] using read_clock_time [OF assms(1) r] by (intro sched_wait) (simp_all add: iv1)
  ultimately show ?thesis by simp
qed

lemma map_of_purge:
  assumes "distinct (map fst es)"
  shows "map_option ep_Started (map_of (List.map_filter (purge_episode L qs now) es) u) =
    (case map_of es u of None \<Rightarrow> None
     | Some e \<Rightarrow> if u \<in> fst ` set qs \<or> now < ep_Started e + li_EpisodeCooldown L then Some (ep_Started e) else None)"
  using assms
proof (induction es)
  case (Cons x es)
  obtain v e where x: "x = (v, e)" by (rule prod.exhaust)
  have "map_of es v = None" using Cons.prems x by (simp add: map_of_eq_None_iff)
  then show ?case using Cons x by (auto simp: List.map_filter_simps purge_episode_def)
qed (simp add: List.map_filter_simps)

lemma purge_sched:
  assumes sc: "steady_clock E tm" and ok: "inv_ok L iv"
  shows "sched_steps (li_EpisodeCooldown L) (sched tm iv) (sched tm (purge E L qs iv))"
proof -
  let ?cd = "li_EpisodeCooldown L" and ?A = "set (authorized_keys qs)" and ?p = "purge E L qs iv"
  define iv1 where "iv1 = iv\<lparr>iv_held := filter (\<lambda>x. fst x \<in> ?A) (iv_held iv),
    iv_marks := (\<lambda>k. if k \<in> fst ` set (iv_held iv) \<and> k \<notin> ?A then None else iv_marks iv k)\<rparr>"
  obtain now iv2 where r: "read_clock E iv1 = (now, iv2)" by (rule prod.exhaust)
  then obtain w where iv2: "iv2 = iv1\<lparr>iv_world := w\<rparr>" using read_clock_world by blast
  have p: "iv_episodes ?p = List.map_filter (purge_episode L qs now) (iv_episodes iv)" "iv_world ?p = iv_world iv2" "iv_starts ?p = iv_starts iv"
    unfolding purge_def Let_def iv1_def [symmetric] r prod.case by (simp_all add: iv2 iv1_def)
  have t: "tm (iv_world iv) \<le> now" "now \<le> tm (iv_world iv2)" using read_clock_time [OF sc r] by (simp_all add: iv1_def)
  have d: "distinct (map fst (iv_episodes iv))" using ok by (simp add: inv_ok_def episodes_ok_def)
  define U where "U = {u. case map_of (iv_episodes iv) u of None \<Rightarrow> False | Some e \<Rightarrow> u \<notin> fst ` set qs \<and> cooled L now e}"
  have "U \<subseteq> dom (map_of (iv_episodes iv))" by (auto simp: U_def split: option.splits)
  then have fin: "finite U" using finite_dom_map_of finite_subset by blast
  have cool: "\<exists>s. started_of iv u = Some s \<and> s + ?cd \<le> tm (iv_world iv2)" if "u \<in> U" for u
    using that t(2) by (cases "map_of (iv_episodes iv) u") (simp_all add: U_def started_of_def cooled_def)
  have "sched_steps ?cd (sched tm iv) (started_of iv, iv_starts iv, tm (iv_world iv2))"
    unfolding sched_def using t by (intro r_into_rtranclp sched_step.wait) simp
  moreover have "sched_steps ?cd (started_of iv, iv_starts iv, tm (iv_world iv2))
      (\<lambda>u. if u \<in> U then None else started_of iv u, iv_starts iv, tm (iv_world iv2))" by (rule forget_many [OF fin cool])
  moreover have "started_of ?p = (\<lambda>u. if u \<in> U then None else started_of iv u)"
  proof
    fix u
    show "started_of ?p u = (if u \<in> U then None else started_of iv u)"
      by (cases "map_of (iv_episodes iv) u") (simp_all add: started_of_def p(1) map_of_purge [OF d] U_def cooled_def)
  qed
  then have "sched tm ?p = (\<lambda>u. if u \<in> U then None else started_of iv u, iv_starts iv, tm (iv_world iv2))"
    by (simp add: sched_def p(2,3))
  ultimately show ?thesis by simp
qed

lemma Run_sched:
  assumes sc: "steady_clock E tm" and wf: "queries_wf qs" and ok: "inv_ok L iv"
  shows "sched_steps (li_EpisodeCooldown L) (sched tm iv) (sched tm (Investigator_Run E L base qs iv))"
proof -
  obtain qs' iv1 where v: "validOnly E L base qs iv = (qs', iv1)" by (rule prod.exhaust)
  have ok1: "inv_ok L iv1" using validOnly_ok(1) [OF v ok] by simp
  obtain slice fin uids nxt iv3 cu where vt: "visit_targets E L slice base qs' fin uids (purge E L qs' iv1) = (nxt, iv3)"
    and r: "Investigator_Run E L base qs iv = iv3\<lparr>iv_cursor := cu\<rparr>" by (rule Run_visits [OF v]) blast
  have "sched tm (Investigator_Run E L base qs iv) = sched tm iv3" by (simp add: r sched_def)
  moreover have "sched_steps (li_EpisodeCooldown L) (sched tm iv) (sched tm iv3)"
    by (rule rtranclp_trans [OF rtranclp_trans [OF validOnly_sched [OF sc v] purge_sched [OF sc ok1]]
          visit_targets_sched [OF sc validOnly_ok(3) [OF v ok wf] purge_ok(1) [OF ok1] vt]])
  ultimately show ?thesis by simp
qed

end
