(* ===== verification/Investigate_Demo.thy ===== *)
theory Investigate_Demo
  imports Investigate_Run Ops_Demo
begin

text \<open>
  A small investigation: the store of \<open>Ops_Demo\<close> alone, with no evidence, one provider that answers at once and a
  clock that ticks with every reading.
\<close>

definition lone_snapshot :: Snapshot where
  "lone_snapshot = \<lparr>s_At = 100, s_Contracts = [demo_store], s_Targets = [demo_target ''t1'' demo_store_id []], s_Observations = []\<rparr>"

definition lone_subjects :: "string \<Rightarrow> Subject option" where
  "lone_subjects uid =
     Some \<lparr>sj_Namespace = ''n'', sj_APIVersion = ''v1'', sj_Kind = ''Pod'', sj_Name = uid, sj_ResolvedUID = ''r''\<rparr>"

definition ticking_env :: "(unit, int) inv_env" where
  "ticking_env =
     \<lparr>ie_clock = (\<lambda>w. (w, w + 1)), ie_wall = (\<lambda>w. w), ie_ctxErr = (\<lambda>_. False), ie_runErr = (\<lambda>_. False), ie_ctxDeadline = None,
      ie_observe = (\<lambda>_ r _ w.
        ((\<lparr>pr_Value = Value_Bool True, pr_ObservedAt = w, pr_ValidUntil = 0, pr_EvidenceRef = [], pr_Unavailable = []\<rparr>, False), w + 1))\<rparr>"

end
