(* ===== verification/Investigate_Properties.thy ===== *)
theory Investigate_Properties
  imports Investigate_Schedule Investigate_Demo
begin

text \<open>
  Properties of the investigator over whole sequences of runs, each with its own snapshot and subjects, from the
  empty state of a new process.
\<close>

section \<open>Sequences of runs\<close>

definition next_run :: "('p, 'w) inv_env \<Rightarrow> Limits \<Rightarrow> (ProviderIdentity \<Rightarrow> 'p option) \<Rightarrow> Snapshot \<times> (string \<Rightarrow> Subject option) \<Rightarrow>
    'w Investigator \<Rightarrow> 'w Investigator" where
  "next_run E L lookup x iv = (case x of (base, subjects) \<Rightarrow> Investigator_Run E L base (Requests base subjects lookup) iv)"

definition runs :: "('p, 'w) inv_env \<Rightarrow> Limits \<Rightarrow> (ProviderIdentity \<Rightarrow> 'p option) \<Rightarrow> (Snapshot \<times> (string \<Rightarrow> Subject option)) list \<Rightarrow>
    'w \<Rightarrow> 'w Investigator" where
  "runs E L lookup rounds w = fold (next_run E L lookup) rounds (New w)"

lemma inv_ok_New: "inv_ok L (New w)"
  by (simp add: inv_ok_def evidence_ok_def episodes_ok_def New_def)

lemma Requests_wf: "queries_wf (Requests s subjects lookup)"
  by (rule bound_wf [OF Requests_bound])

lemma next_run_ok: "inv_ok L iv \<Longrightarrow> inv_ok L (next_run E L lookup x iv)"
  by (cases x) (auto simp: next_run_def elim: Run_ok [OF Requests_wf])

lemma runs_ok: "inv_ok L (runs E L lookup rounds w)"
proof -
  have "inv_ok L (fold (next_run E L lookup) rounds iv)" if "inv_ok L iv" for iv
    using that by (induction rounds arbitrary: iv) (simp_all add: next_run_ok)
  then show ?thesis by (simp add: runs_def inv_ok_New)
qed

text \<open>C30: After any sequence of runs, whatever the providers answer and however contexts end, the held evidence
  and the episodes are within their limits: at most the held keys and resident episodes allowed; for every
  key one statement of unavailability or up to four different values stamped with the key's watermark; every
  episode within its calls, steps, trace and candidates, with no slot asked twice.\<close>

theorem investigator_invariant: "inv_ok L (runs E L lookup rounds w)"
  by (rule runs_ok)

section \<open>Authorised requests\<close>

definition authorised :: "Snapshot \<Rightarrow> (ProviderIdentity \<Rightarrow> 'p option) \<Rightarrow> Assessment \<Rightarrow> ProviderRequest \<Rightarrow> bool" where
  "authorised base lookup a r \<longleftrightarrow>
     (\<exists>uid slot q. bound_query base lookup uid slot q \<and> qy_Request q = r \<and> valid_target a uid \<noteq> None)"

lemma requests_authorised:
  assumes "set qs' \<subseteq> set (Requests base subjects lookup)" and "\<And>x. x \<in> set qs' \<Longrightarrow> valid_target a (fst x) \<noteq> None"
    and "r \<in> requests_of qs'"
  shows "authorised base lookup a r"
proof -
  obtain x s q where x: "x \<in> set qs'" "(s, q) \<in> set (snd x)" "r = qy_Request q"
    using assms(3) by (auto simp: requests_of_def slot_requests_def)
  then have "slots_bound base lookup x" using assms(1) Requests_bound [of base lookup subjects] by (auto simp: queries_bound_def)
  then have "bound_query base lookup (fst x) s q" using x(2) by (auto simp: slots_bound_def)
  then show ?thesis unfolding authorised_def using x(3) assms(2) [OF x(1)] by (intro exI conjI) simp_all
qed

text \<open>C31: A run sends at most one budget of requests for each queryable target, and each of them is for an
  assertion binding of a target of its snapshot that the evaluation of that snapshot holds valid, with the
  registered provider of the binding and the exact key; afterwards only evidence for such keys is held.\<close>

theorem run_requests_authorised:
  "\<exists>now new.
     let iv = runs E L lookup rounds w; qs = Requests base subjects lookup; iv' = Investigator_Run E L base qs iv;
         a = evaluate iv base now
     in iv_sent iv' = iv_sent iv @ new \<and> list_all (authorised base lookup a) new \<and>
        int (length new) \<le> max 0 (li_MaxCallsPerEpisode L) * int (length qs) \<and>
        list_all (\<lambda>(k, l). k \<in> rq_Key ` Collect (authorised base lookup a)) (iv_held iv')"
proof -
  let ?iv = "runs E L lookup rounds w" and ?qs = "Requests base subjects lookup"
  obtain qs' now new where r: "set qs' \<subseteq> set ?qs" "\<And>x. x \<in> set qs' \<Longrightarrow> valid_target (evaluate ?iv base now) (fst x) \<noteq> None"
    "iv_sent (Investigator_Run E L base ?qs ?iv) = iv_sent ?iv @ new" "set new \<subseteq> requests_of qs'"
    "int (length new) \<le> max 0 (li_MaxCallsPerEpisode L) * int (length ?qs)"
    "fst ` set (iv_held (Investigator_Run E L base ?qs ?iv)) \<subseteq> set (authorized_keys qs')"
    by (rule Run_ok [where qs = ?qs and iv = ?iv and L = L and E = E and base = base, OF Requests_wf runs_ok]) blast
  note au = requests_authorised [OF r(1,2)]
  have "list_all (authorised base lookup (evaluate ?iv base now)) new" using r(4) au by (auto simp: list_all_iff)
  moreover have "list_all (\<lambda>(k, l). k \<in> rq_Key ` Collect (authorised base lookup (evaluate ?iv base now))) (iv_held (Investigator_Run E L base ?qs ?iv))"
  proof -
    have "set (authorized_keys qs') \<subseteq> rq_Key ` Collect (authorised base lookup (evaluate ?iv base now))"
      unfolding authorized_requests [symmetric] using au by (intro image_mono) blast
    then show ?thesis using r(6) by (force simp: list_all_iff)
  qed
  ultimately show ?thesis unfolding Let_def using r(3,5) by (intro exI [of _ now] exI [of _ new] conjI)
qed

section \<open>The order of values\<close>


section \<open>Admission\<close>

lemma runs_sched:
  assumes "steady_clock E tm"
  shows "sched_steps (li_EpisodeCooldown L) ((\<lambda>_. None), [], tm w) (sched tm (runs E L lookup rounds w))"
proof -
  have "sched_steps (li_EpisodeCooldown L) (sched tm iv) (sched tm (fold (next_run E L lookup) rounds iv))" if "inv_ok L iv" for iv
    using that
  proof (induction rounds arbitrary: iv)
    case (Cons x rounds)
    obtain base subjects where x: "x = (base, subjects)" by (rule prod.exhaust)
    have "sched_steps (li_EpisodeCooldown L) (sched tm iv) (sched tm (next_run E L lookup x iv))"
      unfolding x next_run_def prod.case by (rule Run_sched [OF assms Requests_wf Cons.prems])
    also have "sched_steps (li_EpisodeCooldown L) \<dots> (sched tm (fold (next_run E L lookup) (x # rounds) iv))"
      using Cons.IH [OF next_run_ok [OF Cons.prems]] by simp
    finally show ?case .
  qed simp
  moreover have "sched tm (New w) = ((\<lambda>_. None), [], tm w)" by (simp add: sched_def started_of_def New_def fun_eq_iff)
  ultimately show ?thesis using inv_ok_New [of L w] unfolding runs_def by metis
qed

text \<open>C33: With a clock that never runs backwards, every sequence of runs is a sequence of steps of the admission
  machine, and so any two consecutive starts of episodes for one target are at least the cooldown apart,
  whatever its identity, the outcome of its episodes and the records forgotten in between.\<close>

theorem episodes_spaced:
  assumes "steady_clock E tm"
  shows "sched_steps (li_EpisodeCooldown L) ((\<lambda>_. None), [], tm w) (sched tm (runs E L lookup rounds w)) \<and>
    spaced (li_EpisodeCooldown L) (starts_of uid (iv_starts (runs E L lookup rounds w)))"
proof
  show s: "sched_steps (li_EpisodeCooldown L) ((\<lambda>_. None), [], tm w) (sched tm (runs E L lookup rounds w))"
    by (rule runs_sched [OF assms])
  have "sched_ok (li_EpisodeCooldown L) ((\<lambda>_. None), [], tm w)"
    by (simp add: sched_ok_def starts_of_def spaced_def record_ok_def)
  from sched_ok_steps [OF s this] show "spaced (li_EpisodeCooldown L) (starts_of uid (iv_starts (runs E L lookup rounds w)))"
    by (simp add: sched_ok_def sched_def)
qed

theorem episodes_spaced_witness:
  "let iv = runs ticking_env ReferenceLimits (\<lambda>_. Some ()) [(lone_snapshot, lone_subjects)] 100
   in steady_clock ticking_env (\<lambda>w. w) \<and> iv_starts iv = [(''t1'', 102)] \<and>
      sched_steps (10 * time_Second) ((\<lambda>_. None), [], 100) (sched (\<lambda>w. w) iv) \<and>
      spaced (10 * time_Second) (starts_of ''t1'' (iv_starts iv))"
proof -
  let ?iv = "runs ticking_env ReferenceLimits (\<lambda>_. Some ()) [(lone_snapshot, lone_subjects)] 100"
  have c: "steady_clock ticking_env (\<lambda>w. w)" by (simp add: steady_clock_def ticking_env_def)
  have "iv_starts ?iv = [(''t1'', 102)]" by code_simp
  with episodes_spaced [OF c, of ReferenceLimits 100 "\<lambda>_. Some ()" "[(lone_snapshot, lone_subjects)]" "''t1''"] c
  show ?thesis by (simp add: Let_def ReferenceLimits_def)
qed

section \<open>Wake-ups\<close>

lemma consider_wake_later: "nx = 0 \<or> now < nx \<Longrightarrow> consider_wake now t nx = 0 \<or> now < consider_wake now t nx"
  by (auto simp: consider_wake_def)

text \<open>The investigator asks to be woken at once exactly when an episode can be resumed, and otherwise never at a time
  that has passed.\<close>

theorem NextWake_never_past:
  "if list_ex (resumable qs now) (iv_episodes iv) then NextWake L iv qs now = now
   else NextWake L iv qs now = 0 \<or> now < NextWake L iv qs now"
proof -
  have e: "fold (wake_episode L qs now) es nx = 0 \<or> now < fold (wake_episode L qs now) es nx" if "nx = 0 \<or> now < nx" for es nx
    using that
  proof (induction es arbitrary: nx)
    case (Cons x es)
    have "wake_episode L qs now x nx = 0 \<or> now < wake_episode L qs now x nx"
      using consider_wake_later [OF Cons.prems] Cons.prems by (cases x) (simp add: wake_episode_def)
    then show ?case using Cons.IH by simp
  qed simp
  have sl: "fold (\<lambda>(s, q). wake_slot L iv now adm q) ss nx = 0 \<or> now < fold (\<lambda>(s, q). wake_slot L iv now adm q) ss nx"
    if "nx = 0 \<or> now < nx" for ss adm nx
    using that
  proof (induction ss arbitrary: nx)
    case (Cons x ss)
    have "wake_slot L iv now adm (snd x) nx = 0 \<or> now < wake_slot L iv now adm (snd x) nx"
      using consider_wake_later [OF Cons.prems] Cons.prems by (simp add: wake_slot_def split: option.split)
    then show ?case using Cons.IH by (simp add: split_beta)
  qed simp
  have "fold (wake_target L iv now) xs nx = 0 \<or> now < fold (wake_target L iv now) xs nx" if "nx = 0 \<or> now < nx" for xs nx
    using that
  proof (induction xs arbitrary: nx)
    case (Cons x xs)
    have "wake_target L iv now x nx = 0 \<or> now < wake_target L iv now x nx"
      using sl [OF Cons.prems] by (cases x) (simp add: wake_target_def Let_def)
    then show ?case using Cons.IH by simp
  qed simp
  from e [OF this [of 0 qs]] show ?thesis by (simp add: NextWake_def)
qed

end
