(* ===== verification/Spec2Isabelle.thy ===== *)
theory Spec2Isabelle
  imports Ops_Properties Action_Properties Interaction_Reasons Interaction_History Interaction_Render Deploy_Runs Verify_Gate Investigate_Properties
begin

text \<open>
  \<^bold>\<open>Verification of bori.\<close> bori decides, from declared contracts and observed evidence, which
  capabilities of an operated system are available, proposes and executes bounded actions under explicit
  approval, and deploys pinned releases of components. This library models the packages that carry those
  decisions and proves what makes them correct. Names follow the Go source; a struct is a record whose
  fields have a short prefix, an enumeration a datatype, an error the left side of a sum, a panic or a
  loop that would not end the value \<open>None\<close>. An instant is a number of nanoseconds; what \<open>time.Now\<close>
  returns is an argument.

  \<^bold>\<open>Shared ground.\<close> \<open>Go_Prelude\<close>: instants and saturating durations, printing and quoting, sorting
  by a \<open>less\<close> function (locales \<open>weak_less\<close> and \<open>total_less\<close>), first-match scans. \<open>SCC_Tarjan\<close>: the
  search for strongly connected components, independent of what the nodes are.

  \<^bold>\<open>Operations\<close> (src/pkg/operations). The evaluator is a function of contracts, targets, bindings and a
  snapshot of observations.
    \<^item> \<open>Ops_Identity\<close>, \<open>Ops_Contract\<close>, \<open>Ops_Result\<close>: identities, values, predicates, contracts, reasons and
      assessments (identity.go, target.go, predicate.go, contract.go, result.go).
    \<^item> \<open>Ops_LocalCycle\<close>, \<open>Ops_Validate\<close>: \<open>Contract.Validate\<close> reports nothing exactly for well-formed
      contracts; the search for local cycles is exact.
    \<^item> \<open>Ops_Evaluator\<close>, \<open>Ops_Evidence\<close>, \<open>Ops_Capability\<close>: evaluator.go, with its caches and memo tables as
      explicit state. The recursion over capabilities carries fuel; \<open>eval_fuel\<close> is one more than the number
      of capabilities, and \<open>Ops_Composition\<close> shows that this is enough because the cycles have been
      rejected: evaluation always returns.
    \<^item> \<open>Ops_Resolution\<close>, \<open>Ops_Composition\<close>: cycle rejection is exact, and the assessment solves the
      composition equations whatever the order of evaluation and the state of the caches.
    \<^item> \<open>Ops_EvidenceSpec\<close>, \<open>Ops_Verdicts\<close>, \<open>Ops_Properties\<close>: when evidence is current, how verdicts
      compose, and that AVAILABLE is only ever reported on proof. \<open>Ops_Demo\<close> holds a concrete system.

  \<^bold>\<open>Actions\<close> (src/pkg/action, with the profile of src/pkg/interaction/profile.go).
    \<^item> \<open>Interaction_Profile\<close>: the reference profile and every check of its validation.
    \<^item> \<open>Action_Types\<close>, \<open>Action_Journal\<close>: records, approvals, providers; the journal interface as the locale
      \<open>journal\<close> with its documented laws, interpreted by the in-memory journal.
    \<^item> \<open>Action_Proposal\<close>, \<open>Action_Recovery\<close>: proposals from responses, and the assessment of recovery.
    \<^item> \<open>Action_Engine\<close>: every operation of engine.go, on a state of journal, records, proposals and the
      log of what was sent. Journal, providers, decisions and verifier are parameters (\<open>engine_env\<close>), and so is
      the digest of a value.
    \<^item> \<open>Action_Effects\<close>, \<open>Action_Machine\<close>: the step relation \<open>effect\<close>; every operation is a sequence of effects
      (locale \<open>engine\<close>). \<open>Action_Invariants\<close>, \<open>Action_Steps\<close>: the ledger invariants by rule induction.
    \<^item> \<open>Action_Properties\<close>: one engine and several interleaved engines on one journal: exclusive
      occupancy, authorised handoffs, fencing, durability, no lost update, termination of a step.

  \<^bold>\<open>Interaction\<close> (src/pkg/interaction): what an operator is shown of one target.
    \<^item> \<open>Interaction_Status\<close>: the status read and the summary written (src/apis/ops/v1alpha1), bounds and texts.
    \<^item> \<open>Interaction_Project\<close>: \<open>Project\<close> with every function of project.go. \<open>Interaction_Decision\<close>: its level is the
      decision table; each step raises the level to a weight that depends on one item alone.
    \<^item> \<open>Interaction_History\<close>: bounds and the history of meanings along runs. \<open>Interaction_Reasons\<close>: what a ready
      response rests on, and which reasons the cut to eight loses.
    \<^item> \<open>Interaction_Render\<close>: render.go; counts and order of the text.

  \<^bold>\<open>Investigation\<close> (src/pkg/investigate, with the data of src/pkg/providers/provider.go): which evidence is asked for.
    \<^item> \<open>Investigate_Candidates\<close>: limits, the requests a snapshot authorises, and hypotheses read off an assessment.
    \<^item> \<open>Investigate_Engine\<close>, \<open>Investigate_Run\<close>: the investigator as explicit state; evaluation is that of \<open>Ops_Capability\<close>.
      What is outside (clock, contexts, answers of providers) is a parameter \<open>inv_env\<close> on an abstract world. The episode
      loop terminates for every environment because an iteration that goes on uses a step of the budget.
      The fields \<open>iv_sent\<close> and \<open>iv_starts\<close> only record what was sent and started.
    \<^item> \<open>Investigate_Invariants\<close>, \<open>Investigate_Runs\<close>: evidence and episodes within their limits, preserved by every operation.
    \<^item> \<open>Investigate_Schedule\<close>: admission as an abstract machine, and the simulation of runs by its steps.
    \<^item> \<open>Investigate_Properties\<close>: sequences of runs from a fresh process. \<open>Investigate_Demo\<close> holds a concrete one.

  \<^bold>\<open>Releases\<close> (src/pkg/model, src/pkg/release).
    \<^item> \<open>Release_Model\<close>: components, environments, releases and the string functions they need.
    \<^item> \<open>Release_Compat\<close>: version comparison and the compatibility matrix.
    \<^item> \<open>Release_Order\<close>: the deployment order; sorted and complete for distinct names, an error exactly on
      cycles, and what happens to repeated names. \<open>Release_Diff\<close>: affected components are the reachable ones.

  \<^bold>\<open>Deployment\<close> (src/pkg/planner, imageref, rollout, revision, shadow, reconcile).
    \<^item> \<open>Deploy_Plan\<close>: plans and rollouts; the namespace policy.
    \<^item> \<open>Deploy_Revision\<close>: revisions, their hash and life, and the revision directory as the locale
      \<open>revision_store\<close>, interpreted by the modelled directory.
    \<^item> \<open>Deploy_Shadow\<close>: drift and conditions against the newest promoted revision.
    \<^item> \<open>Deploy_Reconcile\<close>: one pass of the reconciler on an explicit archive, and the rollback plan;
      \<open>Deploy_Runs\<close>: what a pass may hand to adapters, when it promotes, and that the next pass has nothing to do.
    \<^item> \<open>Verify_Gate\<close> (src/pkg/verification): which gate results block a promotion.

  \<^bold>\<open>Parameters.\<close> SHA-256 and the digest of values, the parsing of image references, the files of the
  repository, deploy adapters, action providers, the approval source, the recovery verifier, the clock and
  the success of file operations are arguments. The theorems hold for all of them, or state what they
  assume; the witnesses instantiate them with concrete functions. \<open>well_named\<close> asks that a component file
  carries the name it is filed under, which the code relies on and does not check.

  \<^bold>\<open>Bounds.\<close> Text is a list of bytes. Go's \<open>int\<close> is 64 bits wide where a number can leave that range
  (\<open>Atoi\<close>, durations, and the journal's epochs and versions as words); counters bounded by the length of a list in
  memory are natural numbers. Sorting is stable; where the code uses the unstable \<open>sort.Slice\<close> the
  statements are about distinct keys or about what every sorted order shares.

  \<^bold>\<open>Not modelled.\<close> The wire format of the operational status, a conversion field by field. Left out because they are
  input and output around what is modelled: reading and writing YAML and JSON, HTTP and Kubernetes
  providers, controllers, metrics collection, deploy adapters, command lines, generated API types; and the
  redaction of secrets, which is a regular expression of the Go library.
\<close>

end
